(* ===== verification/Prelude.thy ===== *)
theory Prelude
  imports Main "HOL-Library.Word" "HOL-Library.Signed_Division" "HOL-Library.Product_Lexorder"
begin

text \<open>
  Shared vocabulary of the development: the machine types of the C sources, time values, timers,
  the lemma collections, and generic facts on folds over index lists that the components use for
  the loops of the C code.

  Multi-byte protocol fields are kept by the number they denote, so \<^verbatim>\<open>ntohl\<close>, \<^verbatim>\<open>htonl\<close>,
  \<^verbatim>\<open>ntohs\<close> and \<^verbatim>\<open>htons\<close>, which convert between that number and its bytes in memory, do not
  appear; where bytes matter (checksums, database keys, packets) the big-endian encoding
  \<open>be16\<close>, \<open>be32\<close> is written out.
\<close>

type_synonym u8 = "8 word"
type_synonym u16 = "16 word"
type_synonym u32 = "32 word"

text \<open>A router ID or a link state ID: \<^verbatim>\<open>u_int32_t\<close>.\<close>
type_synonym rid = u32

record timeval =
  tv_sec :: int
  tv_usec :: int

text \<open>
  A pending timer or event of the thread library (\<^verbatim>\<open>struct thread *\<close>): the delay in milliseconds
  it was scheduled with. A field that holds such a pointer is an option, \<^verbatim>\<open>NULL\<close> being \<^term>\<open>None\<close>.
\<close>
type_synonym thread = int

named_theorems ospf6_defs \<open>unfolding equations of the model's straight-line definitions\<close>
named_theorems loop_simps \<open>closed forms of the loops of the model\<close>

section \<open>Bytes\<close>

definition be16 :: "u16 \<Rightarrow> u8 list" where
  "be16 w = [ucast (drop_bit 8 w), ucast w]"

definition be32 :: "u32 \<Rightarrow> u8 list" where
  "be32 w = [ucast (drop_bit 24 w), ucast (drop_bit 16 w), ucast (drop_bit 8 w), ucast w]"

lemma length_be16 [simp]: "length (be16 w) = 2"
  by (simp add: be16_def)

lemma length_be32 [simp]: "length (be32 w) = 4"
  by (simp add: be32_def)

lemma be16_inject [simp]: "be16 v = be16 w \<longleftrightarrow> v = w"
proof
  assume eq: "be16 v = be16 w"
  show "v = w"
  proof (rule bit_word_eqI)
    fix n assume n: "n < LENGTH(16)"
    have lo: "(ucast v :: u8) = ucast w" and hi: "(ucast (drop_bit 8 v) :: u8) = ucast (drop_bit 8 w)"
      using eq by (simp_all add: be16_def)
    show "bit v n = bit w n"
    proof (cases "n < 8")
      case True
      then show ?thesis using arg_cong [OF lo, of "\<lambda>x. bit x n"] n
        by (simp add: bit_simps)
    next
      case False
      with n have "n - 8 < 8" by simp
      with False show ?thesis using arg_cong [OF hi, of "\<lambda>x. bit x (n - 8)"] n
        by (simp add: bit_simps)
    qed
  qed
qed simp

lemma be32_inject [simp]: "be32 v = be32 w \<longleftrightarrow> v = w"
proof
  assume eq: "be32 v = be32 w"
  show "v = w"
  proof (rule bit_word_eqI)
    fix n assume n: "n < LENGTH(32)"
    have b0: "(ucast v :: u8) = ucast w"
      and b1: "(ucast (drop_bit 8 v) :: u8) = ucast (drop_bit 8 w)"
      and b2: "(ucast (drop_bit 16 v) :: u8) = ucast (drop_bit 16 w)"
      and b3: "(ucast (drop_bit 24 v) :: u8) = ucast (drop_bit 24 w)"
      using eq by (simp_all add: be32_def)
    consider "n < 8" | "8 \<le> n" "n < 16" | "16 \<le> n" "n < 24" | "24 \<le> n"
      by linarith
    then show "bit v n = bit w n"
    proof cases
      case 1
      then show ?thesis using arg_cong [OF b0, of "\<lambda>x. bit x n"] n by (simp add: bit_simps)
    next
      case 2
      with n have "n - 8 < 8" by simp
      with 2 show ?thesis using arg_cong [OF b1, of "\<lambda>x. bit x (n - 8)"] n by (simp add: bit_simps)
    next
      case 3
      with n have "n - 16 < 8" by simp
      with 3 show ?thesis using arg_cong [OF b2, of "\<lambda>x. bit x (n - 16)"] n by (simp add: bit_simps)
    next
      case 4
      with n have "n - 24 < 8" by simp
      with 4 show ?thesis using arg_cong [OF b3, of "\<lambda>x. bit x (n - 24)"] n by (simp add: bit_simps)
    qed
  qed
qed simp

lemma unat_ucast_mod: "unat (ucast w :: 'b::len word) = unat (w :: 'a::len word) mod 2 ^ LENGTH('b)"
  by (simp add: unsigned_ucast_eq unsigned_take_bit_eq take_bit_eq_mod)

lemma unat_u16_less: "unat (w :: u16) < 65536"
  by (rule order_less_le_trans [OF unsigned_less]) simp

lemma unat_u8_less: "unat (w :: u8) < 256"
  by (rule order_less_le_trans [OF unsigned_less]) simp

lemma unat_ucast_u16_u32 [simp]: "unat (ucast (w :: u16) :: u32) = unat w"
  using unat_u16_less [of w] by (simp add: unat_ucast_mod)

lemma unat_ucast_u8_u16 [simp]: "unat (ucast (w :: u8) :: u16) = unat w"
  using unat_u8_less [of w] by (simp add: unat_ucast_mod)

lemma unat_word_of_int_small:
  "0 \<le> i \<Longrightarrow> i < 2 ^ LENGTH('a) \<Longrightarrow> unat (word_of_int i :: 'a::len word) = nat i"
  by (simp add: unsigned_of_int take_bit_int_eq_self)

lemma uint_word_of_int_small:
  "0 \<le> i \<Longrightarrow> i < 2 ^ LENGTH('a) \<Longrightarrow> uint (word_of_int i :: 'a::len word) = i"
  by (simp add: unsigned_of_int take_bit_int_eq_self)

section \<open>Loops over index lists\<close>

text \<open>Two nested \<^verbatim>\<open>for\<close> loops are one loop over the pairs of indices, outer index first.\<close>

lemma fold_nested:
  "fold (\<lambda>j. fold (\<lambda>k. f j k) ks) js s = fold (\<lambda>(j, k). f j k) (List.product js ks) s"
proof (induction js arbitrary: s)
  case (Cons j js)
  have "fold (\<lambda>(j, k). f j k) (map (Pair j) ks) s = fold (f j) ks s" for s
    by (induction ks arbitrary: s) auto
  with Cons show ?case by simp
qed simp

text \<open>An invariant of a loop that is indexed by the elements processed so far.\<close>

lemma fold_invariant_prefix:
  assumes "P [] s"
    and "\<And>done x rest s. xs = done @ x # rest \<Longrightarrow> P done s \<Longrightarrow> P (done @ [x]) (f x s)"
  shows "P xs (fold f xs s)"
proof -
  have "P (take n xs) (fold f (take n xs) s)" if "n \<le> length xs" for n
    using that
  proof (induction n)
    case 0
    show ?case using assms(1) by simp
  next
    case (Suc n)
    then have n: "n < length xs" by simp
    have "P (take n xs @ [xs ! n]) (f (xs ! n) (fold f (take n xs) s))"
      by (rule assms(2) [where rest = "drop (Suc n) xs"])
        (use n Suc in \<open>simp_all add: id_take_nth_drop [symmetric]\<close>)
    then show ?case using n by (simp add: take_Suc_conv_app_nth)
  qed
  from this [of "length xs"] show ?thesis by simp
qed

text \<open>Reading at a valid position after an update, whether or not the updated one is valid.\<close>

lemma nth_list_update_if:
  "v < length xs \<Longrightarrow> xs[i := x] ! v = (if i = v then x else xs ! v)"
  by auto

text \<open>A loop that updates every element of a list in place is \<^term>\<open>map\<close>.\<close>

lemma nth_map_upt [simp]: "i < n \<Longrightarrow> map f [0..<n] ! i = f i"
  by simp

end
