(* ===== verification/Lsa.thy ===== *)
theory Lsa
  imports Prelude
begin

text \<open>
  Link state advertisements, from \<^verbatim>\<open>src/ospf6d/ospf6_lsa.h\<close> and \<^verbatim>\<open>src/ospf6d/ospf6_lsa.c\<close>:
  the header and the bookkeeping structure, the LS age functions, the comparison that decides which
  instance is more recent (RFC 2328 13.1), the tests for changed contents, and the Fletcher
  checksum. The current time, which the code reads with \<^verbatim>\<open>quagga_gettime\<close>, is an argument.
\<close>

unbundle bit_operations_syntax

section \<open>Data\<close>

abbreviation (input) MAXAGE :: nat where "MAXAGE \<equiv> 3600"
abbreviation (input) MAX_AGE_DIFF :: nat where "MAX_AGE_DIFF \<equiv> 900"
abbreviation (input) LS_REFRESH_TIME :: int where "LS_REFRESH_TIME \<equiv> 1800"
abbreviation (input) INITIAL_SEQUENCE_NUMBER :: u32 where "INITIAL_SEQUENCE_NUMBER \<equiv> 0x80000001"
abbreviation (input) MAX_SEQUENCE_NUMBER :: u32 where "MAX_SEQUENCE_NUMBER \<equiv> 0x7fffffff"

record ospf6_lsa_header =
  h_age :: u16
  h_type :: u16
  h_id :: u32
  h_adv_router :: u32
  h_seqnum :: u32
  h_checksum :: u16
  h_length :: u16

record ospf6_backupwait_neighbor =
  obn_router_id :: rid
  obn_ifindex :: u32

text \<open>
  The database an LSA belongs to (\<^verbatim>\<open>lsa->lsdb\<close>): that of an interface (by its index), of an area
  (by its ID) or of the process.
\<close>
datatype lsdb_ref = LsdbInterface u32 | LsdbArea u32 | LsdbProcess

text \<open>
  \<^verbatim>\<open>struct ospf6_lsa\<close>. The header is followed in memory by the body, \<open>lsa_body\<close>; it is
  empty for a header-only LSA. The links \<^verbatim>\<open>prev\<close> and \<^verbatim>\<open>next\<close> belong to the database and are
  modelled there.
\<close>
record ospf6_lsa =
  lsa_header :: ospf6_lsa_header
  lsa_body :: "u8 list"
  lsa_lock :: u8
  lsa_flag :: u8
  lsa_birth :: timeval
  lsa_originated :: timeval
  lsa_received :: timeval
  lsa_installed :: timeval
  lsa_expire :: "thread option"
  lsa_refresh :: "thread option"
  lsa_retrans_count :: int
  lsa_lsdb :: "lsdb_ref option"
  lsa_rxmt_time :: timeval
  lsa_backupWaitTimer :: "thread option"
  lsa_backupwait_neighbor_list :: "ospf6_backupwait_neighbor list option"

abbreviation (input) OSPF6_LSA_HEADERONLY :: u8 where "OSPF6_LSA_HEADERONLY \<equiv> 0x01"
abbreviation (input) OSPF6_LSA_FLOODBACK :: u8 where "OSPF6_LSA_FLOODBACK \<equiv> 0x02"
abbreviation (input) OSPF6_LSA_DUPLICATE :: u8 where "OSPF6_LSA_DUPLICATE \<equiv> 0x04"
abbreviation (input) OSPF6_LSA_IMPLIEDACK :: u8 where "OSPF6_LSA_IMPLIEDACK \<equiv> 0x08"
abbreviation (input) OSPF6_LSA_RECVMCAST :: u8 where "OSPF6_LSA_RECVMCAST \<equiv> 0x10"

definition CHECK_FLAG :: "u8 \<Rightarrow> u8 \<Rightarrow> bool" where
  "CHECK_FLAG v f \<longleftrightarrow> v AND f \<noteq> 0"

definition SET_FLAG :: "u8 \<Rightarrow> u8 \<Rightarrow> u8" where
  "SET_FLAG v f = v OR f"

text \<open>The identity of an LSA: LS type, advertising router, link state ID, in the order of the
  database key.\<close>
type_synonym lsa_key = "u16 \<times> u32 \<times> u32"

definition lsa_key :: "ospf6_lsa \<Rightarrow> lsa_key" where
  "lsa_key l = (h_type (lsa_header l), h_adv_router (lsa_header l), h_id (lsa_header l))"

definition OSPF6_LSA_IS_SAME :: "ospf6_lsa \<Rightarrow> ospf6_lsa \<Rightarrow> bool" where
  "OSPF6_LSA_IS_SAME a b \<longleftrightarrow>
     h_adv_router (lsa_header a) = h_adv_router (lsa_header b) \<and>
     h_id (lsa_header a) = h_id (lsa_header b) \<and>
     h_type (lsa_header a) = h_type (lsa_header b)"

text \<open>Flooding scope of an LS type.\<close>
datatype lsa_scope = OSPF6_SCOPE_LINKLOCAL | OSPF6_SCOPE_AREA | OSPF6_SCOPE_AS | OSPF6_SCOPE_RESERVED

definition OSPF6_LSA_SCOPE :: "u16 \<Rightarrow> lsa_scope" where
  "OSPF6_LSA_SCOPE t =
     (let s = t AND 0x6000 in
      if s = 0x0000 then OSPF6_SCOPE_LINKLOCAL
      else if s = 0x2000 then OSPF6_SCOPE_AREA
      else if s = 0x4000 then OSPF6_SCOPE_AS
      else OSPF6_SCOPE_RESERVED)"

section \<open>LS age\<close>

text \<open>
  \<open>ospf6_lsa_age_current\<close> returns the age and stores it in the header. The difference of two
  times is truncated to \<^verbatim>\<open>u_int32_t\<close>.
\<close>
definition ospf6_lsa_age_current :: "timeval \<Rightarrow> ospf6_lsa \<Rightarrow> u16 \<times> ospf6_lsa" where
  "ospf6_lsa_age_current now l =
     (if unat (h_age (lsa_header l)) \<ge> MAXAGE
      then (of_nat MAXAGE, l\<lparr>lsa_header := (lsa_header l)\<lparr>h_age := of_nat MAXAGE\<rparr>\<rparr>)
      else
        let ulage = (word_of_int (tv_sec now - tv_sec (lsa_birth l)) :: u32);
            age = (if unat ulage > MAXAGE then of_nat MAXAGE else ucast ulage :: u16)
        in (age, l\<lparr>lsa_header := (lsa_header l)\<lparr>h_age := age\<rparr>\<rparr>))"

text \<open>The age of an LSA at a given time, as a number of seconds.\<close>
definition lsa_age_at :: "timeval \<Rightarrow> ospf6_lsa \<Rightarrow> nat" where
  "lsa_age_at now l = unat (fst (ospf6_lsa_age_current now l))"

definition ospf6_lsa_age_set :: "timeval \<Rightarrow> ospf6_lsa \<Rightarrow> ospf6_lsa" where
  "ospf6_lsa_age_set now l =
     l\<lparr>lsa_birth := \<lparr>tv_sec = tv_sec now - int (unat (h_age (lsa_header l))),
                     tv_usec = tv_usec now\<rparr>\<rparr>"

definition OSPF6_LSA_IS_MAXAGE :: "timeval \<Rightarrow> ospf6_lsa \<Rightarrow> bool" where
  "OSPF6_LSA_IS_MAXAGE now l \<longleftrightarrow> fst (ospf6_lsa_age_current now l) = of_nat MAXAGE"

text \<open>The sum of age and transmission delay is kept in an \<^verbatim>\<open>unsigned short\<close>.\<close>
definition ospf6_lsa_age_update_to_send :: "timeval \<Rightarrow> u32 \<Rightarrow> ospf6_lsa \<Rightarrow> ospf6_lsa" where
  "ospf6_lsa_age_update_to_send now transdelay l =
     (let (cur, l') = ospf6_lsa_age_current now l;
          age = (ucast (ucast cur + transdelay :: u32) :: u16);
          age' = (if unat age > MAXAGE then of_nat MAXAGE else age)
      in l'\<lparr>lsa_header := (lsa_header l')\<lparr>h_age := age'\<rparr>\<rparr>)"

section \<open>Creation and reference counting\<close>

text \<open>
  Operations that can abort (\<^verbatim>\<open>assert\<close>) or read outside an object return an option; \<^term>\<open>None\<close>
  is the abort or the invalid access. \<open>rest\<close> is the memory behind the header that is copied from.
\<close>
definition lsa_blank :: "ospf6_lsa_header \<Rightarrow> u8 list \<Rightarrow> ospf6_lsa" where
  "lsa_blank h body =
     \<lparr>lsa_header = h, lsa_body = body, lsa_lock = 0, lsa_flag = 0,
      lsa_birth = \<lparr>tv_sec = 0, tv_usec = 0\<rparr>, lsa_originated = \<lparr>tv_sec = 0, tv_usec = 0\<rparr>,
      lsa_received = \<lparr>tv_sec = 0, tv_usec = 0\<rparr>, lsa_installed = \<lparr>tv_sec = 0, tv_usec = 0\<rparr>,
      lsa_expire = None, lsa_refresh = None, lsa_retrans_count = 0, lsa_lsdb = None,
      lsa_rxmt_time = \<lparr>tv_sec = 0, tv_usec = 0\<rparr>, lsa_backupWaitTimer = None,
      lsa_backupwait_neighbor_list = None\<rparr>"

definition ospf6_lsa_create :: "timeval \<Rightarrow> ospf6_lsa_header \<Rightarrow> u8 list \<Rightarrow> ospf6_lsa option" where
  "ospf6_lsa_create now h rest =
     (let lsa_size = unat (h_length h) in
      if lsa_size < 20 \<or> lsa_size - 20 > length rest then None
      else
        let lsa = lsa_blank h (take (lsa_size - 20) rest);
            lsa = ospf6_lsa_age_set now lsa
        in Some (lsa\<lparr>lsa_backupWaitTimer := None\<rparr>))"

definition ospf6_lsa_create_headeronly :: "timeval \<Rightarrow> ospf6_lsa_header \<Rightarrow> ospf6_lsa" where
  "ospf6_lsa_create_headeronly now h =
     (let lsa = lsa_blank h [];
          lsa = lsa\<lparr>lsa_flag := SET_FLAG (lsa_flag lsa) OSPF6_LSA_HEADERONLY\<rparr>
      in ospf6_lsa_age_set now lsa)"

text \<open>The copy and the original, whose age has been brought up to date.\<close>
definition ospf6_lsa_copy :: "timeval \<Rightarrow> ospf6_lsa \<Rightarrow> (ospf6_lsa \<times> ospf6_lsa) option" where
  "ospf6_lsa_copy now lsa0 =
     (let lsa = snd (ospf6_lsa_age_current now lsa0) in
      case (if CHECK_FLAG (lsa_flag lsa) OSPF6_LSA_HEADERONLY
            then Some (ospf6_lsa_create_headeronly now (lsa_header lsa))
            else ospf6_lsa_create now (lsa_header lsa) (lsa_body lsa)) of
        None \<Rightarrow> None
      | Some copy \<Rightarrow>
          if lsa_lock copy \<noteq> 0 then None
          else Some (copy\<lparr>lsa_birth := lsa_birth lsa, lsa_originated := lsa_originated lsa,
                          lsa_received := lsa_received lsa, lsa_installed := lsa_installed lsa,
                          lsa_lsdb := lsa_lsdb lsa, lsa_rxmt_time := lsa_rxmt_time lsa\<rparr>, lsa))"

text \<open>The counter is an \<^verbatim>\<open>unsigned char\<close>.\<close>
definition ospf6_lsa_lock :: "ospf6_lsa \<Rightarrow> ospf6_lsa" where
  "ospf6_lsa_lock lsa = lsa\<lparr>lsa_lock := lsa_lock lsa + 1\<rparr>"

text \<open>Deletion asserts that no reference is left, cancels the timers and frees the memory.\<close>
definition ospf6_lsa_delete :: "ospf6_lsa \<Rightarrow> unit option" where
  "ospf6_lsa_delete lsa = (if lsa_lock lsa = 0 then Some () else None)"

text \<open>\<open>Some None\<close>: the last reference is gone and the LSA has been deleted.\<close>
definition ospf6_lsa_unlock :: "ospf6_lsa \<Rightarrow> ospf6_lsa option option" where
  "ospf6_lsa_unlock lsa =
     (if \<not> lsa_lock lsa > 0 then None
      else
        let lsa = lsa\<lparr>lsa_lock := lsa_lock lsa - 1\<rparr> in
        if lsa_lock lsa \<noteq> 0 then Some (Some lsa)
        else map_option (\<lambda>_. None) (ospf6_lsa_delete lsa))"

section \<open>Comparison\<close>

text \<open>
  \<open>ospf6_lsa_compare a b\<close>: \<open>-1\<close> when \<open>a\<close> is more recent, \<open>1\<close> when \<open>b\<close> is, \<open>0\<close> when they are
  the same instance. The ages are only brought up to date when sequence number and checksum agree,
  so the two LSAs are returned too.
\<close>
definition ospf6_lsa_compare ::
    "timeval \<Rightarrow> ospf6_lsa \<Rightarrow> ospf6_lsa \<Rightarrow> (int \<times> ospf6_lsa \<times> ospf6_lsa) option" where
  "ospf6_lsa_compare now a b =
     (if \<not> OSPF6_LSA_IS_SAME a b then None
      else
        let seqnuma = sint (h_seqnum (lsa_header a));
            seqnumb = sint (h_seqnum (lsa_header b));
            cksuma = h_checksum (lsa_header a);
            cksumb = h_checksum (lsa_header b) in
        if seqnuma > seqnumb then Some (-1, a, b)
        else if seqnuma < seqnumb then Some (1, a, b)
        else if cksuma > cksumb then Some (-1, a, b)
        else if cksuma < cksumb then Some (1, a, b)
        else
          let (wagea, a') = ospf6_lsa_age_current now a;
              (wageb, b') = ospf6_lsa_age_current now b;
              agea = unat wagea; ageb = unat wageb in
          if agea = MAXAGE \<and> ageb \<noteq> MAXAGE then Some (-1, a', b')
          else if agea \<noteq> MAXAGE \<and> ageb = MAXAGE then Some (1, a', b')
          else if agea > ageb \<and> agea - ageb \<ge> MAX_AGE_DIFF then Some (1, a', b')
          else if agea < ageb \<and> ageb - agea \<ge> MAX_AGE_DIFF then Some (-1, a', b')
          else Some (0, a', b'))"

text \<open>
  \<^verbatim>\<open>memcmp\<close> of the bodies, as a truth value: different or not. A length that is negative, or
  larger than a body, reads outside the LSA.
\<close>
definition lsa_body_memcmp :: "int \<Rightarrow> ospf6_lsa \<Rightarrow> ospf6_lsa \<Rightarrow> bool option" where
  "lsa_body_memcmp len a b =
     (if len < 0 \<or> len > int (length (lsa_body a)) \<or> len > int (length (lsa_body b)) then None
      else Some (take (nat len) (lsa_body a) \<noteq> take (nat len) (lsa_body b)))"

text \<open>RFC 2328 13.2: have the contents changed? The result is nonzero (true) or zero; both LSAs are
  returned with their ages brought up to date.\<close>
definition ospf6_lsa_is_differ ::
    "timeval \<Rightarrow> ospf6_lsa \<Rightarrow> ospf6_lsa \<Rightarrow> (bool \<times> ospf6_lsa \<times> ospf6_lsa) option" where
  "ospf6_lsa_is_differ now lsa1 lsa2 =
     (if \<not> OSPF6_LSA_IS_SAME lsa1 lsa2 then None
      else
        let lsa1 = snd (ospf6_lsa_age_current now lsa1);
            lsa2 = snd (ospf6_lsa_age_current now lsa2);
            age1 = unat (h_age (lsa_header lsa1)); age2 = unat (h_age (lsa_header lsa2)) in
        if age1 = MAXAGE \<and> age2 \<noteq> MAXAGE then Some (True, lsa1, lsa2)
        else if age1 \<noteq> MAXAGE \<and> age2 = MAXAGE then Some (True, lsa1, lsa2)
        else if h_length (lsa_header lsa1) \<noteq> h_length (lsa_header lsa2) then Some (True, lsa1, lsa2)
        else map_option (\<lambda>d. (d, lsa1, lsa2))
               (lsa_body_memcmp (int (unat (h_length (lsa_header lsa1))) - 20) lsa1 lsa2))"

definition ospf6_lsa_is_changed ::
    "timeval \<Rightarrow> ospf6_lsa \<Rightarrow> ospf6_lsa \<Rightarrow> (bool \<times> ospf6_lsa \<times> ospf6_lsa) option" where
  "ospf6_lsa_is_changed now lsa1 lsa2 =
     (let m1 = OSPF6_LSA_IS_MAXAGE now lsa1; m2 = OSPF6_LSA_IS_MAXAGE now lsa2;
          lsa1 = snd (ospf6_lsa_age_current now lsa1);
          lsa2 = snd (ospf6_lsa_age_current now lsa2) in
      if m1 \<noteq> m2 then Some (True, lsa1, lsa2)
      else if h_length (lsa_header lsa1) \<noteq> h_length (lsa_header lsa2) then Some (True, lsa1, lsa2)
      else if CHECK_FLAG (lsa_flag lsa1) OSPF6_LSA_HEADERONLY \<noteq>
              CHECK_FLAG (lsa_flag lsa2) OSPF6_LSA_HEADERONLY then Some (True, lsa1, lsa2)
      else if CHECK_FLAG (lsa_flag lsa1) OSPF6_LSA_HEADERONLY then Some (False, lsa1, lsa2)
      else
        let len = int (unat (h_length (lsa_header lsa1))) - 20 in
        if len \<le> 0 then Some (False, lsa1, lsa2)
        else map_option (\<lambda>d. (d, lsa1, lsa2)) (lsa_body_memcmp len lsa1 lsa2))"

section \<open>Checksum\<close>

text \<open>
  The bytes the checksum covers: from the LS type, that is without the LS age, up to the length the
  header gives.
\<close>
definition lsa_checksum_bytes :: "ospf6_lsa \<Rightarrow> u8 list" where
  "lsa_checksum_bytes l =
     (let h = lsa_header l in
      be16 (h_type h) @ be32 (h_id h) @ be32 (h_adv_router h) @ be32 (h_seqnum h) @
      be16 (h_checksum h) @ be16 (h_length h) @ lsa_body l)"

abbreviation (input) MODX :: nat where "MODX \<equiv> 4102"
abbreviation (input) LSA_CHECKSUM_OFFSET :: int where "LSA_CHECKSUM_OFFSET \<equiv> 15"

text \<open>The inner loop: \<^verbatim>\<open>c0 += *p; c1 += c0\<close> over one block.\<close>
fun fletcher_block :: "u8 list \<Rightarrow> int \<times> int \<Rightarrow> int \<times> int" where
  "fletcher_block [] (c0, c1) = (c0, c1)"
| "fletcher_block (p # ps) (c0, c1) =
     (let c0' = c0 + uint p in fletcher_block ps (c0', c1 + c0'))"

text \<open>The outer loop: blocks of at most \<open>MODX\<close> bytes, a reduction modulo 255 after each. The sums are
  not negative, so the remainder of C is \<open>mod\<close>.\<close>
function fletcher_loop :: "u8 list \<Rightarrow> int \<times> int \<Rightarrow> int \<times> int" where
  "fletcher_loop bs c =
     (if bs = [] then c
      else let (c0, c1) = fletcher_block (take MODX bs) c
           in fletcher_loop (drop MODX bs) (c0 mod 255, c1 mod 255))"
  by pat_completeness auto
termination
  by (relation "measure (\<lambda>(bs, c). length bs)") auto

declare fletcher_loop.simps [simp del]

definition fletcher_xy :: "int \<Rightarrow> int \<Rightarrow> int \<Rightarrow> int \<times> int" where
  "fletcher_xy len c0 c1 =
     (let x = ((len - LSA_CHECKSUM_OFFSET) * c0 - c1) smod 255;
          x = (if x \<le> 0 then x + 255 else x);
          y = 510 - c0 - x;
          y = (if y > 255 then y - 255 else y)
      in (x, y))"

text \<open>
  \<open>ospf6_lsa_checksum\<close> zeroes the field, runs the loop over \<^verbatim>\<open>ntohs (length) - 2\<close> bytes and
  stores the result; the length is a \<^verbatim>\<open>u_int16_t\<close>, so the subtraction wraps. \<^term>\<open>None\<close> when it
  would read behind the LSA.
\<close>
definition ospf6_lsa_checksum :: "ospf6_lsa \<Rightarrow> (u16 \<times> ospf6_lsa) option" where
  "ospf6_lsa_checksum l =
     (let l0 = l\<lparr>lsa_header := (lsa_header l)\<lparr>h_checksum := 0\<rparr>\<rparr>;
          len = unat (h_length (lsa_header l0) - 2) in
      if length (lsa_checksum_bytes l0) < len then None
      else
        let (c0, c1) = fletcher_loop (take len (lsa_checksum_bytes l0)) (0, 0);
            (x, y) = fletcher_xy (int len) c0 c1;
            ck = (word_of_int (push_bit 8 x + y) :: u16)
        in Some (ck, l0\<lparr>lsa_header := (lsa_header l0)\<lparr>h_checksum := ck\<rparr>\<rparr>))"

text \<open>A router-LSA of router 1, for examples.\<close>

definition lsa_ex :: "u32 \<Rightarrow> u8 list \<Rightarrow> ospf6_lsa" where
  "lsa_ex seqnum body =
     lsa_blank \<lparr>h_age = 1, h_type = 0x2001, h_id = 0, h_adv_router = 1, h_seqnum = seqnum,
                h_checksum = 5, h_length = of_nat (20 + length body)\<rparr> body"

definition now_ex :: timeval where
  "now_ex = \<lparr>tv_sec = 10, tv_usec = 0\<rparr>"

section \<open>Lemmas on the LS age\<close>

lemma lsa_age_at_le: "lsa_age_at now l \<le> MAXAGE"
proof -
  have "unat (ucast u :: u16) \<le> MAXAGE" if "unat u \<le> MAXAGE" for u :: u32
    using that by (simp add: unat_ucast_mod)
  then show ?thesis
    by (auto simp: lsa_age_at_def ospf6_lsa_age_current_def Let_def not_less)
qed

lemma lsa_age_at_eq:
  "lsa_age_at now l =
     (if unat (h_age (lsa_header l)) \<ge> MAXAGE then MAXAGE
      else min MAXAGE (unat (word_of_int (tv_sec now - tv_sec (lsa_birth l)) :: u32)))"
proof -
  have "unat (ucast u :: u16) = unat u" if "\<not> MAXAGE < unat u" for u :: u32
    using that by (simp add: unat_ucast_mod)
  then show ?thesis
    by (auto simp: lsa_age_at_def ospf6_lsa_age_current_def Let_def min_def)
qed

lemma OSPF6_LSA_IS_MAXAGE_iff: "OSPF6_LSA_IS_MAXAGE now l \<longleftrightarrow> lsa_age_at now l = MAXAGE"
  by (auto simp: OSPF6_LSA_IS_MAXAGE_def lsa_age_at_def word_unat_eq_iff)

text \<open>A stored age changes nothing that is computed later: the age field is a cache. Times are
  monotonic and less than \<open>2 ^ 32\<close> seconds apart.\<close>

lemma lsa_age_cache:
  assumes "tv_sec (lsa_birth l) \<le> tv_sec now" "tv_sec now \<le> tv_sec now'"
    and "tv_sec now' - tv_sec (lsa_birth l) < 2 ^ 32"
  shows "lsa_age_at now' (snd (ospf6_lsa_age_current now l)) = lsa_age_at now' l"
proof -
  let ?b = "tv_sec (lsa_birth l)"
  have u: "unat (word_of_int (tv_sec t - ?b) :: u32) = nat (tv_sec t - ?b)"
    if "?b \<le> tv_sec t" "tv_sec t \<le> tv_sec now'" for t :: timeval
    by (rule unat_word_of_int_small) (use that assms in auto)
  show ?thesis
  proof (cases "unat (h_age (lsa_header l)) \<ge> MAXAGE")
    case True
    then show ?thesis by (simp add: lsa_age_at_eq) (simp add: ospf6_lsa_age_current_def)
  next
    case False
    define a where "a = fst (ospf6_lsa_age_current now l)"
    have a: "unat a = min MAXAGE (nat (tv_sec now - ?b))"
      using False u [of now] assms lsa_age_at_eq [of now l] by (simp add: a_def lsa_age_at_def)
    have snd: "snd (ospf6_lsa_age_current now l) = l\<lparr>lsa_header := (lsa_header l)\<lparr>h_age := a\<rparr>\<rparr>"
      using False by (simp add: ospf6_lsa_age_current_def Let_def a_def)
    show ?thesis
      using False a assms u [of now'] by (auto simp: snd lsa_age_at_eq min_def)
  qed
qed

lemma ospf6_lsa_age_set_age:
  "unat (h_age (lsa_header l)) \<le> MAXAGE \<Longrightarrow>
   lsa_age_at now (ospf6_lsa_age_set now l) = unat (h_age (lsa_header l))"
  by (auto simp: lsa_age_at_eq ospf6_lsa_age_set_def min_def)

section \<open>Lemmas on the comparison\<close>

lemma OSPF6_LSA_IS_SAME_key: "OSPF6_LSA_IS_SAME a b \<longleftrightarrow> lsa_key a = lsa_key b"
  by (auto simp: OSPF6_LSA_IS_SAME_def lsa_key_def)

text \<open>The value of the comparison, without the side effect on the ages.\<close>

definition lsa_cmp :: "timeval \<Rightarrow> ospf6_lsa \<Rightarrow> ospf6_lsa \<Rightarrow> int" where
  "lsa_cmp now a b =
     (let sa = sint (h_seqnum (lsa_header a)); sb = sint (h_seqnum (lsa_header b));
          ca = uint (h_checksum (lsa_header a)); cb = uint (h_checksum (lsa_header b));
          x = lsa_age_at now a; y = lsa_age_at now b in
      if sa > sb then -1 else if sa < sb then 1
      else if ca > cb then -1 else if ca < cb then 1
      else if x = MAXAGE \<and> y \<noteq> MAXAGE then -1
      else if x \<noteq> MAXAGE \<and> y = MAXAGE then 1
      else if x > y \<and> x - y \<ge> MAX_AGE_DIFF then 1
      else if x < y \<and> y - x \<ge> MAX_AGE_DIFF then -1
      else 0)"

lemma ospf6_lsa_compare_cmp:
  "map_option fst (ospf6_lsa_compare now a b) =
     (if lsa_key a = lsa_key b then Some (lsa_cmp now a b) else None)"
  by (simp add: ospf6_lsa_compare_def OSPF6_LSA_IS_SAME_key lsa_cmp_def lsa_age_at_def Let_def
      case_prod_beta word_less_def)

lemma ospf6_lsa_compare_None: "\<not> OSPF6_LSA_IS_SAME a b \<Longrightarrow> ospf6_lsa_compare now a b = None"
  by (simp add: ospf6_lsa_compare_def)

lemma lsa_cmp_antisym: "lsa_cmp now b a = - lsa_cmp now a b"
  by (simp add: lsa_cmp_def Let_def)

lemma lsa_cmp_self [simp]: "lsa_cmp now a a = 0"
  by (simp add: lsa_cmp_def)

text \<open>RFC 2328 13.1 on the ages: MaxAge first, then an age that is smaller by more than
  \<open>MaxAgeDiff\<close>.\<close>

definition age_recent :: "nat \<Rightarrow> nat \<Rightarrow> bool" where
  "age_recent x y \<longleftrightarrow> y \<noteq> MAXAGE \<and> (x = MAXAGE \<or> x + MAX_AGE_DIFF \<le> y)"

lemma lsa_cmp_newer_iff:
  "lsa_cmp now a b = -1 \<longleftrightarrow>
     (let sa = sint (h_seqnum (lsa_header a)); sb = sint (h_seqnum (lsa_header b));
          ca = uint (h_checksum (lsa_header a)); cb = uint (h_checksum (lsa_header b)) in
      sb < sa \<or> sa = sb \<and> (cb < ca \<or> ca = cb \<and> age_recent (lsa_age_at now a) (lsa_age_at now b)))"
proof -
  have "(if x = MAXAGE \<and> y \<noteq> MAXAGE then -1 else if x \<noteq> MAXAGE \<and> y = MAXAGE then 1
      else if x > y \<and> x - y \<ge> MAX_AGE_DIFF then 1
      else if x < y \<and> y - x \<ge> MAX_AGE_DIFF then -1 else 0) = (-1 :: int) \<longleftrightarrow> age_recent x y"
    for x y by (auto simp: age_recent_def)
  then show ?thesis by (auto simp: lsa_cmp_def Let_def)
qed

lemma age_recent_trans: "age_recent x y \<Longrightarrow> age_recent y z \<Longrightarrow> age_recent x z"
  by (auto simp: age_recent_def)

lemma lsa_cmp_newer_trans:
  "lsa_cmp now a b = -1 \<Longrightarrow> lsa_cmp now b c = -1 \<Longrightarrow> lsa_cmp now a c = -1"
  unfolding lsa_cmp_newer_iff Let_def by (auto intro: age_recent_trans)

text \<open>C34: \<open>ospf6_lsa_compare\<close> on two instances of the same LSA (same type, advertising router and
  link state ID) never fails and is a strict partial order: the answer of the swapped call is the
  negated one, an instance is never more recent than itself, and "more recent" (\<open>-1\<close>) is
  transitive at a given time, whatever mixture of sequence number, checksum, MaxAge and age
  difference decides the two steps. On different LSAs the assertion fails.\<close>

theorem ospf6_lsa_compare_strict_order:
  assumes "OSPF6_LSA_IS_SAME a b" "OSPF6_LSA_IS_SAME b c"
  shows "(\<exists>r \<in> {-1, 0, 1}. map_option fst (ospf6_lsa_compare now a b) = Some r \<and>
            map_option fst (ospf6_lsa_compare now b a) = Some (- r)) \<and>
    map_option fst (ospf6_lsa_compare now a a) = Some 0 \<and>
    (map_option fst (ospf6_lsa_compare now a b) = Some (-1) \<longrightarrow>
     map_option fst (ospf6_lsa_compare now b c) = Some (-1) \<longrightarrow>
     map_option fst (ospf6_lsa_compare now a c) = Some (-1)) \<and>
    (\<not> OSPF6_LSA_IS_SAME a d \<longrightarrow> ospf6_lsa_compare now a d = None)"
proof -
  have "lsa_cmp now a b \<in> {-1, 0, 1}" by (simp add: lsa_cmp_def Let_def)
  moreover have "OSPF6_LSA_IS_SAME a c" "OSPF6_LSA_IS_SAME b a" using assms by (simp_all add: OSPF6_LSA_IS_SAME_key)
  ultimately show ?thesis
    using assms lsa_cmp_newer_trans [of now a b c] lsa_cmp_antisym [of now a b]
    by (auto simp: ospf6_lsa_compare_cmp ospf6_lsa_compare_None simp flip: OSPF6_LSA_IS_SAME_key)
qed

theorem ospf6_lsa_compare_strict_order_witness:
  "map_option fst (ospf6_lsa_compare now_ex (lsa_ex 0x80000003 []) (lsa_ex 0x80000001 [])) =
     Some (-1)"
proof -
  have "OSPF6_LSA_IS_SAME (lsa_ex m []) (lsa_ex n [])" for m n
    by (simp add: OSPF6_LSA_IS_SAME_def lsa_ex_def lsa_blank_def)
  note ospf6_lsa_compare_strict_order [OF this [of "0x80000003" "0x80000002"]
      this [of "0x80000002" "0x80000001"], of now_ex "lsa_ex 0 []"]
  moreover have
    "map_option fst (ospf6_lsa_compare now_ex (lsa_ex 0x80000003 []) (lsa_ex 0x80000002 [])) = Some (-1)"
    "map_option fst (ospf6_lsa_compare now_ex (lsa_ex 0x80000002 []) (lsa_ex 0x80000001 [])) = Some (-1)"
    by code_simp+
  ultimately show ?thesis by blast
qed

section \<open>Lemmas on the checksum\<close>

text \<open>The two Fletcher sums of a byte string, without reduction.\<close>

fun fsum0 :: "u8 list \<Rightarrow> int" where
  "fsum0 [] = 0"
| "fsum0 (b # bs) = uint b + fsum0 bs"

fun fsum1 :: "u8 list \<Rightarrow> int" where
  "fsum1 [] = 0"
| "fsum1 (b # bs) = (int (length bs) + 1) * uint b + fsum1 bs"

lemma fsum0_append [simp]: "fsum0 (xs @ ys) = fsum0 xs + fsum0 ys"
  by (induction xs) auto

lemma fsum1_append [simp]:
  "fsum1 (xs @ ys) = fsum1 xs + int (length ys) * fsum0 xs + fsum1 ys"
  by (induction xs) (auto simp: algebra_simps)

lemma fletcher_block_eq:
  "fletcher_block bs (c0, c1) = (c0 + fsum0 bs, c1 + int (length bs) * c0 + fsum1 bs)"
  by (induction bs arbitrary: c0 c1) (auto simp: Let_def algebra_simps)

lemma fsum0_nonneg: "0 \<le> fsum0 bs"
  by (induction bs) auto

lemma fsum1_nonneg: "0 \<le> fsum1 bs"
  by (induction bs) auto

lemma byte_le: "uint (b :: u8) \<le> 255"
proof -
  have "uint b < 2 ^ LENGTH(8)" by (rule unsigned_less)
  then show ?thesis by simp
qed

lemma fsum0_le: "fsum0 bs \<le> 255 * int (length bs)"
proof (induction bs)
  case (Cons b bs)
  then show ?case using byte_le [of b] by simp
qed simp

lemma fsum1_le: "2 * fsum1 bs \<le> 255 * int (length bs) * (int (length bs) + 1)"
proof (induction bs)
  case (Cons b bs)
  have "2 * ((int (length bs) + 1) * uint b) \<le> 2 * ((int (length bs) + 1) * 255)"
    using byte_le [of b] by (intro mult_left_mono) auto
  with Cons show ?case by (simp add: algebra_simps)
qed simp

lemma fletcher_loop_eq:
  assumes "0 \<le> c0" "c0 < 255" "0 \<le> c1" "c1 < 255"
  shows "fletcher_loop bs (c0, c1) =
    ((c0 + fsum0 bs) mod 255, (c1 + int (length bs) * c0 + fsum1 bs) mod 255)"
  using assms
proof (induction bs "(c0, c1)" arbitrary: c0 c1 rule: fletcher_loop.induct)
  case (1 bs)
  show ?case
  proof (cases "bs = []")
    case True
    with 1 show ?thesis by (simp add: fletcher_loop.simps)
  next
    case False
    let ?t = "take MODX bs" and ?d = "drop MODX bs"
    have split: "fsum0 bs = fsum0 ?t + fsum0 ?d"
      "fsum1 bs = fsum1 ?t + int (length ?d) * fsum0 ?t + fsum1 ?d"
      using fsum0_append [of ?t ?d] fsum1_append [of ?t ?d] by simp_all
    have len: "int (length bs) = int (length ?t) + int (length ?d)"
      by simp
    let ?c0 = "(c0 + fsum0 ?t) mod 255" and ?c1 = "(c1 + int (length ?t) * c0 + fsum1 ?t) mod 255"
    have "fletcher_loop bs (c0, c1) = fletcher_loop ?d (?c0, ?c1)"
      using False by (subst fletcher_loop.simps) (simp only: fletcher_block_eq if_False Let_def case_prod_conv)
    also have "\<dots> = ((?c0 + fsum0 ?d) mod 255, (?c1 + int (length ?d) * ?c0 + fsum1 ?d) mod 255)"
      by (rule "1.hyps" [OF False refl fletcher_block_eq [symmetric]]) auto
    also have "(?c0 + fsum0 ?d) mod 255 = (c0 + fsum0 bs) mod 255"
      by (simp only: split) (simp add: mod_simps add.assoc)
    also have "(?c1 + int (length ?d) * ?c0 + fsum1 ?d) mod 255 =
        (c1 + int (length bs) * c0 + fsum1 bs) mod 255"
    proof -
      have "(?c1 + int (length ?d) * ?c0 + fsum1 ?d) mod 255 =
          ((c1 + int (length ?t) * c0 + fsum1 ?t) + int (length ?d) * (c0 + fsum0 ?t) + fsum1 ?d) mod 255"
        by (intro mod_add_cong mod_mult_cong) simp_all
      also have "(c1 + int (length ?t) * c0 + fsum1 ?t) + int (length ?d) * (c0 + fsum0 ?t) + fsum1 ?d =
          c1 + int (length bs) * c0 + fsum1 bs"
        by (simp only: split len algebra_simps)
      finally show ?thesis .
    qed
    finally show ?thesis .
  qed
qed

text \<open>The two check bytes are in the range 1 to 255 and solve the two congruences.\<close>

lemma fletcher_xy_correct:
  assumes "fletcher_xy len c0 c1 = (x, y)" "0 \<le> c0" "c0 < 255"
  shows "1 \<le> x" "x \<le> 255" "1 \<le> y" "y \<le> 255"
    and "(c0 + x + y) mod 255 = 0" "(c1 + (len - 14) * x + (len - 15) * y) mod 255 = 0"
proof -
  let ?v = "(len - 15) * c0 - c1"
  define x0 where "x0 = ?v smod 255"
  have x0: "- 254 \<le> x0" "x0 \<le> 254" using smod_int_range [where a = ?v and b = 255] by (simp_all add: x0_def)
  have x: "x = (if x0 \<le> 0 then x0 + 255 else x0)"
    and y: "y = (if 510 - c0 - x > 255 then 255 - c0 - x else 510 - c0 - x)"
    using assms(1) by (auto simp: fletcher_xy_def x0_def Let_def)
  show rx: "1 \<le> x" "x \<le> 255" using x0 x by auto
  show "1 \<le> y" "y \<le> 255" using rx assms(2,3) y by (auto split: if_splits)
  define j where "j = ?v sdiv 255"
  have "x0 = ?v - j * 255" by (simp only: x0_def j_def minus_sdiv_mult_eq_smod)
  then obtain k where k: "x = ?v + k * 255"
    using x by (cases "x0 \<le> 0") (auto intro: that [of "- j"] that [of "1 - j"])
  obtain m where m: "y = - c0 - x + m * 255"
    using y by (cases "510 - c0 - x > 255") (auto intro: that [of 1] that [of 2])
  have "c0 + x + y = m * 255" using m by simp
  then show "(c0 + x + y) mod 255 = 0" by simp
  have "c1 + (len - 14) * x + (len - 15) * y = (k + (len - 15) * m) * 255"
    unfolding m k by (simp add: algebra_simps)
  then show "(c1 + (len - 14) * x + (len - 15) * y) mod 255 = 0" by simp
qed

text \<open>An LSA whose length field agrees with its contents.\<close>

definition lsa_length_ok :: "ospf6_lsa \<Rightarrow> bool" where
  "lsa_length_ok l \<longleftrightarrow>
     20 \<le> unat (h_length (lsa_header l)) \<and>
     length (lsa_body l) = unat (h_length (lsa_header l)) - 20"

lemma unat_minus_2: "2 \<le> unat (w :: u16) \<Longrightarrow> unat (w - 2) = unat w - 2"
  by (simp add: unat_sub word_le_nat_alt)

lemma length_lsa_checksum_bytes:
  "lsa_length_ok l \<Longrightarrow> length (lsa_checksum_bytes l) = unat (h_length (lsa_header l) - 2)"
  by (auto simp: lsa_length_ok_def lsa_checksum_bytes_def Let_def unat_minus_2)

lemma be16_hi_lo:
  assumes "0 \<le> x" "x \<le> 255" "0 \<le> y" "y \<le> 255"
  shows "be16 (word_of_int (push_bit 8 x + y)) = [word_of_int x, word_of_int y]"
proof -
  define w where "w = (word_of_int (push_bit 8 x + y) :: u16)"
  have w: "uint w = x * 256 + y"
    unfolding w_def by (subst uint_word_of_int_small) (use assms in \<open>auto simp: push_bit_eq_mult\<close>)
  have b: "uint (word_of_int x :: u8) = x" "uint (word_of_int y :: u8) = y"
    by (rule uint_word_of_int_small; use assms in simp)+
  have "uint (drop_bit 8 w) = x"
    using assms by (subst drop_bit_eq_div) (simp add: uint_div w)
  then have "uint (ucast (drop_bit 8 w) :: u8) = x"
    using assms by (simp only: unsigned_ucast_eq unsigned_take_bit_eq take_bit_eq_mod) simp
  moreover have "uint (ucast w :: u8) = y"
    using assms by (simp add: unsigned_ucast_eq unsigned_take_bit_eq w take_bit_eq_mod)
  ultimately show ?thesis
    unfolding w_def [symmetric] be16_def by (simp add: b word_uint_eq_iff)
qed

lemma lsa_checksum_bytes_split:
  assumes "lsa_length_ok l"
  obtains p s where "length p = 14" "\<And>ck. lsa_checksum_bytes (l\<lparr>lsa_header := (lsa_header l)\<lparr>h_checksum := ck\<rparr>\<rparr>) = p @ be16 ck @ s"
    "length s = unat (h_length (lsa_header l) - 2) - 16" "18 \<le> unat (h_length (lsa_header l) - 2)"
proof
  let ?h = "lsa_header l"
  show "length (be16 (h_type ?h) @ be32 (h_id ?h) @ be32 (h_adv_router ?h) @ be32 (h_seqnum ?h)) = 14"
    by simp
  show "length (be16 (h_length ?h) @ lsa_body l) = unat (h_length ?h - 2) - 16"
    "18 \<le> unat (h_length (lsa_header l) - 2)"
    using assms by (auto simp: lsa_length_ok_def unat_minus_2)
qed (simp add: lsa_checksum_bytes_def Let_def)

text \<open>C20: \<open>ospf6_lsa_checksum\<close> on an LSA whose length field is right changes only the checksum
  field, and the result verifies: running the same block-wise Fletcher loop over the LSA with the
  checksum in place leaves both sums zero. Neither byte of a computed checksum is zero, so it is
  never confused with "no checksum".\<close>

theorem ospf6_lsa_checksum_verifies:
  assumes "lsa_length_ok l"
  shows "\<exists>ck l'. ospf6_lsa_checksum l = Some (ck, l') \<and>
    l' = l\<lparr>lsa_header := (lsa_header l)\<lparr>h_checksum := ck\<rparr>\<rparr> \<and>
    fletcher_loop (lsa_checksum_bytes l') (0, 0) = (0, 0) \<and> 0 \<notin> set (be16 ck)"
proof -
  let ?set = "\<lambda>ck. l\<lparr>lsa_header := (lsa_header l)\<lparr>h_checksum := ck\<rparr>\<rparr>"
  define L where "L = unat (h_length (lsa_header l) - 2)"
  obtain p s where ps: "length p = 14" "length s = L - 16" "18 \<le> L"
    and bytes: "\<And>ck. lsa_checksum_bytes (?set ck) = p @ be16 ck @ s"
    using lsa_checksum_bytes_split [OF assms] unfolding L_def by metis
  let ?z = "p @ [0, 0] @ s"
  have z: "lsa_checksum_bytes (?set 0) = ?z" by (simp add: bytes) (simp add: be16_def)
  have len: "length ?z = L" using ps by simp
  define c0 c1 where "c0 = fsum0 ?z mod 255" and "c1 = fsum1 ?z mod 255"
  obtain x y where xy: "fletcher_xy (int L) c0 c1 = (x, y)" by fastforce
  have c0: "0 \<le> c0" "c0 < 255" by (simp_all add: c0_def)
  note r = fletcher_xy_correct [OF xy c0]
  define ck where "ck = (word_of_int (push_bit 8 x + y) :: u16)"
  have ck: "be16 ck = [word_of_int x, word_of_int y]"
    unfolding ck_def using r(1-4) by (intro be16_hi_lo) auto
  have u: "uint (word_of_int x :: u8) = x" "uint (word_of_int y :: u8) = y"
    by (rule uint_word_of_int_small; use r(1-4) in simp)+
  have "fletcher_loop ?z (0, 0) = (c0, c1)"
    by (subst fletcher_loop_eq) (simp_all add: c0_def c1_def)
  then have run: "ospf6_lsa_checksum l = Some (ck, ?set ck)"
    using len xy z by (simp add: ospf6_lsa_checksum_def Let_def L_def [symmetric] ck_def)
  have "fsum0 (p @ be16 ck @ s) = fsum0 ?z + x + y"
    by (simp add: ck u)
  then have s0: "fsum0 (p @ be16 ck @ s) mod 255 = 0"
    unfolding r(5) [symmetric] c0_def by (simp only:) (intro mod_add_cong, simp_all)
  have "fsum1 (p @ be16 ck @ s) = fsum1 ?z + (int L - 14) * x + (int L - 15) * y"
    using ps by (simp add: ck u of_nat_diff algebra_simps)
  then have s1: "fsum1 (p @ be16 ck @ s) mod 255 = 0"
    unfolding r(6) [symmetric] c1_def by (simp only:) (intro mod_add_cong, simp_all)
  have "0 \<notin> set (be16 ck)"
    using r(1-4) u by (auto simp: ck)
  with run s0 s1 show ?thesis by (auto simp: bytes fletcher_loop_eq)
qed

theorem ospf6_lsa_checksum_verifies_witness:
  "\<exists>ck l'. ospf6_lsa_checksum (lsa_ex 0x80000001 [0, 0, 0, 19, 1, 2, 3, 4]) = Some (ck, l') \<and>
    fletcher_loop (lsa_checksum_bytes l') (0, 0) = (0, 0) \<and> 0 \<notin> set (be16 ck)"
proof -
  have "lsa_length_ok (lsa_ex 0x80000001 [0, 0, 0, 19, 1, 2, 3, 4])" by code_simp
  from ospf6_lsa_checksum_verifies [OF this] show ?thesis by blast
qed

text \<open>the sums of the checksum are kept in \<^verbatim>\<open>int\<close>, and a block of \<open>MODX\<close> bytes is as
  long as it can be: starting from reduced sums no prefix of a block of at most 4102 bytes brings
  either sum above \<open>2 ^ 31 - 1\<close>, whereas 4103 bytes can.\<close>

theorem fletcher_block_no_overflow:
  assumes "length bs \<le> MODX" "0 \<le> c0" "c0 < 255" "0 \<le> c1" "c1 < 255"
  shows "fst (fletcher_block bs (c0, c1)) \<in> {0 .. 2 ^ 31 - 1} \<and>
    snd (fletcher_block bs (c0, c1)) \<in> {0 .. 2 ^ 31 - 1} \<and>
    snd (fletcher_block (replicate (Suc MODX) 255) (254, 254)) > 2 ^ 31 - 1"
proof -
  let ?n = "int (length bs)"
  have n: "?n \<le> 4102" using assms(1) by simp
  have "255 * ?n * (?n + 1) \<le> 255 * 4102 * 4103"
    using n by (intro mult_mono) auto
  then have f1: "2 * fsum1 bs \<le> 255 * 4102 * 4103" using fsum1_le [of bs] by simp
  have m: "?n * c0 \<le> 4102 * 254" using n assms by (intro mult_mono) auto
  have f0: "fsum0 bs \<le> 255 * 4102" using fsum0_le [of bs] n by simp
  have rep: "fsum1 (replicate k 255) * 2 = 255 * int k * (int k + 1)" for k
    by (induction k) (simp_all add: algebra_simps take_bit_eq_mod)
  have "fsum1 (replicate (Suc MODX) 255) * 2 = 255 * 4103 * 4104"
    unfolding rep by simp
  with f0 f1 m fsum0_nonneg [of bs] fsum1_nonneg [of bs] assms show ?thesis
    by (simp add: fletcher_block_eq del: replicate_Suc)
qed

theorem fletcher_block_no_overflow_witness:
  "snd (fletcher_block [255, 255] (254, 254)) \<in> {0 .. 2 ^ 31 - 1}"
  using fletcher_block_no_overflow [of "[255, 255]" 254 254] by simp

section \<open>Copies and references\<close>

lemma ospf6_lsa_age_current_fields [simp]:
  "lsa_key (snd (ospf6_lsa_age_current now l)) = lsa_key l"
  "lsa_body (snd (ospf6_lsa_age_current now l)) = lsa_body l"
  "lsa_flag (snd (ospf6_lsa_age_current now l)) = lsa_flag l"
  "lsa_lock (snd (ospf6_lsa_age_current now l)) = lsa_lock l"
  "lsa_birth (snd (ospf6_lsa_age_current now l)) = lsa_birth l"
  "h_seqnum (lsa_header (snd (ospf6_lsa_age_current now l))) = h_seqnum (lsa_header l)"
  "h_checksum (lsa_header (snd (ospf6_lsa_age_current now l))) = h_checksum (lsa_header l)"
  "h_length (lsa_header (snd (ospf6_lsa_age_current now l))) = h_length (lsa_header l)"
  by (simp_all add: ospf6_lsa_age_current_def lsa_key_def Let_def)

lemma lsa_age_at_cong:
  "h_age (lsa_header a) = h_age (lsa_header b) \<Longrightarrow> lsa_birth a = lsa_birth b \<Longrightarrow>
   lsa_age_at now a = lsa_age_at now b"
  by (simp add: lsa_age_at_eq)

lemma lsa_cmp_zero:
  "h_seqnum (lsa_header a) = h_seqnum (lsa_header b) \<Longrightarrow>
   h_checksum (lsa_header a) = h_checksum (lsa_header b) \<Longrightarrow>
   lsa_age_at now a = lsa_age_at now b \<Longrightarrow> lsa_cmp now a b = 0"
  by (simp add: lsa_cmp_def)

lemma ospf6_lsa_copy_some:
  fixes l :: ospf6_lsa and now :: timeval
  assumes "lsa_length_ok l \<or> CHECK_FLAG (lsa_flag l) OSPF6_LSA_HEADERONLY"
  defines "l' \<equiv> snd (ospf6_lsa_age_current now l)"
  obtains copy where "ospf6_lsa_copy now l = Some (copy, l')"
    "lsa_header copy = lsa_header l'" "lsa_birth copy = lsa_birth l" "lsa_lock copy = 0"
    "lsa_expire copy = None" "lsa_refresh copy = None"
    "lsa_body copy = (if CHECK_FLAG (lsa_flag l) OSPF6_LSA_HEADERONLY then [] else lsa_body l)"
    "CHECK_FLAG (lsa_flag copy) OSPF6_LSA_HEADERONLY = CHECK_FLAG (lsa_flag l) OSPF6_LSA_HEADERONLY"
  using assms
  by (cases "CHECK_FLAG (lsa_flag l) OSPF6_LSA_HEADERONLY")
    (auto simp: ospf6_lsa_copy_def ospf6_lsa_create_headeronly_def ospf6_lsa_create_def
      lsa_length_ok_def ospf6_lsa_age_set_def lsa_blank_def Let_def SET_FLAG_def CHECK_FLAG_def)

text \<open>a copy of an LSA stands for the same instance. It has its own reference count (zero) and
  no timer, the header as it is after the age update, the same body (none for a header-only LSA),
  and at every later time the same age, so that comparing it with the original says "same
  instance" however long both are kept. In particular storing the computed age in the header does
  not change what later age computations return.\<close>

theorem ospf6_lsa_copy_same_instance:
  assumes "lsa_length_ok l \<or> CHECK_FLAG (lsa_flag l) OSPF6_LSA_HEADERONLY"
    and "tv_sec (lsa_birth l) \<le> tv_sec now" "tv_sec now \<le> tv_sec now'"
    and "tv_sec now' - tv_sec (lsa_birth l) < 2 ^ 32"
  shows "\<exists>copy l'. ospf6_lsa_copy now l = Some (copy, l') \<and>
    lsa_lock copy = 0 \<and> lsa_expire copy = None \<and> lsa_refresh copy = None \<and>
    lsa_header copy = lsa_header l' \<and>
    lsa_body copy = (if CHECK_FLAG (lsa_flag l) OSPF6_LSA_HEADERONLY then [] else lsa_body l) \<and>
    lsa_age_at now' copy = lsa_age_at now' l \<and>
    map_option fst (ospf6_lsa_compare now' copy l) = Some 0 \<and>
    map_option fst (ospf6_lsa_compare now' copy l') = Some 0"
proof -
  let ?l' = "snd (ospf6_lsa_age_current now l)"
  obtain copy where c: "ospf6_lsa_copy now l = Some (copy, ?l')"
    "lsa_header copy = lsa_header ?l'" "lsa_birth copy = lsa_birth l" "lsa_lock copy = 0"
    "lsa_expire copy = None" "lsa_refresh copy = None"
    "lsa_body copy = (if CHECK_FLAG (lsa_flag l) OSPF6_LSA_HEADERONLY then [] else lsa_body l)"
    using ospf6_lsa_copy_some [OF assms(1)] by metis
  have "lsa_age_at now' copy = lsa_age_at now' ?l'"
    by (rule lsa_age_at_cong) (simp_all add: c)
  also have "\<dots> = lsa_age_at now' l"
    by (rule lsa_age_cache [OF assms(2-4)])
  finally have age: "lsa_age_at now' copy = lsa_age_at now' l" "lsa_age_at now' ?l' = lsa_age_at now' l"
    by (simp_all add: lsa_age_cache [OF assms(2-4)])
  have key: "lsa_key copy = lsa_key l"
    using ospf6_lsa_age_current_fields(1) [of now l] by (simp add: lsa_key_def c)
  have "lsa_cmp now' copy l = 0" "lsa_cmp now' copy ?l' = 0"
    by (rule lsa_cmp_zero; simp add: c age)+
  with c age key show ?thesis by (simp add: ospf6_lsa_compare_cmp)
qed

theorem ospf6_lsa_copy_same_instance_witness:
  "\<exists>copy l'. ospf6_lsa_copy now_ex (lsa_ex 0x80000001 [1, 2, 3, 4]) = Some (copy, l') \<and>
     lsa_body copy = [1, 2, 3, 4] \<and> lsa_age_at \<lparr>tv_sec = 100, tv_usec = 0\<rparr> copy = 100"
proof -
  let ?l = "lsa_ex 0x80000001 [1, 2, 3, 4]" and ?t = "\<lparr>tv_sec = 100, tv_usec = 0\<rparr>"
  have "lsa_length_ok ?l" by code_simp
  then have "lsa_length_ok ?l \<or> CHECK_FLAG (lsa_flag ?l) OSPF6_LSA_HEADERONLY" ..
  from ospf6_lsa_copy_same_instance [OF this, of now_ex ?t]
  have "\<exists>copy l'. ospf6_lsa_copy now_ex ?l = Some (copy, l') \<and>
      lsa_body copy = (if CHECK_FLAG (lsa_flag ?l) OSPF6_LSA_HEADERONLY then [] else lsa_body ?l) \<and>
      lsa_age_at ?t copy = lsa_age_at ?t ?l"
    by (auto simp: lsa_ex_def lsa_blank_def now_ex_def)
  moreover have "lsa_age_at ?t ?l = 100" "\<not> CHECK_FLAG (lsa_flag ?l) OSPF6_LSA_HEADERONLY"
    "lsa_body ?l = [1, 2, 3, 4]"
    by code_simp+
  ultimately show ?thesis by auto
qed

text \<open>C36: the reference count is balanced as long as it fits its \<^verbatim>\<open>unsigned char\<close>. Releasing a
  reference just taken restores an LSA that had between 1 and 254 references and deletes an LSA
  that had none; with 255 references the counter wraps to zero, and the release aborts.\<close>

theorem ospf6_lsa_lock_unlock:
  "ospf6_lsa_unlock (ospf6_lsa_lock l) =
     (if lsa_lock l = 0 then Some None
      else if lsa_lock l = 255 then None
      else Some (Some l))"
proof -
  have "(- 1 :: u8) = 255" by code_simp
  then have "lsa_lock l + 1 = 0 \<longleftrightarrow> lsa_lock l = 255"
    by (metis eq_neg_iff_add_eq_0)
  then show ?thesis
    by (auto simp: ospf6_lsa_unlock_def ospf6_lsa_lock_def ospf6_lsa_delete_def Let_def word_gt_0)
qed

end
