(* ===== verification/Lsdb.thy ===== *)
theory Lsdb
  imports Lsa
begin

text \<open>
  Link state databases, \<^verbatim>\<open>src/ospf6d/ospf6_lsdb.c\<close>. A database holds at most one LSA for each key
  (type, advertising router, link state ID), in the order of the keys. The C code finds the place
  of a key in a binary trie over the ten bytes of the key and keeps the LSAs in a doubly linked list
  in the order of the trie; the model is that list, and \<^verbatim>\<open>prev\<close> and \<^verbatim>\<open>next\<close> of an LSA are its
  neighbors in it. Keys of the same length are ordered in the trie as their bytes are, which for
  numbers in network byte order is the order of the numbers. The hooks of a database are calls that
  are returned as events, in order.
\<close>

type_synonym lsdb = "ospf6_lsa list"

section \<open>Keys\<close>

text \<open>The prefix of the trie: sixteen bytes and a length in bits. The function asserts that the length
  is a number of whole bytes.\<close>
definition ospf6_lsdb_set_key :: "u8 list \<times> nat \<Rightarrow> u8 list \<Rightarrow> (u8 list \<times> nat) option" where
  "ospf6_lsdb_set_key key v =
     (case key of (prefix, prefixlen) \<Rightarrow>
        if prefixlen mod 8 \<noteq> 0 \<or> prefixlen div 8 + length v > length prefix then None
        else Some (take (prefixlen div 8) prefix @ v @ drop (prefixlen div 8 + length v) prefix,
                   prefixlen + length v * 8))"

definition lsdb_key :: "u16 \<Rightarrow> u32 \<Rightarrow> u32 \<Rightarrow> (u8 list \<times> nat) option" where
  "lsdb_key type adv_router lsid =
     Option.bind (ospf6_lsdb_set_key (replicate 16 0, 0) (be16 type)) (\<lambda>key.
     Option.bind (ospf6_lsdb_set_key key (be32 adv_router)) (\<lambda>key.
     ospf6_lsdb_set_key key (be32 lsid)))"

text \<open>The key of an LSA can be built: it fits into an IPv6 prefix and each part starts on a byte
  boundary. It has 80 bits, and two LSAs have the same key exactly if they have the same type,
  advertising router and link state ID.\<close>

theorem lsdb_key_injective:
  "\<exists>k k'. lsdb_key t a i = Some k \<and> lsdb_key t' a' i' = Some k' \<and> snd k = 80 \<and> length (fst k) = 16 \<and>
     (k = k' \<longleftrightarrow> t = t' \<and> a = a' \<and> i = i')"
proof -
  define k where "k = (\<lambda>(t :: u16) (a :: u32) (i :: u32). (be16 t @ be32 a @ be32 i @ replicate 6 0, 80 :: nat))"
  have key: "lsdb_key t a i = Some (k t a i)" for t a i
    by (simp add: k_def lsdb_key_def ospf6_lsdb_set_key_def)
  have inj: "k t a i = k t' a' i' \<longleftrightarrow> t = t' \<and> a = a' \<and> i = i'" by (simp add: k_def)
  have len: "snd (k t a i) = 80" "length (fst (k t a i)) = 16" by (simp_all add: k_def)
  show ?thesis
    by (rule exI [of _ "k t a i"], rule exI [of _ "k t' a' i'"]) (simp only: key inj len simp_thms)
qed

section \<open>Operations\<close>

datatype lsdb_event =
    HookAdd ospf6_lsa | HookRemove ospf6_lsa | HookReplace ospf6_lsa ospf6_lsa | HookRefresh ospf6_lsa ospf6_lsa

text \<open>Which hooks a database has; those of a neighbor have none.\<close>
record lsdb_hooks =
  hook_add :: bool
  hook_remove :: bool
  hook_replace :: bool
  hook_refresh :: bool

definition no_hooks :: lsdb_hooks where
  "no_hooks = \<lparr>hook_add = False, hook_remove = False, hook_replace = False, hook_refresh = False\<rparr>"

definition ospf6_lsdb_create :: lsdb where
  "ospf6_lsdb_create = []"

definition ospf6_lsdb_lookup :: "u16 \<Rightarrow> u32 \<Rightarrow> u32 \<Rightarrow> lsdb \<Rightarrow> ospf6_lsa option" where
  "ospf6_lsdb_lookup type lsid adv_router db = find (\<lambda>l. lsa_key l = (type, adv_router, lsid)) db"

text \<open>The links: the new LSA takes the place of the old one, or comes before the first larger one.\<close>
fun lsdb_link :: "ospf6_lsa \<Rightarrow> lsdb \<Rightarrow> lsdb" where
  "lsdb_link lsa [] = [lsa]"
| "lsdb_link lsa (l # db) =
     (if lsa_key lsa = lsa_key l then lsa # db
      else if lsa_key lsa < lsa_key l then lsa # l # db
      else l # lsdb_link lsa db)"

text \<open>The calls of hooks after the links are set. The comparison brings the ages up to date; \<^term>\<open>None\<close>
  if it would read outside an LSA.\<close>
definition lsdb_add_hooks ::
    "timeval \<Rightarrow> lsdb_hooks \<Rightarrow> ospf6_lsa option \<Rightarrow> ospf6_lsa \<Rightarrow> (lsdb_event list \<times> ospf6_lsa) option" where
  "lsdb_add_hooks now hk old lsa =
     (case old of
        Some old \<Rightarrow>
          (case ospf6_lsa_is_changed now old lsa of
             None \<Rightarrow> None
           | Some (changed, old, lsa) \<Rightarrow>
               Some (if changed then
                       if OSPF6_LSA_IS_MAXAGE now lsa then
                         (if hook_remove hk then [HookRemove old, HookRemove lsa] else [])
                       else if OSPF6_LSA_IS_MAXAGE now old then
                         (if hook_add hk then [HookAdd lsa] else [])
                       else (if hook_replace hk then [HookReplace old lsa] else [])
                     else (if hook_refresh hk then [HookRefresh old lsa] else []), lsa))
      | None \<Rightarrow>
          let maxage = OSPF6_LSA_IS_MAXAGE now lsa; lsa = snd (ospf6_lsa_age_current now lsa) in
          Some (if maxage then (if hook_remove hk then [HookRemove lsa] else [])
                else (if hook_add hk then [HookAdd lsa] else []), lsa))"

text \<open>The LSA is locked before the hooks run, and the old one unlocked after that.\<close>
definition ospf6_lsdb_add ::
    "timeval \<Rightarrow> lsdb_hooks \<Rightarrow> ospf6_lsa \<Rightarrow> lsdb \<Rightarrow> (lsdb_event list \<times> lsdb) option" where
  "ospf6_lsdb_add now hk lsa db =
     (let h = lsa_header lsa;
          old = ospf6_lsdb_lookup (h_type h) (h_id h) (h_adv_router h) db;
          lsa = ospf6_lsa_lock lsa in
      case lsdb_add_hooks now hk old lsa of
        None \<Rightarrow> None
      | Some (events, lsa) \<Rightarrow>
          (case (case old of None \<Rightarrow> Some None | Some old \<Rightarrow> ospf6_lsa_unlock old) of
             None \<Rightarrow> None
           | Some _ \<Rightarrow> Some (events, lsdb_link lsa db)))"

text \<open>The LSA must be the one in the database.\<close>
definition ospf6_lsdb_remove :: "lsdb_hooks \<Rightarrow> ospf6_lsa \<Rightarrow> lsdb \<Rightarrow> (lsdb_event list \<times> lsdb) option" where
  "ospf6_lsdb_remove hk lsa db =
     (let h = lsa_header lsa in
      if ospf6_lsdb_lookup (h_type h) (h_id h) (h_adv_router h) db \<noteq> Some lsa then None
      else
        case ospf6_lsa_unlock lsa of
          None \<Rightarrow> None
        | Some _ \<Rightarrow> Some (if hook_remove hk then [HookRemove lsa] else [], remove1 lsa db))"

text \<open>Iteration: the first LSA, and the one after a given position.\<close>
definition ospf6_lsdb_head :: "lsdb \<Rightarrow> ospf6_lsa option" where
  "ospf6_lsdb_head db = (case db of [] \<Rightarrow> None | l # _ \<Rightarrow> Some l)"

definition ospf6_lsdb_next :: "lsdb \<Rightarrow> nat \<Rightarrow> nat option" where
  "ospf6_lsdb_next db i = (if Suc i < length db then Some (Suc i) else None)"

text \<open>The first position whose key starts with the type, and the next one.\<close>
definition ospf6_lsdb_type_head :: "u16 \<Rightarrow> lsdb \<Rightarrow> nat option" where
  "ospf6_lsdb_type_head type db =
     (let i = length (takeWhile (\<lambda>l. h_type (lsa_header l) < type) db) in
      if i < length db \<and> h_type (lsa_header (db ! i)) = type then Some i else None)"

definition ospf6_lsdb_type_next :: "u16 \<Rightarrow> lsdb \<Rightarrow> nat \<Rightarrow> nat option" where
  "ospf6_lsdb_type_next type db i =
     (case ospf6_lsdb_next db i of
        None \<Rightarrow> None
      | Some k \<Rightarrow> if h_type (lsa_header (db ! k)) \<noteq> type then None else Some k)"

definition ospf6_lsdb_type_router_head :: "u16 \<Rightarrow> u32 \<Rightarrow> lsdb \<Rightarrow> nat option" where
  "ospf6_lsdb_type_router_head type adv_router db =
     (let i = length (takeWhile (\<lambda>l. (h_type (lsa_header l), h_adv_router (lsa_header l)) < (type, adv_router)) db) in
      if i < length db \<and> h_type (lsa_header (db ! i)) = type \<and> h_adv_router (lsa_header (db ! i)) = adv_router
      then Some i else None)"

definition ospf6_lsdb_type_router_next :: "u16 \<Rightarrow> u32 \<Rightarrow> lsdb \<Rightarrow> nat \<Rightarrow> nat option" where
  "ospf6_lsdb_type_router_next type adv_router db i =
     (case ospf6_lsdb_next db i of
        None \<Rightarrow> None
      | Some k \<Rightarrow>
          if h_type (lsa_header (db ! k)) \<noteq> type \<or> h_adv_router (lsa_header (db ! k)) \<noteq> adv_router
          then None else Some k)"

text \<open>Each LSA is held by the iteration while it is removed.\<close>
definition ospf6_lsdb_remove_all :: "lsdb_hooks \<Rightarrow> lsdb \<Rightarrow> lsdb_event list \<times> lsdb" where
  "ospf6_lsdb_remove_all hk db = (if hook_remove hk then map HookRemove db else [], [])"

text \<open>The sum of \<^verbatim>\<open>signed long\<close> is cut to 32 bits.\<close>
definition ospf6_new_ls_seqnum :: "u16 \<Rightarrow> u32 \<Rightarrow> u32 \<Rightarrow> lsdb \<Rightarrow> u32" where
  "ospf6_new_ls_seqnum type lsid adv_router db =
     (case ospf6_lsdb_lookup type lsid adv_router db of
        None \<Rightarrow> INITIAL_SEQUENCE_NUMBER
      | Some lsa \<Rightarrow> word_of_int (uint (h_seqnum (lsa_header lsa)) + 1))"

section \<open>The order\<close>

definition lsdb_sorted :: "lsdb \<Rightarrow> bool" where
  "lsdb_sorted db \<longleftrightarrow> sorted_wrt (<) (map lsa_key db)"

lemma lsdb_sorted_Cons [simp]:
  "lsdb_sorted (l # db) \<longleftrightarrow> (\<forall>x \<in> set db. lsa_key l < lsa_key x) \<and> lsdb_sorted db"
  by (simp add: lsdb_sorted_def)

lemma lsdb_sorted_Nil [simp]: "lsdb_sorted []"
  by (simp add: lsdb_sorted_def)

lemma set_lsdb_link_subset: "set (lsdb_link lsa db) \<subseteq> insert lsa (set db)"
  by (induction db) auto

lemma lsdb_sorted_link: "lsdb_sorted db \<Longrightarrow> lsdb_sorted (lsdb_link lsa db)"
proof (induction db)
  case (Cons l db)
  then show ?case
    using set_lsdb_link_subset [of lsa db]
    by (cases "lsa_key lsa = lsa_key l"; cases "lsa_key lsa < lsa_key l") (auto simp del: less_prod_simp intro: less_trans)
qed simp

lemma find_lsdb_link:
  assumes "lsdb_sorted db"
  shows "find (\<lambda>l. lsa_key l = k) (lsdb_link lsa db) =
    (if k = lsa_key lsa then Some lsa else find (\<lambda>l. lsa_key l = k) db)"
  using assms
proof (induction db)
  case (Cons l db)
  then show ?case
    by (cases "lsa_key lsa = lsa_key l"; cases "lsa_key lsa < lsa_key l"; cases "lsa_key l = k") simp_all
qed simp

section \<open>The contract of a list without hooks\<close>

text \<open>An LSA whose body is as long as its header says, as the comparison of contents needs.\<close>
definition lsa_wf :: "ospf6_lsa \<Rightarrow> bool" where
  "lsa_wf l \<longleftrightarrow> CHECK_FLAG (lsa_flag l) OSPF6_LSA_HEADERONLY \<or>
     20 \<le> unat (h_length (lsa_header l)) \<and> length (lsa_body l) = unat (h_length (lsa_header l)) - 20"

text \<open>The lists of a neighbor: sorted, and each LSA locked once by the list.\<close>
definition nbr_list_ok :: "lsdb \<Rightarrow> bool" where
  "nbr_list_ok db \<longleftrightarrow> lsdb_sorted db \<and> (\<forall>l \<in> set db. lsa_wf l \<and> lsa_lock l = 1)"

definition nbr_list_lookup :: "lsa_key \<Rightarrow> lsdb \<Rightarrow> ospf6_lsa option" where
  "nbr_list_lookup k db = (case k of (t, a, i) \<Rightarrow> ospf6_lsdb_lookup t i a db)"

definition nbr_list_add :: "timeval \<Rightarrow> ospf6_lsa \<Rightarrow> lsdb \<Rightarrow> lsdb option" where
  "nbr_list_add now lsa db = map_option snd (ospf6_lsdb_add now no_hooks lsa db)"

definition nbr_list_remove :: "ospf6_lsa \<Rightarrow> lsdb \<Rightarrow> lsdb option" where
  "nbr_list_remove lsa db = map_option snd (ospf6_lsdb_remove no_hooks lsa db)"

lemma lsa_key_age [simp]:
  "lsa_key (ospf6_lsa_lock l) = lsa_key l"
  by (simp add: lsa_key_def ospf6_lsa_lock_def)

lemma lsa_wf_age [simp]:
  "lsa_wf (snd (ospf6_lsa_age_current now l)) = lsa_wf l" "lsa_wf (ospf6_lsa_lock l) = lsa_wf l"
  by (simp_all add: lsa_wf_def ospf6_lsa_lock_def)

lemma is_changed_total:
  assumes "lsa_wf a" "lsa_wf b"
  shows "\<exists>c. ospf6_lsa_is_changed now a b =
    Some (c, snd (ospf6_lsa_age_current now a), snd (ospf6_lsa_age_current now b))"
  using assms
  by (auto simp: ospf6_lsa_is_changed_def lsa_body_memcmp_def lsa_wf_def Let_def CHECK_FLAG_def)

lemma lsa_unlock_one: "lsa_lock l = 1 \<Longrightarrow> ospf6_lsa_unlock l = Some None"
  by (simp add: ospf6_lsa_unlock_def ospf6_lsa_delete_def)

text \<open>The LSA as it is stored: its age brought up to date, and locked.\<close>
definition lsa_stored :: "timeval \<Rightarrow> ospf6_lsa \<Rightarrow> ospf6_lsa" where
  "lsa_stored now lsa = snd (ospf6_lsa_age_current now (ospf6_lsa_lock lsa))"

lemma lsa_stored_key [simp]: "lsa_key (lsa_stored now lsa) = lsa_key lsa"
  by (simp add: lsa_stored_def)

lemma lsa_stored_fields [simp]:
  "h_seqnum (lsa_header (lsa_stored now l)) = h_seqnum (lsa_header l)"
  "h_checksum (lsa_header (lsa_stored now l)) = h_checksum (lsa_header l)"
  "lsa_birth (lsa_stored now l) = lsa_birth l" "lsa_lock (lsa_stored now l) = lsa_lock l + 1"
  by (simp_all add: lsa_stored_def ospf6_lsa_lock_def)

lemma nbr_list_lookup_key:
  "ospf6_lsdb_lookup (h_type (lsa_header l)) (h_id (lsa_header l)) (h_adv_router (lsa_header l)) db =
     nbr_list_lookup (lsa_key l) db"
  by (simp add: nbr_list_lookup_def lsa_key_def)

lemma nbr_list_lookup_find: "nbr_list_lookup k db = find (\<lambda>l. lsa_key l = k) db"
  by (cases k) (simp add: nbr_list_lookup_def ospf6_lsdb_lookup_def)

lemma nbr_list_lookup_some: "nbr_list_lookup k db = Some l \<Longrightarrow> l \<in> set db \<and> lsa_key l = k"
  by (auto simp: nbr_list_lookup_find find_Some_iff in_set_conv_nth)

lemma nbr_list_add_eq:
  assumes "nbr_list_ok db" "lsa_wf lsa"
  shows "nbr_list_add now lsa db = Some (lsdb_link (lsa_stored now lsa) db)"
proof (cases "nbr_list_lookup (lsa_key lsa) db")
  case None
  then show ?thesis
    by (simp add: nbr_list_add_def ospf6_lsdb_add_def nbr_list_lookup_key lsdb_add_hooks_def Let_def lsa_stored_def)
next
  case (Some old)
  then have "old \<in> set db" using nbr_list_lookup_some by blast
  then have wf: "lsa_wf old" "lsa_lock old = 1" using assms(1) by (auto simp: nbr_list_ok_def)
  obtain c where "ospf6_lsa_is_changed now old (ospf6_lsa_lock lsa) =
      Some (c, snd (ospf6_lsa_age_current now old), lsa_stored now lsa)"
    using is_changed_total [OF wf(1), of "ospf6_lsa_lock lsa" now] assms(2) by (auto simp: lsa_stored_def)
  then show ?thesis
    using Some by (simp add: nbr_list_add_def ospf6_lsdb_add_def nbr_list_lookup_key lsdb_add_hooks_def Let_def
        lsa_unlock_one [OF wf(2)])
qed

lemma nbr_list_ok_link:
  assumes "nbr_list_ok db" "lsa_wf lsa" "lsa_lock lsa = 0"
  shows "nbr_list_ok (lsdb_link (lsa_stored now lsa) db)"
proof -
  have "lsa_wf (lsa_stored now lsa)" "lsa_lock (lsa_stored now lsa) = 1"
    using assms(2,3) by (simp add: lsa_stored_def, simp add: lsa_stored_def ospf6_lsa_lock_def)
  then show ?thesis
    using assms(1) set_lsdb_link_subset [of "lsa_stored now lsa" db] lsdb_sorted_link
    by (auto simp: nbr_list_ok_def)
qed

section \<open>The interface of the clients\<close>

text \<open>
  What the components that keep LSAs for a neighbor rely on: an addition returns, and a lookup
  afterwards finds the LSA as it was stored and otherwise what it found before.
\<close>
locale lsa_store =
  fixes ok :: "'s \<Rightarrow> bool" and empty :: "'s" and lookup :: "lsa_key \<Rightarrow> 's \<Rightarrow> ospf6_lsa option"
    and add :: "timeval \<Rightarrow> ospf6_lsa \<Rightarrow> 's \<Rightarrow> 's option"
  assumes ok_empty: "ok empty"
    and lookup_empty: "lookup k empty = None"
    and add_ok: "ok s \<Longrightarrow> lsa_wf l \<Longrightarrow> lsa_lock l = 0 \<Longrightarrow> \<exists>s'. add now l s = Some s' \<and> ok s'"
    and lookup_add: "ok s \<Longrightarrow> lsa_wf l \<Longrightarrow> add now l s = Some s' \<Longrightarrow>
      lookup k s' = (if k = lsa_key l then Some (lsa_stored now l) else lookup k s)"
    and lookup_ok: "ok s \<Longrightarrow> lookup k s = Some l \<Longrightarrow> lsa_key l = k \<and> lsa_wf l \<and> lsa_lock l = 1"
begin

text \<open>The sequence numbers that a lookup finds do not decrease, if only LSAs that are not older are added.\<close>

lemma add_monotone:
  assumes "ok s" "lsa_wf l" "add now l s = Some s'" "lookup k s = Some a"
    and "k = lsa_key l \<Longrightarrow> sint (h_seqnum (lsa_header a)) \<le> sint (h_seqnum (lsa_header l))"
  shows "\<exists>b. lookup k s' = Some b \<and> sint (h_seqnum (lsa_header a)) \<le> sint (h_seqnum (lsa_header b))"
  using assms lookup_add [OF assms(1-3), of k] by auto

text \<open>After an addition the LSA is found, with the fields that its identity and recency depend on.\<close>

lemma lookup_added:
  assumes "ok s" "lsa_wf l" "add now l s = Some s'"
  shows "\<exists>b. lookup (lsa_key l) s' = Some b \<and> lsa_key b = lsa_key l \<and>
    h_seqnum (lsa_header b) = h_seqnum (lsa_header l) \<and> h_checksum (lsa_header b) = h_checksum (lsa_header l) \<and>
    b = lsa_stored now l"
  using lookup_add [OF assms, of "lsa_key l"] by simp

end

interpretation nbr_list: lsa_store nbr_list_ok ospf6_lsdb_create nbr_list_lookup nbr_list_add
proof
  show "nbr_list_ok ospf6_lsdb_create" by (simp add: nbr_list_ok_def ospf6_lsdb_create_def)
  show "nbr_list_lookup k ospf6_lsdb_create = None" for k
    by (simp add: nbr_list_lookup_find ospf6_lsdb_create_def)
  show "\<exists>s'. nbr_list_add now l s = Some s' \<and> nbr_list_ok s'"
    if "nbr_list_ok s" "lsa_wf l" "lsa_lock l = 0" for s l now
    using nbr_list_add_eq [OF that(1,2)] nbr_list_ok_link [OF that] by simp
  show "nbr_list_lookup k s' = (if k = lsa_key l then Some (lsa_stored now l) else nbr_list_lookup k s)"
    if "nbr_list_ok s" "lsa_wf l" "nbr_list_add now l s = Some s'" for s l now s' k
    using nbr_list_add_eq [OF that(1,2), of now] that find_lsdb_link [of s k "lsa_stored now l"]
    by (simp add: nbr_list_lookup_find nbr_list_ok_def)
  show "lsa_key l = k \<and> lsa_wf l \<and> lsa_lock l = 1" if "nbr_list_ok s" "nbr_list_lookup k s = Some l" for s k l
    using nbr_list_lookup_some [OF that(2)] that(1) by (auto simp: nbr_list_ok_def)
qed

section \<open>Properties\<close>

lemma length_lsdb_link:
  assumes "lsdb_sorted db"
  shows "length (lsdb_link lsa db) = (if nbr_list_lookup (lsa_key lsa) db = None then Suc (length db) else length db)"
  using assms
proof (induction db)
  case Nil
  then show ?case by (simp add: nbr_list_lookup_find)
next
  case (Cons l db)
  have "nbr_list_lookup (lsa_key lsa) db = None" if "lsa_key lsa < lsa_key l"
    using that Cons.prems by (auto simp: nbr_list_lookup_find find_None_iff)
  with Cons show ?case
    by (cases "lsa_key lsa = lsa_key l"; cases "lsa_key lsa < lsa_key l") (simp_all add: nbr_list_lookup_find)
qed

text \<open>The fields of an LSA that a comparison of instances looks at.\<close>
definition lsa_instance :: "ospf6_lsa \<Rightarrow> lsa_key \<times> u32 \<times> u16 \<times> u8 list" where
  "lsa_instance l = (lsa_key l, h_seqnum (lsa_header l), h_checksum (lsa_header l), lsa_body l)"

lemma add_hooks_instance:
  assumes "lsdb_add_hooks now hk old lsa = Some (events, lsa')"
  shows "lsa_instance lsa' = lsa_instance lsa"
proof -
  have "\<And>a b c a' b'. ospf6_lsa_is_changed now a b = Some (c, a', b') \<Longrightarrow> b' = snd (ospf6_lsa_age_current now b)"
    by (auto simp: ospf6_lsa_is_changed_def Let_def split: if_splits)
  moreover have "lsa_instance (snd (ospf6_lsa_age_current now lsa)) = lsa_instance lsa"
    by (simp add: lsa_instance_def)
  ultimately show ?thesis
    using assms by (auto simp: lsdb_add_hooks_def Let_def split: option.splits prod.splits)
qed



text \<open>Iteration over the LSAs of a type: the positions that it visits from a given one.\<close>

function lsdb_type_iter :: "u16 \<Rightarrow> lsdb \<Rightarrow> nat option \<Rightarrow> nat list" where
  "lsdb_type_iter type db None = []"
| "lsdb_type_iter type db (Some i) = i # lsdb_type_iter type db (ospf6_lsdb_type_next type db i)"
  by pat_completeness auto
termination
  by (relation "measure (\<lambda>(type, db, p). case p of None \<Rightarrow> 0 | Some i \<Rightarrow> Suc (length db - i))")
    (auto simp: ospf6_lsdb_type_next_def ospf6_lsdb_next_def split: option.splits if_splits)

lemma lsdb_sorted_type:
  assumes "lsdb_sorted db" "i < length db" "l \<in> set (drop i db)"
  shows "h_type (lsa_header (db ! i)) \<le> h_type (lsa_header l)"
proof -
  have drop: "drop i db = db ! i # drop (Suc i) db" by (rule Cons_nth_drop_Suc [symmetric]) (rule assms(2))
  have "lsdb_sorted (drop i db)"
    using assms(1) by (simp add: lsdb_sorted_def drop_map [symmetric] sorted_wrt_drop)
  then have "l = db ! i \<or> lsa_key (db ! i) < lsa_key l" using assms(3) by (auto simp: drop)
  then show ?thesis by (auto simp: lsa_key_def)
qed

lemma lsdb_type_iter_from:
  assumes "lsdb_sorted db" "i < length db" "h_type (lsa_header (db ! i)) = type"
  shows "map ((!) db) (lsdb_type_iter type db (Some i)) = filter (\<lambda>l. h_type (lsa_header l) = type) (drop i db)"
  using assms(2,3)
proof (induction "length db - i" arbitrary: i)
  case (Suc n)
  have drop: "drop i db = db ! i # drop (Suc i) db" by (rule Cons_nth_drop_Suc [symmetric]) (rule Suc.prems(1))
  show ?case
  proof (cases "Suc i < length db \<and> h_type (lsa_header (db ! Suc i)) = type")
    case True
    then have nx: "ospf6_lsdb_type_next type db i = Some (Suc i)"
      by (simp add: ospf6_lsdb_type_next_def ospf6_lsdb_next_def)
    have "map ((!) db) (lsdb_type_iter type db (Some (Suc i))) = filter (\<lambda>l. h_type (lsa_header l) = type) (drop (Suc i) db)"
      by (rule Suc.hyps(1)) (use Suc.hyps(2) True in auto)
    then show ?thesis using Suc.prems by (simp add: nx drop)
  next
    case False
    then have "ospf6_lsdb_type_next type db i = None"
      by (auto simp: ospf6_lsdb_type_next_def ospf6_lsdb_next_def)
    moreover have "h_type (lsa_header l) \<noteq> type" if mem: "l \<in> set (drop (Suc i) db)" for l
    proof -
      have len: "Suc i < length db" using mem by (cases "Suc i < length db") auto
      then have "db ! Suc i \<in> set (drop i db)" by (simp add: drop Cons_nth_drop_Suc [symmetric])
      then have "type \<le> h_type (lsa_header (db ! Suc i))"
        using lsdb_sorted_type [OF assms(1) Suc.prems(1)] Suc.prems(2) by simp
      moreover have "h_type (lsa_header (db ! Suc i)) \<le> h_type (lsa_header l)"
        by (rule lsdb_sorted_type [OF assms(1) len mem])
      ultimately show ?thesis using False len by auto
    qed
    ultimately show ?thesis using Suc.prems by (simp add: drop)
  qed
qed simp



lemma sint_u32: "sint (w :: u32) = (if uint w < 2147483648 then uint w else uint w - 4294967296)"
proof -
  have "0 \<le> uint w" "uint w < 4294967296" using uint_lt2p [of w] by simp_all
  moreover from this have "(uint w + 2147483648) mod 4294967296 =
      (if uint w < 2147483648 then uint w + 2147483648 else uint w - 2147483648)"
    using minus_mod_self2 [of "uint w + 2147483648" 4294967296] by (auto simp: mod_pos_pos_trivial)
  ultimately show ?thesis
    by (simp add: sint_uint signed_take_bit_eq_take_bit_shift take_bit_eq_mod)
qed

lemma sint_succ_u32:
  fixes w :: u32
  assumes "w \<noteq> MAX_SEQUENCE_NUMBER"
  shows "sint (w + 1) = sint w + 1"
proof -
  have "uint w \<noteq> 2147483647" using assms by (simp add: word_uint_eq_iff)
  moreover have "0 \<le> uint w" "uint w < 4294967296" using uint_lt2p [of w] by simp_all
  moreover have "uint (w + 1) = (uint w + 1) mod 4294967296" by (simp add: uint_word_ariths)
  ultimately show ?thesis by (cases "uint w = 4294967295") (auto simp: sint_u32)
qed


end
