(* ===== verification/Ospf6_Types.thy ===== *)
theory Ospf6_Types
  imports Lsdb
begin

text \<open>
  The data structures that the components of the daemon share: neighbor and interface, each with
  the part that belongs to the MDR extension (\<^verbatim>\<open>src/ospf6d/ospf6_neighbor.h\<close>,
  \<^verbatim>\<open>ospf6_mdr_neighbor.h\<close>, \<^verbatim>\<open>ospf6_interface.h\<close>, \<^verbatim>\<open>ospf6_mdr_interface.h\<close>), the constants of
  the process (\<^verbatim>\<open>ospf6_top.h\<close>), and the time arithmetic of \<^verbatim>\<open>src/lib/thread.c\<close>.

  Pointers: a neighbor is identified by its router ID, which is unique in the neighbor list of an
  interface (\<open>ospf6_neighbor_lookup\<close> finds it by that ID before a new one is created), so
  \<^verbatim>\<open>parent\<close> and \<^verbatim>\<open>bparent\<close> hold router IDs; a tree node of the MDR calculation is identified by
  its position in the list of allocated nodes. Names, private data and the dump strings are left
  out.
\<close>

section \<open>Time\<close>

definition timersub :: "timeval \<Rightarrow> timeval \<Rightarrow> timeval" where
  "timersub a b =
     (let sec = tv_sec a - tv_sec b; usec = tv_usec a - tv_usec b in
      if usec < 0 then \<lparr>tv_sec = sec - 1, tv_usec = usec + 1000000\<rparr>
      else \<lparr>tv_sec = sec, tv_usec = usec\<rparr>)"

definition timersub_sec :: "timeval \<Rightarrow> timeval \<Rightarrow> int" where
  "timersub_sec a b = (let delta = timersub a b in tv_sec delta + tv_usec delta sdiv 1000000)"

definition timersub_msec :: "timeval \<Rightarrow> timeval \<Rightarrow> int" where
  "timersub_msec a b = (let delta = timersub a b in tv_sec delta * 1000 + tv_usec delta sdiv 1000)"

definition elapsed_sec :: "timeval \<Rightarrow> timeval \<Rightarrow> int" where
  "elapsed_sec now t = timersub_sec now t"

definition elapsed_msec :: "timeval \<Rightarrow> timeval \<Rightarrow> int" where
  "elapsed_msec now t = timersub_msec now t"

section \<open>Neighbors\<close>

datatype nbr_state =
    OSPF6_NEIGHBOR_DOWN | OSPF6_NEIGHBOR_ATTEMPT | OSPF6_NEIGHBOR_INIT | OSPF6_NEIGHBOR_TWOWAY
  | OSPF6_NEIGHBOR_EXSTART | OSPF6_NEIGHBOR_EXCHANGE | OSPF6_NEIGHBOR_LOADING | OSPF6_NEIGHBOR_FULL

text \<open>The numbers of the states, which the code compares.\<close>
primrec nbr_state_num :: "nbr_state \<Rightarrow> nat" where
  "nbr_state_num OSPF6_NEIGHBOR_DOWN = 1"
| "nbr_state_num OSPF6_NEIGHBOR_ATTEMPT = 2"
| "nbr_state_num OSPF6_NEIGHBOR_INIT = 3"
| "nbr_state_num OSPF6_NEIGHBOR_TWOWAY = 4"
| "nbr_state_num OSPF6_NEIGHBOR_EXSTART = 5"
| "nbr_state_num OSPF6_NEIGHBOR_EXCHANGE = 6"
| "nbr_state_num OSPF6_NEIGHBOR_LOADING = 7"
| "nbr_state_num OSPF6_NEIGHBOR_FULL = 8"

instantiation nbr_state :: linorder
begin

definition less_eq_nbr_state :: "nbr_state \<Rightarrow> nbr_state \<Rightarrow> bool" where
  "less_eq_nbr_state s t \<longleftrightarrow> nbr_state_num s \<le> nbr_state_num t"

definition less_nbr_state :: "nbr_state \<Rightarrow> nbr_state \<Rightarrow> bool" where
  "less_nbr_state s t \<longleftrightarrow> nbr_state_num s < nbr_state_num t"

instance
proof
  fix s t :: nbr_state
  show "s \<le> t \<Longrightarrow> t \<le> s \<Longrightarrow> s = t"
    by (cases s; cases t) (simp_all add: less_eq_nbr_state_def)
qed (auto simp: less_eq_nbr_state_def less_nbr_state_def)

end

text \<open>Levels in the connected dominating set; the code compares and orders them as numbers.\<close>
abbreviation (input) OSPF6_OTHER :: int where "OSPF6_OTHER \<equiv> 0"
abbreviation (input) OSPF6_BMDR :: int where "OSPF6_BMDR \<equiv> 1"
abbreviation (input) OSPF6_MDR :: int where "OSPF6_MDR \<equiv> 2"

record ospf6_mdr_neighbor =
  nm_ack_list :: lsdb
  nm_thread_ack_list_expire :: "thread option"
  nm_routable :: bool
  nm_dependent :: bool
  nm_dependent_selector :: bool
  nm_adv :: bool
  nm_sel_adv :: bool
  nm_Abit :: bool
  nm_rnl :: "rid list"
  nm_dnl :: "rid list"
  nm_sanl :: "rid list"
  nm_list_type :: int
  nm_hops :: nat
  nm_hops2 :: nat
  nm_treenode :: "nat option"
  nm_child :: bool
  nm_Report2Hop :: bool
  nm_reverse_2way :: bool
  nm_mdr_level :: int
  nm_cost_matrix_index :: nat
  nm_hsn :: u16
  nm_changed_hsn :: u16
  nm_consec_hellos :: int

record ospf6_dbdesc =
  dd_reserved1 :: u8
  dd_options :: "u8 list"
  dd_ifmtu :: u16
  dd_reserved2 :: u8
  dd_bits :: u8
  dd_seqnum :: u32

record ospf6_neighbor =
  on_state :: nbr_state
  on_last_changed :: timeval
  on_router_id :: rid
  on_ifindex :: u32
  on_priority :: u8
  on_drouter :: rid
  on_bdrouter :: rid
  on_prev_drouter :: rid
  on_prev_bdrouter :: rid
  on_options :: "u8 list"
  on_linklocal_addr :: "u8 list"
  on_dbdesc_bits :: u8
  on_dbdesc_seqnum :: u32
  on_dbdesc_last :: ospf6_dbdesc
  on_summary_list :: lsdb
  on_request_list :: lsdb
  on_retrans_list :: lsdb
  on_dbdesc_list :: lsdb
  on_lsreq_list :: lsdb
  on_lsupdate_list :: lsdb
  on_lsack_list :: lsdb
  on_request_retrans_wait :: bool
  on_inactivity_timer :: "thread option"
  on_thread_send_dbdesc :: "thread option"
  on_thread_send_lsreq :: "thread option"
  on_thread_send_lsupdate :: "thread option"
  on_thread_send_lsack :: "thread option"
  on_thread_adjok :: "thread option"
  on_cost :: u32
  on_mdr :: ospf6_mdr_neighbor

section \<open>Interfaces\<close>

datatype ospf6_AdjConnectivity =
    OSPF6_ADJ_FULLYCONNECTED | OSPF6_ADJ_UNICONNECTED | OSPF6_ADJ_BICONNECTED

datatype ospf6_LSAFullness =
    OSPF6_LSA_FULLNESS_MIN | OSPF6_LSA_FULLNESS_MINCOST | OSPF6_LSA_FULLNESS_MINCOST2PATHS
  | OSPF6_LSA_FULLNESS_MDRFULL | OSPF6_LSA_FULLNESS_FULL

text \<open>An element of the list of lost neighbors: a router ID and the Hello sequence number at the
  time it was lost.\<close>
record ospf6_lnl_element =
  lnl_id :: rid
  lnl_hsn :: u16

text \<open>
  The three matrices that the calculations allocate and free before they return are values local
  to the calculations, and not fields.
\<close>
record ospf6_mdr_interface =
  im_ackInterval :: int
  im_ack_cache_timeout :: int
  im_nonflooding_mdr :: bool
  im_BackupWaitInterval :: int
  im_AdjConnectivity :: ospf6_AdjConnectivity
  im_LSAFullness :: ospf6_LSAFullness
  im_MDRConstraint :: int
  im_mdr_level :: int
  im_consec_hello_threshold :: int
  im_parent :: "rid option"
  im_bparent :: "rid option"
  im_TwoHopRefresh :: u16
  im_HelloRepeatCount :: u16
  im_lnl :: "ospf6_lnl_element list"
  im_hsn :: u16
  im_full_hello_count :: u32
  im_update_routable_neighbors_immediately :: bool

datatype if_type =
    OSPF6_IFTYPE_NONE | OSPF6_IFTYPE_POINTOPOINT | OSPF6_IFTYPE_BROADCAST | OSPF6_IFTYPE_NBMA
  | OSPF6_IFTYPE_POINTOMULTIPOINT | OSPF6_IFTYPE_VIRTUALLINK | OSPF6_IFTYPE_LOOPBACK
  | OSPF6_IFTYPE_MDR

datatype if_state =
    OSPF6_INTERFACE_NONE | OSPF6_INTERFACE_DOWN | OSPF6_INTERFACE_LOOPBACK
  | OSPF6_INTERFACE_WAITING | OSPF6_INTERFACE_POINTTOPOINT | OSPF6_INTERFACE_DROTHER
  | OSPF6_INTERFACE_BDR | OSPF6_INTERFACE_DR

text \<open>
  Calls into components that are not modelled as state here, in the order in which they are made:
  scheduling of LSA origination, of the SPF calculation, of events and of packets, membership in the
  multicast groups (joined or left), and the registered hooks.
\<close>
datatype effect =
    RouterLsaSchedule | SpfSchedule | NetworkLsaSchedule | IntraPrefixTransitSchedule
  | IntraPrefixStubSchedule | UpdateMdrLevelHooks int
  | NeighborStateHooks rid nbr_state nbr_state
  | NeighborChange
  | AdjacencyEvent rid
  | SendHello
  | MaxageRemove
  | DeleteNeighborHooks rid
  | BackupSeen
  | AllDRouters bool | AllSpfRouters bool
  | NetworkLsaExecute | IntraPrefixTransitExecute | LinkLsaSchedule | ConnectedRouteUpdate | CostUpdateHooks
  | WaitTimer u16
  | InactivityEvent rid
  | SeqnumberMismatchEvent rid | ExchangeDoneEvent rid | SendDbdescNewone rid

record ospf6_interface =
  oi_ifindex :: u32
  oi_area_id :: u32
  oi_neighbor_list :: "ospf6_neighbor list"
  oi_transdelay :: u32
  oi_priority :: u8
  oi_hello_interval :: u16
  oi_dead_interval :: u16
  oi_rxmt_interval :: u32
  oi_config_status :: u32
  oi_cost :: u32
  oi_ifmtu :: u32
  oi_state :: if_state
  oi_flag :: u8
  oi_mtu_ignore :: bool
  oi_drouter :: rid
  oi_bdrouter :: rid
  oi_prev_drouter :: rid
  oi_prev_bdrouter :: rid
  oi_lsdb :: lsdb
  oi_lsdb_self :: lsdb
  oi_lsupdate_list :: lsdb
  oi_lsack_list :: lsdb
  oi_thread_send_hello :: "thread option"
  oi_thread_send_lsupdate :: "thread option"
  oi_thread_send_lsack :: "thread option"
  oi_type :: if_type
  oi_LinkLSASuppression :: bool
  oi_allow_immediate_hello :: bool
  oi_last_hello_time :: timeval
  oi_initial_immediate_hello_delay :: u32
  oi_immediate_hello_delay :: u32
  oi_flood_delay :: int
  oi_relax_neighbor_inactivity :: bool
  oi_adjacency_formation_limit :: u32
  oi_mdr :: ospf6_mdr_interface
  oi_effects :: "effect list"

text \<open>The part of \<^verbatim>\<open>struct ospf6\<close> that the modelled components read.\<close>
record ospf6 =
  o_instance_id :: u8
  o_router_id :: rid
  o_starttime :: timeval
  o_min_lsa_arrival :: u16
  o_min_lsa_interval :: u16
  o_af_interop :: bool
  o_mdr_tlv_interop :: bool

section \<open>Access to the neighbors of an interface\<close>

abbreviation num_neigh :: "ospf6_interface \<Rightarrow> nat" where
  "num_neigh oi \<equiv> length (oi_neighbor_list oi)"

abbreviation nbr :: "ospf6_interface \<Rightarrow> nat \<Rightarrow> ospf6_neighbor" where
  "nbr oi j \<equiv> oi_neighbor_list oi ! j"

definition nbr_update :: "nat \<Rightarrow> (ospf6_neighbor \<Rightarrow> ospf6_neighbor) \<Rightarrow> ospf6_interface \<Rightarrow> ospf6_interface" where
  "nbr_update j f oi = oi\<lparr>oi_neighbor_list := (oi_neighbor_list oi)[j := f (nbr oi j)]\<rparr>"

definition nbr_mdr_update ::
    "nat \<Rightarrow> (ospf6_mdr_neighbor \<Rightarrow> ospf6_mdr_neighbor) \<Rightarrow> ospf6_interface \<Rightarrow> ospf6_interface" where
  "nbr_mdr_update j f = nbr_update j (on_mdr_update f)"

definition emit :: "effect \<Rightarrow> ospf6_interface \<Rightarrow> ospf6_interface" where
  "emit e oi = oi\<lparr>oi_effects := oi_effects oi @ [e]\<rparr>"

lemma length_nbr_update [simp]: "num_neigh (nbr_update j f oi) = num_neigh oi"
  by (simp add: nbr_update_def)

lemma nth_nbr_update [simp]:
  "k < num_neigh oi \<Longrightarrow> nbr (nbr_update j f oi) k = (if j = k then f (nbr oi k) else nbr oi k)"
  by (auto simp: nbr_update_def)

lemma nbr_update_fields [simp]:
  "oi_mdr (nbr_update j f oi) = oi_mdr oi" "oi_priority (nbr_update j f oi) = oi_priority oi"
  "oi_effects (nbr_update j f oi) = oi_effects oi"
  by (simp_all add: nbr_update_def)

lemma length_nbr_mdr_update [simp]: "num_neigh (nbr_mdr_update j f oi) = num_neigh oi"
  by (simp add: nbr_mdr_update_def)

lemma nth_nbr_mdr_update [simp]:
  "k < num_neigh oi \<Longrightarrow>
   nbr (nbr_mdr_update j f oi) k = (if j = k then on_mdr_update f (nbr oi k) else nbr oi k)"
  by (simp add: nbr_mdr_update_def)

lemma nbr_mdr_update_fields [simp]:
  "oi_mdr (nbr_mdr_update j f oi) = oi_mdr oi" "oi_priority (nbr_mdr_update j f oi) = oi_priority oi"
  "oi_effects (nbr_mdr_update j f oi) = oi_effects oi"
  by (simp_all add: nbr_mdr_update_def)

lemma emit_fields [simp]:
  "oi_neighbor_list (emit e oi) = oi_neighbor_list oi" "oi_mdr (emit e oi) = oi_mdr oi"
  "oi_priority (emit e oi) = oi_priority oi"
  by (simp_all add: emit_def)

end
