(* ===== verification/Mdr_Cost.thy ===== *)
theory Mdr_Cost
  imports Ospf6_Types
begin

text \<open>
  The neighbor connectivity that the MDR calculations work on, from \<^verbatim>\<open>src/ospf6d/ospf6_mdr.c\<close>:
  the matrix of links between neighbors, which is built from the bidirectional neighbor lists
  (RNL) the neighbors report in their Hellos, the cost function on it, and the lexicographic order
  on (priority, MDR level, router ID). The matrix is a function on the indices that
  \<open>ospf6_mdr_create_cost_matrix\<close> assigns to the neighbors.
\<close>

type_synonym matrix = "nat \<Rightarrow> nat \<Rightarrow> int"

abbreviation (input) INFTY :: nat where "INFTY \<equiv> 10000"

definition mat_set :: "nat \<Rightarrow> nat \<Rightarrow> int \<Rightarrow> matrix \<Rightarrow> matrix" where
  "mat_set j k v m = m(j := (m j)(k := v))"

abbreviation mx_index :: "ospf6_interface \<Rightarrow> nat \<Rightarrow> nat" where
  "mx_index oi j \<equiv> nm_cost_matrix_index (on_mdr (nbr oi j))"

abbreviation report2hop :: "ospf6_interface \<Rightarrow> nat \<Rightarrow> bool" where
  "report2hop oi j \<equiv> nm_Report2Hop (on_mdr (nbr oi j))"

abbreviation twoway :: "ospf6_interface \<Rightarrow> nat \<Rightarrow> bool" where
  "twoway oi j \<equiv> on_state (nbr oi j) \<ge> OSPF6_NEIGHBOR_TWOWAY"

abbreviation nbr_level :: "ospf6_interface \<Rightarrow> nat \<Rightarrow> int" where
  "nbr_level oi j \<equiv> nm_mdr_level (on_mdr (nbr oi j))"

section \<open>Definitions\<close>

text \<open>The first loop: the position in the list becomes the matrix index.\<close>
definition cost_matrix_init :: "ospf6_interface \<Rightarrow> ospf6_interface" where
  "cost_matrix_init oi =
     fold (\<lambda>j. nbr_mdr_update j (nm_cost_matrix_index_update (\<lambda>_. j))) [0 ..< num_neigh oi] oi"

text \<open>One entry of the second loop: is neighbor \<open>k\<close> in the list that \<open>j\<close> reports?\<close>
definition cost_matrix_report :: "ospf6_interface \<Rightarrow> nat \<Rightarrow> nat \<Rightarrow> matrix \<Rightarrow> matrix" where
  "cost_matrix_report oi j k m =
     (if j = k then m
      else if on_state (nbr oi j) < OSPF6_NEIGHBOR_TWOWAY \<or> on_state (nbr oi k) < OSPF6_NEIGHBOR_TWOWAY
      then m
      else if \<not> report2hop oi j \<and> \<not> report2hop oi k then m
      else if on_router_id (nbr oi k) \<in> set (nm_rnl (on_mdr (nbr oi j)))
      then mat_set (mx_index oi j) (mx_index oi k) 1 m
      else m)"

text \<open>One entry of the third loop, which makes the matrix symmetric.\<close>
definition cost_matrix_symmetric :: "ospf6_interface \<Rightarrow> nat \<Rightarrow> nat \<Rightarrow> matrix \<Rightarrow> matrix" where
  "cost_matrix_symmetric oi j k m =
     (let ij = mx_index oi j; ik = mx_index oi k in
      if j = k then m
      else if on_state (nbr oi j) < OSPF6_NEIGHBOR_TWOWAY \<or> on_state (nbr oi k) < OSPF6_NEIGHBOR_TWOWAY
      then m
      else if \<not> report2hop oi j \<and> \<not> report2hop oi k then m
      else if report2hop oi j \<and> report2hop oi k then
        let p = m ij ik * m ik ij in mat_set ij ik p (mat_set ik ij p m)
      else if report2hop oi j \<and> \<not> report2hop oi k then mat_set ik ij (m ij ik) m
      else if \<not> report2hop oi j \<and> report2hop oi k then mat_set ij ik (m ik ij) m
      else m)"

definition ospf6_mdr_create_cost_matrix :: "ospf6_interface \<Rightarrow> matrix \<times> ospf6_interface" where
  "ospf6_mdr_create_cost_matrix oi0 =
     (let oi = cost_matrix_init oi0;
          nbrs = [0 ..< num_neigh oi];
          m0 = (\<lambda>_ _. 0);
          m1 = fold (\<lambda>j m. fold (cost_matrix_report oi j) nbrs
                            (mat_set (mx_index oi j) (mx_index oi j) 0 m)) nbrs m0;
          m2 = fold (\<lambda>j. fold (cost_matrix_symmetric oi j) nbrs) nbrs m1
      in (m2, oi))"

definition ospf6_sidcds_lexicographic ::
    "int \<Rightarrow> int \<Rightarrow> int \<Rightarrow> int \<Rightarrow> u32 \<Rightarrow> u32 \<Rightarrow> bool" where
  "ospf6_sidcds_lexicographic RtrPri_A RtrPri_B DRLevel_A DRLevel_B RID_A RID_B =
     (if RtrPri_A > RtrPri_B then True
      else if RtrPri_A = RtrPri_B \<and> DRLevel_A > DRLevel_B then True
      else if RtrPri_A = RtrPri_B \<and> DRLevel_A = DRLevel_B \<and> RID_A > RID_B then True
      else False)"

text \<open>
  The cost of the link from neighbor \<open>j\<close> to this router (\<open>onk = None\<close>) or to neighbor \<open>k\<close>; only
  neighbors that are not smaller than this router relay.
\<close>
definition ospf6_mdr_cost :: "ospf6 \<Rightarrow> ospf6_interface \<Rightarrow> matrix \<Rightarrow> nat \<Rightarrow> nat option \<Rightarrow> int" where
  "ospf6_mdr_cost ospf6 oi cm j onk =
     (if on_state (nbr oi j) < OSPF6_NEIGHBOR_TWOWAY then 0
      else case onk of
        None \<Rightarrow> 1
      | Some k \<Rightarrow>
          if ospf6_sidcds_lexicographic (uint (oi_priority oi)) (uint (on_priority (nbr oi j)))
               (im_mdr_level (oi_mdr oi)) (nbr_level oi j)
               (o_router_id ospf6) (on_router_id (nbr oi j))
          then int INFTY
          else cm (mx_index oi j) (mx_index oi k))"

text \<open>Level of a neighbor from the MDR and backup MDR fields of its Hello; the result says whether
  the level changed.\<close>
definition ospf6_mdr_set_mdr_level :: "ospf6 \<Rightarrow> rid \<Rightarrow> rid \<Rightarrow> ospf6_neighbor \<Rightarrow> bool \<times> ospf6_neighbor" where
  "ospf6_mdr_set_mdr_level ospf6 id1 id2 on =
     (let old_mdr_level = nm_mdr_level (on_mdr on);
          m = (on_mdr on)\<lparr>nm_child := False\<rparr>;
          m = m\<lparr>nm_mdr_level :=
                 (if on_router_id on = id1 then OSPF6_MDR
                  else if on_router_id on = id2 then OSPF6_BMDR
                  else OSPF6_OTHER)\<rparr>;
          m = (if o_router_id ospf6 = id1 \<or> o_router_id ospf6 = id2 then m\<lparr>nm_child := True\<rparr> else m);
          changed = (old_mdr_level \<noteq> nm_mdr_level m);
          m = (if nm_mdr_level m = OSPF6_OTHER then m\<lparr>nm_dependent := False\<rparr> else m)
      in (changed, on\<lparr>on_mdr := m\<rparr>))"

section \<open>Lemmas\<close>

lemma mat_set_apply [simp]:
  "mat_set j k v m a b = (if a = j \<and> b = k then v else m a b)"
  by (simp add: mat_set_def)

text \<open>The comparison is the strict order on triples.\<close>

lemma ospf6_sidcds_lexicographic_iff:
  "ospf6_sidcds_lexicographic p q l m r s \<longleftrightarrow> (q, m, s) < (p, l, r)"
  by (auto simp: ospf6_sidcds_lexicographic_def less_prod_def less_eq_prod_def)

lemma num_neigh_cost_matrix_init [simp]: "num_neigh (cost_matrix_init oi) = num_neigh oi"
proof -
  have "num_neigh (fold (\<lambda>j. nbr_mdr_update j (f j)) js oi) = num_neigh oi" for f js
    by (induction js arbitrary: oi) auto
  then show ?thesis by (simp add: cost_matrix_init_def)
qed

lemma fold_nbr_mdr_update:
  assumes "distinct js" "k < num_neigh oi"
  shows "nbr (fold (\<lambda>j. nbr_mdr_update j (f j)) js oi) k =
    (if k \<in> set js then on_mdr_update (f k) (nbr oi k) else nbr oi k)"
  using assms by (induction js arbitrary: oi) auto

lemma nbr_cost_matrix_init:
  "k < num_neigh oi \<Longrightarrow>
   nbr (cost_matrix_init oi) k = on_mdr_update (nm_cost_matrix_index_update (\<lambda>_. k)) (nbr oi k)"
  unfolding cost_matrix_init_def by (subst fold_nbr_mdr_update) auto

lemma cost_matrix_init_fields [simp]:
  "oi_mdr (cost_matrix_init oi) = oi_mdr oi" "oi_priority (cost_matrix_init oi) = oi_priority oi"
  "oi_effects (cost_matrix_init oi) = oi_effects oi"
proof -
  have "oi_mdr (fold (\<lambda>j. nbr_mdr_update j (f j)) js oi) = oi_mdr oi \<and>
    oi_priority (fold (\<lambda>j. nbr_mdr_update j (f j)) js oi) = oi_priority oi \<and>
    oi_effects (fold (\<lambda>j. nbr_mdr_update j (f j)) js oi) = oi_effects oi" for f js
    by (induction js arbitrary: oi) auto
  then show "oi_mdr (cost_matrix_init oi) = oi_mdr oi"
    "oi_priority (cost_matrix_init oi) = oi_priority oi"
    "oi_effects (cost_matrix_init oi) = oi_effects oi"
    by (simp_all add: cost_matrix_init_def)
qed

text \<open>What the neighbors report about a pair: a full two-hop report on both sides must agree, and
  otherwise the side with the full report decides.\<close>

definition nbrs_linked :: "ospf6_interface \<Rightarrow> nat \<Rightarrow> nat \<Rightarrow> bool" where
  "nbrs_linked oi j k \<longleftrightarrow>
     j \<noteq> k \<and> twoway oi j \<and> twoway oi k \<and> (report2hop oi j \<or> report2hop oi k) \<and>
     (report2hop oi j \<longrightarrow> on_router_id (nbr oi k) \<in> set (nm_rnl (on_mdr (nbr oi j)))) \<and>
     (report2hop oi k \<longrightarrow> on_router_id (nbr oi j) \<in> set (nm_rnl (on_mdr (nbr oi k))))"

lemma nbrs_linked_sym: "nbrs_linked oi j k \<longleftrightarrow> nbrs_linked oi k j"
  by (auto simp: nbrs_linked_def)

definition nbr_reports :: "ospf6_interface \<Rightarrow> nat \<Rightarrow> nat \<Rightarrow> bool" where
  "nbr_reports oi j k \<longleftrightarrow>
     j \<noteq> k \<and> twoway oi j \<and> twoway oi k \<and> (report2hop oi j \<or> report2hop oi k) \<and>
     on_router_id (nbr oi k) \<in> set (nm_rnl (on_mdr (nbr oi j)))"

lemma fold_cost_matrix_report:
  assumes "mx_index oi j = j" "\<And>k. k \<in> set ks \<Longrightarrow> mx_index oi k = k"
  shows "fold (cost_matrix_report oi j) ks m a b =
    (if a = j \<and> b \<in> set ks \<and> nbr_reports oi j b then 1 else m a b)"
  using assms
proof (induction ks arbitrary: m)
  case (Cons k ks)
  have "cost_matrix_report oi j k m a b = (if a = j \<and> b = k \<and> nbr_reports oi j k then 1 else m a b)"
    using Cons.prems by (auto simp: cost_matrix_report_def nbr_reports_def not_less [symmetric])
  with Cons show ?case by auto
qed simp

lemma fold_cost_matrix_report_rows:
  assumes "\<And>k. k < num_neigh oi \<Longrightarrow> mx_index oi k = k"
    and "set js \<subseteq> {..< num_neigh oi}" "\<And>x. m x x = 0"
  shows "fold (\<lambda>j m. fold (cost_matrix_report oi j) [0 ..< num_neigh oi]
           (mat_set (mx_index oi j) (mx_index oi j) 0 m)) js m a b =
    (if a \<in> set js \<and> b < num_neigh oi \<and> nbr_reports oi a b then 1 else m a b)"
proof -
  define F where "F = (\<lambda>j m. fold (cost_matrix_report oi j) [0 ..< num_neigh oi]
    (mat_set (mx_index oi j) (mx_index oi j) 0 m))"
  have F: "F j m x y = (if x = j \<and> y < num_neigh oi \<and> nbr_reports oi j y then 1 else m x y)"
    if "j < num_neigh oi" "\<And>x. m x x = 0" for j m x y
    unfolding F_def using that by (subst fold_cost_matrix_report) (auto simp: assms(1))
  have "fold F js m a b = (if a \<in> set js \<and> b < num_neigh oi \<and> nbr_reports oi a b then 1 else m a b)"
    using assms(2,3)
  proof (induction js arbitrary: m)
    case (Cons j js)
    then have j: "j < num_neigh oi" by simp
    have Fj: "F j m x y = (if x = j \<and> y < num_neigh oi \<and> nbr_reports oi j y then 1 else m x y)" for x y
      by (rule F) (use Cons.prems j in auto)
    then have "F j m x x = 0" for x
      using Cons.prems(2) by (simp add: nbr_reports_def)
    then have "fold F (j # js) m a b =
        (if a \<in> set js \<and> b < num_neigh oi \<and> nbr_reports oi a b then 1 else F j m a b)"
      using Cons.IH [of "F j m"] Cons.prems(1) by simp
    also have "\<dots> = (if a \<in> set (j # js) \<and> b < num_neigh oi \<and> nbr_reports oi a b then 1 else m a b)"
      by (cases "a = j") (simp_all add: Fj)
    finally show ?case .
  qed simp
  then show ?thesis by (simp only: F_def)
qed

text \<open>The pass that makes the matrix symmetric: a pair has its final value as soon as it, or its
  mirror image, has been processed, whatever the order.\<close>

lemma cost_matrix_symmetric_step:
  fixes oi :: ospf6_interface and j k :: nat
  defines "a \<equiv> \<lambda>x y. of_bool (nbr_reports oi x y) :: int"
    and "f \<equiv> \<lambda>x y. of_bool (nbrs_linked oi x y) :: int"
  assumes "mx_index oi j = j" "mx_index oi k = k"
    and inv: "\<And>x y. x < n \<Longrightarrow> y < n \<Longrightarrow> m x y = (if (x, y) \<in> D \<or> (y, x) \<in> D then f x y else a x y)"
    and "j < n" "k < n" "x < n" "y < n"
  shows "cost_matrix_symmetric oi j k m x y =
    (if (x, y) \<in> insert (j, k) D \<or> (y, x) \<in> insert (j, k) D then f x y else a x y)"
proof -
  have jk: "m j k = (if (j, k) \<in> D \<or> (k, j) \<in> D then f j k else a j k)"
    "m k j = (if (j, k) \<in> D \<or> (k, j) \<in> D then f k j else a k j)"
    "m x y = (if (x, y) \<in> D \<or> (y, x) \<in> D then f x y else a x y)"
    using inv [of j k] inv [of k j] inv [of x y] assms(6-9) by (simp_all add: disj_commute)
  have set_other: "mat_set j k v M x y = M x y" "mat_set k j v M x y = M x y"
    if "(x, y) \<noteq> (j, k)" "(x, y) \<noteq> (k, j)" for v M
    using that by auto
  have other: "cost_matrix_symmetric oi j k m x y = m x y" if "(x, y) \<noteq> (j, k)" "(x, y) \<noteq> (k, j)"
    by (simp add: cost_matrix_symmetric_def Let_def assms(3,4) set_other [OF that] del: mat_set_apply)
  have pair: "cost_matrix_symmetric oi j k m j k = f j k \<and> cost_matrix_symmetric oi j k m k j = f k j"
  proof (cases "j \<noteq> k \<and> twoway oi j \<and> twoway oi k")
    case False
    then have "f j k = 0" "f k j = 0" "a j k = 0" "a k j = 0"
      by (auto simp: f_def a_def nbrs_linked_def nbr_reports_def)
    with jk(1,2) have "m j k = f j k" "m k j = f k j" by simp_all
    moreover have "cost_matrix_symmetric oi j k m = m"
      using False by (auto simp: cost_matrix_symmetric_def Let_def not_le)
    ultimately show ?thesis by simp
  next
    case True
    let ?r = "report2hop oi j" and ?s = "report2hop oi k"
    have nl: "\<not> on_state (nbr oi j) < OSPF6_NEIGHBOR_TWOWAY"
      "\<not> on_state (nbr oi k) < OSPF6_NEIGHBOR_TWOWAY"
      using True by (simp_all add: not_less)
    have f: "f j k = (if ?r \<and> ?s then a j k * a k j else if ?r then a j k else if ?s then a k j else 0)"
      "f k j = f j k"
      using True by (auto simp: f_def a_def nbrs_linked_def nbr_reports_def)
    have z: "\<not> ?r \<Longrightarrow> \<not> ?s \<Longrightarrow> a j k = 0 \<and> a k j = 0" and sq: "a x y * a x y = a x y" for x y
      by (auto simp: a_def nbr_reports_def)
    have "cost_matrix_symmetric oi j k m x y =
        (if ?r \<and> ?s then (if (x, y) = (j, k) \<or> (x, y) = (k, j) then m j k * m k j else m x y)
         else if ?r then (if (x, y) = (k, j) then m j k else m x y)
         else if ?s then (if (x, y) = (j, k) then m k j else m x y) else m x y)" for x y
      using True nl by (simp add: cost_matrix_symmetric_def Let_def assms(3,4))
    with True f z sq [of j k] sq [of k j] jk(1,2) show ?thesis
      by (cases ?r; cases ?s) (auto simp: ac_simps)
  qed
  show ?thesis
    using jk(3) other pair by (cases "(x, y) = (j, k) \<or> (x, y) = (k, j)") auto
qed

lemma fold_cost_matrix_symmetric:
  fixes oi :: ospf6_interface
  defines "n \<equiv> num_neigh oi"
  assumes idx: "\<And>k. k < n \<Longrightarrow> mx_index oi k = k"
    and m: "\<And>x y. x < n \<Longrightarrow> y < n \<Longrightarrow> m x y = of_bool (nbr_reports oi x y)"
    and "x < n" "y < n"
  shows "fold (\<lambda>j. fold (cost_matrix_symmetric oi j) [0 ..< n]) [0 ..< n] m x y =
    of_bool (nbrs_linked oi x y)"
proof -
  let ?P = "\<lambda>done m. \<forall>x<n. \<forall>y<n. m x y =
    (if (x, y) \<in> set done \<or> (y, x) \<in> set done
     then of_bool (nbrs_linked oi x y) else of_bool (nbr_reports oi x y) :: int)"
  let ?pairs = "List.product [0 ..< n] [0 ..< n]"
  have "?P ?pairs (fold (\<lambda>(j, k). cost_matrix_symmetric oi j k) ?pairs m)"
  proof (rule fold_invariant_prefix [where P = ?P])
    show "?P [] m" using m by simp
  next
    fix "done" jk rest s
    assume split: "?pairs = done @ jk # rest" and P: "?P done s"
    obtain j k where jk: "jk = (j, k)" by fastforce
    have "jk \<in> set ?pairs" unfolding split by simp
    then have "j < n" "k < n" by (auto simp: jk)
    then show "?P (done @ [jk]) ((\<lambda>(j, k). cost_matrix_symmetric oi j k) jk s)"
      using cost_matrix_symmetric_step [OF idx idx, of j k n s "set done"] P
      by (auto simp: jk)
  qed
  then show ?thesis using assms(4,5) by (simp add: fold_nested)
qed

lemma cost_matrix_char:
  assumes "ospf6_mdr_create_cost_matrix oi = (m, oi')" "j < num_neigh oi" "k < num_neigh oi"
  shows "m j k = (if nbrs_linked oi j k then 1 else 0) \<and> m j k = m k j \<and> m j j = 0 \<and>
    nbr oi' j = on_mdr_update (nm_cost_matrix_index_update (\<lambda>_. j)) (nbr oi j) \<and>
    num_neigh oi' = num_neigh oi \<and> oi_mdr oi' = oi_mdr oi"
proof -
  have oi': "oi' = cost_matrix_init oi"
    using assms(1) by (simp add: ospf6_mdr_create_cost_matrix_def Let_def)
  have n: "num_neigh oi' = num_neigh oi" by (simp add: oi')
  have idx: "mx_index oi' x = x" if "x < num_neigh oi" for x
    using that by (simp add: oi' nbr_cost_matrix_init)
  have same: "nbrs_linked oi' x y = nbrs_linked oi x y" if "x < num_neigh oi" "y < num_neigh oi" for x y
    using that by (simp add: oi' nbrs_linked_def nbr_cost_matrix_init)
  define m1 where "m1 = fold (\<lambda>j m. fold (cost_matrix_report oi' j) [0 ..< num_neigh oi']
      (mat_set (mx_index oi' j) (mx_index oi' j) 0 m)) [0 ..< num_neigh oi'] (\<lambda>_ _. 0)"
  have m1: "m1 x y = of_bool (nbr_reports oi' x y)" if "x < num_neigh oi'" "y < num_neigh oi'" for x y
    unfolding m1_def using that
    by (subst fold_cost_matrix_report_rows) (auto simp: idx n)
  have "m = fold (\<lambda>j. fold (cost_matrix_symmetric oi' j) [0 ..< num_neigh oi']) [0 ..< num_neigh oi'] m1"
    using assms(1) by (simp add: ospf6_mdr_create_cost_matrix_def Let_def oi' m1_def)
  then have m: "m x y = of_bool (nbrs_linked oi x y)" if "x < num_neigh oi" "y < num_neigh oi" for x y
    using that fold_cost_matrix_symmetric [of oi' m1 x y] idx m1 same by (simp add: n)
  have "\<not> nbrs_linked oi j j" by (simp add: nbrs_linked_def)
  with m assms(2,3) nbrs_linked_sym [of oi j k] show ?thesis
    by (simp add: oi' nbr_cost_matrix_init)
qed

text \<open>C24: the connectivity matrix is exactly what the reported neighbor lists support. Its entries
  are 0 and 1, it is symmetric with a zero diagonal, and the entry of two neighbors is 1 iff both
  are at least 2-Way, at least one of them has sent a full two-hop report, and each one that has
  lists the other in its bidirectional neighbor list. The order in which the third loop visits the
  pairs, which reads and writes both halves, does not matter. The interface is unchanged but for
  the indices, and neighbor \<open>j\<close> has index \<open>j\<close>.\<close>

theorem ospf6_mdr_create_cost_matrix_correct:
  assumes "ospf6_mdr_create_cost_matrix oi = (m, oi')" "j < num_neigh oi" "k < num_neigh oi"
  shows "m j k = (if nbrs_linked oi j k then 1 else 0) \<and> m j k = m k j \<and> m j j = 0 \<and>
    nbr oi' j = on_mdr_update (nm_cost_matrix_index_update (\<lambda>_. j)) (nbr oi j) \<and>
    num_neigh oi' = num_neigh oi \<and> oi_mdr oi' = oi_mdr oi"
  using cost_matrix_char [OF assms] .

end
