(* ===== verification/Mdr_Tree.thy ===== *)
theory Mdr_Tree
  imports Mdr_Cost "HOL-Library.Sublist"
begin

text \<open>
  The search tree of the backup MDR calculation (\<^verbatim>\<open>struct tree_node\<close> in
  \<^verbatim>\<open>src/ospf6d/ospf6_mdr.h\<close>; \<open>add_tree_node\<close>, \<open>remove_tree\<close> and \<open>dfs_next\<close> in
  \<^verbatim>\<open>ospf6_mdr.c\<close>). The allocated nodes are a list, and a pointer to a node is its position. The
  loops along the sibling and parent pointers have fuel; running out of fuel and following a null
  pointer are both \<^term>\<open>None\<close>. On a well-formed tree neither happens: the traversal visits nodes
  in increasing preorder.
\<close>

section \<open>Definitions\<close>

record tree_node =
  tn_on :: nat
  tn_labeled :: bool
  tn_parent :: "nat option"
  tn_sec_node :: "nat option"
  tn_first_child :: "nat option"
  tn_last_child :: "nat option"
  tn_next_sib :: "nat option"

type_synonym tree = "tree_node list"

text \<open>The new node \<open>u\<close> becomes the first child of its parent or is linked behind the last one. A
  parent with a first child has a last child (lemma \<open>tree_ok_last_child\<close>), so the pointer that is
  followed is never null.\<close>
definition link_child :: "nat \<Rightarrow> nat \<Rightarrow> tree \<Rightarrow> tree" where
  "link_child u p L =
     (let L = (if tn_first_child (L ! p) = None
               then L[p := (L ! p)\<lparr>tn_first_child := Some u\<rparr>]
               else case tn_last_child (L ! p) of
                      None \<Rightarrow> L
                    | Some c \<Rightarrow> L[c := (L ! c)\<lparr>tn_next_sib := Some u\<rparr>])
      in L[p := (L ! p)\<lparr>tn_last_child := Some u\<rparr>])"

definition new_tree_node :: "nat \<Rightarrow> nat option \<Rightarrow> tree_node" where
  "new_tree_node on parent =
     \<lparr>tn_on = on, tn_labeled = False, tn_parent = parent, tn_sec_node = None,
      tn_first_child = None, tn_last_child = None, tn_next_sib = None\<rparr>"

definition add_tree_node ::
    "nat \<Rightarrow> nat option \<Rightarrow> tree \<times> ospf6_interface \<Rightarrow> tree \<times> ospf6_interface" where
  "add_tree_node on parent = (\<lambda>(L, oi).
     let u = length L;
         oi = nbr_mdr_update on (nm_treenode_update (\<lambda>_. Some u)) oi;
         L = (case parent of None \<Rightarrow> L | Some p \<Rightarrow> link_child u p L)
     in (L @ [new_tree_node on parent], oi))"

definition remove_tree :: "tree \<Rightarrow> ospf6_interface \<Rightarrow> ospf6_interface" where
  "remove_tree L oi = fold (\<lambda>n. nbr_mdr_update (tn_on n) (nm_treenode_update (\<lambda>_. None))) L oi"

text \<open>The first unlabeled node along the sibling pointers, which may be the given one.\<close>
fun sib_unlabeled :: "nat \<Rightarrow> tree \<Rightarrow> nat option \<Rightarrow> nat option option" where
  "sib_unlabeled 0 L w = None"
| "sib_unlabeled (Suc fuel) L None = Some None"
| "sib_unlabeled (Suc fuel) L (Some w) =
     (if \<not> tn_labeled (L ! w) then Some (Some w)
      else sib_unlabeled fuel L (tn_next_sib (L ! w)))"

text \<open>The second loop of \<open>dfs_next\<close>: an unlabeled sibling of the node or of an ancestor below the
  root.\<close>
fun dfs_up :: "nat \<Rightarrow> tree \<Rightarrow> nat \<Rightarrow> nat \<Rightarrow> nat option option" where
  "dfs_up 0 L root v = None"
| "dfs_up (Suc fuel) L root v =
     (if v = root then Some None
      else case sib_unlabeled (Suc (length L)) L (tn_next_sib (L ! v)) of
             None \<Rightarrow> None
           | Some (Some w) \<Rightarrow> Some (Some w)
           | Some None \<Rightarrow>
               (case tn_parent (L ! v) of
                  None \<Rightarrow> None
                | Some p \<Rightarrow> dfs_up fuel L root p))"

definition dfs_next :: "tree \<Rightarrow> nat \<Rightarrow> nat \<Rightarrow> nat option option" where
  "dfs_next L u root =
     (case sib_unlabeled (Suc (length L)) L (tn_first_child (L ! u)) of
        None \<Rightarrow> None
      | Some (Some v) \<Rightarrow> Some (Some v)
      | Some None \<Rightarrow> dfs_up (Suc (length L)) L root u)"

text \<open>The loop \<^verbatim>\<open>for (t = ...; t; t = dfs_next (t, root))\<close> with a body that may change a state
  but not the tree.\<close>
fun dfs_for ::
    "nat \<Rightarrow> tree \<Rightarrow> nat \<Rightarrow> (nat \<Rightarrow> 's \<Rightarrow> 's option) \<Rightarrow> nat option \<Rightarrow> 's \<Rightarrow> 's option" where
  "dfs_for 0 L root body t s = None"
| "dfs_for (Suc fuel) L root body None s = Some s"
| "dfs_for (Suc fuel) L root body (Some t) s =
     (case body t s of
        None \<Rightarrow> None
      | Some s' \<Rightarrow>
          (case dfs_next L t root of
             None \<Rightarrow> None
           | Some t' \<Rightarrow> dfs_for fuel L root body t' s'))"

section \<open>Well-formed trees\<close>

text \<open>
  Pointers stay inside the list; a parent is older than its children and a sibling younger than
  the node before it; children lists and parent pointers agree.
\<close>
definition tree_node_ok :: "tree \<Rightarrow> nat \<Rightarrow> bool" where
  "tree_node_ok L v \<longleftrightarrow>
     (\<forall>p. tn_parent (L ! v) = Some p \<longrightarrow> p < v) \<and>
     (\<forall>w. tn_next_sib (L ! v) = Some w \<longrightarrow>
        v < w \<and> w < length L \<and> tn_parent (L ! w) = tn_parent (L ! v) \<and> tn_parent (L ! v) \<noteq> None) \<and>
     (\<forall>c. tn_first_child (L ! v) = Some c \<longrightarrow> c < length L \<and> tn_parent (L ! c) = Some v) \<and>
     (\<forall>c. tn_last_child (L ! v) = Some c \<longrightarrow> c < length L \<and> tn_parent (L ! c) = Some v) \<and>
     (tn_first_child (L ! v) = None \<longleftrightarrow> tn_last_child (L ! v) = None)"

definition tree_ok :: "tree \<Rightarrow> bool" where
  "tree_ok L \<longleftrightarrow> (\<forall>v < length L. tree_node_ok L v)"

lemma tree_okD:
  assumes "tree_ok L" "v < length L"
  shows "tn_parent (L ! v) = Some p \<Longrightarrow> p < v"
    and "tn_next_sib (L ! v) = Some w \<Longrightarrow>
      v < w \<and> w < length L \<and> tn_parent (L ! w) = tn_parent (L ! v) \<and> tn_parent (L ! v) \<noteq> None"
    and "tn_first_child (L ! v) = Some c \<Longrightarrow> c < length L \<and> tn_parent (L ! c) = Some v"
    and "tn_last_child (L ! v) = Some c \<Longrightarrow> c < length L \<and> tn_parent (L ! c) = Some v"
    and "tn_first_child (L ! v) = None \<longleftrightarrow> tn_last_child (L ! v) = None"
  using assms unfolding tree_ok_def tree_node_ok_def by blast+

lemma tree_ok_last_child:
  "tree_ok L \<Longrightarrow> v < length L \<Longrightarrow> tn_first_child (L ! v) \<noteq> None \<Longrightarrow> \<exists>c. tn_last_child (L ! v) = Some c"
  using tree_okD(5) by fastforce

lemma tree_ok_Nil [simp]: "tree_ok []"
  by (simp add: tree_ok_def)

lemma length_link_child [simp]: "length (link_child u p L) = length L"
  by (simp add: link_child_def Let_def split: option.split)

lemma link_child_fields [simp]:
  assumes "v < length L" "p < length L"
  shows "tn_parent (link_child u p L ! v) = tn_parent (L ! v)"
    "tn_on (link_child u p L ! v) = tn_on (L ! v)"
    "tn_labeled (link_child u p L ! v) = tn_labeled (L ! v)"
    "tn_sec_node (link_child u p L ! v) = tn_sec_node (L ! v)"
  using assms by (simp_all add: link_child_def Let_def nth_list_update_if split: option.split)

lemma link_child_children:
  assumes "v < length L" "p < length L"
  shows "tn_first_child (link_child u p L ! v) =
      (if v = p \<and> tn_first_child (L ! p) = None then Some u else tn_first_child (L ! v))"
    and "tn_last_child (link_child u p L ! v) = (if v = p then Some u else tn_last_child (L ! v))"
    and "tn_next_sib (link_child u p L ! v) =
      (if tn_first_child (L ! p) \<noteq> None \<and> tn_last_child (L ! p) = Some v then Some u
       else tn_next_sib (L ! v))"
  using assms by (simp_all add: link_child_def Let_def nth_list_update_if split: option.split)

lemma tree_node_ok_snoc:
  assumes "tree_ok L" "p < length L" "v < length L"
    and L': "L' = link_child (length L) p L @ [new_tree_node on (Some p)]"
  shows "tree_node_ok L' v"
proof -
  note d = tree_okD [OF assms(1,3)]
  have old: "tn_parent (L' ! w) = tn_parent (L ! w)" if "w < length L" for w
    using that assms(2) by (simp add: L' nth_append)
  have new: "tn_parent (L' ! length L) = Some p" by (simp add: L' nth_append new_tree_node_def)
  have v: "L' ! v = link_child (length L) p L ! v" using assms(3) by (simp add: L' nth_append)
  note c = link_child_children [OF assms(3,2), of "length L"]
  have len: "length L' = Suc (length L)" by (simp add: L')
  have parent: "tn_parent (L' ! v) = tn_parent (L ! v)" using assms(3) by (rule old)
  have "v < w \<and> w < length L' \<and> tn_parent (L' ! w) = tn_parent (L' ! v) \<and> tn_parent (L' ! v) \<noteq> None"
    if w: "tn_next_sib (L' ! v) = Some w" for w
  proof (cases "tn_first_child (L ! p) \<noteq> None \<and> tn_last_child (L ! p) = Some v")
    case True
    then have "w = length L" "tn_parent (L ! v) = Some p"
      using w c(3) v tree_okD(4) [OF assms(1,2), of v] by simp_all
    then show ?thesis using new parent assms(3) by (simp add: len)
  next
    case False
    then have "tn_next_sib (L ! v) = Some w" using w c(3) unfolding v by (simp only: if_False)
    from d(2) [OF this] show ?thesis using old [of w] parent by (simp add: len)
  qed
  moreover have "c < length L' \<and> tn_parent (L' ! c) = Some v" if "tn_first_child (L' ! v) = Some c" for c
    using that c(1) v d(3) [of c] old [of c] new by (auto simp: len split: if_splits)
  moreover have "c < length L' \<and> tn_parent (L' ! c) = Some v" if "tn_last_child (L' ! v) = Some c" for c
    using that c(2) v d(4) [of c] old [of c] new by (auto simp: len split: if_splits)
  moreover have "tn_first_child (L' ! v) = None \<longleftrightarrow> tn_last_child (L' ! v) = None"
    unfolding v c(1,2) using d(5) by simp
  ultimately show ?thesis
    unfolding tree_node_ok_def parent using d(1) by blast
qed

lemma tree_node_ok_snoc_root:
  assumes "tree_ok L" "v < length L"
  shows "tree_node_ok (L @ [new_tree_node on None]) v"
proof -
  note d = tree_okD [OF assms]
  let ?L = "L @ [new_tree_node on None]"
  have old: "?L ! w = L ! w" if "w < length L" for w using that by (simp add: nth_append)
  have "v < w \<and> w < length ?L \<and> tn_parent (?L ! w) = tn_parent (L ! v) \<and> tn_parent (L ! v) \<noteq> None"
    if "tn_next_sib (L ! v) = Some w" for w
    using d(2) [OF that] old [of w] by simp
  moreover have "c < length ?L \<and> tn_parent (?L ! c) = Some v"
    if "tn_first_child (L ! v) = Some c \<or> tn_last_child (L ! v) = Some c" for c
    using that d(3,4) [of c] old [of c] by auto
  ultimately show ?thesis
    unfolding tree_node_ok_def old [OF assms(2)] using d(1,5) by simp
qed

lemma tree_ok_add:
  assumes "tree_ok L" "\<And>p. parent = Some p \<Longrightarrow> p < length L"
  shows "tree_ok (fst (add_tree_node on parent (L, oi)))"
proof (cases parent)
  case None
  have "tree_node_ok (L @ [new_tree_node on None]) (length L)"
    by (simp add: tree_node_ok_def new_tree_node_def)
  then have "tree_node_ok (L @ [new_tree_node on None]) v" if "v < Suc (length L)" for v
    using that tree_node_ok_snoc_root [OF assms(1)] less_Suc_eq by blast
  then show ?thesis
    by (simp add: None add_tree_node_def tree_ok_def)
next
  case (Some p)
  have p: "p < length L" using Some assms(2) by simp
  let ?L = "link_child (length L) p L @ [new_tree_node on (Some p)]"
  have "tree_node_ok ?L (length L)"
    using p by (simp add: tree_node_ok_def nth_append new_tree_node_def)
  then have "tree_node_ok ?L v" if "v < Suc (length L)" for v
    using that tree_node_ok_snoc [OF assms(1) p] less_Suc_eq by blast
  then show ?thesis
    by (simp add: Some add_tree_node_def tree_ok_def Let_def)
qed

text \<open>Labels and second nodes do not matter.\<close>

lemma tree_ok_cong:
  assumes "length L' = length L"
    and "\<And>v. v < length L \<Longrightarrow> tn_parent (L' ! v) = tn_parent (L ! v) \<and>
      tn_next_sib (L' ! v) = tn_next_sib (L ! v) \<and>
      tn_first_child (L' ! v) = tn_first_child (L ! v) \<and> tn_last_child (L' ! v) = tn_last_child (L ! v)"
  shows "tree_ok L' \<longleftrightarrow> tree_ok L"
proof -
  have "tree_node_ok L' v \<longleftrightarrow> tree_node_ok L v" if "v < length L" for v
    using assms(2) [OF that] assms(2) by (simp add: tree_node_ok_def assms(1) cong: conj_cong)
  then show ?thesis by (simp add: tree_ok_def assms(1))
qed

lemma tree_ok_set_labeled: "tree_ok (L[t := (L ! t)\<lparr>tn_labeled := x\<rparr>]) \<longleftrightarrow> tree_ok L"
  by (rule tree_ok_cong) (simp_all add: nth_list_update_if)

lemma tree_ok_set_sec: "tree_ok (L[t := (L ! t)\<lparr>tn_sec_node := x\<rparr>]) \<longleftrightarrow> tree_ok L"
  by (rule tree_ok_cong) (simp_all add: nth_list_update_if)

section \<open>The traversal\<close>

text \<open>The path from the root of the tree to a node. The lexicographic order of the paths is the
  preorder of the tree.\<close>

function tree_key :: "tree \<Rightarrow> nat \<Rightarrow> nat list" where
  "tree_key L v =
     (case tn_parent (L ! v) of
        None \<Rightarrow> [v]
      | Some p \<Rightarrow> if p < v then tree_key L p @ [v] else [v])"
  by pat_completeness auto
termination
  by (relation "measure snd") auto

declare tree_key.simps [simp del]

definition key_less :: "tree \<Rightarrow> nat \<Rightarrow> nat \<Rightarrow> bool" where
  "key_less L u v \<longleftrightarrow> (tree_key L u, tree_key L v) \<in> lexord {(x, y). x < y}"

lemma tree_key_last: "\<exists>xs. tree_key L v = xs @ [v]"
  by (subst tree_key.simps) (auto split: option.split)

lemma tree_key_inject: "tree_key L u = tree_key L v \<longleftrightarrow> u = v"
  using tree_key_last [of L u] tree_key_last [of L v] by (metis last_snoc)

lemma tree_key_parent:
  "tree_ok L \<Longrightarrow> v < length L \<Longrightarrow> tn_parent (L ! v) = Some p \<Longrightarrow> tree_key L v = tree_key L p @ [v]"
  using tree_okD(1) [of L v p] by (subst tree_key.simps) simp

lemma tree_key_root: "tn_parent (L ! v) = None \<Longrightarrow> tree_key L v = [v]"
  by (subst tree_key.simps) simp

lemma tree_key_prefix_parent:
  assumes "tree_ok L" "v < length L" "prefix (tree_key L root) (tree_key L v)" "v \<noteq> root"
  obtains p where "tn_parent (L ! v) = Some p" "p < v" "prefix (tree_key L root) (tree_key L p)"
proof (cases "tn_parent (L ! v)")
  case None
  then have "tree_key L v = [v]" by (rule tree_key_root)
  with assms(3) tree_key_last [of L root] have "root = v"
    by (auto simp: prefix_Cons)
  with assms(4) show ?thesis by simp
next
  case (Some p)
  from tree_key_parent [OF assms(1,2) Some] assms(3,4)
  have "prefix (tree_key L root) (tree_key L p)"
    using tree_key_inject [of L root v] by (auto simp: prefix_snoc)
  with Some tree_okD(1) [OF assms(1,2) Some] show ?thesis by (intro that)
qed

lemma key_less_irrefl: "\<not> key_less L u u"
  unfolding key_less_def by (rule lexord_irreflexive) simp

lemma key_less_trans: "key_less L u v \<Longrightarrow> key_less L v w \<Longrightarrow> key_less L u w"
  unfolding key_less_def by (rule lexord_trans) (auto simp: trans_def)

lemma lexord_sibling: "v < w \<Longrightarrow> (ks @ v # xs, ks @ [w]) \<in> lexord {(x, y). x < (y :: nat)}"
  by (simp add: lexord_append_left_rightI)

lemma sib_unlabeled_total:
  assumes "tree_ok L" "\<And>w. start = Some w \<Longrightarrow> w < length L"
    and "length L < fuel + (case start of None \<Rightarrow> length L | Some w \<Rightarrow> w)"
  shows "\<exists>r. sib_unlabeled fuel L start = Some r \<and>
    (\<forall>x. r = Some x \<longrightarrow> x < length L \<and> \<not> tn_labeled (L ! x) \<and>
       (\<exists>w. start = Some w \<and> tn_parent (L ! x) = tn_parent (L ! w) \<and> w \<le> x))"
  using assms(2,3)
proof (induction fuel arbitrary: start)
  case 0
  then show ?case by (cases start) auto
next
  case (Suc fuel)
  show ?case
  proof (cases start)
    case (Some w)
    then have w: "w < length L" using Suc.prems(1) by simp
    show ?thesis
    proof (cases "tn_labeled (L ! w)")
      case True
      let ?n = "tn_next_sib (L ! w)"
      have n: "x < length L \<and> w < x \<and> tn_parent (L ! x) = tn_parent (L ! w)" if "?n = Some x" for x
        using tree_okD(2) [OF assms(1) w that] by simp
      have "length L < fuel + (case ?n of None \<Rightarrow> length L | Some w \<Rightarrow> w)"
        using Suc.prems(2) Some n w by (cases ?n) auto
      with Suc.IH [of ?n] n obtain r where "sib_unlabeled fuel L ?n = Some r"
        "\<forall>x. r = Some x \<longrightarrow> x < length L \<and> \<not> tn_labeled (L ! x) \<and>
           (\<exists>w. ?n = Some w \<and> tn_parent (L ! x) = tn_parent (L ! w) \<and> w \<le> x)"
        by blast
      with Some True n show ?thesis by fastforce
    qed (use Some w in auto)
  qed simp
qed

text \<open>One step of the traversal returns, stays below the root and moves forward in preorder.\<close>

definition dfs_step_ok :: "tree \<Rightarrow> nat \<Rightarrow> nat list \<Rightarrow> nat option \<Rightarrow> bool" where
  "dfs_step_ok L root ks r \<longleftrightarrow>
     (\<forall>w. r = Some w \<longrightarrow>
        w < length L \<and> \<not> tn_labeled (L ! w) \<and> w \<noteq> root \<and> prefix (tree_key L root) (tree_key L w) \<and>
        (ks, tree_key L w) \<in> lexord {(x, y). x < y})"

lemma tree_key_prefix_neq:
  "prefix (tree_key L root) ks \<Longrightarrow> tree_key L w = ks @ [w] \<Longrightarrow> w \<noteq> root"
  by (auto dest: prefix_length_le)

lemma dfs_up_total:
  assumes "tree_ok L" "v < length L" "prefix (tree_key L root) (tree_key L v)" "v < fuel"
  shows "\<exists>r. dfs_up fuel L root v = Some r \<and> dfs_step_ok L root (tree_key L v @ xs) r"
  using assms(2-4)
proof (induction fuel arbitrary: v xs)
  case (Suc fuel)
  show ?case
  proof (cases "v = root")
    case False
    obtain p where p: "tn_parent (L ! v) = Some p" "p < v" "prefix (tree_key L root) (tree_key L p)"
      using tree_key_prefix_parent [OF assms(1) Suc.prems(1,2) False] .
    have kv: "tree_key L v = tree_key L p @ [v]"
      by (rule tree_key_parent [OF assms(1) Suc.prems(1) p(1)])
    let ?n = "tn_next_sib (L ! v)"
    have n: "v < w \<and> w < length L \<and> tn_parent (L ! w) = Some p" if "?n = Some w" for w
      using tree_okD(2) [OF assms(1) Suc.prems(1) that] p(1) by simp
    have "length L < Suc (length L) + (case ?n of None \<Rightarrow> length L | Some w \<Rightarrow> w)"
      by (simp split: option.split)
    with sib_unlabeled_total [OF assms(1), of ?n "Suc (length L)"] n
    obtain r where r: "sib_unlabeled (Suc (length L)) L ?n = Some r"
      "\<forall>x. r = Some x \<longrightarrow> x < length L \<and> \<not> tn_labeled (L ! x) \<and>
         (\<exists>w. ?n = Some w \<and> tn_parent (L ! x) = tn_parent (L ! w) \<and> w \<le> x)"
      by blast
    show ?thesis
    proof (cases r)
      case None
      have "p < length L" "p < fuel" using p(2) Suc.prems by auto
      with Suc.IH [of p "v # xs"] p(3) show ?thesis
        using False None r(1) p(1) kv by auto
    next
      case (Some x)
      with r(2) n have x: "x < length L" "\<not> tn_labeled (L ! x)" "v < x" "tn_parent (L ! x) = Some p"
        by fastforce+
      have kx: "tree_key L x = tree_key L p @ [x]"
        by (rule tree_key_parent [OF assms(1) x(1,4)])
      have "x \<noteq> root" using tree_key_prefix_neq [OF p(3) kx] .
      then have "dfs_step_ok L root (tree_key L v @ xs) r"
        using Some x p(3) kx kv lexord_sibling [OF x(3), of "tree_key L p" xs]
        by (simp add: dfs_step_ok_def)
      then show ?thesis using False Some r(1) by simp
    qed
  qed (simp add: dfs_step_ok_def)
qed simp

lemma dfs_next_total:
  assumes "tree_ok L" "u < length L" "prefix (tree_key L root) (tree_key L u)"
  shows "\<exists>r. dfs_next L u root = Some r \<and> dfs_step_ok L root (tree_key L u) r"
proof -
  let ?c = "tn_first_child (L ! u)"
  have c: "c < length L \<and> tn_parent (L ! c) = Some u" if "?c = Some c" for c
    using tree_okD(3) [OF assms(1,2) that] .
  have "length L < Suc (length L) + (case ?c of None \<Rightarrow> length L | Some w \<Rightarrow> w)"
    by (simp split: option.split)
  with sib_unlabeled_total [OF assms(1), of ?c "Suc (length L)"] c
  obtain r where r: "sib_unlabeled (Suc (length L)) L ?c = Some r"
    "\<forall>x. r = Some x \<longrightarrow> x < length L \<and> \<not> tn_labeled (L ! x) \<and>
       (\<exists>w. ?c = Some w \<and> tn_parent (L ! x) = tn_parent (L ! w) \<and> w \<le> x)"
    by blast
  show ?thesis
  proof (cases r)
    case None
    then show ?thesis
      using r(1) dfs_up_total [OF assms, of "Suc (length L)" "[]"] assms(2)
      by (simp add: dfs_next_def)
  next
    case (Some x)
    with r(2) c have x: "x < length L" "\<not> tn_labeled (L ! x)" "tn_parent (L ! x) = Some u"
      by fastforce+
    have kx: "tree_key L x = tree_key L u @ [x]"
      by (rule tree_key_parent [OF assms(1) x(1,3)])
    have "(tree_key L u, tree_key L x) \<in> lexord {(x, y). x < y}"
      unfolding kx by (rule lexord_append_rightI) simp
    then have "dfs_step_ok L root (tree_key L u) r"
      using Some x kx assms(3) tree_key_prefix_neq [OF assms(3) kx] by (simp add: dfs_step_ok_def)
    then show ?thesis using Some r(1) by (simp add: dfs_next_def)
  qed
qed

text \<open>The loop over a subtree returns, with one unit of fuel per tree node and one to stop, if its
  body does, and keeps what the body keeps.\<close>

definition key_rank :: "tree \<Rightarrow> nat \<Rightarrow> nat" where
  "key_rank L u = card {x. x < length L \<and> key_less L u x}"

lemma key_rank_less: "key_less L u v \<Longrightarrow> v < length L \<Longrightarrow> key_rank L v < key_rank L u"
  unfolding key_rank_def
  by (rule psubset_card_mono) (use key_less_trans key_less_irrefl in \<open>auto, blast\<close>)

lemma key_rank_bound: "u < length L \<Longrightarrow> key_rank L u < length L"
proof -
  assume "u < length L"
  then have "{x. x < length L \<and> key_less L u x} \<subset> {..< length L}"
    using key_less_irrefl by auto
  then show ?thesis
    unfolding key_rank_def by (metis card_lessThan finite_lessThan psubset_card_mono)
qed

lemma dfs_for_total:
  assumes "tree_ok L" "t < length L" "prefix (tree_key L root) (tree_key L t)" "P s"
    and body: "\<And>u s. u < length L \<Longrightarrow> u = t \<or> \<not> tn_labeled (L ! u) \<and> u \<noteq> root \<Longrightarrow>
      prefix (tree_key L root) (tree_key L u) \<Longrightarrow> P s \<Longrightarrow> \<exists>s'. body u s = Some s' \<and> P s'"
    and "key_rank L t + 1 < fuel"
  shows "\<exists>s'. dfs_for fuel L root body (Some t) s = Some s' \<and> P s'"
proof -
  have "\<exists>s'. dfs_for fuel L root body (Some u) s = Some s' \<and> P s'"
    if "u < length L" "u = t \<or> \<not> tn_labeled (L ! u) \<and> u \<noteq> root"
      "prefix (tree_key L root) (tree_key L u)" "P s" "key_rank L u + 1 < fuel" for u s fuel
    using that
  proof (induction fuel arbitrary: u s)
    case (Suc fuel)
    obtain s' where s': "body u s = Some s'" "P s'"
      using body [OF Suc.prems(1-4)] by blast
    obtain r where r: "dfs_next L u root = Some r" "dfs_step_ok L root (tree_key L u) r"
      using dfs_next_total [OF assms(1) Suc.prems(1,3)] by blast
    show ?case
    proof (cases r)
      case None
      then show ?thesis using s' r(1) Suc.prems(5) by (cases fuel) auto
    next
      case (Some w)
      with r(2) have w: "w < length L" "\<not> tn_labeled (L ! w) \<and> w \<noteq> root"
        "prefix (tree_key L root) (tree_key L w)" "key_less L u w"
        by (auto simp: dfs_step_ok_def key_less_def)
      have "key_rank L w + 1 < fuel" using key_rank_less [OF w(4,1)] Suc.prems(5) by simp
      with Suc.IH [of w s'] w s' show ?thesis using r(1) Some by auto
    qed
  qed simp
  from this [OF assms(2) _ assms(3,4,6)] show ?thesis by simp
qed

end
