(* ===== verification/Mdr_Bfs.thy ===== *)
theory Mdr_Bfs
  imports Mdr_Cost
begin

text \<open>
  Breadth-first search as the MDR calculation runs it twice (Step 2.4 and Step 5.3 of
  \<open>ospf6_calculate_mdr\<close>): a queue, a hop count per node that starts at \<open>INFTY\<close>, a test whether a
  link may be used, and a test whether a node that has been reached is put into the queue. The
  locale \<open>hop_graph\<close> is the interface between the two searches and their correctness: what is
  required of the links, the loop invariant, that processing the head of the queue keeps it, and
  that it gives shortest paths, through relays only, when the queue is empty.
\<close>

section \<open>Measure\<close>

text \<open>Every node that is put into the queue had its hop count reduced.\<close>
definition hops_sum :: "nat \<Rightarrow> (nat \<Rightarrow> nat) \<Rightarrow> nat" where
  "hops_sum n h = (\<Sum>u < n. h u)"

section \<open>Paths\<close>

text \<open>\<open>hop_path link relay root d u\<close>: a path with \<open>d\<close> links from the root to \<open>u\<close> whose intermediate
  nodes are relays.\<close>
inductive hop_path :: "(nat \<Rightarrow> nat \<Rightarrow> bool) \<Rightarrow> (nat \<Rightarrow> bool) \<Rightarrow> nat \<Rightarrow> nat \<Rightarrow> nat \<Rightarrow> bool"
  for link relay root where
  hop_root: "hop_path link relay root 0 root"
| hop_step: "hop_path link relay root d k \<Longrightarrow> k = root \<or> relay k \<Longrightarrow> link k u \<Longrightarrow>
    hop_path link relay root (Suc d) u"

inductive_cases hop_path_SucE: "hop_path link relay root (Suc d) u"
inductive_simps hop_path_0: "hop_path link relay root 0 u"

definition hop_dist :: "(nat \<Rightarrow> nat \<Rightarrow> bool) \<Rightarrow> (nat \<Rightarrow> bool) \<Rightarrow> nat \<Rightarrow> nat \<Rightarrow> nat \<Rightarrow> bool" where
  "hop_dist link relay root u d \<longleftrightarrow>
     hop_path link relay root d u \<and> (\<forall>d'. hop_path link relay root d' u \<longrightarrow> d \<le> d')"

lemma hop_dist_fun: "hop_dist link relay root u d \<Longrightarrow> hop_dist link relay root u d' \<Longrightarrow> d = d'"
  unfolding hop_dist_def by (meson le_antisym)

lemma hop_path_dist:
  "hop_path link relay root d u \<Longrightarrow> \<exists>d' \<le> d. hop_dist link relay root u d'"
  unfolding hop_dist_def
  using LeastI [of "\<lambda>d. hop_path link relay root d u" d] Least_le [of "\<lambda>d. hop_path link relay root d u"]
  by (intro exI [of _ "LEAST d. hop_path link relay root d u"]) simp

text \<open>On a shortest path every smaller distance occurs.\<close>

lemma hop_dist_between:
  assumes "hop_dist link relay root u d" "i \<le> d"
  shows "\<exists>v. hop_dist link relay root v i \<and> (v = root \<or> (\<exists>k. link k v))"
  using assms
proof (induction d arbitrary: u)
  case 0
  then show ?case by (auto simp: hop_dist_def hop_path_0)
next
  case (Suc d)
  show ?case
  proof (cases "i = Suc d")
    case True
    from Suc.prems(1) have "\<exists>k. link k u" by (auto simp: hop_dist_def elim: hop_path_SucE)
    with True Suc.prems(1) show ?thesis by blast
  next
    case False
    from Suc.prems(1) obtain k where k: "hop_path link relay root d k" "k = root \<or> relay k" "link k u"
      by (auto simp: hop_dist_def elim: hop_path_SucE)
    have "hop_dist link relay root k d"
      unfolding hop_dist_def
    proof (intro conjI allI impI)
      fix d' assume "hop_path link relay root d' k"
      then have "hop_path link relay root (Suc d') u" using k(2,3) by (rule hop_step)
      with Suc.prems(1) show "d \<le> d'" by (auto simp: hop_dist_def)
    qed (rule k(1))
    with Suc.IH [of k] Suc.prems(2) False show ?thesis by simp
  qed
qed

section \<open>Correctness\<close>

lemma map_replicate_eqI: "(\<And>x. x \<in> set xs \<Longrightarrow> f x = c) \<Longrightarrow> map f xs = replicate (length xs) c"
  by (induction xs) auto

text \<open>What the client has to provide: links between valid nodes, none from a node to itself.\<close>

locale hop_graph =
  fixes n :: nat and link :: "nat \<Rightarrow> nat \<Rightarrow> bool" and relay :: "nat \<Rightarrow> bool"
  assumes link_bound: "link k u \<Longrightarrow> k < n \<and> u < n"
    and link_irrefl: "\<not> link k k"
begin

text \<open>Every distance is smaller than the number of nodes.\<close>

lemma hop_dist_less:
  assumes "hop_dist link relay root u d" "root < n"
  shows "d < n"
proof -
  obtain f where f: "\<And>i. i \<le> d \<Longrightarrow> hop_dist link relay root (f i) i \<and> (f i = root \<or> (\<exists>k. link k (f i)))"
    using hop_dist_between [OF assms(1)] by metis
  have "inj_on f {..d}"
    by (rule inj_onI) (metis atMost_iff f hop_dist_fun)
  moreover have "f ` {..d} \<subseteq> {..< n}"
    using f assms(2) link_bound by fastforce
  ultimately have "card {..d} \<le> card {..< n}"
    by (meson card_inj_on_le finite_lessThan)
  then show ?thesis by simp
qed

text \<open>
  The invariant: counts below \<open>INFTY\<close> are lengths of paths; a reached relay that is not in the
  queue has been expanded; the queue is ordered, and holds at most two levels, so that no node is
  reached twice.
\<close>
definition bfs_inv :: "nat \<Rightarrow> (nat \<Rightarrow> nat) \<Rightarrow> nat list \<Rightarrow> bool" where
  "bfs_inv root h q \<longleftrightarrow>
     root < n \<and> h root = 0 \<and>
     (\<forall>u < n. h u \<le> INFTY \<and> (h u < INFTY \<longrightarrow> hop_path link relay root (h u) u)) \<and>
     (\<forall>k \<in> set q. k < n \<and> h k < INFTY \<and> (k = root \<or> relay k)) \<and>
     (\<forall>k < n. h k < INFTY \<longrightarrow> k = root \<or> relay k \<longrightarrow> k \<notin> set q \<longrightarrow> (\<forall>u. link k u \<longrightarrow> h u \<le> h k + 1)) \<and>
     sorted (map h q) \<and>
     (q \<noteq> [] \<longrightarrow> (\<forall>u < n. h u < INFTY \<longrightarrow> h u \<le> h (hd q) + 1))"

lemma bfs_inv_init:
  assumes "root < n" "\<And>u. u < n \<Longrightarrow> h u = (if u = root then 0 else INFTY)"
  shows "bfs_inv root h [root]"
  using assms by (auto simp: bfs_inv_def hop_root)

lemma bfs_inv_undiscovered:
  assumes "bfs_inv root h (k # q)" "u < n" "h k + 1 < h u"
  shows "h u = INFTY"
  using assms by (fastforce simp: bfs_inv_def)

lemma bfs_inv_step:
  assumes inv: "bfs_inv root h (k # q)"
    and h': "\<And>u. u < n \<Longrightarrow> h' u = (if link k u \<and> h k + 1 < h u then h k + 1 else h u)"
    and q': "q' = q @ filter (\<lambda>u. link k u \<and> h k + 1 < h u \<and> relay u) [0 ..< n]"
  shows "bfs_inv root h' q'"
proof -
  have root: "root < n" "h root = 0" and k: "k < n" "h k < INFTY" "k = root \<or> relay k"
    and le: "\<And>u. u < n \<Longrightarrow> h u \<le> INFTY"
    and path: "\<And>u. u < n \<Longrightarrow> h u < INFTY \<Longrightarrow> hop_path link relay root (h u) u"
    and inq: "\<And>x. x \<in> set q \<Longrightarrow> x < n \<and> h x < INFTY \<and> (x = root \<or> relay x) \<and> h k \<le> h x"
    and closed: "\<And>x u. x < n \<Longrightarrow> h x < INFTY \<Longrightarrow> x = root \<or> relay x \<Longrightarrow> x \<noteq> k \<Longrightarrow> x \<notin> set q \<Longrightarrow>
      link x u \<Longrightarrow> h u \<le> h x + 1"
    and srt: "sorted (map h q)" and lev: "\<And>u. u < n \<Longrightarrow> h u < INFTY \<Longrightarrow> h u \<le> h k + 1"
    using inv unfolding bfs_inv_def by auto
  have old: "h' u = h u" if "u < n" "h u < INFTY" for u
    using lev [OF that] that(1) by (simp add: h')
  have new: "h' u = h k + 1 \<and> h u = INFTY \<and> link k u \<and> h k + 1 < INFTY" if "u < n" "h' u \<noteq> h u" for u
    using that bfs_inv_undiscovered [OF inv, of u] by (auto simp: h' split: if_splits)
  have h'le: "h' u \<le> h u" if "u < n" for u using that by (simp add: h')
  have added: "x < n \<and> h' x = h k + 1 \<and> h' x < INFTY \<and> relay x"
    if "x \<in> set q'" "x \<notin> set q" for x
    using that bfs_inv_undiscovered [OF inv, of x] by (auto simp: q' h')
  have path': "hop_path link relay root (h' u) u" if "u < n" "h' u < INFTY" for u
  proof (cases "h' u = h u")
    case True
    then show ?thesis using path that by simp
  next
    case False
    then show ?thesis using new [OF that(1)] hop_step [OF path [OF k(1,2)] k(3)] by simp
  qed
  have inq': "x < n \<and> h' x < INFTY \<and> (x = root \<or> relay x)" if "x \<in> set q'" for x
    using inq [of x] added [OF that] old [of x] by (cases "x \<in> set q") auto
  have closed': "h' u \<le> h' x + 1"
    if x: "x < n" "h' x < INFTY" "x = root \<or> relay x" "x \<notin> set q'" "link x u" for x u
  proof (cases "h x < INFTY")
    case True
    show ?thesis
    proof (cases "x = k")
      case True
      then show ?thesis using x(5) link_bound [OF x(5)] old [OF k(1,2)] by (auto simp: h')
    next
      case False
      have "x \<notin> set q" using x(4) by (simp add: q')
      from closed [OF x(1) True x(3) False this x(5)] show ?thesis
        using h'le [of u] link_bound [OF x(5)] old [OF x(1) True] by simp
    qed
  next
    case False
    then have "h' x \<noteq> h x" using x(2) by auto
    with new [OF x(1)] x(3) root have "x \<in> set q'" by (auto simp: q' x(1))
    with x(4) show ?thesis by simp
  qed
  have hq: "map h' q = map h q" using inq old by simp
  let ?new = "filter (\<lambda>u. link k u \<and> h k + 1 < h u \<and> relay u) [0 ..< n]"
  have "map h' ?new = replicate (length ?new) (h k + 1)"
    by (rule map_replicate_eqI) (simp add: h')
  moreover have "\<forall>x \<in> set q. h x \<le> h k + 1" using inq lev by simp
  ultimately have srt': "sorted (map h' q')"
    using srt by (simp add: q' sorted_append hq sorted_replicate)
  have hd': "h' u \<le> h' (hd q') + 1" if "q' \<noteq> []" "u < n" "h' u < INFTY" for u
  proof -
    have "h k \<le> h' (hd q')"
      using that(1) inq [of "hd q'"] added [of "hd q'"] old [of "hd q'"]
      by (cases "hd q' \<in> set q") auto
    moreover have "h' u \<le> h k + 1"
      using lev [OF that(2)] new [OF that(2)] that(3) by (cases "h' u = h u") auto
    ultimately show ?thesis by simp
  qed
  have root': "h' root = 0" using root old [of root] by simp
  have le': "h' u \<le> INFTY" if "u < n" for u using le [OF that] h'le [OF that] by simp
  show ?thesis
    unfolding bfs_inv_def
    by (intro conjI allI impI ballI root(1) root' srt')
      (erule le' path' hd' closed' inq' [THEN conjunct1] inq' [THEN conjunct2, THEN conjunct1]
        inq' [THEN conjunct2, THEN conjunct2]; assumption)+
qed

lemma bfs_inv_final:
  assumes inv: "bfs_inv root h []" and n: "n \<le> INFTY" and u: "u < n"
  shows "(\<forall>d. hop_dist link relay root u d \<longrightarrow> h u = d \<and> d < n) \<and>
    ((\<nexists>d. hop_path link relay root d u) \<longrightarrow> h u = INFTY)"
proof -
  have root: "root < n" "h root = 0" and le: "\<And>u. u < n \<Longrightarrow> h u \<le> INFTY"
    and path: "\<And>u. u < n \<Longrightarrow> h u < INFTY \<Longrightarrow> hop_path link relay root (h u) u"
    and closed: "\<And>x u. x < n \<Longrightarrow> h x < INFTY \<Longrightarrow> x = root \<or> relay x \<Longrightarrow> link x u \<Longrightarrow> h u \<le> h x + 1"
    using inv unfolding bfs_inv_def by auto
  have upper: "v < n \<Longrightarrow> h v \<le> d" if "hop_path link relay root d v" for d v
    using that
  proof induction
    case hop_root
    then show ?case using root by simp
  next
    case (hop_step d k v)
    then have k: "k < n" and IH: "h k \<le> d" using link_bound by blast+
    show ?case
    proof (cases "h k < INFTY")
      case True
      then show ?thesis using closed [OF k True hop_step(2,3)] IH by simp
    next
      case False
      then show ?thesis using IH le [OF hop_step.prems] by simp
    qed
  qed
  have "h u = d \<and> d < n" if "hop_dist link relay root u d" for d
  proof -
    have d: "d < n" using hop_dist_less [OF that root(1)] .
    have "h u \<le> d" using upper [OF _ u] that by (simp add: hop_dist_def)
    then have "hop_path link relay root (h u) u" using path [OF u] d n by simp
    with that have "d \<le> h u" by (simp add: hop_dist_def)
    with \<open>h u \<le> d\<close> d show ?thesis by simp
  qed
  moreover have "h u = INFTY" if "\<nexists>d. hop_path link relay root d u"
    using path [OF u] le [OF u] that by fastforce
  ultimately show ?thesis by blast
qed

text \<open>The form in which the calculation uses the hop counts.\<close>

lemma bfs_within:
  assumes inv: "bfs_inv root h []" and "n \<le> INFTY" "u < n" "c < int INFTY"
  shows "int (h u) \<le> c \<longleftrightarrow> (\<exists>d. int d \<le> c \<and> hop_path link relay root d u)"
proof
  assume "int (h u) \<le> c"
  with assms(4) have "h u < INFTY" by simp
  with inv assms(3) have "hop_path link relay root (h u) u" by (simp add: bfs_inv_def)
  with \<open>int (h u) \<le> c\<close> show "\<exists>d. int d \<le> c \<and> hop_path link relay root d u" by blast
next
  assume "\<exists>d. int d \<le> c \<and> hop_path link relay root d u"
  then obtain d d' where d: "int d \<le> c" "d' \<le> d" "hop_dist link relay root u d'"
    using hop_path_dist by blast
  have "h u = d'" using bfs_inv_final [OF inv assms(2,3)] d(3) by simp
  with d show "int (h u) \<le> c" by simp
qed

end

end
