(* ===== verification/Mdr_Calc.thy ===== *)
theory Mdr_Calc
  imports Mdr_Tree Mdr_Bfs
begin

text \<open>
  \<open>ospf6_calculate_mdr\<close> of \<^verbatim>\<open>src/ospf6d/ospf6_mdr.c\<close>: the decision whether this router belongs to
  the connected dominating set (MDR), is a backup (BMDR) or neither, which neighbors are dependent,
  who the parents are, and whether an MDR floods. One definition per phase, composed as in the
  code. Neighbors are positions in the neighbor list. The function returns \<^term>\<open>None\<close> if it would
  follow a null pointer or not return; the theorem \<open>ospf6_calculate_mdr_returns\<close> excludes both.
\<close>

section \<open>Start\<close>

text \<open>No calculation before Hellos had the time to arrive, unless all neighbors have sent a full
  one. The product of two \<^verbatim>\<open>u_int16_t\<close> is an \<^verbatim>\<open>int\<close>.\<close>
definition mdr_wait :: "timeval \<Rightarrow> ospf6 \<Rightarrow> ospf6_interface \<Rightarrow> bool" where
  "mdr_wait now ospf6 oi \<longleftrightarrow>
     elapsed_sec now (o_starttime ospf6) <
       uint (oi_hello_interval oi) * uint (im_TwoHopRefresh (oi_mdr oi)) \<and>
     (if oi_allow_immediate_hello oi \<and> num_neigh oi > 0
      then \<exists>onj \<in> set (oi_neighbor_list oi). \<not> nm_Report2Hop (on_mdr onj)
      else True)"

text \<open>The largest and the second largest neighbor.\<close>
record mdr_max =
  maxid :: u32
  maxid2 :: u32
  max_mdr_level :: int
  max_mdr_level2 :: int
  max_priority :: u8
  max_priority2 :: u8
  max_on :: "nat option"
  max_on2 :: "nat option"

definition mdr_max_init :: mdr_max where
  "mdr_max_init =
     \<lparr>maxid = 0, maxid2 = 0, max_mdr_level = OSPF6_OTHER, max_mdr_level2 = OSPF6_OTHER,
      max_priority = 1, max_priority2 = 1, max_on = None, max_on2 = None\<rparr>"

text \<open>Compare a neighbor with the two largest so far.\<close>
definition mdr_max_update :: "nat \<Rightarrow> ospf6_neighbor \<Rightarrow> mdr_max \<Rightarrow> mdr_max" where
  "mdr_max_update j onj mx =
     (let id = on_router_id onj; level = nm_mdr_level (on_mdr onj); pri = on_priority onj in
      if ospf6_sidcds_lexicographic (uint pri) (uint (max_priority mx)) level (max_mdr_level mx)
           id (maxid mx)
      then mx\<lparr>maxid2 := maxid mx, max_priority2 := max_priority mx,
              max_mdr_level2 := max_mdr_level mx, max_on2 := max_on mx,
              maxid := id, max_mdr_level := level, max_priority := pri, max_on := Some j\<rparr>
      else if ospf6_sidcds_lexicographic (uint pri) (uint (max_priority2 mx)) level (max_mdr_level2 mx)
           id (maxid2 mx)
      then mx\<lparr>maxid2 := id, max_mdr_level2 := level, max_priority2 := pri, max_on2 := Some j\<rparr>
      else mx)"

text \<open>One pass of the first loop.\<close>
definition mdr_select :: "ospf6 \<Rightarrow> matrix \<Rightarrow> nat \<Rightarrow> ospf6_interface \<times> mdr_max \<Rightarrow> ospf6_interface \<times> mdr_max" where
  "mdr_select ospf6 cm j = (\<lambda>(oi, mx).
     let oi = nbr_mdr_update j (\<lambda>m. m\<lparr>nm_dependent := False, nm_hops := INFTY, nm_hops2 := INFTY\<rparr>) oi in
     if ospf6_mdr_cost ospf6 oi cm j None \<noteq> 1 then (oi, mx)
     else (oi, mdr_max_update j (nbr oi j) mx))"

text \<open>The tests that select a dependent neighbor, used when this router is an MDR.\<close>
definition mdr_may_depend :: "ospf6_interface \<Rightarrow> nat \<Rightarrow> bool" where
  "mdr_may_depend oi j \<longleftrightarrow>
     nbr_level oi j = OSPF6_MDR \<or>
     im_AdjConnectivity (oi_mdr oi) = OSPF6_ADJ_BICONNECTED \<and> nbr_level oi j = OSPF6_BMDR"

abbreviation set_dependent :: "nat \<Rightarrow> ospf6_interface \<Rightarrow> ospf6_interface" where
  "set_dependent j \<equiv> nbr_mdr_update j (nm_dependent_update (\<lambda>_. True))"

section \<open>Phase 2\<close>

text \<open>No neighbors.\<close>
definition mdr_no_neighbors :: "ospf6_interface \<Rightarrow> ospf6_interface" where
  "mdr_no_neighbors oi =
     oi\<lparr>oi_mdr := (oi_mdr oi)\<lparr>im_mdr_level := OSPF6_OTHER, im_nonflooding_mdr := False,
                              im_parent := None, im_bparent := None\<rparr>\<rparr>"

text \<open>Step 2.2: this router is larger than its neighbors. The loop over the neighbors stops at once
  without adjacency reduction.\<close>
fun mdr_self_dependents :: "ospf6 \<Rightarrow> matrix \<Rightarrow> nat list \<Rightarrow> ospf6_interface \<Rightarrow> ospf6_interface" where
  "mdr_self_dependents ospf6 cm [] oi = oi"
| "mdr_self_dependents ospf6 cm (j # js) oi =
     (if im_AdjConnectivity (oi_mdr oi) = OSPF6_ADJ_FULLYCONNECTED then oi
      else mdr_self_dependents ospf6 cm js
             (if ospf6_mdr_cost ospf6 oi cm j None = 1 \<and> mdr_may_depend oi j
              then set_dependent j oi else oi))"

definition mdr_self_largest :: "ospf6 \<Rightarrow> matrix \<Rightarrow> ospf6_interface \<Rightarrow> ospf6_interface" where
  "mdr_self_largest ospf6 cm oi =
     (let oi = oi\<lparr>oi_mdr := (oi_mdr oi)\<lparr>im_mdr_level := OSPF6_MDR, im_nonflooding_mdr := False\<rparr>\<rparr>;
          oi = mdr_self_dependents ospf6 cm [0 ..< num_neigh oi] oi
      in oi\<lparr>oi_mdr := (oi_mdr oi)\<lparr>im_parent := None, im_bparent := None\<rparr>\<rparr>)"

text \<open>
  The fields that the searches write. \<open>oi_core\<close> forgets them; what depends on nothing else is the
  same before and after a search.
\<close>
definition nbr_core :: "ospf6_neighbor \<Rightarrow> ospf6_neighbor" where
  "nbr_core = on_mdr_update (\<lambda>m. m\<lparr>nm_hops := 0, nm_hops2 := 0, nm_treenode := None, nm_dependent := False\<rparr>)"

definition oi_core :: "ospf6_interface \<Rightarrow> ospf6_interface" where
  "oi_core oi = oi\<lparr>oi_neighbor_list := map nbr_core (oi_neighbor_list oi)\<rparr>"

text \<open>Step 2.4, the loop body: relax the link from \<open>k\<close> to \<open>u\<close>.\<close>
type_synonym bfs_state = "tree \<times> ospf6_interface \<times> nat list"

abbreviation hops_of :: "ospf6_interface \<Rightarrow> nat \<Rightarrow> nat" where
  "hops_of oi u \<equiv> nm_hops (on_mdr (nbr oi u))"

abbreviation hops2_of :: "ospf6_interface \<Rightarrow> nat \<Rightarrow> nat" where
  "hops2_of oi u \<equiv> nm_hops2 (on_mdr (nbr oi u))"

abbreviation treenode_of :: "ospf6_interface \<Rightarrow> nat \<Rightarrow> nat option" where
  "treenode_of oi u \<equiv> nm_treenode (on_mdr (nbr oi u))"

definition sec_node_of :: "tree \<Rightarrow> nat option \<Rightarrow> nat option" where
  "sec_node_of tree t = (case t of None \<Rightarrow> None | Some t \<Rightarrow> tn_sec_node (tree ! t))"

definition set_sec_node :: "nat option \<Rightarrow> nat option \<Rightarrow> tree \<Rightarrow> tree" where
  "set_sec_node t s tree =
     (case t of None \<Rightarrow> tree | Some t \<Rightarrow> tree[t := (tree ! t)\<lparr>tn_sec_node := s\<rparr>])"

definition mdr_bfs_relax :: "ospf6 \<Rightarrow> matrix \<Rightarrow> nat \<Rightarrow> nat \<Rightarrow> bfs_state \<Rightarrow> bfs_state" where
  "mdr_bfs_relax ospf6 cm k u = (\<lambda>(tree, oi, q).
     if ospf6_mdr_cost ospf6 oi cm u None \<noteq> 1 then (tree, oi, q)
     else if ospf6_mdr_cost ospf6 oi cm k (Some u) \<noteq> 1 then (tree, oi, q)
     else if hops_of oi k + 1 < hops_of oi u then
       let oi = nbr_mdr_update u (nm_hops_update (\<lambda>_. hops_of oi k + 1)) oi;
           (tree, oi) = add_tree_node u (treenode_of oi k) (tree, oi);
           tree = (if hops_of oi u = 1
                   then set_sec_node (treenode_of oi u) (Some u) tree
                   else set_sec_node (treenode_of oi u) (sec_node_of tree (treenode_of oi k)) tree)
       in (tree, oi, q @ [u])
     else (tree, oi, q))"

lemma mdr_bfs_relax_measure:
  assumes "set us \<subseteq> {..< num_neigh oi}"
    and "fold (mdr_bfs_relax ospf6 cm k) us (tree, oi, q) = (tree', oi', q')"
  shows "num_neigh oi' = num_neigh oi \<and>
    2 * hops_sum (num_neigh oi) (hops_of oi') + length q' \<le> 2 * hops_sum (num_neigh oi) (hops_of oi) + length q"
  using assms
proof (induction us arbitrary: tree oi q)
  case (Cons u us)
  obtain t1 oi1 q1 where 1: "mdr_bfs_relax ospf6 cm k u (tree, oi, q) = (t1, oi1, q1)"
    using prod_cases3 by blast
  let ?n = "num_neigh oi"
  have n: "num_neigh oi1 = ?n"
    using 1 by (auto simp: mdr_bfs_relax_def add_tree_node_def Let_def split: if_splits)
  have "2 * hops_sum ?n (hops_of oi1) + length q1 \<le> 2 * hops_sum ?n (hops_of oi) + length q"
  proof (cases "hops_of oi1 u < hops_of oi u")
    case True
    have "hops_sum ?n (hops_of oi1) < hops_sum ?n (hops_of oi)"
      unfolding hops_sum_def
      by (rule sum_strict_mono_ex1)
        (use 1 True Cons.prems(1) in \<open>auto simp: mdr_bfs_relax_def add_tree_node_def Let_def split: if_splits\<close>)
    moreover have "length q1 \<le> Suc (length q)"
      using 1 by (auto simp: mdr_bfs_relax_def add_tree_node_def Let_def split: if_splits)
    ultimately show ?thesis by simp
  next
    case False
    then have "oi1 = oi \<and> q1 = q"
      using 1 Cons.prems(1) by (auto simp: mdr_bfs_relax_def add_tree_node_def Let_def split: if_splits)
    then show ?thesis by simp
  qed
  with Cons.IH [of oi1 t1 q1] Cons.prems 1 n show ?case by simp
qed simp

function mdr_bfs_loop :: "ospf6 \<Rightarrow> matrix \<Rightarrow> bfs_state \<Rightarrow> bfs_state" where
  "mdr_bfs_loop ospf6 cm (tree, oi, q) =
     (case q of
        [] \<Rightarrow> (tree, oi, [])
      | k # q' \<Rightarrow>
          mdr_bfs_loop ospf6 cm (fold (mdr_bfs_relax ospf6 cm k) [0 ..< num_neigh oi] (tree, oi, q')))"
  by pat_completeness auto

termination
proof (relation "measure (\<lambda>(ospf6, cm, tree, oi, q). 2 * hops_sum (num_neigh oi) (hops_of oi) + length q)")
  fix ospf6 :: ospf6 and cm :: matrix and tree :: tree and oi :: ospf6_interface
    and q :: "nat list" and k q'
  assume q: "q = k # q'"
  obtain t1 oi1 q1 where 1: "fold (mdr_bfs_relax ospf6 cm k) [0 ..< num_neigh oi] (tree, oi, q') = (t1, oi1, q1)"
    using prod_cases3 by blast
  have "set [0 ..< num_neigh oi] \<subseteq> {..< num_neigh oi}" by auto
  from mdr_bfs_relax_measure [OF this 1] q
  show "((ospf6, cm, fold (mdr_bfs_relax ospf6 cm k) [0 ..< num_neigh oi] (tree, oi, q')), ospf6, cm, tree, oi, q)
      \<in> measure (\<lambda>(ospf6, cm, tree, oi, q). 2 * hops_sum (num_neigh oi) (hops_of oi) + length q)"
    unfolding 1 by simp
qed simp

declare mdr_bfs_loop.simps [simp del]

text \<open>Step 2.4.\<close>
definition mdr_bfs :: "ospf6 \<Rightarrow> matrix \<Rightarrow> nat \<Rightarrow> ospf6_interface \<Rightarrow> tree \<times> ospf6_interface" where
  "mdr_bfs ospf6 cm mx oi =
     (let oi = nbr_mdr_update mx (nm_hops_update (\<lambda>_. 0)) oi;
          (tree, oi) = add_tree_node mx None ([], oi);
          tree = set_sec_node (treenode_of oi mx) None tree;
          (tree, oi, q) = mdr_bfs_loop ospf6 cm (tree, oi, [mx])
      in (tree, oi))"

text \<open>Step 2.6: MDR if a neighbor is more than \<open>MDRConstraint\<close> hops away.\<close>
fun mdr_step26 :: "ospf6 \<Rightarrow> matrix \<Rightarrow> nat list \<Rightarrow> bool \<times> ospf6_interface \<Rightarrow> bool \<times> ospf6_interface" where
  "mdr_step26 ospf6 cm [] (dr, oi) = (dr, oi)"
| "mdr_step26 ospf6 cm (k # ks) (dr, oi) =
     (if ospf6_mdr_cost ospf6 oi cm k None \<noteq> 1 then mdr_step26 ospf6 cm ks (dr, oi)
      else if int (hops_of oi k) > im_MDRConstraint (oi_mdr oi) then
        if im_AdjConnectivity (oi_mdr oi) = OSPF6_ADJ_FULLYCONNECTED then (True, oi)
        else mdr_step26 ospf6 cm ks (True, if mdr_may_depend oi k then set_dependent k oi else oi)
      else mdr_step26 ospf6 cm ks (dr, oi))"

definition mdr_phase2_end :: "nat \<Rightarrow> bool \<Rightarrow> ospf6_interface \<Rightarrow> ospf6_interface" where
  "mdr_phase2_end mx dr oi =
     (let oi = (if dr \<and> im_AdjConnectivity (oi_mdr oi) \<noteq> OSPF6_ADJ_FULLYCONNECTED \<and>
                   nbr_level oi mx > OSPF6_OTHER
                then set_dependent mx oi else oi);
          oi = (if dr then oi\<lparr>oi_mdr := (oi_mdr oi)\<lparr>im_mdr_level := OSPF6_MDR\<rparr>\<rparr> else oi)
      in if \<not> dr \<and> im_mdr_level (oi_mdr oi) = OSPF6_MDR
         then oi\<lparr>oi_mdr := (oi_mdr oi)\<lparr>im_mdr_level := OSPF6_BMDR\<rparr>\<rparr> else oi)"

section \<open>Phase 3\<close>

abbreviation set_hops2_0 :: "nat \<Rightarrow> ospf6_interface \<Rightarrow> ospf6_interface" where
  "set_hops2_0 v \<equiv> nbr_mdr_update v (nm_hops2_update (\<lambda>_. 0))"

definition set_labeled :: "nat \<Rightarrow> tree \<Rightarrow> tree" where
  "set_labeled t tree = tree[t := (tree ! t)\<lparr>tn_labeled := True\<rparr>]"

text \<open>Part (a) for one neighbor \<open>v\<close>: a link from a tree node with a different second node.\<close>
definition mdr_phase3a :: "ospf6 \<Rightarrow> matrix \<Rightarrow> nat \<Rightarrow> tree \<Rightarrow> nat \<Rightarrow> ospf6_interface \<Rightarrow> ospf6_interface" where
  "mdr_phase3a ospf6 cm mx tree v oi =
     (if v = mx then oi
      else case treenode_of oi v of
        None \<Rightarrow> oi
      | Some tv \<Rightarrow>
          if list_ex (\<lambda>u. u \<noteq> mx \<and>
               (case treenode_of oi u of
                  None \<Rightarrow> False
                | Some tu \<Rightarrow> tn_sec_node (tree ! tu) \<noteq> tn_sec_node (tree ! tv) \<and>
                             ospf6_mdr_cost ospf6 oi cm u (Some v) = 1)) [0 ..< num_neigh oi]
          then set_hops2_0 v oi
          else oi)"

text \<open>Part (b): an unlabeled node with disjoint paths.\<close>
definition mdr_find_min :: "ospf6 \<Rightarrow> matrix \<Rightarrow> tree \<Rightarrow> ospf6_interface \<Rightarrow> nat option" where
  "mdr_find_min ospf6 cm tree oi =
     List.find (\<lambda>k. ospf6_mdr_cost ospf6 oi cm k None = 1 \<and>
                    (case treenode_of oi k of None \<Rightarrow> False | Some t \<Rightarrow> \<not> tn_labeled (tree ! t)) \<and>
                    hops2_of oi k = 0) [0 ..< num_neigh oi]"

text \<open>The root of the unlabeled subtree of the parent.\<close>
fun mdr_subtree_root :: "nat \<Rightarrow> tree \<Rightarrow> nat \<Rightarrow> nat \<Rightarrow> nat option" where
  "mdr_subtree_root 0 tree mx root = None"
| "mdr_subtree_root (Suc fuel) tree mx root =
     (case tn_parent (tree ! root) of
        None \<Rightarrow> Some root
      | Some p \<Rightarrow>
          if \<not> tn_labeled (tree ! root) \<and> tn_on (tree ! p) \<noteq> mx
          then mdr_subtree_root fuel tree mx p else Some root)"

text \<open>The body of the inner loop: the links between \<open>u\<close> and \<open>v\<close> in both directions.\<close>
definition mdr_process_links :: "ospf6 \<Rightarrow> matrix \<Rightarrow> nat \<Rightarrow> nat \<Rightarrow> ospf6_interface \<Rightarrow> ospf6_interface" where
  "mdr_process_links ospf6 cm u v oi =
     (let oi = (if ospf6_mdr_cost ospf6 oi cm u (Some v) = 1 \<and> hops2_of oi v \<noteq> 0
                then set_hops2_0 v oi else oi)
      in if ospf6_mdr_cost ospf6 oi cm v (Some u) = 1 \<and> hops2_of oi u \<noteq> 0
         then set_hops2_0 u oi else oi)"

definition mdr_label_node ::
    "ospf6 \<Rightarrow> matrix \<Rightarrow> nat \<Rightarrow> nat \<Rightarrow> tree \<Rightarrow> ospf6_interface \<Rightarrow> (tree \<times> ospf6_interface) option" where
  "mdr_label_node ospf6 cm mx min_on tree oi =
     (case treenode_of oi min_on of
        None \<Rightarrow> None
      | Some tm \<Rightarrow>
          let tree = set_labeled tm tree; fuel = length tree + 1 in
          case tn_parent (tree ! tm) of
            None \<Rightarrow> None
          | Some p \<Rightarrow>
              (case mdr_subtree_root fuel tree mx p of
                 None \<Rightarrow> None
               | Some root \<Rightarrow>
                   map_option (Pair tree)
                     (dfs_for fuel tree root
                        (\<lambda>tu. dfs_for fuel tree tm
                                (\<lambda>tv oi. Some (mdr_process_links ospf6 cm (tn_on (tree ! tu))
                                                 (tn_on (tree ! tv)) oi)) (Some tm))
                        (Some root) oi)))"

fun mdr_label_loop ::
    "nat \<Rightarrow> ospf6 \<Rightarrow> matrix \<Rightarrow> nat \<Rightarrow> tree \<Rightarrow> ospf6_interface \<Rightarrow> (tree \<times> ospf6_interface) option" where
  "mdr_label_loop 0 ospf6 cm mx tree oi = None"
| "mdr_label_loop (Suc fuel) ospf6 cm mx tree oi =
     (case mdr_find_min ospf6 cm tree oi of
        None \<Rightarrow> Some (tree, oi)
      | Some min_on \<Rightarrow>
          (case mdr_label_node ospf6 cm mx min_on tree oi of
             None \<Rightarrow> None
           | Some (tree, oi) \<Rightarrow> mdr_label_loop fuel ospf6 cm mx tree oi))"

definition mdr_phase3_paths ::
    "ospf6 \<Rightarrow> matrix \<Rightarrow> nat \<Rightarrow> tree \<Rightarrow> ospf6_interface \<Rightarrow> (tree \<times> ospf6_interface) option" where
  "mdr_phase3_paths ospf6 cm mx tree oi =
     (let oi = set_hops2_0 mx oi in
      case treenode_of oi mx of
        None \<Rightarrow> None
      | Some t \<Rightarrow>
          let tree = set_labeled t tree;
              oi = fold (mdr_phase3a ospf6 cm mx tree) [0 ..< num_neigh oi] oi
          in mdr_label_loop (length tree + 1) ospf6 cm mx tree oi)"

text \<open>Phase 3.3: backup MDR if there are no disjoint paths to some neighbor.\<close>
definition mdr_step33 ::
    "ospf6 \<Rightarrow> matrix \<Rightarrow> bool \<Rightarrow> nat \<Rightarrow> bool \<times> ospf6_interface \<Rightarrow> bool \<times> ospf6_interface" where
  "mdr_step33 ospf6 cm dr k = (\<lambda>(bdr, oi).
     if ospf6_mdr_cost ospf6 oi cm k None \<noteq> 1 then (bdr, oi)
     else if hops2_of oi k = INFTY then
       (bdr \<or> \<not> dr,
        if \<not> nm_dependent (on_mdr (nbr oi k)) \<and>
           im_AdjConnectivity (oi_mdr oi) = OSPF6_ADJ_BICONNECTED \<and> nbr_level oi k \<ge> OSPF6_BMDR
        then set_dependent k oi else oi)
     else (bdr, oi))"

definition mdr_phase3_end :: "nat \<Rightarrow> bool \<Rightarrow> bool \<Rightarrow> ospf6_interface \<Rightarrow> ospf6_interface" where
  "mdr_phase3_end mx dr bdr oi =
     (let oi = (if bdr \<and> im_AdjConnectivity (oi_mdr oi) = OSPF6_ADJ_BICONNECTED \<and>
                   nbr_level oi mx > OSPF6_OTHER
                then set_dependent mx oi else oi);
          oi = (if bdr then oi\<lparr>oi_mdr := (oi_mdr oi)\<lparr>im_mdr_level := OSPF6_BMDR\<rparr>\<rparr> else oi)
      in if \<not> dr \<and> \<not> bdr then oi\<lparr>oi_mdr := (oi_mdr oi)\<lparr>im_mdr_level := OSPF6_OTHER\<rparr>\<rparr> else oi)"

section \<open>Phase 4\<close>

text \<open>
  The adjacent neighbor with the largest (priority, level, ID) among those of at least the given
  level, without the excluded one. The priority it is compared with is not updated: it stays what
  the caller passes.
\<close>
definition mdr_parent_scan ::
    "ospf6_interface \<Rightarrow> u8 \<Rightarrow> int \<Rightarrow> rid option \<Rightarrow> nat \<Rightarrow> u32 \<times> int \<times> nat option \<Rightarrow> u32 \<times> int \<times> nat option" where
  "mdr_parent_scan oi mpri min_level excl j = (\<lambda>(mid, mlevel, mnbr).
     let onj = nbr oi j in
     if on_state onj < OSPF6_NEIGHBOR_EXCHANGE then (mid, mlevel, mnbr)
     else if Some (on_router_id onj) = excl then (mid, mlevel, mnbr)
     else if nm_mdr_level (on_mdr onj) < min_level then (mid, mlevel, mnbr)
     else if ospf6_sidcds_lexicographic (uint (on_priority onj)) (uint mpri)
               (nm_mdr_level (on_mdr onj)) mlevel (on_router_id onj) mid
     then (on_router_id onj, nm_mdr_level (on_mdr onj), Some j)
     else (mid, mlevel, mnbr))"

definition nbr_ptr :: "ospf6_interface \<Rightarrow> nat option \<Rightarrow> rid option" where
  "nbr_ptr oi j = map_option (\<lambda>j. on_router_id (nbr oi j)) j"

definition mdr_parents :: "bool \<Rightarrow> bool \<Rightarrow> mdr_max \<Rightarrow> ospf6_interface \<Rightarrow> ospf6_interface" where
  "mdr_parents dr bdr mx oi =
     (let nbrs = [0 ..< num_neigh oi];
          parent = (if dr then None
                    else let (mid, mlevel, mnbr) =
                               fold (mdr_parent_scan oi (max_priority mx) OSPF6_MDR None) nbrs (0, 0, None)
                         in if mid \<noteq> 0 then nbr_ptr oi mnbr else nbr_ptr oi (max_on mx));
          bparent = (if dr then nbr_ptr oi (max_on mx) else None);
          bparent = (if \<not> dr \<and> \<not> bdr \<and> im_AdjConnectivity (oi_mdr oi) = OSPF6_ADJ_BICONNECTED
                     then let (mid, mlevel, mnbr) =
                                fold (mdr_parent_scan oi (max_priority mx) OSPF6_BMDR parent) nbrs (0, 0, None)
                          in if mid \<noteq> 0 then nbr_ptr oi mnbr
                             else if parent \<noteq> nbr_ptr oi (max_on mx) then nbr_ptr oi (max_on mx)
                             else nbr_ptr oi (max_on2 mx)
                     else bparent)
      in oi\<lparr>oi_mdr := (oi_mdr oi)\<lparr>im_parent := parent, im_bparent := bparent\<rparr>\<rparr>)"

section \<open>Phase 5\<close>

definition mdr_flood_relax :: "ospf6 \<Rightarrow> matrix \<Rightarrow> nat \<Rightarrow> nat \<Rightarrow> ospf6_interface \<times> nat list \<Rightarrow>
    ospf6_interface \<times> nat list" where
  "mdr_flood_relax ospf6 cm k u = (\<lambda>(oi, q).
     if ospf6_mdr_cost ospf6 oi cm u None \<noteq> 1 then (oi, q)
     else if cm (mx_index oi k) (mx_index oi u) \<noteq> 1 then (oi, q)
     else if hops_of oi k + 1 < hops_of oi u then
       (nbr_mdr_update u (nm_hops_update (\<lambda>_. hops_of oi k + 1)) oi,
        if nbr_level oi u = OSPF6_MDR \<and> on_router_id (nbr oi u) < o_router_id ospf6
        then q @ [u] else q)
     else (oi, q))"

lemma mdr_flood_relax_measure:
  assumes "set us \<subseteq> {..< num_neigh oi}"
    and "fold (mdr_flood_relax ospf6 cm k) us (oi, q) = (oi', q')"
  shows "num_neigh oi' = num_neigh oi \<and>
    2 * hops_sum (num_neigh oi) (hops_of oi') + length q' \<le> 2 * hops_sum (num_neigh oi) (hops_of oi) + length q"
  using assms
proof (induction us arbitrary: oi q)
  case (Cons u us)
  obtain oi1 q1 where 1: "mdr_flood_relax ospf6 cm k u (oi, q) = (oi1, q1)" by fastforce
  let ?n = "num_neigh oi"
  have n: "num_neigh oi1 = ?n" using 1 by (auto simp: mdr_flood_relax_def split: if_splits)
  have "2 * hops_sum ?n (hops_of oi1) + length q1 \<le> 2 * hops_sum ?n (hops_of oi) + length q"
  proof (cases "hops_of oi1 u < hops_of oi u")
    case True
    have "hops_sum ?n (hops_of oi1) < hops_sum ?n (hops_of oi)"
      unfolding hops_sum_def
      by (rule sum_strict_mono_ex1)
        (use 1 True Cons.prems(1) in \<open>auto simp: mdr_flood_relax_def split: if_splits\<close>)
    moreover have "length q1 \<le> Suc (length q)"
      using 1 by (auto simp: mdr_flood_relax_def split: if_splits)
    ultimately show ?thesis by simp
  next
    case False
    then have "oi1 = oi \<and> q1 = q"
      using 1 Cons.prems(1) by (auto simp: mdr_flood_relax_def split: if_splits)
    then show ?thesis by simp
  qed
  with Cons.IH [of oi1 q1] Cons.prems 1 n show ?case by simp
qed simp

function mdr_flood_loop :: "ospf6 \<Rightarrow> matrix \<Rightarrow> ospf6_interface \<times> nat list \<Rightarrow> ospf6_interface \<times> nat list" where
  "mdr_flood_loop ospf6 cm (oi, q) =
     (case q of
        [] \<Rightarrow> (oi, [])
      | k # q' \<Rightarrow>
          mdr_flood_loop ospf6 cm (fold (mdr_flood_relax ospf6 cm k) [0 ..< num_neigh oi] (oi, q')))"
  by pat_completeness auto
termination
proof (relation "measure (\<lambda>(ospf6, cm, oi, q). 2 * hops_sum (num_neigh oi) (hops_of oi) + length q)")
  fix ospf6 :: ospf6 and cm :: matrix and oi :: ospf6_interface and q :: "nat list" and k q'
  assume q: "q = k # q'"
  obtain oi1 q1 where 1: "fold (mdr_flood_relax ospf6 cm k) [0 ..< num_neigh oi] (oi, q') = (oi1, q1)"
    by fastforce
  have "set [0 ..< num_neigh oi] \<subseteq> {..< num_neigh oi}" by auto
  from mdr_flood_relax_measure [OF this 1] q
  show "((ospf6, cm, fold (mdr_flood_relax ospf6 cm k) [0 ..< num_neigh oi] (oi, q')), ospf6, cm, oi, q)
      \<in> measure (\<lambda>(ospf6, cm, oi, q). 2 * hops_sum (num_neigh oi) (hops_of oi) + length q)"
    unfolding 1 by simp
qed simp

declare mdr_flood_loop.simps [simp del]

definition mdr_nonflooding :: "ospf6 \<Rightarrow> matrix \<Rightarrow> bool \<Rightarrow> nat \<Rightarrow> ospf6_interface \<Rightarrow> ospf6_interface" where
  "mdr_nonflooding ospf6 cm dr mx oi =
     (let oi = oi\<lparr>oi_mdr := (oi_mdr oi)\<lparr>im_nonflooding_mdr := False\<rparr>\<rparr> in
      if \<not> dr then oi
      else
        let oi = fold (\<lambda>j. nbr_mdr_update j (nm_hops_update (\<lambda>_. INFTY))) [0 ..< num_neigh oi] oi;
            oi = nbr_mdr_update mx (nm_hops_update (\<lambda>_. 0)) oi;
            (oi, q) = mdr_flood_loop ospf6 cm (oi, [mx]);
            flooding = list_ex (\<lambda>k. ospf6_mdr_cost ospf6 oi cm k None = 1 \<and>
                                    int (hops_of oi k) > im_MDRConstraint (oi_mdr oi)) [0 ..< num_neigh oi]
        in oi\<lparr>oi_mdr := (oi_mdr oi)\<lparr>im_nonflooding_mdr := \<not> flooding\<rparr>\<rparr>)"

section \<open>The calculation\<close>

definition ospf6_run_update_mdr_level_hooks :: "ospf6_interface \<Rightarrow> ospf6_interface" where
  "ospf6_run_update_mdr_level_hooks oi = emit (UpdateMdrLevelHooks (im_mdr_level (oi_mdr oi))) oi"

text \<open>Phases 2 (from Step 2.4) and 3: the two decisions, the tree and the interface.\<close>
definition mdr_levels ::
    "ospf6 \<Rightarrow> matrix \<Rightarrow> nat \<Rightarrow> ospf6_interface \<Rightarrow> (bool \<times> bool \<times> tree \<times> ospf6_interface) option" where
  "mdr_levels ospf6 cm m oi =
     (let (tree, oi) = mdr_bfs ospf6 cm m oi;
          (dr, oi) = mdr_step26 ospf6 cm [0 ..< num_neigh oi] (False, oi);
          oi = mdr_phase2_end m dr oi in
      case mdr_phase3_paths ospf6 cm m tree oi of
        None \<Rightarrow> None
      | Some (tree, oi) \<Rightarrow>
          let (bdr, oi) = fold (mdr_step33 ospf6 cm dr) [0 ..< num_neigh oi] (False, oi)
          in Some (dr, bdr, tree, mdr_phase3_end m dr bdr oi))"

definition mdr_main ::
    "ospf6 \<Rightarrow> matrix \<Rightarrow> mdr_max \<Rightarrow> nat \<Rightarrow> ospf6_interface \<Rightarrow> ospf6_interface option" where
  "mdr_main ospf6 cm mx m oi =
     (case mdr_levels ospf6 cm m oi of
        None \<Rightarrow> None
      | Some (dr, bdr, tree, oi) \<Rightarrow>
          let oi = mdr_parents dr bdr mx oi;
              oi = mdr_nonflooding ospf6 cm dr m oi;
              oi = remove_tree tree oi
          in Some (ospf6_run_update_mdr_level_hooks oi))"

definition ospf6_calculate_mdr :: "timeval \<Rightarrow> ospf6 \<Rightarrow> ospf6_interface \<Rightarrow> ospf6_interface option" where
  "ospf6_calculate_mdr now ospf6 oi =
     (if mdr_wait now ospf6 oi then Some oi
      else
        let (cm, oi) = ospf6_mdr_create_cost_matrix oi;
            (oi, mx) = fold (mdr_select ospf6 cm) [0 ..< num_neigh oi] (oi, mdr_max_init) in
        if maxid mx = 0 then Some (ospf6_run_update_mdr_level_hooks (remove_tree [] (mdr_no_neighbors oi)))
        else if ospf6_sidcds_lexicographic (uint (oi_priority oi)) (uint (max_priority mx))
                  (im_mdr_level (oi_mdr oi)) (max_mdr_level mx) (o_router_id ospf6) (maxid mx)
        then Some (ospf6_run_update_mdr_level_hooks (remove_tree [] (mdr_self_largest ospf6 cm oi)))
        else case max_on mx of
          None \<Rightarrow> None
        | Some m \<Rightarrow> mdr_main ospf6 cm mx m oi)"

end
