(* ===== verification/Mdr_Search.thy ===== *)
theory Mdr_Search
  imports Mdr_Calc
begin

text \<open>
  The two breadth-first searches of the MDR calculation compute shortest paths: the searches of
  \<open>Mdr_Calc\<close> meet the interface \<open>hop_graph\<close>, and the tree built along the first one is well-formed
  and has a node for exactly the neighbors reached.
\<close>

section \<open>What the searches leave alone\<close>

lemma num_neigh_core [simp]: "num_neigh (oi_core oi) = num_neigh oi"
  by (simp add: oi_core_def)

lemma oi_mdr_core [simp]: "oi_mdr (oi_core oi) = oi_mdr oi"
  by (simp add: oi_core_def)

lemma oi_core_mdr_update [simp]:
  "oi_core (oi\<lparr>oi_mdr := x\<rparr>) = (oi_core oi)\<lparr>oi_mdr := x\<rparr>"
  by (simp add: oi_core_def)

lemma oi_core_nbr_mdr_update:
  assumes "\<And>m. (f m)\<lparr>nm_hops := 0, nm_hops2 := 0, nm_treenode := None, nm_dependent := False\<rparr> =
    m\<lparr>nm_hops := 0, nm_hops2 := 0, nm_treenode := None, nm_dependent := False\<rparr>"
  shows "oi_core (nbr_mdr_update j f oi) = oi_core oi"
proof -
  have "nbr_core (on_mdr_update f on) = nbr_core on" for on
    using assms [of "on_mdr on"] by (cases on) (simp add: nbr_core_def)
  then have "map nbr_core ((oi_neighbor_list oi)[j := on_mdr_update f (nbr oi j)]) =
      map nbr_core (oi_neighbor_list oi)"
    by (cases "j < num_neigh oi") (simp_all add: map_update list_update_same_conv list_update_beyond)
  then show ?thesis
    by (simp add: oi_core_def nbr_mdr_update_def nbr_update_def)
qed

lemma oi_core_hops [simp]: "oi_core (nbr_mdr_update j (nm_hops_update f) oi) = oi_core oi"
  by (rule oi_core_nbr_mdr_update) simp

lemma oi_core_hops2 [simp]: "oi_core (nbr_mdr_update j (nm_hops2_update f) oi) = oi_core oi"
  by (rule oi_core_nbr_mdr_update) simp

lemma oi_core_treenode [simp]: "oi_core (nbr_mdr_update j (nm_treenode_update f) oi) = oi_core oi"
  by (rule oi_core_nbr_mdr_update) simp

lemma oi_core_dependent [simp]: "oi_core (nbr_mdr_update j (nm_dependent_update f) oi) = oi_core oi"
  by (rule oi_core_nbr_mdr_update) simp

lemma oi_core_eqD:
  assumes "oi_core oi' = oi_core oi"
  shows "num_neigh oi' = num_neigh oi" "oi_mdr oi' = oi_mdr oi" "oi_priority oi' = oi_priority oi"
    "oi_effects oi' = oi_effects oi"
    and "j < num_neigh oi \<Longrightarrow> on_state (nbr oi' j) = on_state (nbr oi j)"
    and "j < num_neigh oi \<Longrightarrow> on_router_id (nbr oi' j) = on_router_id (nbr oi j)"
    and "j < num_neigh oi \<Longrightarrow> on_priority (nbr oi' j) = on_priority (nbr oi j)"
    and "j < num_neigh oi \<Longrightarrow> nbr_level oi' j = nbr_level oi j"
    and "j < num_neigh oi \<Longrightarrow> mx_index oi' j = mx_index oi j"
proof -
  show n: "num_neigh oi' = num_neigh oi"
    using arg_cong [OF assms, of num_neigh] by simp
  show "oi_mdr oi' = oi_mdr oi" "oi_priority oi' = oi_priority oi" "oi_effects oi' = oi_effects oi"
    using arg_cong [OF assms, of oi_mdr] arg_cong [OF assms, of oi_priority]
      arg_cong [OF assms, of oi_effects]
    by (simp_all add: oi_core_def)
  assume j: "j < num_neigh oi"
  have "nbr (oi_core oi') j = nbr (oi_core oi) j" by (simp only: assms)
  then have c: "nbr_core (nbr oi' j) = nbr_core (nbr oi j)" using j n by (simp add: oi_core_def)
  show "on_state (nbr oi' j) = on_state (nbr oi j)"
    "on_router_id (nbr oi' j) = on_router_id (nbr oi j)"
    "on_priority (nbr oi' j) = on_priority (nbr oi j)"
    "nbr_level oi' j = nbr_level oi j" "mx_index oi' j = mx_index oi j"
    using arg_cong [OF c, of on_state] arg_cong [OF c, of on_router_id] arg_cong [OF c, of on_priority]
      arg_cong [OF c, of "\<lambda>n. nm_mdr_level (on_mdr n)"]
      arg_cong [OF c, of "\<lambda>n. nm_cost_matrix_index (on_mdr n)"]
    by (simp_all add: nbr_core_def)
qed

lemma ospf6_mdr_cost_core:
  assumes "oi_core oi' = oi_core oi" "j < num_neigh oi" "\<And>k. onk = Some k \<Longrightarrow> k < num_neigh oi"
  shows "ospf6_mdr_cost ospf6 oi' cm j onk = ospf6_mdr_cost ospf6 oi cm j onk"
  using assms(2,3) oi_core_eqD [OF assms(1)]
  by (auto simp: ospf6_mdr_cost_def split: option.split)

lemma ospf6_mdr_cost_None: "ospf6_mdr_cost ospf6 oi cm j None = 1 \<longleftrightarrow> twoway oi j"
  by (auto simp: ospf6_mdr_cost_def)

section \<open>Step 2.4\<close>

text \<open>The links of the first search: from a neighbor that may relay, because it is not smaller than
  this router, to a 2-Way neighbor.\<close>
definition mdr_link :: "ospf6 \<Rightarrow> matrix \<Rightarrow> ospf6_interface \<Rightarrow> nat \<Rightarrow> nat \<Rightarrow> bool" where
  "mdr_link ospf6 cm oi k u \<longleftrightarrow>
     k < num_neigh oi \<and> u < num_neigh oi \<and> k \<noteq> u \<and>
     ospf6_mdr_cost ospf6 oi cm u None = 1 \<and> ospf6_mdr_cost ospf6 oi cm k (Some u) = 1"

interpretation mdr_graph: hop_graph "num_neigh oi" "mdr_link ospf6 cm oi" "\<lambda>_. True" for ospf6 cm oi
  by unfold_locales (auto simp: mdr_link_def)

lemma mdr_link_core: "oi_core oi' = oi_core oi \<Longrightarrow> mdr_link ospf6 cm oi' = mdr_link ospf6 cm oi"
proof (intro ext)
  fix k u assume c: "oi_core oi' = oi_core oi"
  show "mdr_link ospf6 cm oi' k u = mdr_link ospf6 cm oi k u"
    using ospf6_mdr_cost_core [OF c, of u None ospf6 cm] ospf6_mdr_cost_core [OF c, of k "Some u" ospf6 cm]
    by (auto simp: mdr_link_def oi_core_eqD(1) [OF c])
qed

section \<open>Step 5.3\<close>

text \<open>The second search: links between neighbors, through MDR neighbors with a smaller router ID.\<close>
definition flood_link :: "matrix \<Rightarrow> ospf6_interface \<Rightarrow> nat \<Rightarrow> nat \<Rightarrow> bool" where
  "flood_link cm oi k u \<longleftrightarrow>
     k < num_neigh oi \<and> u < num_neigh oi \<and> k \<noteq> u \<and> twoway oi u \<and>
     cm (mx_index oi k) (mx_index oi u) = 1"

definition flood_relay :: "ospf6 \<Rightarrow> ospf6_interface \<Rightarrow> nat \<Rightarrow> bool" where
  "flood_relay ospf6 oi u \<longleftrightarrow> nbr_level oi u = OSPF6_MDR \<and> on_router_id (nbr oi u) < o_router_id ospf6"

interpretation flood_graph: hop_graph "num_neigh oi" "flood_link cm oi" "flood_relay ospf6 oi" for ospf6 cm oi
  by unfold_locales (auto simp: flood_link_def)

text \<open>The body of the second search, in closed form.\<close>

lemma fold_mdr_flood_relax:
  assumes "distinct us" "set us \<subseteq> {..< num_neigh oi}" "k < num_neigh oi"
    and "fold (mdr_flood_relax ospf6 cm k) us (oi, q) = (oi', q')"
  shows "oi_core oi' = oi_core oi \<and>
    (\<forall>u < num_neigh oi. nbr oi' u = on_mdr_update (nm_hops_update (\<lambda>_.
       if u \<in> set us \<and> flood_link cm oi k u \<and> hops_of oi k + 1 < hops_of oi u
       then hops_of oi k + 1 else hops_of oi u)) (nbr oi u)) \<and>
    q' = q @ filter (\<lambda>u. flood_link cm oi k u \<and> hops_of oi k + 1 < hops_of oi u \<and>
      flood_relay ospf6 oi u) us"
  using assms(1,2,4)
proof (induction us arbitrary: oi' q' rule: rev_induct)
  case (snoc v us)
  obtain oi1 q1 where 1: "fold (mdr_flood_relax ospf6 cm k) us (oi, q) = (oi1, q1)" by fastforce
  with snoc have IH: "oi_core oi1 = oi_core oi"
    "\<And>u. u < num_neigh oi \<Longrightarrow> nbr oi1 u = on_mdr_update (nm_hops_update (\<lambda>_.
       if u \<in> set us \<and> flood_link cm oi k u \<and> hops_of oi k + 1 < hops_of oi u
       then hops_of oi k + 1 else hops_of oi u)) (nbr oi u)"
    "q1 = q @ filter (\<lambda>u. flood_link cm oi k u \<and> hops_of oi k + 1 < hops_of oi u \<and>
      flood_relay ospf6 oi u) us"
    by auto
  have v: "v < num_neigh oi" "v \<notin> set us" using snoc.prems by auto
  have n: "num_neigh oi1 = num_neigh oi" using oi_core_eqD(1) [OF IH(1)] .
  have hk: "hops_of oi1 k = hops_of oi k" using IH(2) [OF assms(3)] by (simp add: flood_link_def)
  have hv: "nbr oi1 v = nbr oi v" using IH(2) [OF v(1)] v(2) by simp
  have 2: "mdr_flood_relax ospf6 cm k v (oi1, q1) = (oi', q')" using 1 snoc.prems(3) by simp
  have link: "flood_link cm oi k v \<longleftrightarrow> k \<noteq> v \<and> twoway oi v \<and> cm (mx_index oi1 k) (mx_index oi1 v) = 1"
    using v assms(3) oi_core_eqD(9) [OF IH(1)] by (auto simp: flood_link_def)
  let ?h = "\<lambda>us u. if u \<in> set us \<and> flood_link cm oi k u \<and> hops_of oi k + 1 < hops_of oi u
       then hops_of oi k + 1 else hops_of oi u"
  let ?c = "flood_link cm oi k v \<and> hops_of oi k + 1 < hops_of oi v"
  have step: "oi' = (if ?c then nbr_mdr_update v (nm_hops_update (\<lambda>_. hops_of oi k + 1)) oi1 else oi1)"
    "q' = (if ?c \<and> flood_relay ospf6 oi v then q1 @ [v] else q1)"
    using 2 by (auto simp: mdr_flood_relax_def ospf6_mdr_cost_None flood_relay_def link hk hv
        split: if_splits)
  have "oi_core oi' = oi_core oi" by (simp add: step IH(1))
  moreover have "nbr oi' u = on_mdr_update (nm_hops_update (\<lambda>_. ?h (us @ [v]) u)) (nbr oi u)"
    if "u < num_neigh oi" for u
  proof (cases "u = v")
    case True
    have id: "on_mdr_update (nm_hops_update (\<lambda>_. hops_of oi v)) (nbr oi v) = nbr oi v"
      by simp
    show ?thesis
      using True n v hv id by (simp add: step(1) del: ospf6_neighbor.unfold_congs)
  next
    case False
    then have "nbr oi' u = nbr oi1 u" using that n by (simp add: step(1))
    with False show ?thesis using IH(2) [OF that] by simp
  qed
  moreover have "q' = q @ filter (\<lambda>u. flood_link cm oi k u \<and> hops_of oi k + 1 < hops_of oi u \<and>
      flood_relay ospf6 oi u) (us @ [v])"
    by (simp add: step(2) IH(3))
  ultimately show ?case by blast
qed simp

lemma flood_link_core:
  assumes "oi_core oi' = oi_core oi"
  shows "flood_link cm oi' = flood_link cm oi"
proof (intro ext)
  fix k u
  show "flood_link cm oi' k u = flood_link cm oi k u"
    using oi_core_eqD [OF assms] by (auto simp: flood_link_def)
qed

abbreviation flood_inv :: "ospf6 \<Rightarrow> matrix \<Rightarrow> ospf6_interface \<Rightarrow> nat \<Rightarrow> (nat \<Rightarrow> nat) \<Rightarrow> nat list \<Rightarrow> bool" where
  "flood_inv ospf6 cm oi \<equiv> hop_graph.bfs_inv (num_neigh oi) (flood_link cm oi) (flood_relay ospf6 oi)"

lemma flood_relay_core:
  "oi_core oi' = oi_core oi \<Longrightarrow> u < num_neigh oi \<Longrightarrow> flood_relay ospf6 oi' u = flood_relay ospf6 oi u"
  using oi_core_eqD [of oi' oi] by (simp add: flood_relay_def)

lemma mdr_flood_loop_Cons:
  "mdr_flood_loop ospf6 cm (oi, k # q) =
   mdr_flood_loop ospf6 cm (fold (mdr_flood_relax ospf6 cm k) [0 ..< num_neigh oi] (oi, q))"
  by (subst mdr_flood_loop.simps) simp

lemma mdr_flood_loop_Nil: "mdr_flood_loop ospf6 cm (oi, []) = (oi, [])"
  by (subst mdr_flood_loop.simps) simp

lemma flood_inv_step:
  assumes inv: "flood_inv ospf6 cm oi root (hops_of oi1) (k # q)" and core: "oi_core oi1 = oi_core oi"
    and run: "fold (mdr_flood_relax ospf6 cm k) [0 ..< num_neigh oi1] (oi1, q) = (oi2, q2)"
  shows "flood_inv ospf6 cm oi root (hops_of oi2) q2 \<and> oi_core oi2 = oi_core oi \<and>
    (\<forall>u < num_neigh oi. \<exists>h. nbr oi2 u = on_mdr_update (nm_hops_update (\<lambda>_. h)) (nbr oi1 u))"
proof -
  have n: "num_neigh oi1 = num_neigh oi" using oi_core_eqD(1) [OF core] .
  have k: "k < num_neigh oi1" using inv unfolding flood_graph.bfs_inv_def n by simp
  have "set [0 ..< num_neigh oi1] \<subseteq> {..< num_neigh oi1}" by auto
  note f = fold_mdr_flood_relax [OF distinct_upt this k run, unfolded flood_link_core [OF core]]
  have core2: "oi_core oi2 = oi_core oi" using f core by simp
  have nb: "\<And>u. u < num_neigh oi \<Longrightarrow> nbr oi2 u = on_mdr_update (nm_hops_update (\<lambda>_.
       if flood_link cm oi k u \<and> hops_of oi1 k + 1 < hops_of oi1 u
       then hops_of oi1 k + 1 else hops_of oi1 u)) (nbr oi1 u)"
    using f n by simp
  have q2: "q2 = q @ filter (\<lambda>u. flood_link cm oi k u \<and> hops_of oi1 k + 1 < hops_of oi1 u \<and>
      flood_relay ospf6 oi u) [0 ..< num_neigh oi]"
    using f n flood_relay_core [OF core] by (auto intro!: filter_cong)
  have "flood_inv ospf6 cm oi root (hops_of oi2) q2"
    by (rule flood_graph.bfs_inv_step [OF inv _ q2]) (simp add: nb)
  with core2 nb show ?thesis by blast
qed

lemma flood_inv_loop:
  assumes "flood_inv ospf6 cm oi root (hops_of oi1) q" "oi_core oi1 = oi_core oi"
    and "mdr_flood_loop ospf6 cm (oi1, q) = (oi', q')"
  shows "flood_inv ospf6 cm oi root (hops_of oi') [] \<and> oi_core oi' = oi_core oi \<and>
    (\<forall>u < num_neigh oi. \<exists>h. nbr oi' u = on_mdr_update (nm_hops_update (\<lambda>_. h)) (nbr oi1 u))"
  using assms
proof (induction ospf6 cm "(oi1, q)" arbitrary: oi1 q rule: mdr_flood_loop.induct)
  case (1 ospf6 cm oi1 q)
  show ?case
  proof (cases q)
    case Nil
    have "\<exists>h. nbr oi1 u = on_mdr_update (nm_hops_update (\<lambda>_. h)) (nbr oi1 u)" for u
      by (rule exI [of _ "hops_of oi1 u"]) simp
    moreover have "oi' = oi1" using "1.prems"(3) by (simp add: Nil mdr_flood_loop_Nil)
    ultimately show ?thesis using "1.prems"(1,2) Nil by simp
  next
    case (Cons k ks)
    obtain oi2 q2 where 2: "fold (mdr_flood_relax ospf6 cm k) [0 ..< num_neigh oi1] (oi1, ks) = (oi2, q2)"
      by fastforce
    note step = flood_inv_step [OF "1.prems"(1) [unfolded Cons] "1.prems"(2) 2]
    have run: "mdr_flood_loop ospf6 cm (oi2, q2) = (oi', q')"
      using "1.prems"(3) by (simp add: Cons mdr_flood_loop_Cons 2)
    note r = "1.hyps" [OF Cons 2 step [THEN conjunct1]
        step [THEN conjunct2, THEN conjunct1] run]
    have "\<exists>h. nbr oi' u = on_mdr_update (nm_hops_update (\<lambda>_. h)) (nbr oi1 u)" if u: "u < num_neigh oi" for u
    proof -
      obtain h1 h2 where "nbr oi' u = on_mdr_update (nm_hops_update (\<lambda>_. h1)) (nbr oi2 u)"
        "nbr oi2 u = on_mdr_update (nm_hops_update (\<lambda>_. h2)) (nbr oi1 u)"
        using r [THEN conjunct2, THEN conjunct2, rule_format, OF u]
          step [THEN conjunct2, THEN conjunct2, rule_format, OF u] by blast
      then have "nbr oi' u = on_mdr_update (nm_hops_update (\<lambda>_. h1)) (nbr oi1 u)"
        by (simp add: comp_def)
      then show ?thesis by (rule exI)
    qed
    with r show ?thesis by simp
  qed
qed

section \<open>The tree of the first search\<close>

text \<open>
  The nodes of the tree are the neighbors reached, one each; the root is \<open>mx\<close>, a link leads from
  every parent to its children, and the second node is the one below the root.
\<close>
definition mdr_tree_inv :: "(nat \<Rightarrow> nat \<Rightarrow> bool) \<Rightarrow> nat \<Rightarrow> tree \<Rightarrow> ospf6_interface \<Rightarrow> bool" where
  "mdr_tree_inv link mx tree oi \<longleftrightarrow>
     tree_ok tree \<and>
     (\<forall>t < length tree. tn_on (tree ! t) < num_neigh oi \<and> treenode_of oi (tn_on (tree ! t)) = Some t \<and>
        \<not> tn_labeled (tree ! t)) \<and>
     (\<forall>u < num_neigh oi. treenode_of oi u = None \<longleftrightarrow> hops_of oi u = INFTY) \<and>
     (\<forall>u < num_neigh oi. \<forall>t. treenode_of oi u = Some t \<longrightarrow> t < length tree \<and> tn_on (tree ! t) = u) \<and>
     (\<forall>t < length tree. tn_parent (tree ! t) = None \<longleftrightarrow> tn_on (tree ! t) = mx) \<and>
     (\<forall>t < length tree. \<forall>p. tn_parent (tree ! t) = Some p \<longrightarrow>
        link (tn_on (tree ! p)) (tn_on (tree ! t)) \<and>
        tn_sec_node (tree ! t) =
          (if tn_on (tree ! p) = mx then Some (tn_on (tree ! t)) else tn_sec_node (tree ! p))) \<and>
     (\<forall>u < num_neigh oi. hops_of oi u = 0 \<longleftrightarrow> u = mx)"

lemma mdr_tree_invD:
  assumes "mdr_tree_inv link mx tree oi"
  shows "tree_ok tree"
    and "t < length tree \<Longrightarrow> tn_on (tree ! t) < num_neigh oi \<and>
      treenode_of oi (tn_on (tree ! t)) = Some t \<and> \<not> tn_labeled (tree ! t)"
    and "u < num_neigh oi \<Longrightarrow> treenode_of oi u = None \<longleftrightarrow> hops_of oi u = INFTY"
    and "u < num_neigh oi \<Longrightarrow> treenode_of oi u = Some t \<Longrightarrow> t < length tree \<and> tn_on (tree ! t) = u"
    and "t < length tree \<Longrightarrow> tn_parent (tree ! t) = None \<longleftrightarrow> tn_on (tree ! t) = mx"
    and "t < length tree \<Longrightarrow> tn_parent (tree ! t) = Some p \<Longrightarrow>
      link (tn_on (tree ! p)) (tn_on (tree ! t)) \<and> tn_sec_node (tree ! t) =
          (if tn_on (tree ! p) = mx then Some (tn_on (tree ! t)) else tn_sec_node (tree ! p))"
    and "u < num_neigh oi \<Longrightarrow> hops_of oi u = 0 \<longleftrightarrow> u = mx"
  using assms by (simp_all add: mdr_tree_inv_def)

lemma mdr_bfs_relax_eq:
  assumes "u < num_neigh oi" "k < num_neigh oi" "k \<noteq> u" "mdr_link ospf6 cm oi k u"
    and "hops_of oi k + 1 < hops_of oi u" "treenode_of oi k = Some p" "p < length tree"
    and "mdr_bfs_relax ospf6 cm k u (tree, oi, q) = (tree', oi', q')"
  shows "q' = q @ [u]"
    and "oi' = nbr_mdr_update u (nm_treenode_update (\<lambda>_. Some (length tree)))
      (nbr_mdr_update u (nm_hops_update (\<lambda>_. hops_of oi k + 1)) oi)"
    and "tree' = link_child (length tree) p tree @
      [(new_tree_node u (Some p))\<lparr>tn_sec_node :=
        (if hops_of oi k = 0 then Some u else tn_sec_node (tree ! p))\<rparr>]"
  using assms
  by (auto simp: mdr_bfs_relax_def mdr_link_def add_tree_node_def Let_def set_sec_node_def
      sec_node_of_def nth_append list_update_append split: if_splits)

lemma mdr_bfs_relax_skip:
  assumes "u < num_neigh oi" "k < num_neigh oi"
    and "\<not> (mdr_link ospf6 cm oi k u \<and> hops_of oi k + 1 < hops_of oi u)"
  shows "mdr_bfs_relax ospf6 cm k u (tree, oi, q) = (tree, oi, q)"
  using assms by (auto simp: mdr_bfs_relax_def mdr_link_def)

lemma mdr_tree_inv_relax:
  assumes inv: "mdr_tree_inv link mx tree oi"
    and u: "u < num_neigh oi" "u \<noteq> k" "hops_of oi u = INFTY"
    and k: "k < num_neigh oi" "hops_of oi k + 1 < INFTY" "treenode_of oi k = Some p" "link k u"
    and oi': "oi' = nbr_mdr_update u (nm_treenode_update (\<lambda>_. Some (length tree)))
      (nbr_mdr_update u (nm_hops_update (\<lambda>_. hops_of oi k + 1)) oi)"
    and tree': "tree' = link_child (length tree) p tree @
      [(new_tree_node u (Some p))\<lparr>tn_sec_node :=
        (if hops_of oi k = 0 then Some u else tn_sec_node (tree ! p))\<rparr>]"
  shows "mdr_tree_inv link mx tree' oi'"
proof -
  note ok = mdr_tree_invD(1) [OF inv] and nodes = mdr_tree_invD(2) [OF inv]
    and none = mdr_tree_invD(3) [OF inv] and some = mdr_tree_invD(4) [OF inv]
    and root = mdr_tree_invD(5) [OF inv] and par = mdr_tree_invD(6) [OF inv]
    and zero = mdr_tree_invD(7) [OF inv]
  have p: "p < length tree" "tn_on (tree ! p) = k" using some [OF k(1,3)] by auto
  have unew: "treenode_of oi u = None" using none [OF u(1)] u(3) by simp
  have fresh: "tn_on (tree ! t) \<noteq> u" if "t < length tree" for t
    using nodes [OF that] unew by auto
  have umx: "u \<noteq> mx" using zero [OF u(1)] u(3) by auto
  have n: "num_neigh oi' = num_neigh oi" by (simp add: oi')
  have len: "length tree' = Suc (length tree)" by (simp add: tree')
  have old: "tn_on (tree' ! t) = tn_on (tree ! t)" "tn_labeled (tree' ! t) = tn_labeled (tree ! t)"
    "tn_parent (tree' ! t) = tn_parent (tree ! t)" "tn_sec_node (tree' ! t) = tn_sec_node (tree ! t)"
    if "t < length tree" for t
    using that p(1) by (simp_all add: tree' nth_append)
  have new: "tn_on (tree' ! length tree) = u" "\<not> tn_labeled (tree' ! length tree)"
    "tn_parent (tree' ! length tree) = Some p"
    "tn_sec_node (tree' ! length tree) = (if k = mx then Some u else tn_sec_node (tree ! p))"
    using zero [OF k(1)] by (simp_all add: tree' nth_append new_tree_node_def)
  have others: "treenode_of oi' x = treenode_of oi x" "hops_of oi' x = hops_of oi x"
    if "x < num_neigh oi" "x \<noteq> u" for x
    using that by (simp_all add: oi')
  have atu: "treenode_of oi' u = Some (length tree)" "hops_of oi' u = hops_of oi k + 1"
    using u(1) by (simp_all add: oi')
  have ok': "tree_ok tree'"
  proof -
    have "tree_ok (link_child (length tree) p tree @ [new_tree_node u (Some p)])"
      using tree_ok_add [OF ok, of "Some p" u oi] p(1) by (simp add: add_tree_node_def Let_def)
    then show ?thesis
      by (subst tree_ok_cong [of _ "link_child (length tree) p tree @ [new_tree_node u (Some p)]"])
        (auto simp: tree' nth_append)
  qed
  have parlt: "q < length tree" if "t < length tree" "tn_parent (tree ! t) = Some q" for t q
    using tree_okD(1) [OF ok that] that(1) by simp
  show ?thesis
    unfolding mdr_tree_inv_def n len
  proof (intro conjI allI impI ok')
    fix t assume "t < Suc (length tree)"
    then consider "t < length tree" | "t = length tree" by linarith
    note t = this
    from t show "tn_on (tree' ! t) < num_neigh oi"
      by cases (simp_all add: nodes old(1) new(1) u(1))
    from t show "treenode_of oi' (tn_on (tree' ! t)) = Some t"
      by cases (simp_all add: nodes old(1) new(1) atu(1) others(1) fresh)
    from t show "\<not> tn_labeled (tree' ! t)"
      by cases (simp_all add: nodes old(2) new(2))
    from t show "tn_parent (tree' ! t) = None \<longleftrightarrow> tn_on (tree' ! t) = mx"
      by cases (simp_all add: root old(1,3) new(1,3) umx)
    fix q assume q: "tn_parent (tree' ! t) = Some q"
    have pq: "link (tn_on (tree' ! q)) (tn_on (tree' ! t)) \<and> tn_sec_node (tree' ! t) =
        (if tn_on (tree' ! q) = mx then Some (tn_on (tree' ! t)) else tn_sec_node (tree' ! q))"
      using t
    proof cases
      case 1
      then have "tn_parent (tree ! t) = Some q" using q old(3) by simp
      from par [OF 1 this] parlt [OF 1 this] show ?thesis using 1 by (simp add: old)
    next
      case 2
      then have "q = p" using q new(3) by simp
      with 2 p k(4) show ?thesis by (simp add: old new)
    qed
    then show "link (tn_on (tree' ! q)) (tn_on (tree' ! t))" ..
    from pq show "tn_sec_node (tree' ! t) =
        (if tn_on (tree' ! q) = mx then Some (tn_on (tree' ! t)) else tn_sec_node (tree' ! q))" ..
  next
    fix x assume x: "x < num_neigh oi"
    show "treenode_of oi' x = None \<longleftrightarrow> hops_of oi' x = INFTY"
      using k(2) by (cases "x = u") (simp_all add: x none others atu)
    show "hops_of oi' x = 0 \<longleftrightarrow> x = mx"
      by (cases "x = u") (simp_all add: x zero others atu umx)
    fix t assume t: "treenode_of oi' x = Some t"
    have "t < Suc (length tree) \<and> tn_on (tree' ! t) = x"
    proof (cases "x = u")
      case True
      then show ?thesis using t atu(1) new(1) by simp
    next
      case False
      then have "treenode_of oi x = Some t" using t others(1) [OF x False] by simp
      from some [OF x this] show ?thesis using old(1) [of t] by simp
    qed
    then show "t < Suc (length tree)" "tn_on (tree' ! t) = x" by blast+
  qed
qed

abbreviation dependent_of :: "ospf6_interface \<Rightarrow> nat \<Rightarrow> bool" where
  "dependent_of oi u \<equiv> nm_dependent (on_mdr (nbr oi u))"

lemma fold_mdr_bfs_relax:
  fixes oi oi1 :: ospf6_interface
  assumes "distinct us" "set us \<subseteq> {..< num_neigh oi}" "k < num_neigh oi"
    and core: "oi_core oi1 = oi_core oi" and inv: "mdr_tree_inv (mdr_link ospf6 cm oi) mx tree oi1"
    and tk: "treenode_of oi1 k = Some p" and hk: "hops_of oi1 k < INFTY"
    and lev: "\<And>u. u < num_neigh oi \<Longrightarrow> hops_of oi1 u \<le> INFTY \<and>
      (hops_of oi1 u < INFTY \<longrightarrow> hops_of oi1 u \<le> hops_of oi1 k + 1)"
    and run: "fold (mdr_bfs_relax ospf6 cm k) us (tree, oi1, q) = (tree2, oi2, q2)"
  shows "mdr_tree_inv (mdr_link ospf6 cm oi) mx tree2 oi2 \<and> oi_core oi2 = oi_core oi \<and>
    treenode_of oi2 k = Some p \<and>
    (\<forall>u < num_neigh oi. hops_of oi2 u =
       (if u \<in> set us \<and> mdr_link ospf6 cm oi k u \<and> hops_of oi1 k + 1 < hops_of oi1 u
        then hops_of oi1 k + 1 else hops_of oi1 u) \<and>
       hops2_of oi2 u = hops2_of oi1 u \<and> dependent_of oi2 u = dependent_of oi1 u) \<and>
    q2 = q @ filter (\<lambda>u. mdr_link ospf6 cm oi k u \<and> hops_of oi1 k + 1 < hops_of oi1 u) us"
  using assms(1,2) run
proof (induction us arbitrary: tree2 oi2 q2 rule: rev_induct)
  case Nil
  then show ?case using core inv tk by simp
next
  case (snoc v us)
  let ?link = "mdr_link ospf6 cm oi"
  obtain t3 oi3 q3 where 3: "fold (mdr_bfs_relax ospf6 cm k) us (tree, oi1, q) = (t3, oi3, q3)"
    using prod_cases3 by blast
  have v: "v < num_neigh oi" "v \<notin> set us" and us: "distinct us" "set us \<subseteq> {..< num_neigh oi}"
    using snoc.prems by auto
  note IH = snoc.IH [OF us 3]
  have inv3: "mdr_tree_inv ?link mx t3 oi3" and core3: "oi_core oi3 = oi_core oi"
    and tk3: "treenode_of oi3 k = Some p"
    and q3: "q3 = q @ filter (\<lambda>u. ?link k u \<and> hops_of oi1 k + 1 < hops_of oi1 u) us"
    using IH by simp_all
  have f3: "hops_of oi3 u =
       (if u \<in> set us \<and> ?link k u \<and> hops_of oi1 k + 1 < hops_of oi1 u
        then hops_of oi1 k + 1 else hops_of oi1 u) \<and>
       hops2_of oi3 u = hops2_of oi1 u \<and> dependent_of oi3 u = dependent_of oi1 u"
    if "u < num_neigh oi" for u
    using IH that by simp
  have n3: "num_neigh oi3 = num_neigh oi" using oi_core_eqD(1) [OF core3] .
  have hk3: "hops_of oi3 k = hops_of oi1 k" using f3 [OF assms(3)] by (simp add: mdr_link_def)
  have hv3: "hops_of oi3 v = hops_of oi1 v" using f3 [OF v(1)] v(2) by simp
  have link3: "mdr_link ospf6 cm oi3 = ?link" by (rule mdr_link_core [OF core3])
  have 2: "mdr_bfs_relax ospf6 cm k v (t3, oi3, q3) = (tree2, oi2, q2)"
    using snoc.prems(3) 3 by simp
  show ?case
  proof (cases "?link k v \<and> hops_of oi1 k + 1 < hops_of oi1 v")
    case False
    then have "mdr_bfs_relax ospf6 cm k v (t3, oi3, q3) = (t3, oi3, q3)"
      by (intro mdr_bfs_relax_skip) (simp_all add: n3 v assms(3) link3 hk3 hv3)
    with 2 have eq: "tree2 = t3" "oi2 = oi3" "q2 = q3" by simp_all
    have "(u \<in> set (us @ [v]) \<and> ?link k u \<and> hops_of oi1 k + 1 < hops_of oi1 u) \<longleftrightarrow>
        (u \<in> set us \<and> ?link k u \<and> hops_of oi1 k + 1 < hops_of oi1 u)" for u
      using False by auto
    with IH False show ?thesis by (simp add: eq del: set_append)
  next
    case True
    have kv: "k \<noteq> v" using True by (auto simp: mdr_link_def)
    have p3: "p < length t3" using mdr_tree_invD(4) [OF inv3 _ tk3] assms(3) n3 by simp
    have hv: "hops_of oi1 v = INFTY" using lev [OF v(1)] True by linarith
    note eq = mdr_bfs_relax_eq [OF _ _ kv _ _ tk3 p3 2, unfolded n3 link3 hk3 hv3,
        OF v(1) assms(3) True [THEN conjunct1] True [THEN conjunct2]]
    have "mdr_tree_inv ?link mx tree2 oi2"
      by (rule mdr_tree_inv_relax [OF inv3 _ _ _ _ _ tk3 _ eq(2) [folded hk3] eq(3) [folded hk3],
            unfolded n3 hv3 hk3])
        (use v kv assms(3) True hv hk in auto)
    moreover have "oi_core oi2 = oi_core oi" by (simp add: eq(2) core3)
    moreover have "treenode_of oi2 k = Some p"
      using assms(3) n3 kv tk3 by (simp add: eq(2))
    moreover have "hops_of oi2 u =
       (if u \<in> set (us @ [v]) \<and> ?link k u \<and> hops_of oi1 k + 1 < hops_of oi1 u
        then hops_of oi1 k + 1 else hops_of oi1 u) \<and>
       hops2_of oi2 u = hops2_of oi1 u \<and> dependent_of oi2 u = dependent_of oi1 u"
      if u: "u < num_neigh oi" for u
      using f3 [OF u] True u by (cases "u = v") (simp_all add: eq(2) n3)
    moreover have "q2 = q @ filter (\<lambda>u. ?link k u \<and> hops_of oi1 k + 1 < hops_of oi1 u) (us @ [v])"
      using True by (simp add: eq(1) q3)
    ultimately show ?thesis by blast
  qed
qed

abbreviation mdr_inv :: "ospf6 \<Rightarrow> matrix \<Rightarrow> ospf6_interface \<Rightarrow> nat \<Rightarrow> (nat \<Rightarrow> nat) \<Rightarrow> nat list \<Rightarrow> bool" where
  "mdr_inv ospf6 cm oi \<equiv> hop_graph.bfs_inv (num_neigh oi) (mdr_link ospf6 cm oi) (\<lambda>_. True)"

text \<open>The state of the first search: hop counts, tree, and the fields it keeps.\<close>
definition mdr_bfs_ok :: "ospf6 \<Rightarrow> matrix \<Rightarrow> ospf6_interface \<Rightarrow> nat \<Rightarrow> bfs_state \<Rightarrow> bool" where
  "mdr_bfs_ok ospf6 cm oi mx = (\<lambda>(tree, oi1, q).
     mdr_inv ospf6 cm oi mx (hops_of oi1) q \<and>
     mdr_tree_inv (mdr_link ospf6 cm oi) mx tree oi1 \<and> oi_core oi1 = oi_core oi \<and>
     (\<forall>u < num_neigh oi. hops2_of oi1 u = hops2_of oi u \<and> dependent_of oi1 u = dependent_of oi u))"

lemma mdr_bfs_loop_Cons:
  "mdr_bfs_loop ospf6 cm (tree, oi, k # q) =
   mdr_bfs_loop ospf6 cm (fold (mdr_bfs_relax ospf6 cm k) [0 ..< num_neigh oi] (tree, oi, q))"
  by (subst mdr_bfs_loop.simps) simp

lemma mdr_bfs_loop_Nil: "mdr_bfs_loop ospf6 cm (tree, oi, []) = (tree, oi, [])"
  by (subst mdr_bfs_loop.simps) simp

lemma mdr_bfs_ok_step:
  assumes "mdr_bfs_ok ospf6 cm oi mx (tree, oi1, k # q)"
    and run: "fold (mdr_bfs_relax ospf6 cm k) [0 ..< num_neigh oi1] (tree, oi1, q) = (tree2, oi2, q2)"
  shows "mdr_bfs_ok ospf6 cm oi mx (tree2, oi2, q2)"
proof -
  have inv: "mdr_inv ospf6 cm oi mx (hops_of oi1) (k # q)"
    and tinv: "mdr_tree_inv (mdr_link ospf6 cm oi) mx tree oi1" and core: "oi_core oi1 = oi_core oi"
    and same: "\<And>u. u < num_neigh oi \<Longrightarrow> hops2_of oi1 u = hops2_of oi u \<and> dependent_of oi1 u = dependent_of oi u"
    using assms(1) by (simp_all add: mdr_bfs_ok_def)
  have n: "num_neigh oi1 = num_neigh oi" using oi_core_eqD(1) [OF core] .
  have k: "k < num_neigh oi" "hops_of oi1 k < INFTY"
    and lev: "\<And>u. u < num_neigh oi \<Longrightarrow> hops_of oi1 u \<le> INFTY \<and>
      (hops_of oi1 u < INFTY \<longrightarrow> hops_of oi1 u \<le> hops_of oi1 k + 1)"
    using inv unfolding mdr_graph.bfs_inv_def by simp_all
  obtain p where p: "treenode_of oi1 k = Some p"
    using mdr_tree_invD(3) [OF tinv, of k] k n by auto
  have "set [0 ..< num_neigh oi1] \<subseteq> {..< num_neigh oi}" using n by auto
  note f = fold_mdr_bfs_relax [OF distinct_upt this k(1) core tinv p k(2) lev run]
  have h: "hops_of oi2 u = (if mdr_link ospf6 cm oi k u \<and> hops_of oi1 k + 1 < hops_of oi1 u
        then hops_of oi1 k + 1 else hops_of oi1 u)" if "u < num_neigh oi" for u
    using f that n by simp
  have q2: "q2 = q @ filter (\<lambda>u. mdr_link ospf6 cm oi k u \<and> hops_of oi1 k + 1 < hops_of oi1 u \<and> True)
      [0 ..< num_neigh oi]"
    using f n by simp
  have "mdr_inv ospf6 cm oi mx (hops_of oi2) q2"
    by (rule mdr_graph.bfs_inv_step [OF inv h q2])
  with f same show ?thesis by (simp add: mdr_bfs_ok_def)
qed

lemma mdr_bfs_ok_loop:
  "mdr_bfs_ok ospf6 cm oi mx (tree, oi1, q) \<Longrightarrow>
   \<exists>tree' oi'. mdr_bfs_loop ospf6 cm (tree, oi1, q) = (tree', oi', []) \<and>
     mdr_bfs_ok ospf6 cm oi mx (tree', oi', [])"
proof (induction ospf6 cm "(tree, oi1, q)" arbitrary: tree oi1 q rule: mdr_bfs_loop.induct)
  case (1 ospf6 cm tree oi1 q)
  show ?case
  proof (cases q)
    case Nil
    with "1.prems" show ?thesis by (simp add: mdr_bfs_loop_Nil)
  next
    case (Cons k ks)
    obtain t2 oi2 q2 where
      2: "fold (mdr_bfs_relax ospf6 cm k) [0 ..< num_neigh oi1] (tree, oi1, ks) = (t2, oi2, q2)"
      using prod_cases3 by blast
    from "1.hyps" [OF Cons 2 mdr_bfs_ok_step [OF "1.prems" [unfolded Cons] 2]]
    show ?thesis by (simp add: Cons mdr_bfs_loop_Cons 2)
  qed
qed

lemma mdr_bfs_ok_init:
  fixes oi :: ospf6_interface
  assumes "mx < num_neigh oi"
    and init: "\<And>u. u < num_neigh oi \<Longrightarrow> hops_of oi u = INFTY \<and> treenode_of oi u = None"
  defines "oi1 \<equiv> nbr_mdr_update mx (nm_treenode_update (\<lambda>_. Some 0))
      (nbr_mdr_update mx (nm_hops_update (\<lambda>_. 0)) oi)"
  shows "mdr_bfs_ok ospf6 cm oi mx ([new_tree_node mx None], oi1, [mx])"
proof -
  have h: "hops_of oi1 u = (if u = mx then 0 else INFTY)"
    "treenode_of oi1 u = (if u = mx then Some 0 else None)"
    "hops2_of oi1 u = hops2_of oi u" "dependent_of oi1 u = dependent_of oi u" if "u < num_neigh oi" for u
    using that init by (auto simp: oi1_def)
  have n: "num_neigh oi1 = num_neigh oi" by (simp add: oi1_def)
  have "mdr_inv ospf6 cm oi mx (hops_of oi1) [mx]"
    by (rule mdr_graph.bfs_inv_init) (simp_all add: assms(1) h)
  moreover have "tree_ok [new_tree_node mx None]"
    by (simp add: tree_ok_def tree_node_ok_def new_tree_node_def)
  then have "mdr_tree_inv (mdr_link ospf6 cm oi) mx [new_tree_node mx None] oi1"
    using assms(1) h by (auto simp: mdr_tree_inv_def n new_tree_node_def split: if_splits)
  moreover have "oi_core oi1 = oi_core oi" by (simp add: oi1_def)
  ultimately show ?thesis using h by (simp add: mdr_bfs_ok_def)
qed

lemma mdr_bfs_correct:
  assumes "mx < num_neigh oi"
    and "\<And>u. u < num_neigh oi \<Longrightarrow> hops_of oi u = INFTY \<and> treenode_of oi u = None"
  obtains tree oi' where "mdr_bfs ospf6 cm mx oi = (tree, oi')"
    "mdr_bfs_ok ospf6 cm oi mx (tree, oi', [])"
proof -
  let ?oi1 = "nbr_mdr_update mx (nm_treenode_update (\<lambda>_. Some 0))
      (nbr_mdr_update mx (nm_hops_update (\<lambda>_. 0)) oi)"
  obtain tree oi' where "mdr_bfs_loop ospf6 cm ([new_tree_node mx None], ?oi1, [mx]) = (tree, oi', [])"
    "mdr_bfs_ok ospf6 cm oi mx (tree, oi', [])"
    using mdr_bfs_ok_loop [OF mdr_bfs_ok_init [OF assms], of ospf6 cm] by blast
  moreover have "(new_tree_node mx None)\<lparr>tn_sec_node := None\<rparr> = new_tree_node mx None"
    by (simp add: new_tree_node_def)
  ultimately show ?thesis
    using assms(1) by (intro that) (simp_all add: mdr_bfs_def add_tree_node_def set_sec_node_def Let_def)
qed

end
