(* ===== verification/Mdr_Backup.thy ===== *)
theory Mdr_Backup
  imports Mdr_Search
begin

text \<open>
  The backup MDR calculation (Phase 3 of \<open>ospf6_calculate_mdr\<close>) always returns: no null pointer is
  followed, the traversals end, and every pass of the labelling loop labels one more tree node. It
  changes nothing but the second hop counts, which only ever become 0.
\<close>

section \<open>What Phase 3 changes\<close>

definition hops2_only :: "ospf6_interface \<Rightarrow> ospf6_interface \<Rightarrow> bool" where
  "hops2_only oi oi' \<longleftrightarrow>
     oi_core oi' = oi_core oi \<and>
     (\<forall>u < num_neigh oi. hops_of oi' u = hops_of oi u \<and> treenode_of oi' u = treenode_of oi u \<and>
        dependent_of oi' u = dependent_of oi u \<and>
        (hops2_of oi' u = hops2_of oi u \<or> hops2_of oi' u = 0))"

lemma hops2_only_refl [simp]: "hops2_only oi oi"
  by (simp add: hops2_only_def)

lemma hops2_only_trans: "hops2_only oi1 oi2 \<Longrightarrow> hops2_only oi2 oi3 \<Longrightarrow> hops2_only oi1 oi3"
proof -
  assume a: "hops2_only oi1 oi2" "hops2_only oi2 oi3"
  then have n: "num_neigh oi2 = num_neigh oi1" using oi_core_eqD(1) [of oi2 oi1] by (simp add: hops2_only_def)
  have "hops2_of oi3 u = hops2_of oi1 u \<or> hops2_of oi3 u = 0" if "u < num_neigh oi1" for u
  proof -
    have "hops2_of oi3 u = hops2_of oi2 u \<or> hops2_of oi3 u = 0"
      "hops2_of oi2 u = hops2_of oi1 u \<or> hops2_of oi2 u = 0"
      using a that n by (simp_all add: hops2_only_def)
    then show ?thesis by argo
  qed
  with a n show ?thesis by (simp add: hops2_only_def)
qed

lemma hops2_only_set: "hops2_only oi (set_hops2_0 v oi)"
  by (simp add: hops2_only_def)

lemma hops2_only_process: "hops2_only oi (mdr_process_links ospf6 cm u v oi)"
  by (simp add: mdr_process_links_def Let_def hops2_only_def)

lemma hops2_only_phase3a: "hops2_only oi (mdr_phase3a ospf6 cm mx tree v oi)"
  by (simp add: mdr_phase3a_def hops2_only_set split: option.split)

lemma hops2_only_fold:
  "(\<And>v oi. hops2_only oi (f v oi)) \<Longrightarrow> hops2_only oi (fold f vs oi)"
proof (induction vs arbitrary: oi)
  case (Cons v vs)
  then show ?case using hops2_only_trans [of oi "f v oi" "fold f vs (f v oi)"] by simp
qed simp

section \<open>The labelling loop\<close>

definition mdr_label_inv :: "nat \<Rightarrow> tree \<Rightarrow> ospf6_interface \<Rightarrow> bool" where
  "mdr_label_inv mx tree oi \<longleftrightarrow>
     tree_ok tree \<and>
     (\<forall>t < length tree. (tn_parent (tree ! t) = None \<longrightarrow> tn_on (tree ! t) = mx) \<and>
        (tn_on (tree ! t) = mx \<longrightarrow> tn_labeled (tree ! t))) \<and>
     (\<forall>u < num_neigh oi. \<forall>t. treenode_of oi u = Some t \<longrightarrow> t < length tree \<and> tn_on (tree ! t) = u)"

lemma mdr_label_inv_hops2:
  "mdr_label_inv mx tree oi \<Longrightarrow> hops2_only oi oi' \<Longrightarrow> mdr_label_inv mx tree oi'"
  unfolding mdr_label_inv_def hops2_only_def using oi_core_eqD(1) [of oi' oi] by simp

lemma length_set_labeled [simp]: "length (set_labeled t tree) = length tree"
  by (simp add: set_labeled_def)

lemma set_labeled_nth:
  "v < length tree \<Longrightarrow> set_labeled t tree ! v = (if v = t then (tree ! v)\<lparr>tn_labeled := True\<rparr> else tree ! v)"
  by (simp add: set_labeled_def nth_list_update_if)

lemma mdr_label_inv_set:
  assumes "mdr_label_inv mx tree oi"
  shows "mdr_label_inv mx (set_labeled t tree) oi"
proof -
  have "tree_ok (set_labeled t tree) \<longleftrightarrow> tree_ok tree"
    by (simp add: set_labeled_def tree_ok_set_labeled)
  with assms show ?thesis by (simp add: mdr_label_inv_def set_labeled_nth)
qed

lemma mdr_subtree_root_total:
  assumes "tree_ok tree" "r < length tree" "r < fuel"
  shows "\<exists>root. mdr_subtree_root fuel tree mx r = Some root \<and> root < length tree"
  using assms(2,3)
proof (induction fuel arbitrary: r)
  case (Suc fuel)
  show ?case
  proof (cases "tn_parent (tree ! r)")
    case (Some p)
    have "p < r" by (rule tree_okD(1) [OF assms(1) Suc.prems(1) Some])
    then show ?thesis using Suc.IH [of p] Suc.prems Some by auto
  qed (use Suc.prems in simp)
qed simp

text \<open>A pass of the loop labels the node it has chosen.\<close>

lemma mdr_label_node_total:
  assumes inv: "mdr_label_inv mx tree oi" and m: "m < num_neigh oi"
    and t: "treenode_of oi m = Some t" "\<not> tn_labeled (tree ! t)"
  shows "\<exists>oi'. mdr_label_node ospf6 cm mx m tree oi = Some (set_labeled t tree, oi') \<and> hops2_only oi oi'"
proof -
  let ?tree = "set_labeled t tree" and ?fuel = "length tree + 1"
  have tl: "t < length tree" "tn_on (tree ! t) = m"
    using inv m t(1) by (simp_all add: mdr_label_inv_def)
  have ok: "tree_ok ?tree"
    using mdr_label_inv_set [OF inv] by (simp add: mdr_label_inv_def)
  obtain p where p: "tn_parent (?tree ! t) = Some p"
    using inv tl t(2) by (cases "tn_parent (tree ! t)") (auto simp: mdr_label_inv_def set_labeled_nth)
  have "p < t" by (rule tree_okD(1) [OF ok _ p]) (simp add: tl)
  then obtain root where root: "mdr_subtree_root ?fuel ?tree mx p = Some root" "root < length ?tree"
    using mdr_subtree_root_total [OF ok, of p ?fuel mx] tl by auto
  let ?links = "\<lambda>tu tv oi. Some (mdr_process_links ospf6 cm (tn_on (?tree ! tu)) (tn_on (?tree ! tv)) oi)"
  have rank: "key_rank ?tree x + 1 < ?fuel" if "x < length ?tree" for x
    using key_rank_bound [OF that] by simp
  have inner: "\<exists>oi2. dfs_for ?fuel ?tree t (?links tu) (Some t) oi1 = Some oi2 \<and> hops2_only oi oi2"
    if "hops2_only oi oi1" for tu oi1
  proof (rule dfs_for_total [where P = "hops2_only oi", OF ok _ _ that _ rank])
    show "\<exists>s'. ?links tu u s = Some s' \<and> hops2_only oi s'" if "hops2_only oi s" for u s
      using hops2_only_trans [OF that hops2_only_process] by blast
  qed (use tl in simp_all)
  have "\<exists>oi2. dfs_for ?fuel ?tree root (\<lambda>tu. dfs_for ?fuel ?tree t (?links tu) (Some t)) (Some root) oi =
      Some oi2 \<and> hops2_only oi oi2"
    by (rule dfs_for_total [where P = "hops2_only oi",
          OF ok root(2) _ hops2_only_refl _ rank [OF root(2)]])
      (use inner in simp_all)
  then show ?thesis
    using t(1) p root(1) by (auto simp: mdr_label_node_def Let_def)
qed

definition unlabeled_count :: "tree \<Rightarrow> nat" where
  "unlabeled_count tree = card {t. t < length tree \<and> \<not> tn_labeled (tree ! t)}"

lemma unlabeled_count_set:
  "t < length tree \<Longrightarrow> \<not> tn_labeled (tree ! t) \<Longrightarrow> unlabeled_count (set_labeled t tree) < unlabeled_count tree"
proof -
  assume t: "t < length tree" "\<not> tn_labeled (tree ! t)"
  let ?U = "{t. t < length tree \<and> \<not> tn_labeled (tree ! t)}"
  have "{x. x < length (set_labeled t tree) \<and> \<not> tn_labeled (set_labeled t tree ! x)} = ?U - {t}"
    by (auto simp: set_labeled_nth split: if_splits)
  moreover have "card (?U - {t}) < card ?U"
    by (rule card_Diff1_less) (use t in simp_all)
  ultimately show ?thesis by (simp add: unlabeled_count_def)
qed

lemma unlabeled_count_le: "unlabeled_count tree \<le> length tree"
  unfolding unlabeled_count_def
  using card_mono [of "{..< length tree}" "{t. t < length tree \<and> \<not> tn_labeled (tree ! t)}"] by auto

lemma mdr_find_min_Some:
  assumes "mdr_find_min ospf6 cm tree oi = Some m"
  obtains t where "m < num_neigh oi" "treenode_of oi m = Some t" "\<not> tn_labeled (tree ! t)" "hops2_of oi m = 0"
  using assms by (auto simp: mdr_find_min_def find_Some_iff split: option.splits)

lemma mdr_label_loop_total:
  assumes "mdr_label_inv mx tree oi" "unlabeled_count tree < fuel"
  shows "\<exists>tree' oi'. mdr_label_loop fuel ospf6 cm mx tree oi = Some (tree', oi') \<and> hops2_only oi oi' \<and>
    mdr_label_inv mx tree' oi' \<and> length tree' = length tree \<and>
    (\<forall>t < length tree. tn_on (tree' ! t) = tn_on (tree ! t))"
  using assms
proof (induction fuel arbitrary: tree oi)
  case (Suc fuel)
  show ?case
  proof (cases "mdr_find_min ospf6 cm tree oi")
    case None
    then show ?thesis using Suc.prems(1) by simp
  next
    case (Some m)
    then obtain t where t: "m < num_neigh oi" "treenode_of oi m = Some t" "\<not> tn_labeled (tree ! t)"
      by (rule mdr_find_min_Some)
    obtain oi1 where 1: "mdr_label_node ospf6 cm mx m tree oi = Some (set_labeled t tree, oi1)"
      "hops2_only oi oi1"
      using mdr_label_node_total [OF Suc.prems(1) t] by blast
    have "t < length tree" using Suc.prems(1) t by (simp add: mdr_label_inv_def)
    with Suc.prems(2) t(3) have "unlabeled_count (set_labeled t tree) < fuel"
      using unlabeled_count_set [of t tree] by simp
    from Suc.IH [OF mdr_label_inv_hops2 [OF mdr_label_inv_set [OF Suc.prems(1)] 1(2)] this]
    obtain tree' oi' where "mdr_label_loop fuel ospf6 cm mx (set_labeled t tree) oi1 = Some (tree', oi')"
      "hops2_only oi1 oi'" "mdr_label_inv mx tree' oi'" "length tree' = length tree"
      "\<forall>x < length tree. tn_on (tree' ! x) = tn_on (set_labeled t tree ! x)"
      by auto
    then show ?thesis
      using Some 1 hops2_only_trans [OF 1(2)] by (auto simp: set_labeled_nth)
  qed
qed simp

end
