(* ===== verification/Mdr_Correct.thy ===== *)
theory Mdr_Correct
  imports Mdr_Backup
begin

text \<open>
  The MDR calculation as a whole: what it decides, stated over the neighbors as they are before
  the call. The phases are followed one by one; each has a lemma that says what it computes and
  which fields it keeps.
\<close>

section \<open>The order on neighbors\<close>

definition nbr_triple :: "ospf6_interface \<Rightarrow> nat \<Rightarrow> int \<times> int \<times> u32" where
  "nbr_triple oi j = (uint (on_priority (nbr oi j)), nbr_level oi j, on_router_id (nbr oi j))"

definition self_triple :: "ospf6 \<Rightarrow> ospf6_interface \<Rightarrow> int \<times> int \<times> u32" where
  "self_triple ospf6 oi = (uint (oi_priority oi), im_mdr_level (oi_mdr oi), o_router_id ospf6)"

text \<open>2-Way neighbors that are larger than priority 1, level Other and router ID 0, the values the
  search for the maximum starts with: a neighbor of priority 0 never is.\<close>
definition eligible :: "ospf6_interface \<Rightarrow> nat \<Rightarrow> bool" where
  "eligible oi j \<longleftrightarrow> j < num_neigh oi \<and> twoway oi j \<and> (1, 0, 0) < nbr_triple oi j"

text \<open>\<open>Rmax\<close>: the largest of them.\<close>
definition is_rmax :: "ospf6_interface \<Rightarrow> nat \<Rightarrow> bool" where
  "is_rmax oi m \<longleftrightarrow> eligible oi m \<and> (\<forall>j. eligible oi j \<longrightarrow> nbr_triple oi j \<le> nbr_triple oi m)"

text \<open>A largest element of a finite set of indices, if there is one.\<close>
definition argmax :: "(nat \<Rightarrow> int \<times> int \<times> u32) \<Rightarrow> nat set \<Rightarrow> nat option \<Rightarrow> bool" where
  "argmax T S r \<longleftrightarrow> (case r of None \<Rightarrow> S = {} | Some j \<Rightarrow> j \<in> S \<and> (\<forall>i \<in> S. T i \<le> T j))"

definition start_or :: "(nat \<Rightarrow> int \<times> int \<times> u32) \<Rightarrow> nat option \<Rightarrow> int \<times> int \<times> u32" where
  "start_or T r = (case r of None \<Rightarrow> (1, 0, 0) | Some j \<Rightarrow> T j)"

definition max_triple :: "mdr_max \<Rightarrow> int \<times> int \<times> u32" where
  "max_triple mx = (uint (max_priority mx), max_mdr_level mx, maxid mx)"

definition max_triple2 :: "mdr_max \<Rightarrow> int \<times> int \<times> u32" where
  "max_triple2 mx = (uint (max_priority2 mx), max_mdr_level2 mx, maxid2 mx)"

lemma argmax_insert_new:
  assumes "argmax T S r" "start_or T r < T j" "\<And>i. i \<in> S \<Longrightarrow> (1, 0, 0) < T i"
  shows "argmax T (insert j S) (Some j)"
  using assms by (auto simp: argmax_def start_or_def split: option.splits)

lemma argmax_insert_old:
  assumes "argmax T S r" "\<not> start_or T r < T j" "(1, 0, 0) < T j"
  shows "argmax T (insert j S) r"
  using assms by (auto simp: argmax_def start_or_def split: option.splits)

lemma start_or_le:
  assumes "argmax T S r" "\<And>i. i \<in> S \<Longrightarrow> (1, 0, 0) < T i"
  shows "(1, 0, 0) \<le> start_or T r"
  using assms by (cases r) (auto simp: argmax_def start_or_def intro: less_imp_le)

text \<open>The state of the first loop after the neighbors \<open>S\<close> that are eligible.\<close>
definition select_inv :: "ospf6_interface \<Rightarrow> nat set \<Rightarrow> mdr_max \<Rightarrow> bool" where
  "select_inv oi S mx \<longleftrightarrow>
     (let T = nbr_triple oi in
      argmax T S (max_on mx) \<and> max_triple mx = start_or T (max_on mx) \<and>
      argmax T (S - set_option (max_on mx)) (max_on2 mx) \<and> max_triple2 mx = start_or T (max_on2 mx))"

lemma mdr_max_update_cases:
  fixes on :: ospf6_neighbor and mx :: mdr_max and j :: nat
  defines "T \<equiv> (uint (on_priority on), nm_mdr_level (on_mdr on), on_router_id on)"
    and "mx2 \<equiv> mdr_max_update j on mx"
  obtains (first) "max_triple mx < T" "max_on mx2 = Some j" "max_triple mx2 = T"
      "max_on2 mx2 = max_on mx" "max_triple2 mx2 = max_triple mx"
    | (second) "\<not> max_triple mx < T" "max_triple2 mx < T" "max_on mx2 = max_on mx"
      "max_triple mx2 = max_triple mx" "max_on2 mx2 = Some j" "max_triple2 mx2 = T"
    | (none) "\<not> max_triple mx < T" "\<not> max_triple2 mx < T" "mx2 = mx"
proof -
  have lex: "ospf6_sidcds_lexicographic (uint (on_priority on)) (uint (max_priority mx))
      (nm_mdr_level (on_mdr on)) (max_mdr_level mx) (on_router_id on) (maxid mx) \<longleftrightarrow> max_triple mx < T"
    "ospf6_sidcds_lexicographic (uint (on_priority on)) (uint (max_priority2 mx))
      (nm_mdr_level (on_mdr on)) (max_mdr_level2 mx) (on_router_id on) (maxid2 mx) \<longleftrightarrow> max_triple2 mx < T"
    unfolding ospf6_sidcds_lexicographic_iff max_triple_def max_triple2_def T_def by simp_all
  note mx2 = mx2_def [unfolded mdr_max_update_def Let_def lex]
  consider "max_triple mx < T" | "\<not> max_triple mx < T" "max_triple2 mx < T"
    | "\<not> max_triple mx < T" "\<not> max_triple2 mx < T" by blast
  then show ?thesis
  proof cases
    case 1
    show ?thesis
      by (rule first) (use 1 in \<open>simp_all add: mx2\<close>, simp_all add: max_triple_def max_triple2_def T_def)
  next
    case 2
    show ?thesis
      by (rule second) (use 2 in \<open>simp_all add: mx2\<close>, simp_all add: max_triple_def max_triple2_def T_def)
  next
    case 3
    show ?thesis by (rule none) (use 3 in \<open>simp_all add: mx2\<close>)
  qed
qed

lemma select_inv_update:
  assumes inv: "select_inv oi S mx" and S1: "\<And>i. i \<in> S \<Longrightarrow> (1, 0, 0) < nbr_triple oi i" and j: "j \<notin> S"
    and on: "nbr_triple oi j = (uint (on_priority on), nm_mdr_level (on_mdr on), on_router_id on)"
  shows "select_inv oi (if (1, 0, 0) < nbr_triple oi j then insert j S else S) (mdr_max_update j on mx)"
proof -
  let ?T = "nbr_triple oi" and ?mx2 = "mdr_max_update j on mx"
  have a: "argmax ?T S (max_on mx)" "max_triple mx = start_or ?T (max_on mx)"
    "argmax ?T (S - set_option (max_on mx)) (max_on2 mx)" "max_triple2 mx = start_or ?T (max_on2 mx)"
    using inv by (simp_all add: select_inv_def Let_def)
  have mS: "set_option (max_on mx) \<subseteq> S"
    using a(1) by (auto simp: argmax_def split: option.splits)
  have ge: "(1, 0, 0) \<le> max_triple mx" "(1, 0, 0) \<le> max_triple2 mx"
    using start_or_le [OF a(1) S1] start_or_le [OF a(3)] S1 a(2,4) by auto
  show ?thesis
  proof (cases rule: mdr_max_update_cases [of mx on j])
    case first
    note first = first [folded on]
    then have gt: "(1, 0, 0) < ?T j" using ge(1) by (auto intro: le_less_trans)
    have "argmax ?T (insert j S) (Some j)"
      by (rule argmax_insert_new [OF a(1) _ S1]) (use first(1) a(2) in auto)
    moreover have "insert j S - {j} = S" using j by simp
    ultimately show ?thesis
      using gt first a(1,2) by (simp add: select_inv_def Let_def start_or_def)
  next
    case second
    note second = second [folded on]
    then have gt: "(1, 0, 0) < ?T j" using ge(2) by (auto intro: le_less_trans)
    have "argmax ?T (insert j S) (max_on mx)"
      by (rule argmax_insert_old [OF a(1) _ gt]) (use second(1) a(2) in auto)
    moreover have "argmax ?T (insert j (S - set_option (max_on mx))) (Some j)"
      by (rule argmax_insert_new [OF a(3)]) (use second(2) a(4) S1 in auto)
    moreover have "insert j S - set_option (max_on mx) = insert j (S - set_option (max_on mx))"
      using j mS by auto
    ultimately show ?thesis
      using gt second a(2) by (simp add: select_inv_def Let_def start_or_def)
  next
    case none
    note none = none [folded on]
    show ?thesis
    proof (cases "(1, 0, 0) < ?T j")
      case True
      have "argmax ?T (insert j S) (max_on mx)"
        by (rule argmax_insert_old [OF a(1) _ True]) (use none(1) a(2) in auto)
      moreover have "argmax ?T (insert j (S - set_option (max_on mx))) (max_on2 mx)"
        by (rule argmax_insert_old [OF a(3) _ True]) (use none(2) a(4) in auto)
      moreover have "insert j S - set_option (max_on mx) = insert j (S - set_option (max_on mx))"
        using j mS by auto
      ultimately show ?thesis
        using True none(3) a(2,4) by (simp add: select_inv_def Let_def)
    next
      case False
      then show ?thesis using none(3) inv by simp
    qed
  qed
qed

lemma mdr_select_step:
  assumes core: "oi_core oi1 = oi_core oi" and j: "j < num_neigh oi" "j \<notin> D"
    and inv: "select_inv oi {i \<in> D. eligible oi i} mx"
    and run: "mdr_select ospf6 cm j (oi1, mx) = (oi2, mx2)"
  shows "oi2 = nbr_mdr_update j (\<lambda>m. m\<lparr>nm_dependent := False, nm_hops := INFTY, nm_hops2 := INFTY\<rparr>) oi1"
    and "oi_core oi2 = oi_core oi" and "select_inv oi {i \<in> insert j D. eligible oi i} mx2"
proof -
  let ?oi = "nbr_mdr_update j (\<lambda>m. m\<lparr>nm_dependent := False, nm_hops := INFTY, nm_hops2 := INFTY\<rparr>) oi1"
  show oi2: "oi2 = ?oi" using run by (auto simp: mdr_select_def Let_def split: if_splits)
  show core2: "oi_core oi2 = oi_core oi"
    unfolding oi2 using core by (subst oi_core_nbr_mdr_update) simp_all
  note e = oi_core_eqD [OF core2]
  have mx2: "mx2 = (if twoway oi j then mdr_max_update j (nbr oi2 j) mx else mx)"
    using run e(5) [OF j(1)] unfolding oi2 mdr_select_def Let_def ospf6_mdr_cost_None prod.case
    by (auto split: if_splits)
  let ?S = "{i \<in> D. eligible oi i}"
  have T: "nbr_triple oi j =
      (uint (on_priority (nbr oi2 j)), nm_mdr_level (on_mdr (nbr oi2 j)), on_router_id (nbr oi2 j))"
    using e(6-8) [OF j(1)] by (simp add: nbr_triple_def)
  have upd: "select_inv oi (if (1, 0, 0) < nbr_triple oi j then insert j ?S else ?S)
      (mdr_max_update j (nbr oi2 j) mx)"
    by (rule select_inv_update [OF inv _ _ T]) (use j(2) in \<open>auto simp: eligible_def\<close>)
  have "{i \<in> insert j D. eligible oi i} = (if eligible oi j then insert j ?S else ?S)" by auto
  then show "select_inv oi {i \<in> insert j D. eligible oi i} mx2"
    using upd inv j(1) by (auto simp: mx2 eligible_def)
qed

lemma fold_mdr_select:
  assumes "fold (mdr_select ospf6 cm) [0 ..< num_neigh oi] (oi, mdr_max_init) = (oi2, mx)"
  shows "oi_core oi2 = oi_core oi" and "select_inv oi {j. eligible oi j} mx"
    and "u < num_neigh oi \<Longrightarrow> hops_of oi2 u = INFTY \<and> hops2_of oi2 u = INFTY \<and> \<not> dependent_of oi2 u \<and>
      treenode_of oi2 u = treenode_of oi u"
proof -
  let ?P = "\<lambda>done (oi1, mx). oi_core oi1 = oi_core oi \<and> select_inv oi {i \<in> set done. eligible oi i} mx \<and>
    (\<forall>u < num_neigh oi. treenode_of oi1 u = treenode_of oi u \<and>
      (u \<in> set done \<longrightarrow> hops_of oi1 u = INFTY \<and> hops2_of oi1 u = INFTY \<and> \<not> dependent_of oi1 u))"
  have "?P [0 ..< num_neigh oi] (fold (mdr_select ospf6 cm) [0 ..< num_neigh oi] (oi, mdr_max_init))"
  proof (rule fold_invariant_prefix [where P = ?P])
    show "?P [] (oi, mdr_max_init)"
      by (simp add: select_inv_def mdr_max_init_def argmax_def start_or_def max_triple_def max_triple2_def)
  next
    fix "done" j rest s
    assume pairs: "[0 ..< num_neigh oi] = done @ j # rest" and "?P done s"
    then obtain oi1 mx1 where s: "s = (oi1, mx1)" and P: "?P done (oi1, mx1)" by (cases s) auto
    obtain oi3 mx3 where run: "mdr_select ospf6 cm j (oi1, mx1) = (oi3, mx3)" by fastforce
    have "j \<in> set [0 ..< num_neigh oi]" "distinct (done @ j # rest)"
      by (simp add: pairs) (metis distinct_upt pairs)
    then have j: "j < num_neigh oi" "j \<notin> set done" by simp_all
    have P': "oi_core oi1 = oi_core oi" "select_inv oi {i \<in> set done. eligible oi i} mx1" using P by auto
    note st = mdr_select_step [OF P'(1) j P'(2) run]
    have n: "num_neigh oi1 = num_neigh oi" using oi_core_eqD(1) [OF P'(1)] .
    have "?P (done @ [j]) (oi3, mx3)"
      using P st(2,3) n j(1) by (auto simp: st(1))
    then show "?P (done @ [j]) (mdr_select ospf6 cm j s)" by (simp only: s run)
  qed
  then have P: "?P [0 ..< num_neigh oi] (oi2, mx)" by (simp only: assms)
  have "{i \<in> set [0 ..< num_neigh oi]. eligible oi i} = {j. eligible oi j}"
    by (auto simp: eligible_def)
  with P show "oi_core oi2 = oi_core oi" "select_inv oi {j. eligible oi j} mx" by auto
  show "u < num_neigh oi \<Longrightarrow> hops_of oi2 u = INFTY \<and> hops2_of oi2 u = INFTY \<and> \<not> dependent_of oi2 u \<and>
      treenode_of oi2 u = treenode_of oi u"
    using P by simp
qed

section \<open>Steps that change dependents and the level\<close>

definition dep_only :: "ospf6_interface \<Rightarrow> ospf6_interface \<Rightarrow> bool" where
  "dep_only oi oi' \<longleftrightarrow>
     oi_core oi' = oi_core oi \<and>
     (\<forall>u < num_neigh oi. hops_of oi' u = hops_of oi u \<and> hops2_of oi' u = hops2_of oi u \<and>
        treenode_of oi' u = treenode_of oi u)"

lemma dep_only_refl [simp]: "dep_only oi oi"
  by (simp add: dep_only_def)

lemma dep_only_trans: "dep_only oi1 oi2 \<Longrightarrow> dep_only oi2 oi3 \<Longrightarrow> dep_only oi1 oi3"
  unfolding dep_only_def using oi_core_eqD(1) [of oi2 oi1] by simp

lemma dep_only_set [simp]: "dep_only oi (set_dependent j oi)"
  by (simp add: dep_only_def)

definition far :: "ospf6_interface \<Rightarrow> nat \<Rightarrow> bool" where
  "far oi k \<longleftrightarrow> twoway oi k \<and> int (hops_of oi k) > im_MDRConstraint (oi_mdr oi)"

abbreviation adj_of :: "ospf6_interface \<Rightarrow> ospf6_AdjConnectivity" where
  "adj_of oi \<equiv> im_AdjConnectivity (oi_mdr oi)"

lemma far_set_dependent [simp]: "k < num_neigh oi \<Longrightarrow> far (set_dependent j oi) k = far oi k"
  by (simp add: far_def)

lemma mdr_may_depend_set_dependent [simp]:
  "k < num_neigh oi \<Longrightarrow> mdr_may_depend (set_dependent j oi) k = mdr_may_depend oi k"
  by (simp add: mdr_may_depend_def)

lemma mdr_step26_eq:
  assumes "set ks \<subseteq> {..< num_neigh oi}" "mdr_step26 ospf6 cm ks (dr, oi) = (dr', oi')"
  shows "dep_only oi oi' \<and> (dr' \<longleftrightarrow> dr \<or> (\<exists>k \<in> set ks. far oi k)) \<and>
    (\<forall>u < num_neigh oi. dependent_of oi' u \<longleftrightarrow> dependent_of oi u \<or>
       u \<in> set ks \<and> far oi u \<and> adj_of oi \<noteq> OSPF6_ADJ_FULLYCONNECTED \<and> mdr_may_depend oi u)"
  using assms
proof (induction ks arbitrary: dr oi)
  case (Cons k ks)
  have k: "k < num_neigh oi" and ks: "set ks \<subseteq> {..< num_neigh oi}" using Cons.prems(1) by auto
  show ?case
  proof (cases "far oi k")
    case False
    then have "mdr_step26 ospf6 cm ks (dr, oi) = (dr', oi')"
      using Cons.prems(2) by (auto simp: far_def ospf6_mdr_cost_None split: if_splits)
    from Cons.IH [OF ks this] False show ?thesis by auto
  next
    case True
    note far = this
    show ?thesis
    proof (cases "adj_of oi = OSPF6_ADJ_FULLYCONNECTED")
      case True
      then have "dr' \<and> oi' = oi"
        using Cons.prems(2) far by (auto simp: far_def ospf6_mdr_cost_None split: if_splits)
      then show ?thesis using True far by auto
    next
      case False
      define oi1 where "oi1 = (if mdr_may_depend oi k then set_dependent k oi else oi)"
      have run: "mdr_step26 ospf6 cm ks (True, oi1) = (dr', oi')"
        using Cons.prems(2) far False by (auto simp: far_def ospf6_mdr_cost_None oi1_def split: if_splits)
      have n: "num_neigh oi1 = num_neigh oi" "oi_mdr oi1 = oi_mdr oi" "dep_only oi oi1"
        and f: "\<And>u. u < num_neigh oi \<Longrightarrow> far oi1 u = far oi u \<and> mdr_may_depend oi1 u = mdr_may_depend oi u"
        and d: "\<And>u. u < num_neigh oi \<Longrightarrow> dependent_of oi1 u \<longleftrightarrow> dependent_of oi u \<or> u = k \<and> mdr_may_depend oi u"
        by (auto simp: oi1_def)
      have IH: "dep_only oi1 oi'" "dr'"
        "\<And>u. u < num_neigh oi \<Longrightarrow> dependent_of oi' u \<longleftrightarrow> dependent_of oi1 u \<or>
           u \<in> set ks \<and> far oi u \<and> adj_of oi \<noteq> OSPF6_ADJ_FULLYCONNECTED \<and> mdr_may_depend oi u"
        using Cons.IH [OF _ run] ks n f by auto
      show ?thesis
        using dep_only_trans [OF n(3) IH(1)] IH(2,3) d far False k by auto
    qed
  qed
qed simp

lemma mdr_self_dependents_eq:
  assumes "set js \<subseteq> {..< num_neigh oi}"
  shows "dep_only oi (mdr_self_dependents ospf6 cm js oi) \<and>
    (\<forall>u < num_neigh oi. dependent_of (mdr_self_dependents ospf6 cm js oi) u \<longleftrightarrow> dependent_of oi u \<or>
       u \<in> set js \<and> twoway oi u \<and> adj_of oi \<noteq> OSPF6_ADJ_FULLYCONNECTED \<and> mdr_may_depend oi u)"
  using assms
proof (induction js arbitrary: oi)
  case (Cons j js)
  have j: "j < num_neigh oi" and js: "set js \<subseteq> {..< num_neigh oi}" using Cons.prems(1) by auto
  show ?case
  proof (cases "adj_of oi = OSPF6_ADJ_FULLYCONNECTED")
    case False
    define oi1 where "oi1 = (if twoway oi j \<and> mdr_may_depend oi j then set_dependent j oi else oi)"
    have run: "mdr_self_dependents ospf6 cm (j # js) oi = mdr_self_dependents ospf6 cm js oi1"
      using False by (simp add: oi1_def ospf6_mdr_cost_None)
    have n: "num_neigh oi1 = num_neigh oi" "oi_mdr oi1 = oi_mdr oi" "dep_only oi oi1"
      and f: "\<And>u. u < num_neigh oi \<Longrightarrow> twoway oi1 u = twoway oi u \<and> mdr_may_depend oi1 u = mdr_may_depend oi u"
      and d: "\<And>u. u < num_neigh oi \<Longrightarrow> dependent_of oi1 u \<longleftrightarrow> dependent_of oi u \<or>
        u = j \<and> twoway oi u \<and> mdr_may_depend oi u"
      by (auto simp: oi1_def)
    have IH: "dep_only oi1 (mdr_self_dependents ospf6 cm js oi1)"
      "\<And>u. u < num_neigh oi \<Longrightarrow> dependent_of (mdr_self_dependents ospf6 cm js oi1) u \<longleftrightarrow> dependent_of oi1 u \<or>
         u \<in> set js \<and> twoway oi u \<and> adj_of oi \<noteq> OSPF6_ADJ_FULLYCONNECTED \<and> mdr_may_depend oi u"
      using Cons.IH [of oi1] js n f by auto
    show ?thesis
      unfolding run using dep_only_trans [OF n(3) IH(1)] IH(2) d False by auto
  qed simp
qed simp

definition backup_needed :: "ospf6_interface \<Rightarrow> nat \<Rightarrow> bool" where
  "backup_needed oi k \<longleftrightarrow> twoway oi k \<and> hops2_of oi k = INFTY"

lemma fold_mdr_step33_eq:
  assumes "set ks \<subseteq> {..< num_neigh oi}" "fold (mdr_step33 ospf6 cm dr) ks (bdr, oi) = (bdr', oi')"
  shows "dep_only oi oi' \<and> (bdr' \<longleftrightarrow> bdr \<or> \<not> dr \<and> (\<exists>k \<in> set ks. backup_needed oi k)) \<and>
    (\<forall>u < num_neigh oi. dependent_of oi' u \<longleftrightarrow> dependent_of oi u \<or>
       u \<in> set ks \<and> backup_needed oi u \<and> adj_of oi = OSPF6_ADJ_BICONNECTED \<and> nbr_level oi u \<ge> OSPF6_BMDR)"
  using assms
proof (induction ks arbitrary: bdr oi)
  case (Cons k ks)
  have k: "k < num_neigh oi" and ks: "set ks \<subseteq> {..< num_neigh oi}" using Cons.prems(1) by auto
  define oi1 where "oi1 = (if backup_needed oi k \<and> \<not> dependent_of oi k \<and>
    adj_of oi = OSPF6_ADJ_BICONNECTED \<and> nbr_level oi k \<ge> OSPF6_BMDR then set_dependent k oi else oi)"
  have "mdr_step33 ospf6 cm dr k (bdr, oi) = (bdr \<or> \<not> dr \<and> backup_needed oi k, oi1)"
    by (auto simp: mdr_step33_def backup_needed_def ospf6_mdr_cost_None oi1_def)
  then have run: "fold (mdr_step33 ospf6 cm dr) ks (bdr \<or> \<not> dr \<and> backup_needed oi k, oi1) = (bdr', oi')"
    using Cons.prems(2) by simp
  have n: "num_neigh oi1 = num_neigh oi" "oi_mdr oi1 = oi_mdr oi" "dep_only oi oi1"
    and f: "\<And>u. u < num_neigh oi \<Longrightarrow> backup_needed oi1 u = backup_needed oi u \<and> nbr_level oi1 u = nbr_level oi u"
    and d: "\<And>u. u < num_neigh oi \<Longrightarrow> dependent_of oi1 u \<longleftrightarrow> dependent_of oi u \<or>
      u = k \<and> backup_needed oi u \<and> adj_of oi = OSPF6_ADJ_BICONNECTED \<and> nbr_level oi u \<ge> OSPF6_BMDR"
    by (auto simp: oi1_def backup_needed_def)
  have IH: "dep_only oi1 oi'" "bdr' \<longleftrightarrow> bdr \<or> \<not> dr \<and> (\<exists>k \<in> set (k # ks). backup_needed oi k)"
    "\<And>u. u < num_neigh oi \<Longrightarrow> dependent_of oi' u \<longleftrightarrow> dependent_of oi1 u \<or>
       u \<in> set ks \<and> backup_needed oi u \<and> adj_of oi = OSPF6_ADJ_BICONNECTED \<and> nbr_level oi u \<ge> OSPF6_BMDR"
    using Cons.IH [OF _ run] ks n f by auto
  show ?case
    using dep_only_trans [OF n(3) IH(1)] IH(2,3) d by auto
qed simp

text \<open>The ends of Phase 2 and Phase 3 set the level and may add \<open>Rmax\<close> to the dependents.\<close>

lemma mdr_phase2_end_eq:
  fixes oi :: ospf6_interface
  defines "level \<equiv> im_mdr_level (oi_mdr oi)"
  assumes "mx < num_neigh oi"
  obtains oi1 where "mdr_phase2_end mx dr oi = oi1\<lparr>oi_mdr := (oi_mdr oi)\<lparr>im_mdr_level :=
      (if dr then OSPF6_MDR else if level = OSPF6_MDR then OSPF6_BMDR else level)\<rparr>\<rparr>" "dep_only oi oi1"
    "\<And>u. u < num_neigh oi \<Longrightarrow> dependent_of oi1 u \<longleftrightarrow> dependent_of oi u \<or>
       u = mx \<and> dr \<and> adj_of oi \<noteq> OSPF6_ADJ_FULLYCONNECTED \<and> nbr_level oi mx > OSPF6_OTHER"
proof -
  let ?oi1 = "if dr \<and> adj_of oi \<noteq> OSPF6_ADJ_FULLYCONNECTED \<and> nbr_level oi mx > OSPF6_OTHER
    then set_dependent mx oi else oi"
  have m: "oi_mdr ?oi1 = oi_mdr oi" by simp
  have id: "?oi1 = ?oi1\<lparr>oi_mdr := (oi_mdr oi)\<lparr>im_mdr_level := level\<rparr>\<rparr>"
    by (simp add: level_def nbr_mdr_update_def nbr_update_def)
  show ?thesis
    by (rule that [of ?oi1]) (use id m in \<open>auto simp: mdr_phase2_end_def Let_def level_def\<close>)
qed

lemma mdr_phase3_end_eq:
  fixes oi :: ospf6_interface
  assumes "mx < num_neigh oi"
  obtains oi1 where "mdr_phase3_end mx dr bdr oi = oi1\<lparr>oi_mdr := (oi_mdr oi)\<lparr>im_mdr_level :=
      (if bdr then OSPF6_BMDR else if dr then im_mdr_level (oi_mdr oi) else OSPF6_OTHER)\<rparr>\<rparr>" "dep_only oi oi1"
    "\<And>u. u < num_neigh oi \<Longrightarrow> dependent_of oi1 u \<longleftrightarrow> dependent_of oi u \<or>
       u = mx \<and> bdr \<and> adj_of oi = OSPF6_ADJ_BICONNECTED \<and> nbr_level oi mx > OSPF6_OTHER"
proof -
  let ?oi1 = "if bdr \<and> adj_of oi = OSPF6_ADJ_BICONNECTED \<and> nbr_level oi mx > OSPF6_OTHER
    then set_dependent mx oi else oi"
  have m: "oi_mdr ?oi1 = oi_mdr oi" by simp
  have id: "?oi1 = ?oi1\<lparr>oi_mdr := (oi_mdr oi)\<lparr>im_mdr_level := im_mdr_level (oi_mdr oi)\<rparr>\<rparr>"
    by (simp add: nbr_mdr_update_def nbr_update_def)
  show ?thesis
    by (rule that [of ?oi1]) (use id m in \<open>auto simp: mdr_phase3_end_def Let_def\<close>)
qed

section \<open>Phases 4 and 5, and the end\<close>

text \<open>What Phases 4 and 5 and the removal of the tree keep: the neighbors but for hop counts and tree
  pointers.\<close>
definition hops_tree_only :: "ospf6_interface \<Rightarrow> ospf6_interface \<Rightarrow> bool" where
  "hops_tree_only oi oi' \<longleftrightarrow>
     num_neigh oi' = num_neigh oi \<and>
     (\<forall>u < num_neigh oi. \<exists>h t. nbr oi' u = on_mdr_update (\<lambda>m. m\<lparr>nm_hops := h, nm_treenode := t\<rparr>) (nbr oi u))"

lemma hops_tree_only_trans:
  assumes "hops_tree_only oi1 oi2" "hops_tree_only oi2 oi3"
  shows "hops_tree_only oi1 oi3"
  unfolding hops_tree_only_def
proof (intro conjI allI impI)
  have n: "num_neigh oi2 = num_neigh oi1" using assms(1) by (simp add: hops_tree_only_def)
  show "num_neigh oi3 = num_neigh oi1" using assms by (simp add: hops_tree_only_def)
  fix u assume u: "u < num_neigh oi1"
  obtain h t where 1: "nbr oi2 u = on_mdr_update (\<lambda>m. m\<lparr>nm_hops := h, nm_treenode := t\<rparr>) (nbr oi1 u)"
    using assms(1) [unfolded hops_tree_only_def, THEN conjunct2, rule_format, OF u] by (elim exE)
  obtain h' t' where 2: "nbr oi3 u = on_mdr_update (\<lambda>m. m\<lparr>nm_hops := h', nm_treenode := t'\<rparr>) (nbr oi2 u)"
    using assms(2) [unfolded hops_tree_only_def, THEN conjunct2, rule_format, OF u [folded n]] by (elim exE)
  have "nbr oi3 u = on_mdr_update (\<lambda>m. m\<lparr>nm_hops := h', nm_treenode := t'\<rparr>) (nbr oi1 u)"
    unfolding 2 1 by (simp add: comp_def)
  then show "\<exists>h t. nbr oi3 u = on_mdr_update (\<lambda>m. m\<lparr>nm_hops := h, nm_treenode := t\<rparr>) (nbr oi1 u)"
    by (intro exI)
qed

lemma on_mdr_hops_tree_id:
  "on = on_mdr_update (\<lambda>m. m\<lparr>nm_hops := nm_hops (on_mdr on), nm_treenode := nm_treenode (on_mdr on)\<rparr>) on"
  by simp

lemma hops_tree_only_eq:
  "num_neigh oi' = num_neigh oi \<Longrightarrow> (\<And>u. u < num_neigh oi \<Longrightarrow> nbr oi' u = nbr oi u) \<Longrightarrow> hops_tree_only oi oi'"
  unfolding hops_tree_only_def
proof (intro conjI allI impI)
  fix u assume "\<And>u. u < num_neigh oi \<Longrightarrow> nbr oi' u = nbr oi u" "u < num_neigh oi"
  then have "nbr oi' u = nbr oi u" by simp
  also note on_mdr_hops_tree_id [of "nbr oi u"]
  finally show "\<exists>h t. nbr oi' u = on_mdr_update (\<lambda>m. m\<lparr>nm_hops := h, nm_treenode := t\<rparr>) (nbr oi u)"
    by (intro exI)
qed

lemma hops_tree_only_update:
  assumes "\<And>m. \<exists>h t. f m = m\<lparr>nm_hops := h, nm_treenode := t\<rparr>"
  shows "hops_tree_only oi (nbr_mdr_update j f oi)"
  unfolding hops_tree_only_def
proof (intro conjI allI impI)
  fix u assume u: "u < num_neigh oi"
  show "\<exists>h t. nbr (nbr_mdr_update j f oi) u = on_mdr_update (\<lambda>m. m\<lparr>nm_hops := h, nm_treenode := t\<rparr>) (nbr oi u)"
  proof (cases "u = j")
    case True
    obtain h t where "f (on_mdr (nbr oi u)) = (on_mdr (nbr oi u))\<lparr>nm_hops := h, nm_treenode := t\<rparr>"
      using assms by blast
    with True u show ?thesis by (intro exI [of _ h] exI [of _ t]) simp
  next
    case False
    with u have "nbr (nbr_mdr_update j f oi) u = nbr oi u" by simp
    also note on_mdr_hops_tree_id [of "nbr oi u"]
    finally show ?thesis by (intro exI)
  qed
qed simp

lemma hops_tree_only_fold:
  assumes "\<And>x oi. hops_tree_only oi (f x oi)"
  shows "hops_tree_only oi (fold f xs oi)"
proof (induction xs arbitrary: oi)
  case Nil
  then show ?case by (simp add: hops_tree_only_eq)
next
  case (Cons x xs)
  then show ?case using hops_tree_only_trans [OF assms [of oi x]] by simp
qed

lemma remove_tree_eq:
  "hops_tree_only oi (remove_tree tree oi)" "oi_mdr (remove_tree tree oi) = oi_mdr oi"
  unfolding remove_tree_def
proof -
  show "hops_tree_only oi (fold (\<lambda>n. nbr_mdr_update (tn_on n) (nm_treenode_update (\<lambda>_. None))) tree oi)"
  proof (rule hops_tree_only_fold, rule hops_tree_only_update)
    fix m :: ospf6_mdr_neighbor
    show "\<exists>h t. nm_treenode_update (\<lambda>_. None) m = m\<lparr>nm_hops := h, nm_treenode := t\<rparr>"
      by (intro exI [of _ "nm_hops m"] exI [of _ None]) simp
  qed
  show "oi_mdr (fold (\<lambda>n. nbr_mdr_update (tn_on n) (nm_treenode_update (\<lambda>_. None))) tree oi) = oi_mdr oi"
    by (induction tree arbitrary: oi) auto
qed

lemma remove_tree_treenode:
  assumes "u < num_neigh oi" "treenode_of oi u = None \<or> (\<exists>n \<in> set tree. tn_on n = u)"
  shows "treenode_of (remove_tree tree oi) u = None"
  using assms unfolding remove_tree_def
proof (induction tree arbitrary: oi)
  case (Cons n tree)
  then show ?case by (auto intro!: Cons.IH)
qed simp

lemma fold_nbr_mdr_update_num [simp]:
  "num_neigh (fold (\<lambda>j. nbr_mdr_update j (f j)) js oi) = num_neigh oi"
  "oi_mdr (fold (\<lambda>j. nbr_mdr_update j (f j)) js oi) = oi_mdr oi"
  by (induction js arbitrary: oi) auto

lemma hops_tree_only_hops: "hops_tree_only oi (nbr_mdr_update j (nm_hops_update (\<lambda>_. h)) oi)"
proof (rule hops_tree_only_update)
  fix m :: ospf6_mdr_neighbor
  show "\<exists>h' t. nm_hops_update (\<lambda>_. h) m = m\<lparr>nm_hops := h', nm_treenode := t\<rparr>"
    by (intro exI [of _ h] exI [of _ "nm_treenode m"]) simp
qed

text \<open>Phase 5: an MDR does not flood iff \<open>Rmax\<close> reaches every neighbor through MDR neighbors with
  smaller IDs.\<close>

definition flood_covered :: "ospf6 \<Rightarrow> matrix \<Rightarrow> nat \<Rightarrow> ospf6_interface \<Rightarrow> bool" where
  "flood_covered ospf6 cm mx oi \<longleftrightarrow>
     (\<forall>u < num_neigh oi. twoway oi u \<longrightarrow>
        (\<exists>d. int d \<le> im_MDRConstraint (oi_mdr oi) \<and> hop_path (flood_link cm oi) (flood_relay ospf6 oi) mx d u))"

lemma mdr_nonflooding_eq:
  assumes "mx < num_neigh oi" "num_neigh oi \<le> INFTY" "im_MDRConstraint (oi_mdr oi) < int INFTY"
  shows "hops_tree_only oi (mdr_nonflooding ospf6 cm dr mx oi)"
    and "oi_mdr (mdr_nonflooding ospf6 cm dr mx oi) =
      (oi_mdr oi)\<lparr>im_nonflooding_mdr := dr \<and> flood_covered ospf6 cm mx oi\<rparr>"
    and "u < num_neigh oi \<Longrightarrow> treenode_of (mdr_nonflooding ospf6 cm dr mx oi) u = treenode_of oi u"
proof -
  define oi1 where "oi1 = oi\<lparr>oi_mdr := (oi_mdr oi)\<lparr>im_nonflooding_mdr := False\<rparr>\<rparr>"
  define oi2 where "oi2 = nbr_mdr_update mx (nm_hops_update (\<lambda>_. 0))
    (fold (\<lambda>j. nbr_mdr_update j (nm_hops_update (\<lambda>_. INFTY))) [0 ..< num_neigh oi1] oi1)"
  obtain oi3 q where 3: "mdr_flood_loop ospf6 cm (oi2, [mx]) = (oi3, q)" by fastforce
  have n1: "num_neigh oi1 = num_neigh oi" and n2: "num_neigh oi2 = num_neigh oi"
    by (simp_all add: oi1_def oi2_def)
  have nb1: "nbr oi1 u = nbr oi u" for u by (simp add: oi1_def)
  have core: "oi_core oi2 = oi_core oi1"
  proof -
    have "oi_core (fold (\<lambda>j. nbr_mdr_update j (nm_hops_update (\<lambda>_. INFTY))) js oi) = oi_core oi" for js oi
      by (induction js arbitrary: oi) auto
    then show ?thesis by (simp add: oi2_def)
  qed
  have h2: "hops_of oi2 u = (if u = mx then 0 else INFTY)" "treenode_of oi2 u = treenode_of oi u"
    if "u < num_neigh oi1" for u
    using that by (auto simp: oi2_def fold_nbr_mdr_update nb1)
  have inv2: "flood_inv ospf6 cm oi1 mx (hops_of oi2) [mx]"
    by (rule flood_graph.bfs_inv_init) (use assms(1) n1 h2 in simp_all)
  note loop = flood_inv_loop [OF inv2 core 3]
  have inv3: "flood_inv ospf6 cm oi1 mx (hops_of oi3) []" and core3: "oi_core oi3 = oi_core oi1"
    using loop by simp_all
  have nb3: "\<exists>h. nbr oi3 u = on_mdr_update (nm_hops_update (\<lambda>_. h)) (nbr oi2 u)" if "u < num_neigh oi1" for u
    using loop [THEN conjunct2, THEN conjunct2, rule_format, OF that] .
  have same: "flood_link cm oi1 = flood_link cm oi" "flood_relay ospf6 oi1 = flood_relay ospf6 oi"
    by (intro ext; simp add: flood_link_def flood_relay_def n1 nb1)+
  have c: "im_MDRConstraint (oi_mdr oi3) = im_MDRConstraint (oi_mdr oi)"
    using oi_core_eqD(2) [OF core3] by (simp add: oi1_def)
  have w: "im_MDRConstraint (oi_mdr oi) < int (hops_of oi3 u) \<longleftrightarrow>
      \<not> (\<exists>d. int d \<le> im_MDRConstraint (oi_mdr oi) \<and> hop_path (flood_link cm oi) (flood_relay ospf6 oi) mx d u)"
    if "u < num_neigh oi" for u
    using flood_graph.bfs_within [OF inv3 assms(2) [folded n1] that [folded n1] assms(3)]
    unfolding same by (simp only: not_le [symmetric])
  have tw: "twoway oi3 u = twoway oi u" if "u < num_neigh oi" for u
    using oi_core_eqD(5) [OF core3] that by (simp add: n1 nb1)
  have n3: "num_neigh oi3 = num_neigh oi" using oi_core_eqD(1) [OF core3] n1 by simp
  have "list_ex (\<lambda>k. ospf6_mdr_cost ospf6 oi3 cm k None = 1 \<and>
      int (hops_of oi3 k) > im_MDRConstraint (oi_mdr oi3)) [0 ..< num_neigh oi3] \<longleftrightarrow>
      \<not> flood_covered ospf6 cm mx oi"
    by (simp add: list_ex_iff Bex_def flood_covered_def ospf6_mdr_cost_None n3 c tw w cong: conj_cong)
  then have res: "mdr_nonflooding ospf6 cm dr mx oi = (if dr
      then oi3\<lparr>oi_mdr := (oi_mdr oi3)\<lparr>im_nonflooding_mdr := flood_covered ospf6 cm mx oi\<rparr>\<rparr> else oi1)"
    using 3 by (simp add: mdr_nonflooding_def Let_def oi1_def oi2_def)
  show "oi_mdr (mdr_nonflooding ospf6 cm dr mx oi) =
      (oi_mdr oi)\<lparr>im_nonflooding_mdr := dr \<and> flood_covered ospf6 cm mx oi\<rparr>"
    using oi_core_eqD(2) [OF core3] by (simp add: res oi1_def)
  have "hops_tree_only oi oi1" by (rule hops_tree_only_eq) (simp_all add: oi1_def)
  moreover have "hops_tree_only oi1 oi2"
    unfolding oi2_def by (rule hops_tree_only_trans [OF hops_tree_only_fold hops_tree_only_hops])
      (rule hops_tree_only_hops)
  moreover have "hops_tree_only oi2 oi3"
    unfolding hops_tree_only_def
  proof (intro conjI allI impI)
    show "num_neigh oi3 = num_neigh oi2" using oi_core_eqD(1) [OF core3] n1 n2 by simp
    fix u assume "u < num_neigh oi2"
    then obtain h where "nbr oi3 u = on_mdr_update (nm_hops_update (\<lambda>_. h)) (nbr oi2 u)"
      using nb3 [of u] n1 n2 by auto
    then have "nbr oi3 u =
        on_mdr_update (\<lambda>m. m\<lparr>nm_hops := h, nm_treenode := treenode_of oi2 u\<rparr>) (nbr oi2 u)" by simp
    then show "\<exists>h t. nbr oi3 u = on_mdr_update (\<lambda>m. m\<lparr>nm_hops := h, nm_treenode := t\<rparr>) (nbr oi2 u)"
      by (intro exI)
  qed
  ultimately have "hops_tree_only oi oi3" by (metis hops_tree_only_trans)
  then show "hops_tree_only oi (mdr_nonflooding ospf6 cm dr mx oi)"
    using \<open>hops_tree_only oi oi1\<close> by (simp add: res hops_tree_only_def)
  show "treenode_of (mdr_nonflooding ospf6 cm dr mx oi) u = treenode_of oi u" if u: "u < num_neigh oi"
  proof -
    obtain h where "nbr oi3 u = on_mdr_update (nm_hops_update (\<lambda>_. h)) (nbr oi2 u)"
      using nb3 [OF u [folded n1]] by (elim exE)
    then show ?thesis using h2(2) [of u] n1 u by (simp add: res nb1)
  qed
qed

section \<open>Phases 2 and 3 together\<close>

text \<open>The neighbors without the fields of the searches.\<close>
abbreviation nbrs_core :: "ospf6_interface \<Rightarrow> ospf6_neighbor list" where
  "nbrs_core oi \<equiv> map nbr_core (oi_neighbor_list oi)"

lemma nbrs_core_eqD:
  assumes "nbrs_core oi' = nbrs_core oi"
  shows "num_neigh oi' = num_neigh oi"
    and "j < num_neigh oi \<Longrightarrow> on_state (nbr oi' j) = on_state (nbr oi j)"
    and "j < num_neigh oi \<Longrightarrow> on_router_id (nbr oi' j) = on_router_id (nbr oi j)"
    and "j < num_neigh oi \<Longrightarrow> on_priority (nbr oi' j) = on_priority (nbr oi j)"
    and "j < num_neigh oi \<Longrightarrow> nbr_level oi' j = nbr_level oi j"
    and "j < num_neigh oi \<Longrightarrow> mx_index oi' j = mx_index oi j"
proof -
  have core: "oi_core (oi\<lparr>oi_neighbor_list := oi_neighbor_list oi'\<rparr>) = oi_core oi"
    by (simp add: oi_core_def assms)
  note e = oi_core_eqD [OF core]
  show "num_neigh oi' = num_neigh oi" using e(1) by simp
  assume "j < num_neigh oi"
  then show "on_state (nbr oi' j) = on_state (nbr oi j)" "on_router_id (nbr oi' j) = on_router_id (nbr oi j)"
    "on_priority (nbr oi' j) = on_priority (nbr oi j)" "nbr_level oi' j = nbr_level oi j"
    "mx_index oi' j = mx_index oi j"
    using e(5-9) by simp_all
qed

lemma nbrs_core_oi_core: "oi_core oi' = oi_core oi \<Longrightarrow> nbrs_core oi' = nbrs_core oi"
proof -
  assume c: "oi_core oi' = oi_core oi"
  have "oi_neighbor_list (oi_core oi') = oi_neighbor_list (oi_core oi)" by (simp only: c)
  then show ?thesis by (simp add: oi_core_def)
qed

lemma nbrs_core_hops_tree:
  assumes "hops_tree_only oi oi'"
  shows "nbrs_core oi' = nbrs_core oi"
proof (rule nth_equalityI)
  show len: "length (nbrs_core oi') = length (nbrs_core oi)"
    using assms by (simp add: hops_tree_only_def)
  fix u assume "u < length (nbrs_core oi')"
  then have u: "u < num_neigh oi" using len by simp
  obtain h t where "nbr oi' u = on_mdr_update (\<lambda>m. m\<lparr>nm_hops := h, nm_treenode := t\<rparr>) (nbr oi u)"
    using assms [unfolded hops_tree_only_def, THEN conjunct2, rule_format, OF u] by (elim exE)
  then show "nbrs_core oi' ! u = nbrs_core oi ! u"
    using u len by (simp add: nbr_core_def comp_def)
qed

text \<open>Phase 3 returns on the tree of the first search.\<close>

lemma mdr_phase3_paths_total:
  assumes inv: "mdr_tree_inv link mx tree oi1" and mx: "mx < num_neigh oi"
    and n: "num_neigh oi1 = num_neigh oi"
    and tn: "\<And>u. u < num_neigh oi \<Longrightarrow> treenode_of oi u = treenode_of oi1 u"
  obtains tree' oi' where "mdr_phase3_paths ospf6 cm mx tree oi = Some (tree', oi')" "hops2_only oi oi'"
    "\<And>u. u < num_neigh oi \<Longrightarrow> treenode_of oi' u = None \<or> (\<exists>n \<in> set tree'. tn_on n = u)"
proof -
  let ?oi = "set_hops2_0 mx oi"
  have "treenode_of oi1 mx \<noteq> None"
    using mdr_tree_invD(3,7) [OF inv, of mx] mx n by auto
  then obtain t where t1: "treenode_of oi1 mx = Some t" by auto
  have t: "treenode_of ?oi mx = Some t" using t1 tn [OF mx] mx by simp
  define tr where "tr = set_labeled t tree"
  define oi2 where "oi2 = fold (mdr_phase3a ospf6 cm mx tr) [0 ..< num_neigh ?oi] ?oi"
  have h2: "hops2_only oi oi2"
    unfolding oi2_def by (rule hops2_only_trans [OF hops2_only_set hops2_only_fold]) (rule hops2_only_phase3a)
  have ok: "tree_ok tr"
    using mdr_tree_invD(1) [OF inv] by (simp add: tr_def set_labeled_def tree_ok_set_labeled)
  have lab: "tn_labeled (tr ! x)" if "x < length tree" "tn_on (tree ! x) = mx" for x
    using mdr_tree_invD(2) [OF inv that(1)] that t1 by (simp add: tr_def set_labeled_nth)
  have "mdr_label_inv mx tr oi"
    unfolding mdr_label_inv_def
  proof (intro conjI allI impI ok)
    fix x assume "x < length tr"
    then have x: "x < length tree" by (simp add: tr_def)
    show "tn_on (tr ! x) = mx" if "tn_parent (tr ! x) = None"
      using mdr_tree_invD(5) [OF inv x] that x by (simp add: tr_def set_labeled_nth split: if_splits)
    show "tn_labeled (tr ! x)" if "tn_on (tr ! x) = mx"
      using lab [OF x] that x by (simp add: tr_def set_labeled_nth split: if_splits)
  next
    fix u x assume u: "u < num_neigh oi" "treenode_of oi u = Some x"
    then have x: "x < length tree \<and> tn_on (tree ! x) = u"
      using mdr_tree_invD(4) [OF inv, of u x] tn n by simp
    then show "x < length tr" "tn_on (tr ! x) = u" by (auto simp: tr_def set_labeled_nth)
  qed
  from mdr_label_loop_total [OF mdr_label_inv_hops2 [OF this h2], of "length tr + 1" ospf6 cm]
  obtain tree' oi' where r: "mdr_label_loop (length tr + 1) ospf6 cm mx tr oi2 = Some (tree', oi')"
    "hops2_only oi2 oi'" "mdr_label_inv mx tree' oi'"
    using unlabeled_count_le [of tr] by (auto simp: less_Suc_eq_le)
  have n': "num_neigh oi' = num_neigh oi"
    using hops2_only_trans [OF h2 r(2)] oi_core_eqD(1) [of oi' oi] by (simp add: hops2_only_def)
  show ?thesis
  proof (rule that)
    show "mdr_phase3_paths ospf6 cm mx tree oi = Some (tree', oi')"
      using r(1) t by (simp add: mdr_phase3_paths_def tr_def oi2_def Let_def del: mdr_label_loop.simps)
    show "hops2_only oi oi'" by (rule hops2_only_trans [OF h2 r(2)])
    fix u assume u: "u < num_neigh oi"
    have "x < length tree' \<and> tn_on (tree' ! x) = u" if "treenode_of oi' u = Some x" for x
      using r(3) that u n' by (simp add: mdr_label_inv_def)
    then show "treenode_of oi' u = None \<or> (\<exists>n \<in> set tree'. tn_on n = u)"
      by (cases "treenode_of oi' u") (auto intro: nth_mem)
  qed
qed

text \<open>The neighbors that \<open>Rmax\<close> does not reach in time through neighbors larger than this router.\<close>

definition uncovered :: "ospf6 \<Rightarrow> matrix \<Rightarrow> nat \<Rightarrow> ospf6_interface \<Rightarrow> nat \<Rightarrow> bool" where
  "uncovered ospf6 cm m oi u \<longleftrightarrow>
     u < num_neigh oi \<and> twoway oi u \<and>
     \<not> (\<exists>d. int d \<le> im_MDRConstraint (oi_mdr oi) \<and> hop_path (mdr_link ospf6 cm oi) (\<lambda>_. True) m d u)"

definition mdr_result_level :: "bool \<Rightarrow> bool \<Rightarrow> int" where
  "mdr_result_level dr bdr = (if dr then OSPF6_MDR else if bdr then OSPF6_BMDR else OSPF6_OTHER)"

text \<open>What the phases may make a neighbor dependent for.\<close>

definition dep_cond :: "ospf6_interface \<Rightarrow> nat \<Rightarrow> nat \<Rightarrow> bool" where
  "dep_cond oi m u \<longleftrightarrow>
     adj_of oi \<noteq> OSPF6_ADJ_FULLYCONNECTED \<and> nbr_level oi u \<ge> OSPF6_BMDR \<and> (twoway oi u \<or> u = m)"

lemma mdr_phase2_run:
  fixes oi :: ospf6_interface
  assumes m: "m < num_neigh oi" "num_neigh oi \<le> INFTY" "im_MDRConstraint (oi_mdr oi) < int INFTY"
    and init: "\<And>u. u < num_neigh oi \<Longrightarrow> hops_of oi u = INFTY \<and> treenode_of oi u = None \<and> \<not> dependent_of oi u"
  obtains tree oi1 dr oi2 oi3 L where "mdr_bfs ospf6 cm m oi = (tree, oi1)"
    "mdr_step26 ospf6 cm [0 ..< num_neigh oi1] (False, oi1) = (dr, oi2)" "mdr_phase2_end m dr oi2 = oi3"
    "mdr_tree_inv (mdr_link ospf6 cm oi) m tree oi1" "num_neigh oi1 = num_neigh oi"
    "oi_core oi3 = (oi_core oi)\<lparr>oi_mdr := (oi_mdr oi)\<lparr>im_mdr_level := L\<rparr>\<rparr>" "dr \<longrightarrow> L = OSPF6_MDR"
    "\<And>u. u < num_neigh oi \<Longrightarrow> treenode_of oi3 u = treenode_of oi1 u"
    "dr \<longleftrightarrow> (\<exists>u. uncovered ospf6 cm m oi u)"
    "\<And>u. u < num_neigh oi \<Longrightarrow> dependent_of oi3 u \<Longrightarrow> dr \<and> dep_cond oi m u"
proof -
  let ?n = "num_neigh oi"
  obtain tree oi1 where 1: "mdr_bfs ospf6 cm m oi = (tree, oi1)" "mdr_bfs_ok ospf6 cm oi m (tree, oi1, [])"
    using mdr_bfs_correct [OF m(1)] init by metis
  have inv1: "mdr_inv ospf6 cm oi m (hops_of oi1) []" and tinv: "mdr_tree_inv (mdr_link ospf6 cm oi) m tree oi1"
    and c1: "oi_core oi1 = oi_core oi" and d1: "\<And>u. u < ?n \<Longrightarrow> \<not> dependent_of oi1 u"
    using 1(2) init by (simp_all add: mdr_bfs_ok_def)
  have n1: "num_neigh oi1 = ?n" using oi_core_eqD(1) [OF c1] .
  obtain dr oi2 where 2: "mdr_step26 ospf6 cm [0 ..< num_neigh oi1] (False, oi1) = (dr, oi2)" by fastforce
  have "set [0 ..< num_neigh oi1] \<subseteq> {..< num_neigh oi1}" by auto
  note s2 = mdr_step26_eq [OF this 2]
  have c2: "oi_core oi2 = oi_core oi" using s2 c1 by (simp add: dep_only_def)
  have n2: "num_neigh oi2 = ?n" using oi_core_eqD(1) [OF c2] .
  have far: "far oi1 u \<longleftrightarrow> uncovered ospf6 cm m oi u" if "u < ?n" for u
    using mdr_graph.bfs_within [OF inv1 m(2) that m(3)] oi_core_eqD(2,5) [OF c1] that
    by (simp add: far_def uncovered_def not_le [symmetric] del: not_le)
  have dr: "dr \<longleftrightarrow> (\<exists>u. uncovered ospf6 cm m oi u)"
    using s2 far n1 by (auto simp: uncovered_def)
  have d2: "dr \<and> dep_cond oi m u" if "u < ?n" "dependent_of oi2 u" for u
    using s2 that d1 far [OF that(1)] n1 oi_core_eqD(2,8) [OF c1] dr
    by (auto simp: mdr_may_depend_def uncovered_def dep_cond_def)
  define L where "L = (if dr then OSPF6_MDR else if im_mdr_level (oi_mdr oi) = OSPF6_MDR then OSPF6_BMDR
       else im_mdr_level (oi_mdr oi))"
  obtain oi3 where 3: "mdr_phase2_end m dr oi2 = oi3\<lparr>oi_mdr := (oi_mdr oi)\<lparr>im_mdr_level := L\<rparr>\<rparr>"
    "dep_only oi2 oi3"
    "\<And>u. u < ?n \<Longrightarrow> dependent_of oi3 u \<longleftrightarrow> dependent_of oi2 u \<or>
       u = m \<and> dr \<and> adj_of oi \<noteq> OSPF6_ADJ_FULLYCONNECTED \<and> nbr_level oi m > OSPF6_OTHER"
    using mdr_phase2_end_eq [of m oi2 dr] m(1) n2 oi_core_eqD(2,8) [OF c2] unfolding L_def by metis
  show ?thesis
  proof (rule that [OF 1(1) 2 3(1) tinv n1 _ _ _ dr])
    show "oi_core (oi3\<lparr>oi_mdr := (oi_mdr oi)\<lparr>im_mdr_level := L\<rparr>\<rparr>) =
        (oi_core oi)\<lparr>oi_mdr := (oi_mdr oi)\<lparr>im_mdr_level := L\<rparr>\<rparr>"
      using 3(2) c2 by (simp add: dep_only_def)
    show "dr \<longrightarrow> L = OSPF6_MDR" by (simp add: L_def)
    fix u assume u: "u < ?n"
    show "treenode_of (oi3\<lparr>oi_mdr := (oi_mdr oi)\<lparr>im_mdr_level := L\<rparr>\<rparr>) u = treenode_of oi1 u"
      using 3(2) s2 u n1 n2 by (simp add: dep_only_def)
    show "dr \<and> dep_cond oi m u" if "dependent_of (oi3\<lparr>oi_mdr := (oi_mdr oi)\<lparr>im_mdr_level := L\<rparr>\<rparr>) u"
      using that 3(3) [OF u] d2 [OF u] by (auto simp: dep_cond_def)
  qed
qed

lemma mdr_phase3_run:
  fixes oi :: ospf6_interface
  assumes m: "m < num_neigh oi"
  obtains bdr oi1 oi2 where "fold (mdr_step33 ospf6 cm dr) [0 ..< num_neigh oi] (False, oi) = (bdr, oi1)"
    "mdr_phase3_end m dr bdr oi1 = oi2"
    "oi_core oi2 = (oi_core oi)\<lparr>oi_mdr := (oi_mdr oi)\<lparr>im_mdr_level :=
       (if bdr then OSPF6_BMDR else if dr then im_mdr_level (oi_mdr oi) else OSPF6_OTHER)\<rparr>\<rparr>"
    "\<And>u. u < num_neigh oi \<Longrightarrow> treenode_of oi2 u = treenode_of oi u" "\<not> (dr \<and> bdr)"
    "\<And>u. u < num_neigh oi \<Longrightarrow> dependent_of oi2 u \<Longrightarrow> dependent_of oi u \<or> (dr \<or> bdr) \<and> dep_cond oi m u"
proof -
  let ?n = "num_neigh oi"
  obtain bdr oi1 where 1: "fold (mdr_step33 ospf6 cm dr) [0 ..< ?n] (False, oi) = (bdr, oi1)" by fastforce
  have "set [0 ..< ?n] \<subseteq> {..< ?n}" by auto
  note s1 = fold_mdr_step33_eq [OF this 1]
  have c1: "oi_core oi1 = oi_core oi" using s1 by (simp add: dep_only_def)
  have n1: "num_neigh oi1 = ?n" using oi_core_eqD(1) [OF c1] .
  define L where "L = (if bdr then OSPF6_BMDR else if dr then im_mdr_level (oi_mdr oi) else OSPF6_OTHER)"
  obtain oi2 where 2: "mdr_phase3_end m dr bdr oi1 = oi2\<lparr>oi_mdr := (oi_mdr oi)\<lparr>im_mdr_level := L\<rparr>\<rparr>"
    "dep_only oi1 oi2"
    "\<And>u. u < ?n \<Longrightarrow> dependent_of oi2 u \<longleftrightarrow> dependent_of oi1 u \<or>
       u = m \<and> bdr \<and> adj_of oi = OSPF6_ADJ_BICONNECTED \<and> nbr_level oi m > OSPF6_OTHER"
    using mdr_phase3_end_eq [of m oi1 dr bdr] m n1 oi_core_eqD(2,8) [OF c1] unfolding L_def by metis
  have bdr: "\<And>u. u < ?n \<Longrightarrow> backup_needed oi u \<Longrightarrow> dr \<or> bdr" using s1 by auto
  show ?thesis
  proof (rule that [OF 1 2(1)])
    show "oi_core (oi2\<lparr>oi_mdr := (oi_mdr oi)\<lparr>im_mdr_level := L\<rparr>\<rparr>) = (oi_core oi)\<lparr>oi_mdr := (oi_mdr oi)\<lparr>im_mdr_level :=
       (if bdr then OSPF6_BMDR else if dr then im_mdr_level (oi_mdr oi) else OSPF6_OTHER)\<rparr>\<rparr>"
      using 2(2) c1 by (simp add: dep_only_def L_def)
    show "\<not> (dr \<and> bdr)" using s1 by simp
    fix u assume u: "u < ?n"
    show "treenode_of (oi2\<lparr>oi_mdr := (oi_mdr oi)\<lparr>im_mdr_level := L\<rparr>\<rparr>) u = treenode_of oi u"
      using 2(2) s1 u n1 by (simp add: dep_only_def)
    show "dependent_of oi u \<or> (dr \<or> bdr) \<and> dep_cond oi m u"
      if d: "dependent_of (oi2\<lparr>oi_mdr := (oi_mdr oi)\<lparr>im_mdr_level := L\<rparr>\<rparr>) u"
    proof (cases "dependent_of oi1 u")
      case True
      then have "dependent_of oi u \<or> backup_needed oi u \<and> adj_of oi = OSPF6_ADJ_BICONNECTED \<and> nbr_level oi u \<ge> OSPF6_BMDR"
        using s1 u by simp
      then show ?thesis using bdr [OF u] by (auto simp: dep_cond_def backup_needed_def)
    next
      case False
      then show ?thesis using 2(3) [OF u] d by (auto simp: dep_cond_def)
    qed
  qed
qed

lemma mdr_levels_eq:
  fixes oi :: ospf6_interface
  assumes m: "m < num_neigh oi" "num_neigh oi \<le> INFTY" "im_MDRConstraint (oi_mdr oi) < int INFTY"
    and init: "\<And>u. u < num_neigh oi \<Longrightarrow> hops_of oi u = INFTY \<and> treenode_of oi u = None \<and> \<not> dependent_of oi u"
  obtains dr bdr tree oi' where "mdr_levels ospf6 cm m oi = Some (dr, bdr, tree, oi')"
    "oi_core oi' = (oi_core oi)\<lparr>oi_mdr := (oi_mdr oi)\<lparr>im_mdr_level := mdr_result_level dr bdr\<rparr>\<rparr>"
    "dr \<longleftrightarrow> (\<exists>u. uncovered ospf6 cm m oi u)" "\<not> (dr \<and> bdr)"
    "\<And>u. u < num_neigh oi \<Longrightarrow> dependent_of oi' u \<Longrightarrow> (dr \<or> bdr) \<and> dep_cond oi m u"
    "\<And>u. u < num_neigh oi \<Longrightarrow> treenode_of oi' u = None \<or> (\<exists>n \<in> set tree. tn_on n = u)"
proof -
  let ?n = "num_neigh oi"
  obtain tree oi1 dr oi2 oi3 L where 1: "mdr_bfs ospf6 cm m oi = (tree, oi1)"
    "mdr_step26 ospf6 cm [0 ..< num_neigh oi1] (False, oi1) = (dr, oi2)" "mdr_phase2_end m dr oi2 = oi3"
    "mdr_tree_inv (mdr_link ospf6 cm oi) m tree oi1" "num_neigh oi1 = ?n"
    "oi_core oi3 = (oi_core oi)\<lparr>oi_mdr := (oi_mdr oi)\<lparr>im_mdr_level := L\<rparr>\<rparr>" "dr \<longrightarrow> L = OSPF6_MDR"
    "\<And>u. u < ?n \<Longrightarrow> treenode_of oi3 u = treenode_of oi1 u"
    "dr \<longleftrightarrow> (\<exists>u. uncovered ospf6 cm m oi u)"
    "\<And>u. u < ?n \<Longrightarrow> dependent_of oi3 u \<Longrightarrow> dr \<and> dep_cond oi m u"
    using mdr_phase2_run [OF m init, of ospf6 cm] by metis
  have n3: "num_neigh oi3 = ?n" using arg_cong [OF 1(6), of num_neigh] by simp
  obtain tree' oi4 where 4: "mdr_phase3_paths ospf6 cm m tree oi3 = Some (tree', oi4)" "hops2_only oi3 oi4"
    "\<And>u. u < num_neigh oi3 \<Longrightarrow> treenode_of oi4 u = None \<or> (\<exists>n \<in> set tree'. tn_on n = u)"
    using mdr_phase3_paths_total [OF 1(4), of oi3 ospf6 cm] m(1) n3 1(5,8) by metis
  have c4: "oi_core oi4 = (oi_core oi)\<lparr>oi_mdr := (oi_mdr oi)\<lparr>im_mdr_level := L\<rparr>\<rparr>"
    using 4(2) 1(6) by (simp add: hops2_only_def)
  have m4: "oi_mdr oi4 = (oi_mdr oi)\<lparr>im_mdr_level := L\<rparr>" using arg_cong [OF c4, of oi_mdr] by simp
  have n4: "num_neigh oi4 = ?n" using arg_cong [OF c4, of num_neigh] by simp
  have nc4: "nbrs_core oi4 = nbrs_core oi"
    using arg_cong [OF c4, of oi_neighbor_list] by (simp add: oi_core_def)
  obtain bdr oi5 oi6 where 5: "fold (mdr_step33 ospf6 cm dr) [0 ..< num_neigh oi4] (False, oi4) = (bdr, oi5)"
    "mdr_phase3_end m dr bdr oi5 = oi6"
    "oi_core oi6 = (oi_core oi4)\<lparr>oi_mdr := (oi_mdr oi4)\<lparr>im_mdr_level :=
       (if bdr then OSPF6_BMDR else if dr then im_mdr_level (oi_mdr oi4) else OSPF6_OTHER)\<rparr>\<rparr>"
    "\<And>u. u < num_neigh oi4 \<Longrightarrow> treenode_of oi6 u = treenode_of oi4 u" "\<not> (dr \<and> bdr)"
    "\<And>u. u < num_neigh oi4 \<Longrightarrow> dependent_of oi6 u \<Longrightarrow> dependent_of oi4 u \<or> (dr \<or> bdr) \<and> dep_cond oi4 m u"
    using mdr_phase3_run [of m oi4 ospf6 cm dr] m(1) n4 by metis
  have dc: "dep_cond oi4 m u \<longleftrightarrow> dep_cond oi m u" if "u < ?n" for u
    using nbrs_core_eqD(2,5) [OF nc4 that] by (simp add: dep_cond_def m4)
  show ?thesis
  proof (rule that [of dr bdr tree' oi6])
    show "mdr_levels ospf6 cm m oi = Some (dr, bdr, tree', oi6)"
      by (simp add: mdr_levels_def 1(1-3) 4(1) 5(1,2))
    show "oi_core oi6 = (oi_core oi)\<lparr>oi_mdr := (oi_mdr oi)\<lparr>im_mdr_level := mdr_result_level dr bdr\<rparr>\<rparr>"
      using 5(3,5) c4 m4 1(7) by (simp add: mdr_result_level_def)
    show "dr \<longleftrightarrow> (\<exists>u. uncovered ospf6 cm m oi u)" by (rule 1(9))
    show "\<not> (dr \<and> bdr)" by (rule 5(5))
    fix u assume u: "u < ?n"
    show "treenode_of oi6 u = None \<or> (\<exists>n \<in> set tree'. tn_on n = u)"
      using 5(4) 4(3) n3 n4 u by simp
    have "dependent_of oi4 u = dependent_of oi3 u" using 4(2) u n3 by (simp add: hops2_only_def)
    then show "(dr \<or> bdr) \<and> dep_cond oi m u" if "dependent_of oi6 u"
      using 5(6) [of u] that u n4 1(10) [OF u] dc [OF u] by auto
  qed
qed

end
