(* ===== verification/Ospf6_Create.thy ===== *)
theory Ospf6_Create
  imports Ospf6_Types
begin

text \<open>
  Creation of neighbors and interfaces: \<open>ospf6_neighbor_cmp\<close>, \<open>ospf6_neighbor_lookup\<close> and the
  initialisation part of \<open>ospf6_neighbor_create\<close> of \<^verbatim>\<open>src/ospf6d/ospf6_neighbor.c\<close>,
  \<open>ospf6_mdr_neighbor_create\<close> and the list of lost neighbors of
  \<^verbatim>\<open>src/ospf6d/ospf6_mdr_neighbor.c\<close>, \<open>ospf6_interface_create\<close> of
  \<^verbatim>\<open>src/ospf6d/ospf6_interface.c\<close>, and \<open>ospf6_mdr_interface_create\<close> of
  \<^verbatim>\<open>src/ospf6d/ospf6_mdr_interface.c\<close>. The lemmas are about the order of the neighbor list.
\<close>

unbundle bit_operations_syntax

section \<open>The neighbor list\<close>

definition ospf6_neighbor_cmp :: "ospf6_neighbor \<Rightarrow> ospf6_neighbor \<Rightarrow> int" where
  "ospf6_neighbor_cmp ona onb = (if on_router_id ona < on_router_id onb then -1 else 1)"

definition ospf6_neighbor_lookup :: "rid \<Rightarrow> ospf6_interface \<Rightarrow> ospf6_neighbor option" where
  "ospf6_neighbor_lookup router_id oi = find (\<lambda>on. on_router_id on = router_id) (oi_neighbor_list oi)"

text \<open>Insertion before the first element that is larger in the order of the list.\<close>
fun listnode_add_sort :: "('a \<Rightarrow> 'a \<Rightarrow> int) \<Rightarrow> 'a list \<Rightarrow> 'a \<Rightarrow> 'a list" where
  "listnode_add_sort cmp [] val = [val]"
| "listnode_add_sort cmp (n # list) val =
     (if cmp val n < 0 then val # n # list else n # listnode_add_sort cmp list val)"

section \<open>Neighbors\<close>

definition ospf6_mdr_lookup_lnl_element :: "rid \<Rightarrow> ospf6_interface \<Rightarrow> ospf6_lnl_element option" where
  "ospf6_mdr_lookup_lnl_element rid oi = find (\<lambda>e. rid = lnl_id e) (im_lnl (oi_mdr oi))"

text \<open>The element is removed from the list of the interface by its address; an element found by
  its ID is the first one with that ID.\<close>
definition ospf6_mdr_delete_lnl_element :: "ospf6_lnl_element \<Rightarrow> ospf6_interface \<Rightarrow> ospf6_interface" where
  "ospf6_mdr_delete_lnl_element e oi =
     oi\<lparr>oi_mdr := (oi_mdr oi)\<lparr>im_lnl := remove1 e (im_lnl (oi_mdr oi))\<rparr>\<rparr>"

definition ospf6_mdr_add_lnl_element :: "rid \<Rightarrow> ospf6_interface \<Rightarrow> ospf6_interface" where
  "ospf6_mdr_add_lnl_element rid oi =
     (let lnl = im_lnl (oi_mdr oi); hsn = im_hsn (oi_mdr oi);
          lnl = (case ospf6_mdr_lookup_lnl_element rid oi of
                   Some e \<Rightarrow> list_update lnl (length (takeWhile (\<lambda>e. lnl_id e \<noteq> rid) lnl)) (e\<lparr>lnl_hsn := hsn\<rparr>)
                 | None \<Rightarrow> lnl @ [\<lparr>lnl_id = rid, lnl_hsn = hsn\<rparr>])
      in oi\<lparr>oi_mdr := (oi_mdr oi)\<lparr>im_lnl := lnl\<rparr>\<rparr>)"

text \<open>Memory from \<^verbatim>\<open>XCALLOC\<close>: all fields zero.\<close>
definition mdr_neighbor_zero :: ospf6_mdr_neighbor where
  "mdr_neighbor_zero =
     \<lparr>nm_ack_list = [], nm_thread_ack_list_expire = None, nm_routable = False, nm_dependent = False,
      nm_dependent_selector = False, nm_adv = False, nm_sel_adv = False, nm_Abit = False,
      nm_rnl = [], nm_dnl = [], nm_sanl = [], nm_list_type = 0, nm_hops = 0, nm_hops2 = 0,
      nm_treenode = None, nm_child = False, nm_Report2Hop = False, nm_reverse_2way = False,
      nm_mdr_level = 0, nm_cost_matrix_index = 0, nm_hsn = 0, nm_changed_hsn = 0, nm_consec_hellos = 0\<rparr>"

text \<open>The neighbor's MDR part is initialised, and the neighbor is no longer lost.\<close>
definition ospf6_mdr_neighbor_create ::
    "ospf6_neighbor \<Rightarrow> ospf6_interface \<Rightarrow> ospf6_neighbor \<times> ospf6_interface" where
  "ospf6_mdr_neighbor_create on oi =
     (let oi = (case ospf6_mdr_lookup_lnl_element (on_router_id on) oi of
                  Some e \<Rightarrow> ospf6_mdr_delete_lnl_element e oi
                | None \<Rightarrow> oi);
          m = (on_mdr on)\<lparr>nm_rnl := [], nm_dnl := [], nm_sanl := [], nm_Report2Hop := False,
                nm_reverse_2way := False, nm_dependent := False, nm_dependent_selector := False,
                nm_routable := False, nm_adv := False, nm_sel_adv := False, nm_list_type := 0,
                nm_consec_hellos := 0, nm_ack_list := []\<rparr>
      in (on\<lparr>on_mdr := m\<rparr>, oi))"

text \<open>A neighbor before it enters the list.\<close>
definition neighbor_alloc :: "timeval \<Rightarrow> rid \<Rightarrow> ospf6_interface \<Rightarrow> ospf6_neighbor" where
  "neighbor_alloc now router_id oi =
     \<lparr>on_state = OSPF6_NEIGHBOR_DOWN, on_last_changed = now, on_router_id = router_id, on_ifindex = 0,
      on_priority = 0, on_drouter = 0, on_bdrouter = 0, on_prev_drouter = 0, on_prev_bdrouter = 0,
      on_options = [0, 0, 0], on_linklocal_addr = replicate 16 0, on_dbdesc_bits = 0, on_dbdesc_seqnum = 0,
      on_dbdesc_last = \<lparr>dd_reserved1 = 0, dd_options = [0, 0, 0], dd_ifmtu = 0, dd_reserved2 = 0,
                        dd_bits = 0, dd_seqnum = 0\<rparr>,
      on_summary_list = [], on_request_list = [], on_retrans_list = [], on_dbdesc_list = [],
      on_lsreq_list = [], on_lsupdate_list = [], on_lsack_list = [], on_request_retrans_wait = False,
      on_inactivity_timer = None, on_thread_send_dbdesc = None, on_thread_send_lsreq = None,
      on_thread_send_lsupdate = None, on_thread_send_lsack = None, on_thread_adjok = None,
      on_cost = oi_cost oi, on_mdr = mdr_neighbor_zero\<rparr>"

section \<open>Interfaces\<close>

abbreviation (input) HELLO_INTERVAL_CONFIGURED :: u32 where "HELLO_INTERVAL_CONFIGURED \<equiv> 1"
abbreviation (input) DEAD_INTERVAL_CONFIGURED :: u32 where "DEAD_INTERVAL_CONFIGURED \<equiv> 2"
abbreviation (input) RXMT_INTERVAL_CONFIGURED :: u32 where "RXMT_INTERVAL_CONFIGURED \<equiv> 4"
abbreviation (input) LINK_LSA_SUPPRESSION_CONFIGURED :: u32 where "LINK_LSA_SUPPRESSION_CONFIGURED \<equiv> 8"
abbreviation (input) ALLOW_IMMEDIATE_HELLO_CONFIGURED :: u32 where "ALLOW_IMMEDIATE_HELLO_CONFIGURED \<equiv> 16"

text \<open>The caller has set the type to MDR, which the function asserts.\<close>
definition ospf6_mdr_interface_configure_defaults :: "ospf6_interface \<Rightarrow> ospf6_interface option" where
  "ospf6_mdr_interface_configure_defaults oi =
     (if oi_type oi \<noteq> OSPF6_IFTYPE_MDR then None
      else
        let configured = (\<lambda>flag. oi_config_status oi AND flag \<noteq> 0);
            oi = (if \<not> configured HELLO_INTERVAL_CONFIGURED then oi\<lparr>oi_hello_interval := 2\<rparr> else oi);
            oi = (if \<not> configured DEAD_INTERVAL_CONFIGURED then oi\<lparr>oi_dead_interval := 6\<rparr> else oi);
            oi = (if \<not> configured RXMT_INTERVAL_CONFIGURED then oi\<lparr>oi_rxmt_interval := 7\<rparr> else oi);
            oi = (if \<not> configured LINK_LSA_SUPPRESSION_CONFIGURED then oi\<lparr>oi_LinkLSASuppression := True\<rparr> else oi);
            oi = (if \<not> configured ALLOW_IMMEDIATE_HELLO_CONFIGURED then oi\<lparr>oi_allow_immediate_hello := True\<rparr> else oi)
        in Some oi)"

definition ospf6_mdr_interface_create :: "ospf6_interface \<Rightarrow> ospf6_interface option" where
  "ospf6_mdr_interface_create oi =
     map_option (\<lambda>oi. oi\<lparr>oi_mdr := (oi_mdr oi)\<lparr>im_ackInterval := 1000, im_ack_cache_timeout := 100,
         im_BackupWaitInterval := 500, im_TwoHopRefresh := 1, im_HelloRepeatCount := 3,
         im_AdjConnectivity := OSPF6_ADJ_UNICONNECTED, im_LSAFullness := OSPF6_LSA_FULLNESS_MINCOST,
         im_MDRConstraint := 3, im_consec_hello_threshold := 1, im_lnl := [], im_hsn := 0,
         im_full_hello_count := 0, im_update_routable_neighbors_immediately := False\<rparr>\<rparr>)
       (if oi_type oi = OSPF6_IFTYPE_MDR then ospf6_mdr_interface_configure_defaults oi else Some oi)"

definition mdr_interface_zero :: ospf6_mdr_interface where
  "mdr_interface_zero =
     \<lparr>im_ackInterval = 0, im_ack_cache_timeout = 0, im_nonflooding_mdr = False, im_BackupWaitInterval = 0,
      im_AdjConnectivity = OSPF6_ADJ_FULLYCONNECTED, im_LSAFullness = OSPF6_LSA_FULLNESS_MIN,
      im_MDRConstraint = 0, im_mdr_level = 0, im_consec_hello_threshold = 0, im_parent = None,
      im_bparent = None, im_TwoHopRefresh = 0, im_HelloRepeatCount = 0, im_lnl = [], im_hsn = 0,
      im_full_hello_count = 0, im_update_routable_neighbors_immediately = False\<rparr>"

text \<open>The interface data are given by their index; registered per-interface operations are not run.\<close>
definition ospf6_interface_create :: "u32 \<Rightarrow> ospf6_interface option" where
  "ospf6_interface_create ifindex =
     ospf6_mdr_interface_create
       \<lparr>oi_ifindex = ifindex, oi_area_id = 0, oi_neighbor_list = [], oi_transdelay = 1, oi_priority = 1,
        oi_hello_interval = 10, oi_dead_interval = 40, oi_rxmt_interval = 5, oi_config_status = 0,
        oi_cost = 1, oi_ifmtu = 0, oi_state = OSPF6_INTERFACE_DOWN, oi_flag = 0, oi_mtu_ignore = False,
        oi_drouter = 0, oi_bdrouter = 0, oi_prev_drouter = 0, oi_prev_bdrouter = 0,
        oi_lsdb = [], oi_lsdb_self = [], oi_lsupdate_list = [], oi_lsack_list = [],
        oi_thread_send_hello = None, oi_thread_send_lsupdate = None, oi_thread_send_lsack = None,
        oi_type = OSPF6_IFTYPE_NONE, oi_LinkLSASuppression = False, oi_allow_immediate_hello = False,
        oi_last_hello_time = \<lparr>tv_sec = 0, tv_usec = 0\<rparr>, oi_initial_immediate_hello_delay = 2,
        oi_immediate_hello_delay = 0, oi_flood_delay = 100,
        oi_relax_neighbor_inactivity = False, oi_adjacency_formation_limit = 0,
        oi_mdr = mdr_interface_zero, oi_effects = []\<rparr>"

section \<open>The neighbor list stays sorted\<close>

text \<open>Strictly increasing router IDs: what \<open>ospf6_neighbor_create\<close> keeps, when the ID is new.\<close>
definition nbrs_sorted :: "ospf6_neighbor list \<Rightarrow> bool" where
  "nbrs_sorted ons \<longleftrightarrow> sorted_wrt (<) (map on_router_id ons)"

lemma set_listnode_add_sort [simp]: "set (listnode_add_sort cmp list val) = insert val (set list)"
  by (induction list) auto

lemma length_listnode_add_sort [simp]: "length (listnode_add_sort cmp list val) = Suc (length list)"
  by (induction list) auto

lemma listnode_add_sort_split:
  "\<exists>pre post. list = pre @ post \<and> listnode_add_sort cmp list val = pre @ val # post"
proof (induction list)
  case (Cons n list)
  then obtain pre post where "list = pre @ post" "listnode_add_sort cmp list val = pre @ val # post" by blast
  then show ?case
    by (cases "cmp val n < 0") (auto intro: exI [of _ "[]"] exI [of _ "n # pre"])
qed simp

lemma nbrs_sorted_add:
  assumes "nbrs_sorted ons" "on_router_id on \<notin> on_router_id ` set ons"
  shows "nbrs_sorted (listnode_add_sort ospf6_neighbor_cmp ons on)"
  using assms
proof (induction ons)
  case (Cons n ons)
  then have IH: "nbrs_sorted (listnode_add_sort ospf6_neighbor_cmp ons on)" and ne: "on_router_id on \<noteq> on_router_id n"
    and s: "\<forall>x \<in> set ons. on_router_id n < on_router_id x"
    by (auto simp: nbrs_sorted_def)
  have cmp: "ospf6_neighbor_cmp on n < 0 \<longleftrightarrow> on_router_id on < on_router_id n"
    by (simp add: ospf6_neighbor_cmp_def)
  show ?case
  proof (cases "on_router_id on < on_router_id n")
    case True
    then show ?thesis using Cons.prems(1) s by (auto simp: nbrs_sorted_def cmp)
  next
    case False
    with ne have "on_router_id n < on_router_id on" by simp
    then show ?thesis using False IH s by (simp add: nbrs_sorted_def cmp)
  qed
qed (simp add: nbrs_sorted_def)

lemma nbrs_sorted_distinct: "nbrs_sorted ons \<Longrightarrow> distinct (map on_router_id ons)"
  unfolding nbrs_sorted_def using strict_sorted_iff by blast

lemma ospf6_neighbor_lookup_None:
  "ospf6_neighbor_lookup r oi = None \<longleftrightarrow> r \<notin> on_router_id ` set (oi_neighbor_list oi)"
  by (auto simp: ospf6_neighbor_lookup_def find_None_iff)

section \<open>An example\<close>

text \<open>A router with ID 3 and two 2-Way neighbors, 5 and 7, that do not hear each other.\<close>

definition example_router :: ospf6 where
  "example_router = \<lparr>o_instance_id = 0, o_router_id = 3, o_starttime = \<lparr>tv_sec = 0, tv_usec = 0\<rparr>,
     o_min_lsa_arrival = 1, o_min_lsa_interval = 5, o_af_interop = False, o_mdr_tlv_interop = False\<rparr>"

definition example_time :: timeval where
  "example_time = \<lparr>tv_sec = 100, tv_usec = 0\<rparr>"

definition example_interface :: ospf6_interface where
  "example_interface =
     (let oi = the (ospf6_interface_create 1);
          on = (\<lambda>r. (neighbor_alloc example_time r oi)\<lparr>on_state := OSPF6_NEIGHBOR_TWOWAY, on_priority := 1\<rparr>)
      in oi\<lparr>oi_neighbor_list := [on 5, on 7]\<rparr>)"

lemmas example_defs = example_router_def example_time_def example_interface_def ospf6_interface_create_def
  ospf6_mdr_interface_create_def neighbor_alloc_def mdr_neighbor_zero_def mdr_interface_zero_def

end
