(* ===== verification/Mdr_Result.thy ===== *)
theory Mdr_Result
  imports Mdr_Correct Ospf6_Create
begin

text \<open>
  What \<open>ospf6_calculate_mdr\<close> returns, over the interface as it is before the call: it returns and
  leaves no tree node behind, the level it computes, the dependent neighbors, the parents and
  whether an MDR floods.
\<close>

section \<open>The neighbors that the phases see\<close>

definition nbrs_same :: "ospf6_interface \<Rightarrow> ospf6_interface \<Rightarrow> bool" where
  "nbrs_same oi oi' \<longleftrightarrow>
     num_neigh oi' = num_neigh oi \<and>
     (\<forall>j < num_neigh oi. on_state (nbr oi' j) = on_state (nbr oi j) \<and>
        on_router_id (nbr oi' j) = on_router_id (nbr oi j) \<and>
        on_priority (nbr oi' j) = on_priority (nbr oi j) \<and> nbr_level oi' j = nbr_level oi j)"

lemma nbrs_sameD:
  assumes "nbrs_same oi oi'"
  shows "num_neigh oi' = num_neigh oi"
    and "j < num_neigh oi \<Longrightarrow> on_state (nbr oi' j) = on_state (nbr oi j)"
    and "j < num_neigh oi \<Longrightarrow> on_router_id (nbr oi' j) = on_router_id (nbr oi j)"
    and "j < num_neigh oi \<Longrightarrow> on_priority (nbr oi' j) = on_priority (nbr oi j)"
    and "j < num_neigh oi \<Longrightarrow> nbr_level oi' j = nbr_level oi j"
    and "j < num_neigh oi \<Longrightarrow> nbr_triple oi' j = nbr_triple oi j"
  using assms by (simp_all add: nbrs_same_def nbr_triple_def)

lemma nbrs_same_core: "nbrs_core oi' = nbrs_core oi \<Longrightarrow> nbrs_same oi oi'"
  using nbrs_core_eqD [of oi' oi] by (simp add: nbrs_same_def)

lemma nbrs_same_trans: "nbrs_same oi1 oi2 \<Longrightarrow> nbrs_same oi2 oi3 \<Longrightarrow> nbrs_same oi1 oi3"
  by (simp add: nbrs_same_def)

lemma eligible_same: "nbrs_same oi oi' \<Longrightarrow> eligible oi' = eligible oi"
  by (rule ext) (auto simp: eligible_def nbrs_sameD)

lemma hop_path_mono:
  assumes "hop_path link relay root d u"
    and "\<And>k u. link k u \<Longrightarrow> link' k u \<and> (relay k \<longrightarrow> relay' k)"
  shows "hop_path link' relay' root d u"
  using assms(1) by (induction rule: hop_path.induct) (use assms(2) in \<open>auto intro: hop_path.intros\<close>)

section \<open>Links between neighbors\<close>

text \<open>The links of Phase 2, which a neighbor not smaller than this router relays over, and those of
  Phase 5, in terms of what the neighbors report.\<close>

definition relay_link :: "ospf6 \<Rightarrow> ospf6_interface \<Rightarrow> nat \<Rightarrow> nat \<Rightarrow> bool" where
  "relay_link ospf6 oi k u \<longleftrightarrow>
     k < num_neigh oi \<and> u < num_neigh oi \<and> nbrs_linked oi k u \<and> \<not> nbr_triple oi k < self_triple ospf6 oi"

definition nbr_link :: "ospf6_interface \<Rightarrow> nat \<Rightarrow> nat \<Rightarrow> bool" where
  "nbr_link oi k u \<longleftrightarrow> k < num_neigh oi \<and> u < num_neigh oi \<and> nbrs_linked oi k u"

definition within :: "ospf6_interface \<Rightarrow> (nat \<Rightarrow> nat \<Rightarrow> bool) \<Rightarrow> (nat \<Rightarrow> bool) \<Rightarrow> nat \<Rightarrow> nat \<Rightarrow> bool" where
  "within oi link relay m u \<longleftrightarrow> (\<exists>d. int d \<le> im_MDRConstraint (oi_mdr oi) \<and> hop_path link relay m d u)"

text \<open>The Phase 2 decision: this router is larger than \<open>Rmax\<close>, or some 2-Way neighbor is not within
  \<open>MDRConstraint\<close> hops of \<open>Rmax\<close> through larger neighbors.\<close>

definition mdr_needed :: "ospf6 \<Rightarrow> ospf6_interface \<Rightarrow> nat \<Rightarrow> bool" where
  "mdr_needed ospf6 oi m \<longleftrightarrow>
     (\<exists>u < num_neigh oi. twoway oi u \<and> \<not> within oi (relay_link ospf6 oi) (\<lambda>_. True) m u)"

text \<open>The Phase 5 decision: the smaller MDR neighbors already connect all neighbors.\<close>

definition mdr_flood_covered :: "ospf6 \<Rightarrow> ospf6_interface \<Rightarrow> nat \<Rightarrow> bool" where
  "mdr_flood_covered ospf6 oi m \<longleftrightarrow>
     (\<forall>u < num_neigh oi. twoway oi u \<longrightarrow> within oi (nbr_link oi) (flood_relay ospf6 oi) m u)"

definition mdr_valid :: "ospf6_interface \<Rightarrow> bool" where
  "mdr_valid oi \<longleftrightarrow>
     num_neigh oi \<le> INFTY \<and> im_MDRConstraint (oi_mdr oi) < int INFTY \<and>
     distinct (map on_router_id (oi_neighbor_list oi)) \<and>
     (\<forall>on \<in> set (oi_neighbor_list oi). on_router_id on \<noteq> 0 \<and> nm_treenode (on_mdr on) = None)"

section \<open>Up to the choice of \<open>Rmax\<close>\<close>

lemma mdr_valid_nth:
  assumes "mdr_valid oi" "j < num_neigh oi"
  shows "on_router_id (nbr oi j) \<noteq> 0" "treenode_of oi j = None"
  using assms nth_mem [OF assms(2)] by (simp_all add: mdr_valid_def)

lemma mdr_valid_inj:
  assumes "mdr_valid oi" "j < num_neigh oi" "k < num_neigh oi"
  shows "on_router_id (nbr oi j) = on_router_id (nbr oi k) \<longleftrightarrow> j = k"
  using assms nth_eq_iff_index_eq [of "map on_router_id (oi_neighbor_list oi)" j k]
  by (simp add: mdr_valid_def)

lemma cost_matrix_oi:
  assumes "ospf6_mdr_create_cost_matrix oi = (cm, oi1)"
  shows "oi_mdr oi1 = oi_mdr oi" "oi_priority oi1 = oi_priority oi" "oi_effects oi1 = oi_effects oi"
    "num_neigh oi1 = num_neigh oi" "nbrs_same oi oi1"
    and "j < num_neigh oi \<Longrightarrow> mx_index oi1 j = j" "j < num_neigh oi \<Longrightarrow> treenode_of oi1 j = treenode_of oi j"
proof -
  have oi1: "oi1 = cost_matrix_init oi"
    using assms by (simp add: ospf6_mdr_create_cost_matrix_def Let_def)
  show "oi_mdr oi1 = oi_mdr oi" "oi_priority oi1 = oi_priority oi" "oi_effects oi1 = oi_effects oi"
    "num_neigh oi1 = num_neigh oi" by (simp_all add: oi1)
  show "nbrs_same oi oi1" by (simp add: oi1 nbrs_same_def nbr_cost_matrix_init)
  show "j < num_neigh oi \<Longrightarrow> mx_index oi1 j = j" "j < num_neigh oi \<Longrightarrow> treenode_of oi1 j = treenode_of oi j"
    by (simp_all add: oi1 nbr_cost_matrix_init)
qed

lemma mdr_link_relay_link:
  assumes "ospf6_mdr_create_cost_matrix oi = (cm, oi1)" "oi_core oi2 = oi_core oi1"
  shows "mdr_link ospf6 cm oi2 = relay_link ospf6 oi"
proof (intro ext)
  fix k u
  note c = cost_matrix_oi [OF assms(1)]
  show "mdr_link ospf6 cm oi2 k u \<longleftrightarrow> relay_link ospf6 oi k u"
  proof (cases "k < num_neigh oi \<and> u < num_neigh oi")
    case True
    then have lt: "k < num_neigh oi" "u < num_neigh oi" by auto
    note p = cost_matrix_char [OF assms(1) lt]
    have "cm (mx_index oi1 k) (mx_index oi1 u) = (if nbrs_linked oi k u then 1 else 0)"
      using p c(6) lt by simp
    then show ?thesis
      unfolding mdr_link_core [OF assms(2)] mdr_link_def relay_link_def
      using lt c(1-4) nbrs_sameD [OF c(5)]
      by (auto simp: ospf6_mdr_cost_def ospf6_sidcds_lexicographic_iff nbr_triple_def self_triple_def
          nbrs_linked_def)
  next
    case False
    then show ?thesis
      unfolding mdr_link_core [OF assms(2)] mdr_link_def relay_link_def using c(4) by auto
  qed
qed

lemma flood_link_nbr_link:
  assumes "ospf6_mdr_create_cost_matrix oi = (cm, oi1)" "oi_core oi2 = oi_core oi1"
  shows "flood_link cm oi2 = nbr_link oi"
proof (intro ext)
  fix k u
  note c = cost_matrix_oi [OF assms(1)]
  show "flood_link cm oi2 k u \<longleftrightarrow> nbr_link oi k u"
  proof (cases "k < num_neigh oi \<and> u < num_neigh oi")
    case True
    then have lt: "k < num_neigh oi" "u < num_neigh oi" by auto
    note p = cost_matrix_char [OF assms(1) lt]
    then show ?thesis
      unfolding flood_link_core [OF assms(2)] flood_link_def nbr_link_def
      using lt c(4,6) nbrs_sameD [OF c(5)] by (auto simp: nbrs_linked_def)
  next
    case False
    then show ?thesis
      unfolding flood_link_core [OF assms(2)] flood_link_def nbr_link_def using c(4) by auto
  qed
qed

lemma argmax_cong:
  assumes "\<And>i. i \<in> S \<Longrightarrow> T i = T' i"
  shows "argmax T S r \<longleftrightarrow> argmax T' S r"
  using assms by (auto simp: argmax_def split: option.splits)

lemma mdr_prepare:
  assumes valid: "mdr_valid oi" and cm: "ospf6_mdr_create_cost_matrix oi = (cm, oi1)"
    and sel: "fold (mdr_select ospf6 cm) [0 ..< num_neigh oi1] (oi1, mdr_max_init) = (oi2, mx)"
  shows "oi_core oi2 = oi_core oi1" "nbrs_same oi oi2" "oi_mdr oi2 = oi_mdr oi"
    "oi_priority oi2 = oi_priority oi" "oi_effects oi2 = oi_effects oi"
    and "u < num_neigh oi \<Longrightarrow> hops_of oi2 u = INFTY \<and> treenode_of oi2 u = None \<and> \<not> dependent_of oi2 u"
    and "max_on mx = None \<Longrightarrow> (\<nexists>j. eligible oi j) \<and> maxid mx = 0"
    and "max_on mx = Some m \<Longrightarrow> is_rmax oi m \<and> m < num_neigh oi \<and> max_triple mx = nbr_triple oi m \<and> maxid mx \<noteq> 0"
    and "max_on2 mx = Some m2 \<Longrightarrow> eligible oi m2 \<and> max_on mx \<noteq> Some m2"
proof -
  note c = cost_matrix_oi [OF cm]
  note s = fold_mdr_select [OF sel]
  note e = oi_core_eqD [OF s(1)]
  show "oi_core oi2 = oi_core oi1" by (rule s(1))
  show "nbrs_same oi oi2"
    by (rule nbrs_same_trans [OF c(5) nbrs_same_core [OF nbrs_core_oi_core [OF s(1)]]])
  show "oi_mdr oi2 = oi_mdr oi" "oi_priority oi2 = oi_priority oi" "oi_effects oi2 = oi_effects oi"
    using c(1-3) e(2-4) by simp_all
  show "hops_of oi2 u = INFTY \<and> treenode_of oi2 u = None \<and> \<not> dependent_of oi2 u" if "u < num_neigh oi"
    using s(3) [of u] that c(4,7) mdr_valid_nth(2) [OF valid that] by simp
  have T: "i \<in> {j. eligible oi j} \<Longrightarrow> nbr_triple oi1 i = nbr_triple oi i" for i
    using nbrs_sameD(6) [OF c(5)] by (simp add: eligible_def)
  have inv: "argmax (nbr_triple oi) {j. eligible oi j} (max_on mx)" "max_triple mx = start_or (nbr_triple oi1) (max_on mx)"
    "argmax (nbr_triple oi1) ({j. eligible oi j} - set_option (max_on mx)) (max_on2 mx)"
    using s(2) argmax_cong [where r = "max_on mx" and S = "{j. eligible oi j}", OF T] unfolding select_inv_def Let_def eligible_same [OF c(5)] by auto
  show "(\<nexists>j. eligible oi j) \<and> maxid mx = 0" if "max_on mx = None"
    using inv(1,2) that by (auto simp: argmax_def start_or_def max_triple_def)
  show "is_rmax oi m \<and> m < num_neigh oi \<and> max_triple mx = nbr_triple oi m \<and> maxid mx \<noteq> 0" if m: "max_on mx = Some m"
  proof -
    have r: "is_rmax oi m" using inv(1) m by (auto simp: argmax_def is_rmax_def)
    then have "eligible oi m" by (simp add: is_rmax_def)
    then have n: "m < num_neigh oi" by (simp add: eligible_def)
    have t: "max_triple mx = nbr_triple oi m" using inv(2) m T \<open>eligible oi m\<close> by (simp add: start_or_def)
    then have "maxid mx = on_router_id (nbr oi m)" by (simp add: max_triple_def nbr_triple_def)
    with r n t mdr_valid_nth(1) [OF valid n] show ?thesis by simp
  qed
  show "eligible oi m2 \<and> max_on mx \<noteq> Some m2" if "max_on2 mx = Some m2"
    using inv(3) that by (auto simp: argmax_def)
qed

section \<open>Parents\<close>

lemma mdr_parent_scan_result:
  assumes "fold (mdr_parent_scan oi mpri lv excl) js (0, 0, None) = (mid, mlevel, mnbr)" "mid \<noteq> 0"
  obtains j where "j \<in> set js" "mnbr = Some j" "mid = on_router_id (nbr oi j)"
    "on_state (nbr oi j) \<ge> OSPF6_NEIGHBOR_EXCHANGE" "Some mid \<noteq> excl" "nbr_level oi j \<ge> lv"
    "uint mpri \<le> uint (on_priority (nbr oi j))"
proof -
  let ?P = "\<lambda>done (mid :: u32, mlevel :: int, mnbr). mid \<noteq> 0 \<longrightarrow> (\<exists>j \<in> set done. mnbr = Some j \<and> mid = on_router_id (nbr oi j) \<and>
    on_state (nbr oi j) \<ge> OSPF6_NEIGHBOR_EXCHANGE \<and> Some mid \<noteq> excl \<and> nbr_level oi j \<ge> lv \<and>
    uint mpri \<le> uint (on_priority (nbr oi j)))"
  have "?P js (fold (mdr_parent_scan oi mpri lv excl) js (0, 0, None))"
  proof (rule fold_invariant_prefix [where P = ?P])
    fix "done" j rest s
    assume "js = done @ j # rest" and P: "?P done s"
    obtain mid mlevel mnbr where s: "s = (mid, mlevel, mnbr)" by (cases s) auto
    have "mdr_parent_scan oi mpri lv excl j s = s \<or>
      mdr_parent_scan oi mpri lv excl j s = (on_router_id (nbr oi j), nbr_level oi j, Some j) \<and>
      on_state (nbr oi j) \<ge> OSPF6_NEIGHBOR_EXCHANGE \<and> Some (on_router_id (nbr oi j)) \<noteq> excl \<and>
      nbr_level oi j \<ge> lv \<and> uint mpri \<le> uint (on_priority (nbr oi j))"
      by (auto simp: mdr_parent_scan_def s Let_def ospf6_sidcds_lexicographic_def not_less)
    then show "?P (done @ [j]) (mdr_parent_scan oi mpri lv excl j s)"
      using P by (elim disjE) (auto simp: s)
  qed simp
  then have "?P js (mid, mlevel, mnbr)" by (simp only: assms(1))
  with assms(2) that show ?thesis by auto
qed

lemma mdr_parent_scan_same:
  assumes "nbrs_same oi oi'" "set js \<subseteq> {..< num_neigh oi}"
  shows "fold (mdr_parent_scan oi' mpri lv excl) js s = fold (mdr_parent_scan oi mpri lv excl) js s"
  using assms(2)
proof (induction js arbitrary: s)
  case (Cons j js)
  have "mdr_parent_scan oi' mpri lv excl j s = mdr_parent_scan oi mpri lv excl j s"
    using Cons.prems nbrs_sameD(2-5) [OF assms(1), of j]
    by (cases s) (simp add: mdr_parent_scan_def Let_def)
  with Cons show ?case by simp
qed simp

text \<open>The router IDs that Phase 4 stores.\<close>

definition parent_id :: "mdr_max \<Rightarrow> ospf6_interface \<Rightarrow> nat \<Rightarrow> rid" where
  "parent_id mx oi m =
     (let mid = fst (fold (mdr_parent_scan oi (max_priority mx) OSPF6_MDR None) [0 ..< num_neigh oi] (0, 0, None))
      in if mid \<noteq> 0 then mid else on_router_id (nbr oi m))"

definition bparent_id :: "mdr_max \<Rightarrow> ospf6_interface \<Rightarrow> nat \<Rightarrow> rid option" where
  "bparent_id mx oi m =
     (let p = parent_id mx oi m;
          mid = fst (fold (mdr_parent_scan oi (max_priority mx) OSPF6_BMDR (Some p)) [0 ..< num_neigh oi] (0, 0, None))
      in if mid \<noteq> 0 then Some mid
         else if p \<noteq> on_router_id (nbr oi m) then Some (on_router_id (nbr oi m))
         else nbr_ptr oi (max_on2 mx))"

lemma mdr_parents_eq:
  assumes "max_on mx = Some m"
  shows "mdr_parents dr bdr mx oi = oi\<lparr>oi_mdr := (oi_mdr oi)\<lparr>
    im_parent := (if dr then None else Some (parent_id mx oi m)),
    im_bparent := (if dr then Some (on_router_id (nbr oi m))
                   else if \<not> bdr \<and> adj_of oi = OSPF6_ADJ_BICONNECTED then bparent_id mx oi m else None)\<rparr>\<rparr>"
proof -
  have scan: "(case fold (mdr_parent_scan oi mpri lv excl) js (0, 0, None) of
      (mid, mlevel, mnbr) \<Rightarrow> if mid \<noteq> 0 then nbr_ptr oi mnbr else r) =
    (if fst (fold (mdr_parent_scan oi mpri lv excl) js (0, 0, None)) \<noteq> 0
     then Some (fst (fold (mdr_parent_scan oi mpri lv excl) js (0, 0, None))) else r)" for mpri lv excl js r
  proof -
    obtain mid mlevel mnbr where s: "fold (mdr_parent_scan oi mpri lv excl) js (0, 0, None) = (mid, mlevel, mnbr)"
      by (rule prod_cases3)
    have "nbr_ptr oi mnbr = Some mid" if "mid \<noteq> 0"
      by (rule mdr_parent_scan_result [OF s that]) (simp add: nbr_ptr_def)
    then show ?thesis by (simp add: s)
  qed
  have m: "nbr_ptr oi (max_on mx) = Some (on_router_id (nbr oi m))" using assms by (simp add: nbr_ptr_def)
  have p: "(if fst (fold (mdr_parent_scan oi (max_priority mx) OSPF6_MDR None) [0 ..< num_neigh oi] (0, 0, None)) \<noteq> 0
     then Some (fst (fold (mdr_parent_scan oi (max_priority mx) OSPF6_MDR None) [0 ..< num_neigh oi] (0, 0, None)))
     else Some (on_router_id (nbr oi m))) = Some (parent_id mx oi m)"
    by (simp only: parent_id_def Let_def if_distrib [of Some])
  consider (dr) "dr" | (other) "\<not> dr" "\<not> bdr" "adj_of oi = OSPF6_ADJ_BICONNECTED"
    | (none) "\<not> dr" "bdr \<or> adj_of oi \<noteq> OSPF6_ADJ_BICONNECTED" by blast
  then show ?thesis
  proof cases
    case dr
    then show ?thesis by (simp only: mdr_parents_def Let_def m if_True if_False simp_thms)
  next
    case other
    then show ?thesis
      by (simp only: mdr_parents_def Let_def scan m p if_True if_False simp_thms bparent_id_def option.inject)
  next
    case none
    then have "\<not> (\<not> bdr \<and> adj_of oi = OSPF6_ADJ_BICONNECTED)" by blast
    with none(1) show ?thesis by (simp only: mdr_parents_def Let_def scan m p if_True if_False simp_thms)
  qed
qed

lemma parent_id_same:
  assumes "nbrs_same oi oi'" "m < num_neigh oi"
  shows "parent_id mx oi' m = parent_id mx oi m"
  using mdr_parent_scan_same [OF assms(1), of "[0 ..< num_neigh oi]"] nbrs_sameD(1,3) [OF assms(1)] assms(2)
  by (simp add: parent_id_def Let_def atLeast0LessThan)

lemma bparent_id_same:
  assumes "nbrs_same oi oi'" "m < num_neigh oi" "\<And>m2. max_on2 mx = Some m2 \<Longrightarrow> m2 < num_neigh oi"
  shows "bparent_id mx oi' m = bparent_id mx oi m"
proof -
  have "nbr_ptr oi' (max_on2 mx) = nbr_ptr oi (max_on2 mx)"
    using assms(3) nbrs_sameD(3) [OF assms(1)] by (cases "max_on2 mx") (simp_all add: nbr_ptr_def)
  then show ?thesis
    using mdr_parent_scan_same [OF assms(1), of "[0 ..< num_neigh oi]"] nbrs_sameD(1,3) [OF assms(1)] assms(2)
    by (simp add: bparent_id_def parent_id_same [OF assms(1,2)] Let_def atLeast0LessThan)
qed

section \<open>The main path\<close>

lemma hops_tree_only_dependent:
  assumes "hops_tree_only oi oi'" "u < num_neigh oi"
  shows "dependent_of oi' u = dependent_of oi u"
proof -
  obtain h t where "nbr oi' u = on_mdr_update (\<lambda>m. m\<lparr>nm_hops := h, nm_treenode := t\<rparr>) (nbr oi u)"
    using assms(1) [unfolded hops_tree_only_def, THEN conjunct2, rule_format, OF assms(2)] by (elim exE)
  then show ?thesis by simp
qed

lemma flood_covered_same:
  assumes "nbrs_core oi' = nbrs_core oi" "im_MDRConstraint (oi_mdr oi') = im_MDRConstraint (oi_mdr oi)"
  shows "flood_covered ospf6 cm m oi' = flood_covered ospf6 cm m oi"
proof -
  note e = nbrs_core_eqD [OF assms(1)]
  have link: "flood_link cm oi' = flood_link cm oi"
    by (intro ext) (auto simp: flood_link_def e)
  have relay: "flood_link cm oi k u \<Longrightarrow> flood_relay ospf6 oi' k = flood_relay ospf6 oi k" for k u
    by (simp add: flood_link_def flood_relay_def e)
  have "hop_path (flood_link cm oi) (flood_relay ospf6 oi') m d u \<longleftrightarrow>
      hop_path (flood_link cm oi) (flood_relay ospf6 oi) m d u" for d u
    by (rule iffI; erule hop_path_mono) (simp_all add: relay)
  then show ?thesis
    unfolding flood_covered_def link assms(2) e(1) using e(2) by simp
qed

lemma mdr_main_eq:
  fixes oi :: ospf6_interface
  assumes m: "m < num_neigh oi" "num_neigh oi \<le> INFTY" "im_MDRConstraint (oi_mdr oi) < int INFTY"
    and init: "\<And>u. u < num_neigh oi \<Longrightarrow> hops_of oi u = INFTY \<and> treenode_of oi u = None \<and> \<not> dependent_of oi u"
    and mx: "max_on mx = Some m" "\<And>m2. max_on2 mx = Some m2 \<Longrightarrow> m2 < num_neigh oi"
  obtains dr bdr oi' where "mdr_main ospf6 cm mx m oi = Some oi'" "nbrs_core oi' = nbrs_core oi"
    "dr \<longleftrightarrow> (\<exists>u. uncovered ospf6 cm m oi u)" "\<not> (dr \<and> bdr)"
    "\<And>u. u < num_neigh oi \<Longrightarrow> dependent_of oi' u \<Longrightarrow> (dr \<or> bdr) \<and> dep_cond oi m u"
    "\<And>u. u < num_neigh oi \<Longrightarrow> treenode_of oi' u = None"
    "im_MDRConstraint (oi_mdr oi') = im_MDRConstraint (oi_mdr oi)"
    "im_mdr_level (oi_mdr oi') = mdr_result_level dr bdr"
    "im_nonflooding_mdr (oi_mdr oi') \<longleftrightarrow> dr \<and> flood_covered ospf6 cm m oi"
    "im_parent (oi_mdr oi') = (if dr then None else Some (parent_id mx oi m))"
    "im_bparent (oi_mdr oi') = (if dr then Some (on_router_id (nbr oi m))
       else if \<not> bdr \<and> adj_of oi = OSPF6_ADJ_BICONNECTED then bparent_id mx oi m else None)"
proof -
  let ?n = "num_neigh oi"
  obtain dr bdr tree oi3 where 3: "mdr_levels ospf6 cm m oi = Some (dr, bdr, tree, oi3)"
    "oi_core oi3 = (oi_core oi)\<lparr>oi_mdr := (oi_mdr oi)\<lparr>im_mdr_level := mdr_result_level dr bdr\<rparr>\<rparr>"
    "dr \<longleftrightarrow> (\<exists>u. uncovered ospf6 cm m oi u)" "\<not> (dr \<and> bdr)"
    "\<And>u. u < ?n \<Longrightarrow> dependent_of oi3 u \<Longrightarrow> (dr \<or> bdr) \<and> dep_cond oi m u"
    "\<And>u. u < ?n \<Longrightarrow> treenode_of oi3 u = None \<or> (\<exists>n \<in> set tree. tn_on n = u)"
    using mdr_levels_eq [OF m init, of ospf6 cm] by metis
  have nc3: "nbrs_core oi3 = nbrs_core oi"
    using arg_cong [OF 3(2), of oi_neighbor_list] by (simp add: oi_core_def)
  have m3: "oi_mdr oi3 = (oi_mdr oi)\<lparr>im_mdr_level := mdr_result_level dr bdr\<rparr>"
    using arg_cong [OF 3(2), of oi_mdr] by simp
  note ns3 = nbrs_same_core [OF nc3]
  have n3: "num_neigh oi3 = ?n" by (rule nbrs_sameD(1) [OF ns3])
  define P where "P = (if dr then None else Some (parent_id mx oi m))"
  define B where "B = (if dr then Some (on_router_id (nbr oi m))
       else if \<not> bdr \<and> adj_of oi = OSPF6_ADJ_BICONNECTED then bparent_id mx oi m else None)"
  define oi4 where "oi4 = mdr_parents dr bdr mx oi3"
  have b3: "bparent_id mx oi3 m = bparent_id mx oi m"
    by (rule bparent_id_same [OF ns3 m(1)]) (rule mx(2))
  have 4: "oi4 = oi3\<lparr>oi_mdr := (oi_mdr oi3)\<lparr>im_parent := P, im_bparent := B\<rparr>\<rparr>"
    unfolding oi4_def mdr_parents_eq [OF mx(1)] parent_id_same [OF ns3 m(1)] b3 nbrs_sameD(3) [OF ns3 m(1)]
      P_def B_def
    by (simp add: m3)
  have n4: "num_neigh oi4 = ?n" and nc4: "nbrs_core oi4 = nbrs_core oi" using n3 nc3 by (simp_all add: 4)
  have c4: "im_MDRConstraint (oi_mdr oi4) = im_MDRConstraint (oi_mdr oi)" by (simp add: 4 m3)
  define oi5 where "oi5 = mdr_nonflooding ospf6 cm dr m oi4"
  have 5: "hops_tree_only oi4 oi5"
    "oi_mdr oi5 = (oi_mdr oi4)\<lparr>im_nonflooding_mdr := dr \<and> flood_covered ospf6 cm m oi\<rparr>"
    "\<And>u. u < ?n \<Longrightarrow> treenode_of oi5 u = treenode_of oi3 u"
    using mdr_nonflooding_eq [where mx = m and oi = oi4 and ?ospf6.0 = ospf6 and cm = cm and dr = dr] m n4 c4 flood_covered_same [OF nc4 c4]
    by (simp_all add: oi5_def) (simp add: 4)
  have n5: "num_neigh oi5 = ?n" using 5(1) n4 by (simp add: hops_tree_only_def)
  define oi6 where "oi6 = remove_tree tree oi5"
  have 6: "hops_tree_only oi4 oi6" "oi_mdr oi6 = oi_mdr oi5" "\<And>u. u < ?n \<Longrightarrow> treenode_of oi6 u = None"
    using hops_tree_only_trans [OF 5(1) remove_tree_eq(1)] remove_tree_eq(2) remove_tree_treenode [of _ oi5 tree]
      5(3) 3(6) n5 by (simp_all add: oi6_def)
  show ?thesis
  proof (rule that)
    show "mdr_main ospf6 cm mx m oi = Some (ospf6_run_update_mdr_level_hooks oi6)"
      by (simp add: mdr_main_def 3(1) oi6_def oi5_def oi4_def)
    show "nbrs_core (ospf6_run_update_mdr_level_hooks oi6) = nbrs_core oi"
      using nbrs_core_hops_tree [OF 6(1)] nc4 by (simp add: ospf6_run_update_mdr_level_hooks_def emit_def)
    show "dr \<longleftrightarrow> (\<exists>u. uncovered ospf6 cm m oi u)" "\<not> (dr \<and> bdr)" by (rule 3(3), rule 3(4))
    fix u assume u: "u < ?n"
    show "treenode_of (ospf6_run_update_mdr_level_hooks oi6) u = None"
      using 6(3) [OF u] by (simp add: ospf6_run_update_mdr_level_hooks_def emit_def)
    have "dependent_of oi6 u = dependent_of oi3 u"
      using hops_tree_only_dependent [OF 6(1)] u n4 by (simp add: 4)
    then show "dependent_of (ospf6_run_update_mdr_level_hooks oi6) u \<Longrightarrow> (dr \<or> bdr) \<and> dep_cond oi m u"
      using 3(5) [OF u] by (simp add: ospf6_run_update_mdr_level_hooks_def emit_def)
  qed (simp_all add: ospf6_run_update_mdr_level_hooks_def emit_def 6(2) 5(2) 4 m3 P_def B_def)
qed

section \<open>All paths\<close>

lemma mdr_no_neighbors_eq [simp]:
  "nbrs_core (mdr_no_neighbors oi) = nbrs_core oi" "nbr (mdr_no_neighbors oi) u = nbr oi u"
  "oi_mdr (mdr_no_neighbors oi) = (oi_mdr oi)\<lparr>im_mdr_level := OSPF6_OTHER, im_nonflooding_mdr := False,
     im_parent := None, im_bparent := None\<rparr>"
  by (simp_all add: mdr_no_neighbors_def)

lemma mdr_self_largest_eq:
  shows "nbrs_core (mdr_self_largest ospf6 cm oi) = nbrs_core oi"
    and "oi_mdr (mdr_self_largest ospf6 cm oi) = (oi_mdr oi)\<lparr>im_mdr_level := OSPF6_MDR,
      im_nonflooding_mdr := False, im_parent := None, im_bparent := None\<rparr>"
    and "u < num_neigh oi \<Longrightarrow> treenode_of (mdr_self_largest ospf6 cm oi) u = treenode_of oi u"
    and "u < num_neigh oi \<Longrightarrow> dependent_of (mdr_self_largest ospf6 cm oi) u \<longleftrightarrow> dependent_of oi u \<or>
      twoway oi u \<and> adj_of oi \<noteq> OSPF6_ADJ_FULLYCONNECTED \<and> mdr_may_depend oi u"
proof -
  define oi1 where "oi1 = oi\<lparr>oi_mdr := (oi_mdr oi)\<lparr>im_mdr_level := OSPF6_MDR, im_nonflooding_mdr := False\<rparr>\<rparr>"
  define oi2 where "oi2 = mdr_self_dependents ospf6 cm [0 ..< num_neigh oi1] oi1"
  have "set [0 ..< num_neigh oi1] \<subseteq> {..< num_neigh oi1}" by auto
  note d = mdr_self_dependents_eq [OF this, of ospf6 cm, folded oi2_def]
  have c: "oi_core oi2 = oi_core oi1" using d by (simp add: dep_only_def)
  have res: "mdr_self_largest ospf6 cm oi = oi2\<lparr>oi_mdr := (oi_mdr oi2)\<lparr>im_parent := None, im_bparent := None\<rparr>\<rparr>"
    by (simp add: mdr_self_largest_def oi2_def oi1_def Let_def)
  show "nbrs_core (mdr_self_largest ospf6 cm oi) = nbrs_core oi"
    using nbrs_core_oi_core [OF c] by (simp add: res oi1_def)
  show "oi_mdr (mdr_self_largest ospf6 cm oi) = (oi_mdr oi)\<lparr>im_mdr_level := OSPF6_MDR,
      im_nonflooding_mdr := False, im_parent := None, im_bparent := None\<rparr>"
    using oi_core_eqD(2) [OF c] by (simp add: res oi1_def)
  assume u: "u < num_neigh oi"
  show "treenode_of (mdr_self_largest ospf6 cm oi) u = treenode_of oi u"
    using d u by (simp add: res dep_only_def oi1_def)
  show "dependent_of (mdr_self_largest ospf6 cm oi) u \<longleftrightarrow> dependent_of oi u \<or>
      twoway oi u \<and> adj_of oi \<noteq> OSPF6_ADJ_FULLYCONNECTED \<and> mdr_may_depend oi u"
    using d u by (simp add: res oi1_def mdr_may_depend_def)
qed

lemma remove_tree_Nil [simp]: "remove_tree [] oi = oi"
  by (simp add: remove_tree_def)

lemma hooks_eq [simp]:
  "oi_neighbor_list (ospf6_run_update_mdr_level_hooks oi) = oi_neighbor_list oi"
  "oi_mdr (ospf6_run_update_mdr_level_hooks oi) = oi_mdr oi"
  by (simp_all add: ospf6_run_update_mdr_level_hooks_def emit_def)

text \<open>What holds of the result on every path.\<close>

definition mdr_kept :: "ospf6_interface \<Rightarrow> ospf6_interface \<Rightarrow> bool" where
  "mdr_kept oi oi' \<longleftrightarrow> nbrs_same oi oi' \<and> im_MDRConstraint (oi_mdr oi') = im_MDRConstraint (oi_mdr oi) \<and>
     (\<forall>u < num_neigh oi. treenode_of oi' u = None)"

lemma mdr_valid_kept:
  assumes "mdr_valid oi" "mdr_kept oi oi'"
  shows "mdr_valid oi'"
proof -
  have s: "nbrs_same oi oi'" using assms(2) by (simp add: mdr_kept_def)
  note e = nbrs_sameD [OF s]
  have "map on_router_id (oi_neighbor_list oi') = map on_router_id (oi_neighbor_list oi)"
    by (rule nth_equalityI) (simp_all add: e)
  then show ?thesis
    using assms mdr_valid_nth(1) [OF assms(1)] e
    by (auto simp: mdr_valid_def mdr_kept_def in_set_conv_nth)
qed

lemma ospf6_calculate_mdr_cases:
  assumes valid: "mdr_valid oi" and go: "\<not> mdr_wait now ospf6 oi"
  obtains (no_nbr) oi' where "ospf6_calculate_mdr now ospf6 oi = Some oi'" "mdr_kept oi oi'"
      "\<nexists>j. eligible oi j" "im_mdr_level (oi_mdr oi') = OSPF6_OTHER" "\<not> im_nonflooding_mdr (oi_mdr oi')"
      "im_parent (oi_mdr oi') = None" "im_bparent (oi_mdr oi') = None"
      "\<And>u. u < num_neigh oi \<Longrightarrow> \<not> dependent_of oi' u"
    | (largest) m oi' where "ospf6_calculate_mdr now ospf6 oi = Some oi'" "mdr_kept oi oi'" "is_rmax oi m"
      "nbr_triple oi m < self_triple ospf6 oi" "im_mdr_level (oi_mdr oi') = OSPF6_MDR"
      "\<not> im_nonflooding_mdr (oi_mdr oi')" "im_parent (oi_mdr oi') = None" "im_bparent (oi_mdr oi') = None"
      "\<And>u. u < num_neigh oi \<Longrightarrow> dependent_of oi' u \<longleftrightarrow>
         twoway oi u \<and> adj_of oi \<noteq> OSPF6_ADJ_FULLYCONNECTED \<and> mdr_may_depend oi u"
    | (main) m mx dr bdr oi' where "ospf6_calculate_mdr now ospf6 oi = Some oi'" "mdr_kept oi oi'"
      "is_rmax oi m" "\<not> nbr_triple oi m < self_triple ospf6 oi" "dr \<longleftrightarrow> mdr_needed ospf6 oi m" "\<not> (dr \<and> bdr)"
      "\<And>u. u < num_neigh oi \<Longrightarrow> dependent_of oi' u \<Longrightarrow> (dr \<or> bdr) \<and> dep_cond oi m u"
      "im_mdr_level (oi_mdr oi') = mdr_result_level dr bdr"
      "im_nonflooding_mdr (oi_mdr oi') \<longleftrightarrow> dr \<and> mdr_flood_covered ospf6 oi m"
      "im_parent (oi_mdr oi') = (if dr then None else Some (parent_id mx oi m))"
      "im_bparent (oi_mdr oi') = (if dr then Some (on_router_id (nbr oi m))
         else if \<not> bdr \<and> adj_of oi = OSPF6_ADJ_BICONNECTED then bparent_id mx oi m else None)"
      "max_priority mx = on_priority (nbr oi m)"
      "\<And>m2. max_on2 mx = Some m2 \<Longrightarrow> m2 \<noteq> m \<and> eligible oi m2"
proof -
  obtain cm oi1 where cm: "ospf6_mdr_create_cost_matrix oi = (cm, oi1)" by fastforce
  obtain oi2 mx where sel: "fold (mdr_select ospf6 cm) [0 ..< num_neigh oi1] (oi1, mdr_max_init) = (oi2, mx)"
    by fastforce
  note p = mdr_prepare [OF valid cm sel]
  note e = nbrs_sameD [OF p(2)]
  let ?self = "ospf6_sidcds_lexicographic (uint (oi_priority oi2)) (uint (max_priority mx))
    (im_mdr_level (oi_mdr oi2)) (max_mdr_level mx) (o_router_id ospf6) (maxid mx)"
  have self: "?self \<longleftrightarrow> max_triple mx < self_triple ospf6 oi"
    by (simp add: ospf6_sidcds_lexicographic_iff max_triple_def self_triple_def p(3,4))
  have run: "ospf6_calculate_mdr now ospf6 oi =
    (if maxid mx = 0 then Some (ospf6_run_update_mdr_level_hooks (mdr_no_neighbors oi2))
     else if ?self then Some (ospf6_run_update_mdr_level_hooks (mdr_self_largest ospf6 cm oi2))
     else case max_on mx of None \<Rightarrow> None | Some m \<Rightarrow> mdr_main ospf6 cm mx m oi2)"
    using go by (simp add: ospf6_calculate_mdr_def cm sel)
  have kept: "mdr_kept oi oi'" if "nbrs_core oi' = nbrs_core oi2"
    "im_MDRConstraint (oi_mdr oi') = im_MDRConstraint (oi_mdr oi2)"
    "\<And>u. u < num_neigh oi \<Longrightarrow> treenode_of oi' u = None" for oi'
    using nbrs_same_trans [OF p(2) nbrs_same_core [OF that(1)]] that(2,3) by (simp add: mdr_kept_def p(3))
  show ?thesis
  proof (cases "max_on mx")
    case None
    let ?r = "ospf6_run_update_mdr_level_hooks (mdr_no_neighbors oi2)"
    show ?thesis
    proof (rule no_nbr)
      show "ospf6_calculate_mdr now ospf6 oi = Some ?r" using p(7) [OF None] by (simp add: run)
      show "mdr_kept oi ?r" by (rule kept) (use p(6) in simp_all)
      show "\<nexists>j. eligible oi j" using p(7) [OF None] by simp
    qed (use p(6) in simp_all)
  next
    case (Some m)
    note m = p(8) [OF Some]
    show ?thesis
    proof (cases ?self)
      case True
      let ?r = "ospf6_run_update_mdr_level_hooks (mdr_self_largest ospf6 cm oi2)"
      note l = mdr_self_largest_eq [where ?ospf6.0 = ospf6 and cm = cm and oi = oi2]
      show ?thesis
      proof (rule largest)
        show "ospf6_calculate_mdr now ospf6 oi = Some ?r" using m True by (simp add: run)
        show "mdr_kept oi ?r" by (rule kept) (use p(6) l e(1) in simp_all)
        show "is_rmax oi m" "nbr_triple oi m < self_triple ospf6 oi" using m True self by simp_all
        show "dependent_of ?r u \<longleftrightarrow> twoway oi u \<and> adj_of oi \<noteq> OSPF6_ADJ_FULLYCONNECTED \<and> mdr_may_depend oi u"
          if "u < num_neigh oi" for u
          using l(4) [of u] that e p(3,6) by (simp add: mdr_may_depend_def)
      qed (simp_all add: l)
    next
      case False
      have n2: "num_neigh oi2 = num_neigh oi" by (rule e(1))
      have link: "mdr_link ospf6 cm oi2 = relay_link ospf6 oi" "flood_link cm oi2 = nbr_link oi"
        by (rule mdr_link_relay_link [OF cm p(1)], rule flood_link_nbr_link [OF cm p(1)])
      have need: "(\<exists>u. uncovered ospf6 cm m oi2 u) \<longleftrightarrow> mdr_needed ospf6 oi m"
        unfolding uncovered_def mdr_needed_def within_def link p(3) n2 using e(2) by auto
      have "hop_path (nbr_link oi) (flood_relay ospf6 oi2) m d u \<longleftrightarrow>
          hop_path (nbr_link oi) (flood_relay ospf6 oi) m d u" for d u
        by (rule iffI; erule hop_path_mono) (simp_all add: nbr_link_def flood_relay_def e)
      then have cov: "flood_covered ospf6 cm m oi2 \<longleftrightarrow> mdr_flood_covered ospf6 oi m"
        unfolding flood_covered_def mdr_flood_covered_def within_def link p(3) n2 using e(2) by simp
      have dep: "dep_cond oi2 m u \<longleftrightarrow> dep_cond oi m u" if "u < num_neigh oi" for u
        using e that by (simp add: dep_cond_def p(3))
      have m2: "m2 \<noteq> m \<and> eligible oi m2" if "max_on2 mx = Some m2" for m2
        using p(9) [OF that] Some by auto
      have pid: "parent_id mx oi2 m = parent_id mx oi m" "bparent_id mx oi2 m = bparent_id mx oi m"
        using m m2 parent_id_same [OF p(2)] bparent_id_same [OF p(2)] by (simp_all add: eligible_def)
      have mp: "max_priority mx = on_priority (nbr oi m)"
        using m by (simp add: max_triple_def nbr_triple_def word_uint_eq_iff)
      have n: "m < num_neigh oi2" "num_neigh oi2 \<le> INFTY" "im_MDRConstraint (oi_mdr oi2) < int INFTY"
        using m valid by (simp_all add: n2 p(3) mdr_valid_def)
      have init: "hops_of oi2 u = INFTY \<and> treenode_of oi2 u = None \<and> \<not> dependent_of oi2 u"
        if "u < num_neigh oi2" for u using p(6) that n2 by simp
      have m2n: "m2 < num_neigh oi2" if "max_on2 mx = Some m2" for m2
        using m2 [OF that] by (simp add: n2 eligible_def)
      show ?thesis
      proof (rule mdr_main_eq [OF n init Some m2n, of ospf6 cm])
        fix dr bdr oi' assume r: "mdr_main ospf6 cm mx m oi2 = Some oi'" "nbrs_core oi' = nbrs_core oi2"
        "dr \<longleftrightarrow> (\<exists>u. uncovered ospf6 cm m oi2 u)" "\<not> (dr \<and> bdr)"
        "\<And>u. u < num_neigh oi2 \<Longrightarrow> dependent_of oi' u \<Longrightarrow> (dr \<or> bdr) \<and> dep_cond oi2 m u"
        "\<And>u. u < num_neigh oi2 \<Longrightarrow> treenode_of oi' u = None"
        "im_MDRConstraint (oi_mdr oi') = im_MDRConstraint (oi_mdr oi2)"
        "im_mdr_level (oi_mdr oi') = mdr_result_level dr bdr"
        "im_nonflooding_mdr (oi_mdr oi') \<longleftrightarrow> dr \<and> flood_covered ospf6 cm m oi2"
        "im_parent (oi_mdr oi') = (if dr then None else Some (parent_id mx oi2 m))"
        "im_bparent (oi_mdr oi') = (if dr then Some (on_router_id (nbr oi2 m))
           else if \<not> bdr \<and> adj_of oi2 = OSPF6_ADJ_BICONNECTED then bparent_id mx oi2 m else None)"
        show ?thesis
        proof (rule main)
          show "ospf6_calculate_mdr now ospf6 oi = Some oi'" using r(1) m False by (simp add: run Some)
          show "mdr_kept oi oi'" by (rule kept [OF r(2) r(7)]) (use r(6) n2 in simp)
          show "is_rmax oi m" "\<not> nbr_triple oi m < self_triple ospf6 oi" using m False self by simp_all
          show "(dr \<or> bdr) \<and> dep_cond oi m u" if "u < num_neigh oi" "dependent_of oi' u" for u
            using r(5) [of u] that dep n2 by simp
          show "im_bparent (oi_mdr oi') = (if dr then Some (on_router_id (nbr oi m))
            else if \<not> bdr \<and> adj_of oi = OSPF6_ADJ_BICONNECTED then bparent_id mx oi m else None)"
            using r(11) m by (simp add: pid p(3) e)
        qed (use r(3,4,8-10) mp m2 in \<open>simp_all add: need cov pid\<close>)
      qed
    qed
  qed
qed

lemma is_rmax_unique:
  assumes "mdr_valid oi" "is_rmax oi m" "is_rmax oi m'"
  shows "m = m'"
proof -
  have "eligible oi m" "eligible oi m'" "nbr_triple oi m \<le> nbr_triple oi m'" "nbr_triple oi m' \<le> nbr_triple oi m"
    using assms(2,3) by (auto simp: is_rmax_def)
  then have "on_router_id (nbr oi m) = on_router_id (nbr oi m')" "m < num_neigh oi" "m' < num_neigh oi"
    using order_antisym [of "nbr_triple oi m" "nbr_triple oi m'"] by (auto simp: nbr_triple_def eligible_def)
  then show ?thesis using mdr_valid_inj [OF assms(1)] by simp
qed

lemma is_rmax_iff: "mdr_valid oi \<Longrightarrow> is_rmax oi m \<Longrightarrow> is_rmax oi m' \<longleftrightarrow> m' = m"
  using is_rmax_unique [of oi m m'] by blast

lemma rmax_eligible: "is_rmax oi m \<Longrightarrow> \<exists>j. eligible oi j"
  by (auto simp: is_rmax_def)

section \<open>The example satisfies the conditions\<close>

lemma example_valid: "mdr_valid example_interface" "\<not> mdr_wait example_time example_router example_interface"
  by (simp_all add: example_defs mdr_valid_def mdr_wait_def elapsed_sec_def timersub_sec_def timersub_def Let_def)

lemma example_rmax: "is_rmax example_interface 1"
proof -
  have n: "num_neigh example_interface = 2" by (simp add: example_defs Let_def)
  have "eligible example_interface 0" "eligible example_interface 1"
    by (simp_all add: eligible_def example_defs nbr_triple_def Let_def less_nbr_state_def)
  then have "eligible example_interface j \<longleftrightarrow> j = 0 \<or> j = 1" for j
    using n less_2_cases_iff [of j] by (auto simp: eligible_def)
  then show ?thesis by (auto simp: is_rmax_def nbr_triple_def example_defs Let_def)
qed

section \<open>Properties\<close>

text \<open>C14: The MDR calculation returns: with at most INFTY neighbors that have distinct non-zero router
  IDs and no tree node, and a constraint below INFTY, its loops end and no null pointer is followed.
  The precondition holds again afterwards, so that every tree node pointer that a run sets is
  cleared, and the neighbors are the same.\<close>

theorem ospf6_calculate_mdr_returns:
  assumes "mdr_valid oi"
  shows "\<exists>oi'. ospf6_calculate_mdr now ospf6 oi = Some oi' \<and> mdr_valid oi' \<and> nbrs_same oi oi'"
proof (cases "mdr_wait now ospf6 oi")
  case True
  then show ?thesis using assms by (simp add: ospf6_calculate_mdr_def nbrs_same_def)
next
  case False
  have "\<exists>oi'. ospf6_calculate_mdr now ospf6 oi = Some oi' \<and> mdr_kept oi oi'"
    by (cases rule: ospf6_calculate_mdr_cases [OF assms False]) auto
  then show ?thesis using mdr_valid_kept [OF assms] by (auto simp: mdr_kept_def)
qed

theorem ospf6_calculate_mdr_returns_witness:
  "mdr_valid example_interface \<and>
   (\<exists>oi'. ospf6_calculate_mdr example_time example_router example_interface = Some oi' \<and> mdr_valid oi' \<and>
      nbrs_same example_interface oi')"
  using ospf6_calculate_mdr_returns [OF example_valid(1)] example_valid(1) by blast

text \<open>C1: The level: without an eligible neighbor the router is an MDR Other; otherwise it is an MDR
  exactly if it is larger than the largest eligible neighbor Rmax in the order (priority, level,
  router ID), or if some 2-Way neighbor is not within MDRConstraint hops of Rmax over links that the
  neighbors report and through neighbors not smaller than the router.\<close>

theorem ospf6_calculate_mdr_level:
  assumes "mdr_valid oi" "\<not> mdr_wait now ospf6 oi"
  shows "\<exists>oi'. ospf6_calculate_mdr now ospf6 oi = Some oi' \<and>
    im_mdr_level (oi_mdr oi') \<in> {OSPF6_OTHER, OSPF6_BMDR, OSPF6_MDR} \<and>
    ((\<nexists>j. eligible oi j) \<longrightarrow> im_mdr_level (oi_mdr oi') = OSPF6_OTHER) \<and>
    (\<forall>m. is_rmax oi m \<longrightarrow>
       (im_mdr_level (oi_mdr oi') = OSPF6_MDR \<longleftrightarrow>
          nbr_triple oi m < self_triple ospf6 oi \<or> mdr_needed ospf6 oi m))"
  using assms
proof (cases rule: ospf6_calculate_mdr_cases)
  case (no_nbr oi')
  have "\<not> is_rmax oi m" for m using no_nbr(3) by (simp add: is_rmax_def)
  with no_nbr show ?thesis by (intro exI [of _ oi']) simp
next
  case (largest m oi')
  show ?thesis
    by (intro exI [of _ oi']) (simp add: largest(1,4,5) is_rmax_iff [OF assms(1) largest(3)] rmax_eligible [OF largest(3)])
next
  case (main m mx dr bdr oi')
  show ?thesis
    by (intro exI [of _ oi']) (use main(4,5,6) in \<open>auto simp: main(1,8) mdr_result_level_def
      is_rmax_iff [OF assms(1) main(3)] rmax_eligible [OF main(3)]\<close>)
qed

lemma example_needed: "mdr_needed example_router example_interface 1"
proof -
  have "\<not> relay_link example_router example_interface k u" for k u
    by (auto simp: relay_link_def nbrs_linked_def example_defs Let_def nth_Cons split: nat.splits)
  then have "\<not> hop_path (relay_link example_router example_interface) (\<lambda>_. True) 1 d 0" for d
    by (cases d) (auto simp: hop_path_0 elim: hop_path_SucE)
  then have "\<not> within example_interface (relay_link example_router example_interface) (\<lambda>_. True) 1 0"
    by (simp add: within_def)
  then show ?thesis
    unfolding mdr_needed_def
    by (intro exI [of _ 0]) (simp add: example_defs Let_def less_nbr_state_def)
qed

theorem ospf6_calculate_mdr_level_witness:
  "\<exists>oi'. ospf6_calculate_mdr example_time example_router example_interface = Some oi' \<and>
     im_mdr_level (oi_mdr oi') = OSPF6_MDR"
  using ospf6_calculate_mdr_level [OF example_valid] example_rmax example_needed by blast

text \<open>C11: Dependent neighbors: only an MDR or a backup MDR has any, none exist when adjacency reduction
  is off, and each is an MDR or backup MDR itself and a 2-Way neighbor.\<close>

theorem ospf6_calculate_mdr_dependents:
  assumes "mdr_valid oi" "\<not> mdr_wait now ospf6 oi"
  shows "\<exists>oi'. ospf6_calculate_mdr now ospf6 oi = Some oi' \<and>
    (\<forall>u < num_neigh oi. dependent_of oi' u \<longrightarrow>
       im_mdr_level (oi_mdr oi') \<ge> OSPF6_BMDR \<and> adj_of oi \<noteq> OSPF6_ADJ_FULLYCONNECTED \<and>
       nbr_level oi' u \<ge> OSPF6_BMDR \<and> twoway oi' u)"
  using assms
proof (cases rule: ospf6_calculate_mdr_cases)
  case (no_nbr oi')
  then show ?thesis by (intro exI [of _ oi']) simp
next
  case (largest m oi')
  have same: "nbrs_same oi oi'" using largest(2) by (simp add: mdr_kept_def)
  show ?thesis
  proof (intro exI [of _ oi'] conjI allI impI largest(1))
    fix u assume u: "u < num_neigh oi" "dependent_of oi' u"
    note d = largest(9) [OF u(1), THEN iffD1, OF u(2)]
    show "im_mdr_level (oi_mdr oi') \<ge> OSPF6_BMDR" using largest(5) by simp
    show "adj_of oi \<noteq> OSPF6_ADJ_FULLYCONNECTED" using d by simp
    show "nbr_level oi' u \<ge> OSPF6_BMDR" "twoway oi' u"
      using d nbrs_sameD(2,5) [OF same u(1)] by (auto simp: mdr_may_depend_def)
  qed
next
  case (main m mx dr bdr oi')
  have same: "nbrs_same oi oi'" using main(2) by (simp add: mdr_kept_def)
  have m: "twoway oi m" using main(3) by (simp add: is_rmax_def eligible_def)
  show ?thesis
  proof (intro exI [of _ oi'] conjI allI impI main(1))
    fix u assume u: "u < num_neigh oi" "dependent_of oi' u"
    note d = main(7) [OF u]
    show "im_mdr_level (oi_mdr oi') \<ge> OSPF6_BMDR" using main(8) d by (auto simp: mdr_result_level_def)
    show "adj_of oi \<noteq> OSPF6_ADJ_FULLYCONNECTED" using d by (simp add: dep_cond_def)
    show "nbr_level oi' u \<ge> OSPF6_BMDR" "twoway oi' u"
      using d m nbrs_sameD(2,5) [OF same u(1)] by (auto simp: dep_cond_def)
  qed
qed

theorem ospf6_calculate_mdr_dependents_witness:
  "\<exists>oi'. ospf6_calculate_mdr example_time example_router example_interface = Some oi' \<and>
    (\<forall>u < num_neigh example_interface. dependent_of oi' u \<longrightarrow>
       im_mdr_level (oi_mdr oi') \<ge> OSPF6_BMDR \<and> adj_of example_interface \<noteq> OSPF6_ADJ_FULLYCONNECTED \<and>
       nbr_level oi' u \<ge> OSPF6_BMDR \<and> twoway oi' u)"
  by (rule ospf6_calculate_mdr_dependents [OF example_valid])


lemma example_not_larger: "\<not> nbr_triple example_interface 1 < self_triple example_router example_interface"
  by (simp add: nbr_triple_def self_triple_def example_defs Let_def)


text \<open>C23: A router that is not larger than Rmax is a non-flooding MDR exactly if it is an MDR and all its
  2-Way neighbors are within MDRConstraint hops of Rmax through MDR neighbors with smaller router IDs; a
  router larger than Rmax always floods.\<close>

theorem ospf6_calculate_mdr_nonflooding:
  assumes "mdr_valid oi" "\<not> mdr_wait now ospf6 oi" "is_rmax oi m"
  shows "\<exists>oi'. ospf6_calculate_mdr now ospf6 oi = Some oi' \<and>
    (im_nonflooding_mdr (oi_mdr oi') \<longleftrightarrow>
       \<not> nbr_triple oi m < self_triple ospf6 oi \<and> im_mdr_level (oi_mdr oi') = OSPF6_MDR \<and>
       mdr_flood_covered ospf6 oi m)"
  using assms(1,2)
proof (cases rule: ospf6_calculate_mdr_cases)
  case (no_nbr oi')
  then show ?thesis using assms(3) by (simp add: is_rmax_def)
next
  case (largest m' oi')
  show ?thesis
    using is_rmax_unique [OF assms(1) largest(3) assms(3)] largest(4)
    by (intro exI [of _ oi']) (simp add: largest(1,6))
next
  case (main m' mx dr bdr oi')
  show ?thesis
    using is_rmax_unique [OF assms(1) main(3) assms(3)] main(4,6,9)
    by (intro exI [of _ oi']) (simp add: main(1,8) mdr_result_level_def)
qed

theorem ospf6_calculate_mdr_nonflooding_witness:
  "\<exists>oi'. ospf6_calculate_mdr example_time example_router example_interface = Some oi' \<and>
    (im_nonflooding_mdr (oi_mdr oi') \<longleftrightarrow>
       \<not> nbr_triple example_interface 1 < self_triple example_router example_interface \<and>
       im_mdr_level (oi_mdr oi') = OSPF6_MDR \<and> mdr_flood_covered example_router example_interface 1)"
  by (rule ospf6_calculate_mdr_nonflooding [OF example_valid example_rmax])

text \<open>The cost matrix of two neighbors that hear each other, where only one has sent a full report.\<close>

definition example_linked :: ospf6_interface where
  "example_linked = nbr_mdr_update 0 (\<lambda>m. m\<lparr>nm_Report2Hop := True, nm_rnl := [7]\<rparr>) example_interface"

theorem ospf6_mdr_create_cost_matrix_correct_witness:
  "case ospf6_mdr_create_cost_matrix example_linked of (m, oi') \<Rightarrow>
     m 0 1 = 1 \<and> m 1 0 = 1 \<and> m 0 0 = 0 \<and> num_neigh oi' = 2"
proof -
  obtain m oi' where e: "ospf6_mdr_create_cost_matrix example_linked = (m, oi')" by fastforce
  have n: "num_neigh example_linked = 2" by (simp add: example_linked_def example_defs Let_def)
  have "nbrs_linked example_linked 0 1"
    by (simp add: nbrs_linked_def example_linked_def example_defs Let_def less_nbr_state_def)
  then show ?thesis
    using ospf6_mdr_create_cost_matrix_correct [OF e, of 0 1] by (simp add: e n)
qed

end
