(* ===== verification/Adjacency.thy ===== *)
theory Adjacency
  imports Ospf6_Create Mdr_Cost
begin

text \<open>
  When two routers should be adjacent: \<open>need_adjacency\<close> of \<^verbatim>\<open>src/ospf6d/ospf6_neighbor.c\<close> and
  \<open>keep_adjacency\<close>, \<open>ospf6_mdr_neighbor_need_adjacency\<close> and the lists of router IDs of
  \<^verbatim>\<open>src/ospf6d/ospf6_mdr_neighbor.c\<close>. The lemmas compare the two conditions.
\<close>

section \<open>Lists of router IDs\<close>

definition ospf6_mdr_delete_all_neighbors :: "rid list \<Rightarrow> rid list" where
  "ospf6_mdr_delete_all_neighbors n_list = []"

definition ospf6_mdr_add_neighbor :: "rid list \<Rightarrow> rid \<Rightarrow> rid list" where
  "ospf6_mdr_add_neighbor n_list r = n_list @ [r]"

fun ospf6_mdr_lookup_neighbor :: "rid list \<Rightarrow> rid \<Rightarrow> bool" where
  "ospf6_mdr_lookup_neighbor [] r = False"
| "ospf6_mdr_lookup_neighbor (n # n_list) r = (if r = n then True else ospf6_mdr_lookup_neighbor n_list r)"

text \<open>All occurrences are removed; the first component says whether there was one.\<close>
fun ospf6_mdr_delete_neighbor :: "rid list \<Rightarrow> rid \<Rightarrow> bool \<times> rid list" where
  "ospf6_mdr_delete_neighbor [] r = (False, [])"
| "ospf6_mdr_delete_neighbor (n # n_list) r =
     (let (changed, rest) = ospf6_mdr_delete_neighbor n_list r
      in if r = n then (True, rest) else (changed, n # rest))"

lemma ospf6_mdr_lookup_neighbor_iff [simp]: "ospf6_mdr_lookup_neighbor n_list r \<longleftrightarrow> r \<in> set n_list"
  by (induction n_list) auto

lemma ospf6_mdr_delete_neighbor_eq:
  "ospf6_mdr_delete_neighbor n_list r = (r \<in> set n_list, filter (\<lambda>n. n \<noteq> r) n_list)"
  by (induction n_list) auto

section \<open>The conditions\<close>

definition keep_adjacency :: "ospf6_interface \<Rightarrow> ospf6_neighbor \<Rightarrow> bool" where
  "keep_adjacency oi on =
     (if im_AdjConnectivity (oi_mdr oi) = OSPF6_ADJ_FULLYCONNECTED then True
      else if oi_type oi = OSPF6_IFTYPE_MDR then
        if nm_Abit (on_mdr on) then True
        else if im_mdr_level (oi_mdr oi) = OSPF6_MDR \<or> im_mdr_level (oi_mdr oi) = OSPF6_BMDR \<or>
                nm_mdr_level (on_mdr on) = OSPF6_MDR \<or> nm_mdr_level (on_mdr on) = OSPF6_BMDR
        then True
        else False
      else True)"

definition ospf6_mdr_neighbor_need_adjacency :: "ospf6_interface \<Rightarrow> ospf6_neighbor \<Rightarrow> bool" where
  "ospf6_mdr_neighbor_need_adjacency oi on =
     (if im_AdjConnectivity (oi_mdr oi) = OSPF6_ADJ_FULLYCONNECTED then True
      else if nm_Abit (on_mdr on) then True
      else if im_mdr_level (oi_mdr oi) \<ge> OSPF6_BMDR \<and> nm_mdr_level (on_mdr on) \<ge> OSPF6_BMDR \<and>
              (nm_dependent (on_mdr on) \<or> nm_dependent_selector (on_mdr on)) then True
      else if im_mdr_level (oi_mdr oi) \<ge> OSPF6_BMDR \<and> nm_child (on_mdr on) then True
      else if nm_mdr_level (on_mdr on) \<ge> OSPF6_BMDR then
        let p_rid = (case im_parent (oi_mdr oi) of Some r \<Rightarrow> r | None \<Rightarrow> 0);
            bp_rid = (case im_bparent (oi_mdr oi) of Some r \<Rightarrow> r | None \<Rightarrow> 0)
        in if on_router_id on = p_rid then True
           else if on_router_id on = bp_rid then True
           else False
      else False)"

definition need_adjacency :: "ospf6_interface \<Rightarrow> ospf6_neighbor \<Rightarrow> bool" where
  "need_adjacency oi on =
     (if oi_type oi = OSPF6_IFTYPE_MDR then ospf6_mdr_neighbor_need_adjacency oi on
      else if oi_state oi = OSPF6_INTERFACE_POINTTOPOINT \<or> oi_state oi = OSPF6_INTERFACE_DR \<or>
              oi_state oi = OSPF6_INTERFACE_BDR then True
      else if oi_drouter oi = on_router_id on \<or> oi_bdrouter oi = on_router_id on then True
      else False)"

section \<open>Hysteresis\<close>

text \<open>An adjacency that is needed is also kept, so that \<open>ospf6_update_adjacencies\<close>, which forms
  the needed ones and then drops those not to be kept, never drops one it has just formed. It
  holds for levels of the three values that the code assigns.\<close>

theorem need_adjacency_keep:
  assumes "im_mdr_level (oi_mdr oi) \<le> OSPF6_MDR" "nm_mdr_level (on_mdr on) \<le> OSPF6_MDR"
    and "need_adjacency oi on"
  shows "keep_adjacency oi on"
  using assms
  by (auto simp: need_adjacency_def ospf6_mdr_neighbor_need_adjacency_def keep_adjacency_def Let_def
      split: if_splits)

text \<open>An interface whose adjacencies are reduced, with an MDR neighbor that is its parent.\<close>

definition example_adjacency :: "ospf6_interface \<times> ospf6_neighbor" where
  "example_adjacency =
     (let oi = the (ospf6_interface_create 1);
          oi = oi\<lparr>oi_type := OSPF6_IFTYPE_MDR, oi_mdr := (oi_mdr oi)\<lparr>im_parent := Some 7\<rparr>\<rparr>;
          on = neighbor_alloc \<lparr>tv_sec = 0, tv_usec = 0\<rparr> 7 oi
      in (oi, on_mdr_update (nm_mdr_level_update (\<lambda>_. OSPF6_MDR)) on))"

theorem need_adjacency_keep_witness:
  "case example_adjacency of (oi, on) \<Rightarrow> need_adjacency oi on \<and> keep_adjacency oi on"
proof -
  obtain oi on where e: "example_adjacency = (oi, on)" by fastforce
  have "im_mdr_level (oi_mdr oi) \<le> OSPF6_MDR" "nm_mdr_level (on_mdr on) \<le> OSPF6_MDR" "need_adjacency oi on"
    using e by (auto simp: example_adjacency_def ospf6_interface_create_def ospf6_mdr_interface_create_def
        mdr_interface_zero_def neighbor_alloc_def need_adjacency_def ospf6_mdr_neighbor_need_adjacency_def Let_def)
  from need_adjacency_keep [OF this] this(3) show ?thesis by (simp add: e)
qed

end
