(* ===== verification/Mdr_Lsa.thy ===== *)
theory Mdr_Lsa
  imports Adjacency
begin

text \<open>
  Which neighbors a router on an MDR interface advertises in its router-LSA: the functions on LSAs
  at the end of \<^verbatim>\<open>src/ospf6d/ospf6_mdr.c\<close>. The loops of the code visit each neighbor once and
  change only that neighbor, so they are maps over the neighbor list with the position as the
  index; the array \<^verbatim>\<open>new_adv\<close> is the list of the first results. The argument \<open>spf\<close> holds the
  router IDs that have a route in the area's SPF table. The checks that only log are left out.
\<close>

section \<open>Backbone and routable neighbors\<close>

definition ospf6_mdr_backbone :: "ospf6_interface \<Rightarrow> ospf6_neighbor \<Rightarrow> bool" where
  "ospf6_mdr_backbone oi on =
     (if im_AdjConnectivity (oi_mdr oi) = OSPF6_ADJ_FULLYCONNECTED
      then (if \<not> nm_Abit (on_mdr on) then True else False)
      else need_adjacency oi on)"

definition routable_step :: "rid list \<Rightarrow> ospf6_neighbor \<Rightarrow> bool \<times> ospf6_neighbor" where
  "routable_step spf on =
     (let route = on_router_id on \<in> set spf in
      if \<not> nm_routable (on_mdr on) then
        if route \<and> on_state on \<ge> OSPF6_NEIGHBOR_TWOWAY \<and> nm_reverse_2way (on_mdr on)
        then (True, on_mdr_update (nm_routable_update (\<lambda>_. True)) on)
        else (False, on)
      else if nm_routable (on_mdr on) \<and> on_state on < OSPF6_NEIGHBOR_TWOWAY
      then (True, on_mdr_update (nm_routable_update (\<lambda>_. False)) on)
      else (False, on))"

definition ospf6_mdr_update_routable_neighbors :: "rid list \<Rightarrow> ospf6_interface \<Rightarrow> bool \<times> ospf6_interface" where
  "ospf6_mdr_update_routable_neighbors spf oi =
     (if im_AdjConnectivity (oi_mdr oi) = OSPF6_ADJ_FULLYCONNECTED then (False, oi)
      else let r = map (routable_step spf) (oi_neighbor_list oi)
           in (list_ex fst r, oi\<lparr>oi_neighbor_list := map snd r\<rparr>))"

section \<open>Full and minimal LSAs\<close>

text \<open>Whether the neighbor requires a new LSA, given whether it is to be advertised.\<close>
definition lsa_orig :: "ospf6_neighbor \<Rightarrow> bool \<Rightarrow> bool" where
  "lsa_orig onj new_adv =
     (if \<not> nm_adv (on_mdr onj) \<and> new_adv then True
      else if nm_adv (on_mdr onj) \<and> on_state onj < OSPF6_NEIGHBOR_TWOWAY then True
      else False)"

text \<open>The end of the three functions: with a new LSA, the advertised neighbors are those of the
  array. The steps yield the entry of the array, whether the LSA must be originated, and the
  neighbor.\<close>
definition lsa_finish :: "(bool \<times> bool \<times> ospf6_neighbor) list \<Rightarrow> ospf6_interface \<Rightarrow> bool \<times> ospf6_interface" where
  "lsa_finish r oi =
     (let new_adv = map fst r;
          orig = list_ex (\<lambda>(a, orig, on). orig) r;
          nbrs = map (\<lambda>(a, orig, on). on) r;
          nbrs = (if orig
                  then map (\<lambda>onj. on_mdr_update (nm_adv_update (\<lambda>_.
                              new_adv ! nm_cost_matrix_index (on_mdr onj))) onj) nbrs
                  else nbrs)
      in (orig, oi\<lparr>oi_neighbor_list := nbrs\<rparr>))"

definition lsa_full_step :: "ospf6_interface \<Rightarrow> nat \<Rightarrow> ospf6_neighbor \<Rightarrow> bool \<times> bool \<times> ospf6_neighbor" where
  "lsa_full_step oi index onj =
     (let onj = on_mdr_update (nm_cost_matrix_index_update (\<lambda>_. index)) onj;
          sel = (if on_state onj \<ge> OSPF6_NEIGHBOR_TWOWAY \<and> \<not> ospf6_mdr_backbone oi onj then True else False);
          onj = on_mdr_update (nm_sel_adv_update (\<lambda>_. sel)) onj;
          new_adv = (if nm_routable (on_mdr onj) \<or> on_state onj = OSPF6_NEIGHBOR_FULL then True else False)
      in (new_adv, lsa_orig onj new_adv, onj))"

definition ospf6_mdr_update_lsa_full :: "ospf6_interface \<Rightarrow> bool \<times> ospf6_interface" where
  "ospf6_mdr_update_lsa_full oi =
     lsa_finish (map2 (lsa_full_step oi) [0 ..< num_neigh oi] (oi_neighbor_list oi)) oi"

definition lsa_minimal_step ::
    "ospf6 \<Rightarrow> ospf6_interface \<Rightarrow> nat \<Rightarrow> ospf6_neighbor \<Rightarrow> bool \<times> bool \<times> ospf6_neighbor" where
  "lsa_minimal_step ospf6 oi index onj =
     (let onj = on_mdr_update (nm_cost_matrix_index_update (\<lambda>_. index)) onj;
          selected_by_j = ospf6_mdr_lookup_neighbor (nm_sanl (on_mdr onj)) (o_router_id ospf6);
          onj = on_mdr_update (nm_sel_adv_update (\<lambda>_. False)) onj;
          new_adv = (if on_state onj = OSPF6_NEIGHBOR_FULL \<or>
                        nm_routable (on_mdr onj) \<and>
                        (nm_sel_adv (on_mdr onj) \<or> selected_by_j \<or> ospf6_mdr_backbone oi onj)
                     then True else False)
      in (new_adv, lsa_orig onj new_adv, onj))"

definition ospf6_mdr_update_lsa_minimal :: "ospf6 \<Rightarrow> ospf6_interface \<Rightarrow> bool \<times> ospf6_interface" where
  "ospf6_mdr_update_lsa_minimal ospf6 oi =
     lsa_finish (map2 (lsa_minimal_step ospf6 oi) [0 ..< num_neigh oi] (oi_neighbor_list oi)) oi"

section \<open>Partial LSAs for minimum cost routing\<close>

text \<open>Which pairs of neighbors are adjacent, and which neighbor selects which.\<close>

definition adj_condition :: "ospf6_interface \<Rightarrow> nat \<Rightarrow> nat \<Rightarrow> bool" where
  "adj_condition oi j k \<longleftrightarrow>
     nbr_level oi j \<ge> OSPF6_BMDR \<and> nbr_level oi k \<ge> OSPF6_BMDR \<and>
       ospf6_mdr_lookup_neighbor (nm_dnl (on_mdr (nbr oi j))) (on_router_id (nbr oi k)) \<or>
     nbr_level oi k \<ge> OSPF6_BMDR \<and>
       (on_drouter (nbr oi j) = on_router_id (nbr oi k) \<or> on_bdrouter (nbr oi j) = on_router_id (nbr oi k))"

definition adj_san_step :: "ospf6_interface \<Rightarrow> matrix \<Rightarrow> nat \<Rightarrow> nat \<Rightarrow> matrix \<times> matrix \<Rightarrow> matrix \<times> matrix" where
  "adj_san_step oi cm j k = (\<lambda>(adj, san).
     let ji = mx_index oi j; ki = mx_index oi k in
     if cm ji ki = 0 then (adj, san)
     else
       let san = (if ospf6_mdr_lookup_neighbor (nm_sanl (on_mdr (nbr oi j))) (on_router_id (nbr oi k))
                  then mat_set ji ki 1 san else san) in
       if adj ji ki \<noteq> 0 then (adj, san)
       else if adj_condition oi j k then (mat_set ki ji 1 (mat_set ji ki 1 adj), san)
       else (adj, san))"

definition ospf6_mdr_create_adj_san_matrices :: "ospf6_interface \<Rightarrow> matrix \<Rightarrow> matrix \<times> matrix" where
  "ospf6_mdr_create_adj_san_matrices oi cm =
     fold (\<lambda>j. fold (adj_san_step oi cm j) [0 ..< num_neigh oi]) [0 ..< num_neigh oi] (\<lambda>_ _. 0, \<lambda>_ _. 0)"

text \<open>The inner loop: is there a neighbor of both that is a better relay than this router?\<close>
fun better_relay ::
    "ospf6 \<Rightarrow> ospf6_interface \<Rightarrow> matrix \<Rightarrow> matrix \<Rightarrow> matrix \<Rightarrow> bool \<Rightarrow> nat \<Rightarrow> nat \<Rightarrow> nat list \<Rightarrow> bool" where
  "better_relay ospf6 oi cm adj san selected_by_j j k [] = False"
| "better_relay ospf6 oi cm adj san selected_by_j j k (u # us) =
     (let ji = mx_index oi j; ki = mx_index oi k; ui = mx_index oi u;
          continue = better_relay ospf6 oi cm adj san selected_by_j j k us in
      if u = k then continue
      else if u = j then continue
      else if on_state (nbr oi u) < OSPF6_NEIGHBOR_TWOWAY then continue
      else if cm ui ki \<noteq> 1 then continue
      else if cm ui ji \<noteq> 1 then continue
      else if adj ui ji \<noteq> 0 \<or>
              ospf6_sidcds_lexicographic (san ji ui) (of_bool selected_by_j)
                (san ui ji) (of_bool (nm_sel_adv (on_mdr (nbr oi j))))
                (on_router_id (nbr oi u)) (o_router_id ospf6)
      then True
      else continue)"

text \<open>The loop over the neighbors that \<open>j\<close> is to be reached from.\<close>
fun new_sel_adv ::
    "ospf6 \<Rightarrow> ospf6_interface \<Rightarrow> matrix \<Rightarrow> matrix \<Rightarrow> matrix \<Rightarrow> bool \<Rightarrow> nat \<Rightarrow> nat list \<Rightarrow> bool" where
  "new_sel_adv ospf6 oi cm adj san selected_by_j j [] = False"
| "new_sel_adv ospf6 oi cm adj san selected_by_j j (k # ks) =
     (let continue = new_sel_adv ospf6 oi cm adj san selected_by_j j ks in
      if on_state (nbr oi j) < OSPF6_NEIGHBOR_TWOWAY \<or> ospf6_mdr_backbone oi (nbr oi j) then False
      else if k = j then continue
      else if on_state (nbr oi k) < OSPF6_NEIGHBOR_TWOWAY then continue
      else if cm (mx_index oi j) (mx_index oi k) = 1 then continue
      else if \<not> better_relay ospf6 oi cm adj san selected_by_j j k [0 ..< num_neigh oi] then True
      else continue)"

definition lsa_mincost_step ::
    "ospf6 \<Rightarrow> ospf6_interface \<Rightarrow> matrix \<Rightarrow> matrix \<Rightarrow> matrix \<Rightarrow> nat \<Rightarrow> bool \<times> bool \<times> ospf6_neighbor" where
  "lsa_mincost_step ospf6 oi cm adj san j =
     (let onj = nbr oi j;
          selected_by_j = ospf6_mdr_lookup_neighbor (nm_sanl (on_mdr onj)) (o_router_id ospf6);
          sel = new_sel_adv ospf6 oi cm adj san selected_by_j j [0 ..< num_neigh oi];
          onj = on_mdr_update (nm_sel_adv_update (\<lambda>_. sel)) onj;
          new_adv = ((on_state onj = OSPF6_NEIGHBOR_FULL \<or> nm_routable (on_mdr onj)) \<and>
                     (nm_sel_adv (on_mdr onj) \<or> selected_by_j \<or> ospf6_mdr_backbone oi onj));
          new_adv = (if im_AdjConnectivity (oi_mdr oi) \<noteq> OSPF6_ADJ_FULLYCONNECTED \<and>
                        on_state onj = OSPF6_NEIGHBOR_FULL then True else new_adv)
      in (new_adv, lsa_orig onj new_adv, onj))"

definition ospf6_mdr_update_lsa_mincost :: "ospf6 \<Rightarrow> ospf6_interface \<Rightarrow> bool \<times> ospf6_interface" where
  "ospf6_mdr_update_lsa_mincost ospf6 oi =
     (let (cm, oi) = ospf6_mdr_create_cost_matrix oi;
          (adj, san) = ospf6_mdr_create_adj_san_matrices oi cm
      in lsa_finish (map (lsa_mincost_step ospf6 oi cm adj san) [0 ..< num_neigh oi]) oi)"

section \<open>The update\<close>

definition ospf6_mdr_update_lsa :: "ospf6 \<Rightarrow> rid list \<Rightarrow> ospf6_interface \<Rightarrow> bool \<times> ospf6_interface" where
  "ospf6_mdr_update_lsa ospf6 spf oi =
     (let (change, oi) = ospf6_mdr_update_routable_neighbors spf oi;
          (originate, oi) =
            (case im_LSAFullness (oi_mdr oi) of
               OSPF6_LSA_FULLNESS_MINCOST \<Rightarrow> ospf6_mdr_update_lsa_mincost ospf6 oi
             | OSPF6_LSA_FULLNESS_MINCOST2PATHS \<Rightarrow> ospf6_mdr_update_lsa_mincost ospf6 oi
             | OSPF6_LSA_FULLNESS_MIN \<Rightarrow> ospf6_mdr_update_lsa_minimal ospf6 oi
             | OSPF6_LSA_FULLNESS_FULL \<Rightarrow> ospf6_mdr_update_lsa_full oi
             | OSPF6_LSA_FULLNESS_MDRFULL \<Rightarrow>
                 if im_mdr_level (oi_mdr oi) = OSPF6_MDR then ospf6_mdr_update_lsa_full oi
                 else ospf6_mdr_update_lsa_minimal ospf6 oi);
          oi = (if originate then emit RouterLsaSchedule oi else oi);
          oi = (if change then emit SpfSchedule oi else oi)
      in (originate, oi))"

section \<open>The matrices\<close>

text \<open>The state of the two loops after the pairs of \<open>P\<close>.\<close>

definition adj_san_inv ::
    "ospf6_interface \<Rightarrow> matrix \<Rightarrow> (nat \<times> nat) set \<Rightarrow> matrix \<times> matrix \<Rightarrow> bool" where
  "adj_san_inv oi cm P = (\<lambda>(adj, san).
     (\<forall>j < num_neigh oi. \<forall>k < num_neigh oi.
        adj j k = of_bool (cm j k \<noteq> 0 \<and>
          ((j, k) \<in> P \<and> adj_condition oi j k \<or> (k, j) \<in> P \<and> adj_condition oi k j)) \<and>
        san j k = of_bool ((j, k) \<in> P \<and> cm j k \<noteq> 0 \<and>
          on_router_id (nbr oi k) \<in> set (nm_sanl (on_mdr (nbr oi j))))))"

lemma adj_matrix_step:
  fixes adj cm :: matrix
  assumes adj: "\<And>x y. x < n \<Longrightarrow> y < n \<Longrightarrow>
      adj x y = of_bool (cm x y \<noteq> 0 \<and> ((x, y) \<in> P \<and> c x y \<or> (y, x) \<in> P \<and> c y x))"
    and sym: "\<And>x y. x < n \<Longrightarrow> y < n \<Longrightarrow> cm x y = cm y x"
    and lt: "j < n" "k < n" "x < n" "y < n"
    and adj': "adj' = (if cm j k \<noteq> 0 \<and> adj j k = 0 \<and> c j k then mat_set k j 1 (mat_set j k 1 adj) else adj)"
  shows "adj' x y = of_bool (cm x y \<noteq> 0 \<and>
      ((x, y) \<in> insert (j, k) P \<and> c x y \<or> (y, x) \<in> insert (j, k) P \<and> c y x))"
proof -
  have jk: "adj j k = of_bool (cm j k \<noteq> 0 \<and> ((j, k) \<in> P \<and> c j k \<or> (k, j) \<in> P \<and> c k j))"
    and xy: "adj x y = of_bool (cm x y \<noteq> 0 \<and> ((x, y) \<in> P \<and> c x y \<or> (y, x) \<in> P \<and> c y x))"
    and s: "cm k j = cm j k" by (rule adj adj sym; fact lt)+
  have kj: "adj k j = adj j k"
    using adj [OF lt(2,1)] jk s by (simp only: disj_commute)
  define v :: int where "v = of_bool (cm j k \<noteq> 0 \<and> (c j k \<or> (k, j) \<in> insert (j, k) P \<and> c k j))"
  have v: "adj' j k = v \<and> adj' k j = v"
  proof (cases "cm j k \<noteq> 0 \<and> adj j k = 0 \<and> c j k")
    case True
    then show ?thesis unfolding adj' if_P [OF True] by (simp add: v_def)
  next
    case False
    have "adj j k = v"
    proof (cases "cm j k \<noteq> 0 \<and> c j k")
      case True
      then have "adj j k \<noteq> 0" using False by simp
      then have "adj j k = 1" using jk by (auto simp: of_bool_def split: if_splits)
      then show ?thesis using True by (simp add: v_def)
    next
      case False
      then show ?thesis unfolding jk v_def by auto
    qed
    then show ?thesis unfolding adj' if_not_P [OF False] using kj by simp
  qed
  show ?thesis
  proof (cases "x = j \<and> y = k \<or> x = k \<and> y = j")
    case True
    then show ?thesis
    proof
      assume "x = j \<and> y = k"
      then show ?thesis using v by (simp add: v_def)
    next
      assume "x = k \<and> y = j"
      then show ?thesis using v s by (simp add: v_def disj_commute)
    qed
  next
    case False
    then have ne: "\<not> (x = j \<and> y = k)" "\<not> (x = k \<and> y = j)" by simp_all
    have "mat_set k j 1 (mat_set j k 1 adj) x y = adj x y" unfolding mat_set_apply using ne by (simp only: if_False)
    then have "adj' x y = adj x y" unfolding adj' by (simp only: if_distribR if_cancel)
    moreover have "(x, y) \<in> insert (j, k) P \<longleftrightarrow> (x, y) \<in> P" "(y, x) \<in> insert (j, k) P \<longleftrightarrow> (y, x) \<in> P"
      using ne by auto
    ultimately show ?thesis by (simp only: xy)
  qed
qed

lemma adj_san_step_inv:
  assumes inv: "adj_san_inv oi cm P s" and jk: "j < num_neigh oi" "k < num_neigh oi"
    and idx: "\<And>x. x < num_neigh oi \<Longrightarrow> mx_index oi x = x"
    and sym: "\<And>x y. x < num_neigh oi \<Longrightarrow> y < num_neigh oi \<Longrightarrow> cm x y = cm y x"
  shows "adj_san_inv oi cm (insert (j, k) P) (adj_san_step oi cm j k s)"
proof -
  obtain adj san where s: "s = (adj, san)" by (cases s)
  have adj: "\<And>x y. x < num_neigh oi \<Longrightarrow> y < num_neigh oi \<Longrightarrow> adj x y = of_bool (cm x y \<noteq> 0 \<and>
      ((x, y) \<in> P \<and> adj_condition oi x y \<or> (y, x) \<in> P \<and> adj_condition oi y x))"
    and san: "\<And>x y. x < num_neigh oi \<Longrightarrow> y < num_neigh oi \<Longrightarrow> san x y = of_bool ((x, y) \<in> P \<and> cm x y \<noteq> 0 \<and>
      on_router_id (nbr oi y) \<in> set (nm_sanl (on_mdr (nbr oi x))))"
    using inv by (simp_all add: adj_san_inv_def s)
  obtain adj' san' where s': "adj_san_step oi cm j k s = (adj', san')" by fastforce
  have step: "adj' = (if cm j k \<noteq> 0 \<and> adj j k = 0 \<and> adj_condition oi j k
        then mat_set k j 1 (mat_set j k 1 adj) else adj)"
    "san' = (if cm j k \<noteq> 0 \<and> on_router_id (nbr oi k) \<in> set (nm_sanl (on_mdr (nbr oi j)))
        then mat_set j k 1 san else san)"
    using s' idx [OF jk(1)] idx [OF jk(2)] by (auto simp: adj_san_step_def s Let_def split: if_splits)
  show ?thesis
    unfolding adj_san_inv_def s' prod.case
  proof (intro allI impI conjI)
    fix x y assume x: "x < num_neigh oi" and y: "y < num_neigh oi"
    show "san' x y = of_bool ((x, y) \<in> insert (j, k) P \<and> cm x y \<noteq> 0 \<and>
        on_router_id (nbr oi y) \<in> set (nm_sanl (on_mdr (nbr oi x))))"
      using san [OF x y] by (cases "x = j"; cases "y = k") (simp_all add: step(2))
    show "adj' x y = of_bool (cm x y \<noteq> 0 \<and>
        ((x, y) \<in> insert (j, k) P \<and> adj_condition oi x y \<or> (y, x) \<in> insert (j, k) P \<and> adj_condition oi y x))"
      by (rule adj_matrix_step [OF adj sym jk x y step(1)])
  qed
qed

lemma fold_adj_san_inv:
  assumes inv: "adj_san_inv oi cm P s" and ks: "j < num_neigh oi" "set ks \<subseteq> {..< num_neigh oi}"
    and idx: "\<And>x. x < num_neigh oi \<Longrightarrow> mx_index oi x = x"
    and sym: "\<And>x y. x < num_neigh oi \<Longrightarrow> y < num_neigh oi \<Longrightarrow> cm x y = cm y x"
  shows "adj_san_inv oi cm (P \<union> {j} \<times> set ks) (fold (adj_san_step oi cm j) ks s)"
  using inv ks
proof (induction ks arbitrary: P s)
  case (Cons k ks)
  have "adj_san_inv oi cm (insert (j, k) P) (adj_san_step oi cm j k s)"
    by (rule adj_san_step_inv [OF Cons.prems(1)]) (use Cons.prems idx sym in auto)
  from Cons.IH [OF this] Cons.prems show ?case by (simp add: insert_commute Un_commute)
qed simp

lemma fold_fold_adj_san_inv:
  assumes inv: "adj_san_inv oi cm P s" and js: "set js \<subseteq> {..< num_neigh oi}" "set ks \<subseteq> {..< num_neigh oi}"
    and idx: "\<And>x. x < num_neigh oi \<Longrightarrow> mx_index oi x = x"
    and sym: "\<And>x y. x < num_neigh oi \<Longrightarrow> y < num_neigh oi \<Longrightarrow> cm x y = cm y x"
  shows "adj_san_inv oi cm (P \<union> set js \<times> set ks) (fold (\<lambda>j. fold (adj_san_step oi cm j) ks) js s)"
  using inv js
proof (induction js arbitrary: P s)
  case (Cons j js)
  have "adj_san_inv oi cm (P \<union> {j} \<times> set ks) (fold (adj_san_step oi cm j) ks s)"
    by (rule fold_adj_san_inv [OF Cons.prems(1)]) (use Cons.prems idx sym in auto)
  moreover have "P \<union> {j} \<times> set ks \<union> set js \<times> set ks = P \<union> set (j # js) \<times> set ks" by auto
  ultimately show ?case using Cons.IH [of "P \<union> {j} \<times> set ks"] Cons.prems by simp
qed simp

lemma adj_san_matrices:
  assumes "ospf6_mdr_create_adj_san_matrices oi cm = (adj, san)"
    and idx: "\<And>x. x < num_neigh oi \<Longrightarrow> mx_index oi x = x"
    and sym: "\<And>x y. x < num_neigh oi \<Longrightarrow> y < num_neigh oi \<Longrightarrow> cm x y = cm y x"
    and jk: "j < num_neigh oi" "k < num_neigh oi"
  shows "adj j k = of_bool (cm j k \<noteq> 0 \<and> (adj_condition oi j k \<or> adj_condition oi k j))"
    and "san j k = of_bool (cm j k \<noteq> 0 \<and> on_router_id (nbr oi k) \<in> set (nm_sanl (on_mdr (nbr oi j))))"
proof -
  have 0: "adj_san_inv oi cm {} (\<lambda>_ _. 0, \<lambda>_ _. 0)" by (simp add: adj_san_inv_def)
  have "adj_san_inv oi cm ({} \<union> set [0 ..< num_neigh oi] \<times> set [0 ..< num_neigh oi]) (adj, san)"
    unfolding assms(1) [symmetric] ospf6_mdr_create_adj_san_matrices_def
    by (rule fold_fold_adj_san_inv [OF 0 _ _ idx sym]) auto
  then show "adj j k = of_bool (cm j k \<noteq> 0 \<and> (adj_condition oi j k \<or> adj_condition oi k j))"
    "san j k = of_bool (cm j k \<noteq> 0 \<and> on_router_id (nbr oi k) \<in> set (nm_sanl (on_mdr (nbr oi j))))"
    using jk by (simp_all add: adj_san_inv_def)
qed

section \<open>The selection for minimum cost routing\<close>

lemma better_relay_iff:
  "better_relay ospf6 oi cm adj san sb j k us \<longleftrightarrow>
     (\<exists>u \<in> set us. u \<noteq> k \<and> u \<noteq> j \<and> twoway oi u \<and> cm (mx_index oi u) (mx_index oi k) = 1 \<and>
        cm (mx_index oi u) (mx_index oi j) = 1 \<and>
        (adj (mx_index oi u) (mx_index oi j) \<noteq> 0 \<or>
         (of_bool sb, of_bool (nm_sel_adv (on_mdr (nbr oi j))), o_router_id ospf6) <
           (san (mx_index oi j) (mx_index oi u), san (mx_index oi u) (mx_index oi j), on_router_id (nbr oi u))))"
proof (induction us)
  case (Cons u us)
  show ?case
    unfolding better_relay.simps(2) Let_def ospf6_sidcds_lexicographic_iff Cons.IH list.set bex_simps insert_iff
      not_less [symmetric]
    by argo
qed simp

lemma new_sel_adv_iff:
  "new_sel_adv ospf6 oi cm adj san sb j ks \<longleftrightarrow>
     twoway oi j \<and> \<not> ospf6_mdr_backbone oi (nbr oi j) \<and>
     (\<exists>k \<in> set ks. k \<noteq> j \<and> twoway oi k \<and> cm (mx_index oi j) (mx_index oi k) \<noteq> 1 \<and>
        \<not> better_relay ospf6 oi cm adj san sb j k [0 ..< num_neigh oi])"
proof (induction ks)
  case (Cons k ks)
  show ?case
    unfolding new_sel_adv.simps(2) Let_def Cons.IH list.set bex_simps not_less [symmetric] by argo
qed simp

text \<open>The specification: \<open>u\<close> connects \<open>j\<close> and \<open>k\<close> at least as well as this router.\<close>

definition relays_for :: "ospf6 \<Rightarrow> ospf6_interface \<Rightarrow> nat \<Rightarrow> nat \<Rightarrow> nat \<Rightarrow> bool" where
  "relays_for ospf6 oi j k u \<longleftrightarrow>
     u < num_neigh oi \<and> nbrs_linked oi u k \<and> nbrs_linked oi u j \<and>
     (adj_condition oi u j \<or> adj_condition oi j u \<or>
      (of_bool (o_router_id ospf6 \<in> set (nm_sanl (on_mdr (nbr oi j)))) :: int,
       of_bool (nm_sel_adv (on_mdr (nbr oi j))) :: int, o_router_id ospf6) <
      (of_bool (on_router_id (nbr oi u) \<in> set (nm_sanl (on_mdr (nbr oi j)))),
       of_bool (on_router_id (nbr oi j) \<in> set (nm_sanl (on_mdr (nbr oi u)))), on_router_id (nbr oi u)))"

definition needs_advertising :: "ospf6 \<Rightarrow> ospf6_interface \<Rightarrow> nat \<Rightarrow> bool" where
  "needs_advertising ospf6 oi j \<longleftrightarrow>
     twoway oi j \<and> \<not> ospf6_mdr_backbone oi (nbr oi j) \<and>
     (\<exists>k < num_neigh oi. k \<noteq> j \<and> twoway oi k \<and> \<not> nbrs_linked oi j k \<and>
        (\<nexists>u. relays_for ospf6 oi j k u))"

section \<open>What the end of the three functions does\<close>

text \<open>Results of the steps for the neighbors of \<open>oi\<close>, in order.\<close>

definition lsa_steps_ok :: "ospf6_interface \<Rightarrow> (bool \<times> bool \<times> ospf6_neighbor) list \<Rightarrow> bool" where
  "lsa_steps_ok oi r \<longleftrightarrow> length r = num_neigh oi \<and>
     (\<forall>i < num_neigh oi. \<exists>a sel. r ! i = (a, lsa_orig (nbr oi i) a,
        on_mdr_update (\<lambda>m. m\<lparr>nm_cost_matrix_index := i, nm_sel_adv := sel\<rparr>) (nbr oi i)))"

lemma lsa_finish_eq:
  assumes ok: "lsa_steps_ok oi r" and run: "lsa_finish r oi = (orig, oi')"
  shows "num_neigh oi' = num_neigh oi" "oi_mdr oi' = oi_mdr oi" "oi_effects oi' = oi_effects oi"
    and "orig \<longleftrightarrow> (\<exists>i < num_neigh oi. lsa_orig (nbr oi i) (fst (r ! i)))"
    and "i < num_neigh oi \<Longrightarrow> nbr oi' i = on_mdr_update (\<lambda>m. m\<lparr>nm_cost_matrix_index := i,
        nm_sel_adv := nm_sel_adv (on_mdr (snd (snd (r ! i)))),
        nm_adv := (if orig then fst (r ! i) else nm_adv (on_mdr (nbr oi i)))\<rparr>) (nbr oi i)"
proof -
  have len: "length r = num_neigh oi" using ok by (simp add: lsa_steps_ok_def)
  have nth: "\<exists>a sel. r ! i = (a, lsa_orig (nbr oi i) a,
      on_mdr_update (\<lambda>m. m\<lparr>nm_cost_matrix_index := i, nm_sel_adv := sel\<rparr>) (nbr oi i))" if "i < num_neigh oi" for i
    using ok that by (simp add: lsa_steps_ok_def)
  define nbrs where "nbrs = map (\<lambda>(a, orig, on). on) r"
  have orig: "orig = list_ex (\<lambda>(a, orig, on). orig) r"
    and oi': "oi' = oi\<lparr>oi_neighbor_list := (if orig then map (\<lambda>onj. on_mdr_update (nm_adv_update (\<lambda>_.
        map fst r ! nm_cost_matrix_index (on_mdr onj))) onj) nbrs else nbrs)\<rparr>"
    using run by (auto simp: lsa_finish_def Let_def nbrs_def)
  show "num_neigh oi' = num_neigh oi" "oi_mdr oi' = oi_mdr oi" "oi_effects oi' = oi_effects oi"
    by (simp_all add: oi' nbrs_def len)
  have step: "(case r ! i of (a, orig, on) \<Rightarrow> orig) \<longleftrightarrow> lsa_orig (nbr oi i) (fst (r ! i))"
    if i: "i < num_neigh oi" for i
    using nth [OF i] by (elim exE) simp
  show "orig \<longleftrightarrow> (\<exists>i < num_neigh oi. lsa_orig (nbr oi i) (fst (r ! i)))"
    unfolding orig list_ex_length len by (simp add: step cong: conj_cong)
  assume i: "i < num_neigh oi"
  from nth [OF i] obtain a sel where ri: "r ! i = (a, lsa_orig (nbr oi i) a,
      on_mdr_update (\<lambda>m. m\<lparr>nm_cost_matrix_index := i, nm_sel_adv := sel\<rparr>) (nbr oi i))" by (elim exE)
  then have "nbrs ! i = on_mdr_update (\<lambda>m. m\<lparr>nm_cost_matrix_index := i, nm_sel_adv := sel\<rparr>) (nbr oi i)"
    using i by (simp add: nbrs_def len)
  then show "nbr oi' i = on_mdr_update (\<lambda>m. m\<lparr>nm_cost_matrix_index := i,
        nm_sel_adv := nm_sel_adv (on_mdr (snd (snd (r ! i)))),
        nm_adv := (if orig then fst (r ! i) else nm_adv (on_mdr (nbr oi i)))\<rparr>) (nbr oi i)"
    using i ri by (simp add: oi' len nbrs_def comp_def)
qed

lemma lsa_steps_okI:
  assumes "\<And>i. i < num_neigh oi \<Longrightarrow> \<exists>a sel. step i (nbr oi i) = (a, lsa_orig (nbr oi i) a,
        on_mdr_update (\<lambda>m. m\<lparr>nm_cost_matrix_index := i, nm_sel_adv := sel\<rparr>) (nbr oi i))"
  shows "lsa_steps_ok oi (map2 step [0 ..< num_neigh oi] (oi_neighbor_list oi))"
  using assms by (simp add: lsa_steps_ok_def)

lemma lsa_orig_mdr [simp]:
  "(\<And>m. nm_adv (f m) = nm_adv m) \<Longrightarrow> lsa_orig (on_mdr_update f onj) a = lsa_orig onj a"
  by (simp add: lsa_orig_def)

lemma lsa_full_steps_ok:
  "lsa_steps_ok oi (map2 (lsa_full_step oi) [0 ..< num_neigh oi] (oi_neighbor_list oi))"
  by (rule lsa_steps_okI, intro exI) (simp add: lsa_full_step_def Let_def comp_def)

lemma lsa_minimal_steps_ok:
  "lsa_steps_ok oi (map2 (lsa_minimal_step ospf6 oi) [0 ..< num_neigh oi] (oi_neighbor_list oi))"
  by (rule lsa_steps_okI, intro exI) (simp add: lsa_minimal_step_def Let_def comp_def)

lemma lsa_mincost_steps_ok:
  assumes "\<And>i. i < num_neigh oi \<Longrightarrow> mx_index oi i = i"
  shows "lsa_steps_ok oi (map (lsa_mincost_step ospf6 oi cm adj san) [0 ..< num_neigh oi])"
  unfolding lsa_steps_ok_def
proof (intro conjI allI impI)
  fix i assume i: "i < num_neigh oi"
  then have "on_mdr_update (\<lambda>m. m\<lparr>nm_cost_matrix_index := i, nm_sel_adv := s\<rparr>) (nbr oi i) =
      on_mdr_update (nm_sel_adv_update (\<lambda>_. s)) (nbr oi i)" for s
    using assms [OF i] by simp
  then show "\<exists>a sel. map (lsa_mincost_step ospf6 oi cm adj san) [0 ..< num_neigh oi] ! i =
      (a, lsa_orig (nbr oi i) a, on_mdr_update (\<lambda>m. m\<lparr>nm_cost_matrix_index := i, nm_sel_adv := sel\<rparr>) (nbr oi i))"
    using i by (simp add: lsa_mincost_step_def Let_def) blast
qed simp

section \<open>The neighbors that are advertised\<close>

text \<open>The outcome of one of the three functions: a neighbor in \<open>A\<close> is to be advertised.\<close>

definition lsa_outcome :: "(nat \<Rightarrow> bool) \<Rightarrow> ospf6_interface \<Rightarrow> bool \<Rightarrow> ospf6_interface \<Rightarrow> bool" where
  "lsa_outcome A oi orig oi' \<longleftrightarrow>
     num_neigh oi' = num_neigh oi \<and> oi_mdr oi' = oi_mdr oi \<and> oi_effects oi' = oi_effects oi \<and>
     (orig \<longleftrightarrow> (\<exists>i < num_neigh oi. lsa_orig (nbr oi i) (A i))) \<and>
     (\<forall>i < num_neigh oi. on_state (nbr oi' i) = on_state (nbr oi i) \<and>
        nm_adv (on_mdr (nbr oi' i)) = (if orig then A i else nm_adv (on_mdr (nbr oi i))))"

lemma lsa_finish_outcome:
  assumes "lsa_steps_ok oi r" "lsa_finish r oi = (orig, oi')" "\<And>i. i < num_neigh oi \<Longrightarrow> fst (r ! i) = A i"
  shows "lsa_outcome A oi orig oi'"
  using lsa_finish_eq [OF assms(1,2)] assms(3) by (simp add: lsa_outcome_def cong: conj_cong)

definition full_adv :: "ospf6_interface \<Rightarrow> nat \<Rightarrow> bool" where
  "full_adv oi i \<longleftrightarrow> nm_routable (on_mdr (nbr oi i)) \<or> on_state (nbr oi i) = OSPF6_NEIGHBOR_FULL"

definition selected_by :: "ospf6 \<Rightarrow> ospf6_interface \<Rightarrow> nat \<Rightarrow> bool" where
  "selected_by ospf6 oi i \<longleftrightarrow> o_router_id ospf6 \<in> set (nm_sanl (on_mdr (nbr oi i)))"

definition minimal_adv :: "ospf6 \<Rightarrow> ospf6_interface \<Rightarrow> nat \<Rightarrow> bool" where
  "minimal_adv ospf6 oi i \<longleftrightarrow> on_state (nbr oi i) = OSPF6_NEIGHBOR_FULL \<or>
     nm_routable (on_mdr (nbr oi i)) \<and> (selected_by ospf6 oi i \<or> ospf6_mdr_backbone oi (nbr oi i))"

definition mincost_adv :: "ospf6 \<Rightarrow> ospf6_interface \<Rightarrow> nat \<Rightarrow> bool" where
  "mincost_adv ospf6 oi i \<longleftrightarrow>
     on_state (nbr oi i) = OSPF6_NEIGHBOR_FULL \<and> im_AdjConnectivity (oi_mdr oi) \<noteq> OSPF6_ADJ_FULLYCONNECTED \<or>
     (on_state (nbr oi i) = OSPF6_NEIGHBOR_FULL \<or> nm_routable (on_mdr (nbr oi i))) \<and>
     (needs_advertising ospf6 oi i \<or> selected_by ospf6 oi i \<or> ospf6_mdr_backbone oi (nbr oi i))"

lemma ospf6_mdr_backbone_mdr [simp]:
  assumes "\<And>m. nm_Abit (f m) = nm_Abit m \<and> nm_mdr_level (f m) = nm_mdr_level m \<and>
      nm_dependent (f m) = nm_dependent m \<and> nm_dependent_selector (f m) = nm_dependent_selector m \<and>
      nm_child (f m) = nm_child m"
  shows "ospf6_mdr_backbone oi (on_mdr_update f on) = ospf6_mdr_backbone oi on"
  using assms by (simp add: ospf6_mdr_backbone_def need_adjacency_def ospf6_mdr_neighbor_need_adjacency_def)

lemma update_lsa_full_outcome:
  assumes "ospf6_mdr_update_lsa_full oi = (orig, oi')"
  shows "lsa_outcome (full_adv oi) oi orig oi'"
  by (rule lsa_finish_outcome [OF lsa_full_steps_ok assms [unfolded ospf6_mdr_update_lsa_full_def]])
    (simp add: lsa_full_step_def Let_def full_adv_def)

lemma update_lsa_minimal_outcome:
  assumes "ospf6_mdr_update_lsa_minimal ospf6 oi = (orig, oi')"
  shows "lsa_outcome (minimal_adv ospf6 oi) oi orig oi'"
  by (rule lsa_finish_outcome [OF lsa_minimal_steps_ok assms [unfolded ospf6_mdr_update_lsa_minimal_def]])
    (simp add: lsa_minimal_step_def Let_def minimal_adv_def selected_by_def)

text \<open>The loops for minimum cost routing compute the specification.\<close>

lemma cost_matrix_bool:
  assumes "ospf6_mdr_create_cost_matrix oi = (cm, oi1)" "j < num_neigh oi" "k < num_neigh oi"
  shows "cm j k = of_bool (nbrs_linked oi j k)"
    "nbr oi1 j = on_mdr_update (nm_cost_matrix_index_update (\<lambda>_. j)) (nbr oi j)"
    "num_neigh oi1 = num_neigh oi" "oi_mdr oi1 = oi_mdr oi"
  using cost_matrix_char [OF assms] by simp_all

lemma cost_matrix_backbone:
  assumes "ospf6_mdr_create_cost_matrix oi = (cm, oi1)"
  shows "ospf6_mdr_backbone oi1 on = ospf6_mdr_backbone oi on" "oi_effects oi1 = oi_effects oi"
proof -
  have 1: "oi1 = cost_matrix_init oi"
    using assms by (simp add: ospf6_mdr_create_cost_matrix_def Let_def)
  have "oi_type (fold (\<lambda>j. nbr_mdr_update j (f j)) js oi) = oi_type oi \<and>
      oi_state (fold (\<lambda>j. nbr_mdr_update j (f j)) js oi) = oi_state oi \<and>
      oi_drouter (fold (\<lambda>j. nbr_mdr_update j (f j)) js oi) = oi_drouter oi \<and>
      oi_bdrouter (fold (\<lambda>j. nbr_mdr_update j (f j)) js oi) = oi_bdrouter oi" for f js
    by (induction js arbitrary: oi) (auto simp: nbr_mdr_update_def nbr_update_def)
  then have "oi_type oi1 = oi_type oi" "oi_state oi1 = oi_state oi" "oi_drouter oi1 = oi_drouter oi"
    "oi_bdrouter oi1 = oi_bdrouter oi"
    unfolding 1 by (simp_all add: cost_matrix_init_def)
  moreover have "oi_mdr oi1 = oi_mdr oi" by (simp add: 1)
  ultimately show "ospf6_mdr_backbone oi1 on = ospf6_mdr_backbone oi on"
    by (simp add: ospf6_mdr_backbone_def need_adjacency_def ospf6_mdr_neighbor_need_adjacency_def)
  show "oi_effects oi1 = oi_effects oi" by (simp add: 1)
qed

lemma mincost_selects:
  assumes cm: "ospf6_mdr_create_cost_matrix oi = (cm, oi1)"
    and as: "ospf6_mdr_create_adj_san_matrices oi1 cm = (adj, san)" and j: "j < num_neigh oi"
  shows "new_sel_adv ospf6 oi1 cm adj san (selected_by ospf6 oi j) j [0 ..< num_neigh oi1] \<longleftrightarrow>
    needs_advertising ospf6 oi j"
proof -
  let ?n = "num_neigh oi"
  have n: "num_neigh oi1 = ?n" using cost_matrix_bool(3) [OF cm j j] .
  have nb: "nbr oi1 x = on_mdr_update (nm_cost_matrix_index_update (\<lambda>_. x)) (nbr oi x)" if "x < ?n" for x
    using cost_matrix_bool(2) [OF cm that that] .
  have cmx: "cm x y = of_bool (nbrs_linked oi x y)" if "x < ?n" "y < ?n" for x y
    using cost_matrix_bool(1) [OF cm that] .
  have idx: "mx_index oi1 x = x" if "x < num_neigh oi1" for x using nb [of x] that n by simp
  have sym: "cm x y = cm y x" if "x < num_neigh oi1" "y < num_neigh oi1" for x y
    using cmx that n nbrs_linked_sym by simp
  have cond: "adj_condition oi1 x y = adj_condition oi x y" if "x < ?n" "y < ?n" for x y
    using nb that by (simp add: adj_condition_def)
  have adj: "adj x y = of_bool (nbrs_linked oi x y \<and> (adj_condition oi x y \<or> adj_condition oi y x))"
    and san: "san x y = of_bool (nbrs_linked oi x y \<and> on_router_id (nbr oi y) \<in> set (nm_sanl (on_mdr (nbr oi x))))"
    if "x < ?n" "y < ?n" for x y
    using adj_san_matrices [OF as idx sym, of x y] that n cmx cond nb by simp_all
  have relay: "better_relay ospf6 oi1 cm adj san (selected_by ospf6 oi j) j k [0 ..< ?n] \<longleftrightarrow>
      (\<exists>u. relays_for ospf6 oi j k u)" if k: "k < ?n" for k
  proof -
    have u: "(u \<noteq> k \<and> u \<noteq> j \<and> twoway oi1 u \<and> cm (mx_index oi1 u) (mx_index oi1 k) = 1 \<and>
        cm (mx_index oi1 u) (mx_index oi1 j) = 1 \<and>
        (adj (mx_index oi1 u) (mx_index oi1 j) \<noteq> 0 \<or>
         (of_bool (selected_by ospf6 oi j), of_bool (nm_sel_adv (on_mdr (nbr oi1 j))), o_router_id ospf6) <
           (san (mx_index oi1 j) (mx_index oi1 u), san (mx_index oi1 u) (mx_index oi1 j), on_router_id (nbr oi1 u)))) \<longleftrightarrow>
      relays_for ospf6 oi j k u" if u: "u < ?n" for u
    proof (cases "nbrs_linked oi u k \<and> nbrs_linked oi u j")
      case True
      then have "nbrs_linked oi j u" "u \<noteq> k" "u \<noteq> j" "twoway oi u"
        using nbrs_linked_sym by (auto simp: nbrs_linked_def)
      moreover have "adj u j \<noteq> 0 \<longleftrightarrow> adj_condition oi u j \<or> adj_condition oi j u"
        using adj [OF u j] True by (cases "adj_condition oi u j"; cases "adj_condition oi j u") simp_all
      ultimately show ?thesis
        using True u k j nb idx n
        by (simp add: relays_for_def cmx san selected_by_def disj_assoc del: less_prod_simp split del: split_of_bool)
    next
      case False
      then show ?thesis using u k j nb idx n by (auto simp: relays_for_def cmx)
    qed
    have lt: "relays_for ospf6 oi j k u \<Longrightarrow> u < ?n" for u by (simp add: relays_for_def)
    have "better_relay ospf6 oi1 cm adj san (selected_by ospf6 oi j) j k [0 ..< ?n] \<longleftrightarrow>
        (\<exists>u \<in> set [0 ..< ?n]. relays_for ospf6 oi j k u)"
      unfolding better_relay_iff by (rule bex_cong [OF refl]) (rule u, simp)
    also have "\<dots> \<longleftrightarrow> (\<exists>u. relays_for ospf6 oi j k u)" using lt by (auto simp: Bex_def)
    finally show ?thesis .
  qed
  have sel: "(k \<noteq> j \<and> twoway oi1 k \<and> cm (mx_index oi1 j) (mx_index oi1 k) \<noteq> 1 \<and>
        \<not> better_relay ospf6 oi1 cm adj san (selected_by ospf6 oi j) j k [0 ..< num_neigh oi1]) \<longleftrightarrow>
      (k \<noteq> j \<and> twoway oi k \<and> \<not> nbrs_linked oi j k \<and> (\<nexists>u. relays_for ospf6 oi j k u))" if k: "k < ?n" for k
    using relay [OF k] nb [OF k] idx j k cmx [OF j k] by (simp add: n)
  have "new_sel_adv ospf6 oi1 cm adj san (selected_by ospf6 oi j) j [0 ..< num_neigh oi1] \<longleftrightarrow>
      twoway oi j \<and> \<not> ospf6_mdr_backbone oi (nbr oi j) \<and>
      (\<exists>k \<in> set [0 ..< ?n]. k \<noteq> j \<and> twoway oi k \<and> \<not> nbrs_linked oi j k \<and> (\<nexists>u. relays_for ospf6 oi j k u))"
    unfolding new_sel_adv_iff
    by (intro conj_cong bex_cong sel) (simp_all add: nb [OF j] n cost_matrix_backbone [OF cm])
  then show ?thesis by (simp add: needs_advertising_def Bex_def)
qed

lemma update_lsa_mincost_outcome:
  assumes run: "ospf6_mdr_update_lsa_mincost ospf6 oi = (orig, oi')"
  shows "lsa_outcome (mincost_adv ospf6 oi) oi orig oi'"
    and "j < num_neigh oi \<Longrightarrow> nm_sel_adv (on_mdr (nbr oi' j)) \<longleftrightarrow> needs_advertising ospf6 oi j"
proof -
  obtain cm oi1 where cm: "ospf6_mdr_create_cost_matrix oi = (cm, oi1)" by fastforce
  obtain adj san where as: "ospf6_mdr_create_adj_san_matrices oi1 cm = (adj, san)" by fastforce
  let ?r = "map (lsa_mincost_step ospf6 oi1 cm adj san) [0 ..< num_neigh oi1]"
  have fin: "lsa_finish ?r oi1 = (orig, oi')"
    using run by (simp add: ospf6_mdr_update_lsa_mincost_def cm as)
  have nb: "nbr oi1 x = on_mdr_update (nm_cost_matrix_index_update (\<lambda>_. x)) (nbr oi x)"
    "num_neigh oi1 = num_neigh oi" "oi_mdr oi1 = oi_mdr oi" if "x < num_neigh oi" for x
    using cost_matrix_bool(2-4) [OF cm that that] by simp_all
  have oi1: "oi1 = cost_matrix_init oi" using cm by (simp add: ospf6_mdr_create_cost_matrix_def Let_def)
  have n: "num_neigh oi1 = num_neigh oi" "oi_mdr oi1 = oi_mdr oi"
    unfolding oi1 by simp_all
  have ok: "lsa_steps_ok oi1 ?r" by (rule lsa_mincost_steps_ok) (use nb n in simp)
  have step: "lsa_mincost_step ospf6 oi1 cm adj san i = (mincost_adv ospf6 oi i, lsa_orig (nbr oi i) (mincost_adv ospf6 oi i),
      on_mdr_update (\<lambda>m. m\<lparr>nm_cost_matrix_index := i, nm_sel_adv := needs_advertising ospf6 oi i\<rparr>) (nbr oi i))"
    if i: "i < num_neigh oi" for i
    using nb [OF i] mincost_selects [OF cm as i, of ospf6] cost_matrix_backbone(1) [OF cm] n
    by (simp add: lsa_mincost_step_def Let_def mincost_adv_def selected_by_def comp_def)
  note f = lsa_finish_eq [OF ok fin]
  show "lsa_outcome (mincost_adv ospf6 oi) oi orig oi'"
    using f step nb n cost_matrix_backbone(2) [OF cm] by (simp add: lsa_outcome_def cong: conj_cong)
  show "nm_sel_adv (on_mdr (nbr oi' j)) \<longleftrightarrow> needs_advertising ospf6 oi j" if "j < num_neigh oi"
    using f(5) [of j] that step [OF that] n by simp
qed

section \<open>Routable neighbors\<close>

text \<open>Whether a neighbor is routable after the update.\<close>

definition routable_after :: "rid list \<Rightarrow> ospf6_neighbor \<Rightarrow> bool" where
  "routable_after spf on \<longleftrightarrow> OSPF6_NEIGHBOR_TWOWAY \<le> on_state on \<and>
     (nm_routable (on_mdr on) \<or> on_router_id on \<in> set spf \<and> nm_reverse_2way (on_mdr on))"

lemma routable_step_eq:
  "routable_step spf on =
     (nm_routable (on_mdr on) \<noteq> routable_after spf on,
      on_mdr_update (nm_routable_update (\<lambda>_. routable_after spf on)) on)"
proof (cases "nm_routable (on_mdr on)")
  case True
  have id: "on_mdr_update (nm_routable_update (\<lambda>_. True)) on = on" using True by simp
  show ?thesis using True id by (auto simp: routable_step_def routable_after_def Let_def not_less)
next
  case False
  have id: "on_mdr_update (nm_routable_update (\<lambda>_. False)) on = on" using False by simp
  show ?thesis using False id by (auto simp: routable_step_def routable_after_def Let_def)
qed

lemma update_routable_eq:
  assumes "ospf6_mdr_update_routable_neighbors spf oi = (change, oi1)"
    and "im_AdjConnectivity (oi_mdr oi) \<noteq> OSPF6_ADJ_FULLYCONNECTED"
  shows "oi1 = oi\<lparr>oi_neighbor_list := map (\<lambda>on.
      on_mdr_update (nm_routable_update (\<lambda>_. routable_after spf on)) on) (oi_neighbor_list oi)\<rparr>"
    and "change \<longleftrightarrow> (\<exists>on \<in> set (oi_neighbor_list oi). nm_routable (on_mdr on) \<noteq> routable_after spf on)"
  using assms
  by (auto simp: ospf6_mdr_update_routable_neighbors_def routable_step_eq Let_def list_ex_iff comp_def)

section \<open>Properties\<close>

lemma update_lsa_outcome:
  assumes "(case im_LSAFullness (oi_mdr oi) of
               OSPF6_LSA_FULLNESS_MINCOST \<Rightarrow> ospf6_mdr_update_lsa_mincost ospf6 oi
             | OSPF6_LSA_FULLNESS_MINCOST2PATHS \<Rightarrow> ospf6_mdr_update_lsa_mincost ospf6 oi
             | OSPF6_LSA_FULLNESS_MIN \<Rightarrow> ospf6_mdr_update_lsa_minimal ospf6 oi
             | OSPF6_LSA_FULLNESS_FULL \<Rightarrow> ospf6_mdr_update_lsa_full oi
             | OSPF6_LSA_FULLNESS_MDRFULL \<Rightarrow>
                 if im_mdr_level (oi_mdr oi) = OSPF6_MDR then ospf6_mdr_update_lsa_full oi
                 else ospf6_mdr_update_lsa_minimal ospf6 oi) = (originate, oi')"
    and "im_AdjConnectivity (oi_mdr oi) \<noteq> OSPF6_ADJ_FULLYCONNECTED"
  obtains A where "lsa_outcome A oi originate oi'"
    "\<And>i. A i \<Longrightarrow> on_state (nbr oi i) = OSPF6_NEIGHBOR_FULL \<or> nm_routable (on_mdr (nbr oi i))"
    "\<And>i. on_state (nbr oi i) = OSPF6_NEIGHBOR_FULL \<Longrightarrow> A i"
proof -
  have "lsa_outcome (mincost_adv ospf6 oi) oi originate oi' \<or>
      lsa_outcome (minimal_adv ospf6 oi) oi originate oi' \<or> lsa_outcome (full_adv oi) oi originate oi'"
    using assms(1) update_lsa_mincost_outcome(1) [of ospf6 oi originate oi']
      update_lsa_minimal_outcome [of ospf6 oi originate oi'] update_lsa_full_outcome [of oi originate oi']
    by (auto split: ospf6_LSAFullness.splits if_splits)
  then show ?thesis
  proof (elim disjE)
    assume "lsa_outcome (mincost_adv ospf6 oi) oi originate oi'"
    then show ?thesis by (rule that) (use assms(2) in \<open>auto simp: mincost_adv_def\<close>)
  next
    assume "lsa_outcome (minimal_adv ospf6 oi) oi originate oi'"
    then show ?thesis by (rule that) (auto simp: minimal_adv_def)
  next
    assume "lsa_outcome (full_adv oi) oi originate oi'"
    then show ?thesis by (rule that) (auto simp: full_adv_def)
  qed
qed


text \<open>C25: The neighbors that a router selects for minimum cost routing: neighbor j is selected exactly
  if it is 2-Way, not a backbone neighbor, and there is another 2-Way neighbor k without a link to j
  such that no third neighbor has links to both and is either adjacent to j or larger than this router
  in the order (selected by j, selects j, router ID).\<close>

theorem ospf6_mdr_update_lsa_mincost_selects:
  assumes "ospf6_mdr_update_lsa_mincost ospf6 oi = (originate, oi')" "j < num_neigh oi"
  shows "nm_sel_adv (on_mdr (nbr oi' j)) \<longleftrightarrow> needs_advertising ospf6 oi j"
  by (rule update_lsa_mincost_outcome(2) [OF assms])

text \<open>The first neighbor of the example is Full.\<close>

definition example_full :: ospf6_interface where
  "example_full = nbr_update 0 (on_state_update (\<lambda>_. OSPF6_NEIGHBOR_FULL)) example_interface"

lemma example_full_facts: "im_AdjConnectivity (oi_mdr example_full) \<noteq> OSPF6_ADJ_FULLYCONNECTED"
  "num_neigh example_full = 2" "on_state (nbr example_full 0) = OSPF6_NEIGHBOR_FULL"
  by (simp_all add: example_full_def example_defs Let_def)


theorem ospf6_mdr_update_lsa_mincost_selects_witness:
  "case ospf6_mdr_update_lsa_mincost example_router example_interface of (originate, oi') \<Rightarrow>
     nm_sel_adv (on_mdr (nbr oi' 0))"
proof -
  obtain originate oi' where e: "ospf6_mdr_update_lsa_mincost example_router example_interface = (originate, oi')"
    by fastforce
  have n: "num_neigh example_interface = 2" by (simp add: example_defs Let_def)
  have link: "\<not> nbrs_linked example_interface u 1" if "u < 2" for u
    using less_2_cases [OF that] by (auto simp: nbrs_linked_def example_defs Let_def)
  have "needs_advertising example_router example_interface 0"
    unfolding needs_advertising_def
  proof (intro conjI exI [of _ 1])
    show "\<not> (\<exists>u. relays_for example_router example_interface 0 1 u)" using link n by (auto simp: relays_for_def)
    show "twoway example_interface 0" "twoway example_interface 1" "(1 :: nat) < num_neigh example_interface"
      by (simp_all add: example_defs Let_def less_eq_nbr_state_def)
    show "\<not> ospf6_mdr_backbone example_interface (nbr example_interface 0)"
      by (simp add: ospf6_mdr_backbone_def need_adjacency_def example_defs Let_def)
    show "\<not> nbrs_linked example_interface 0 1" by (rule link) simp
  qed simp
  then show ?thesis
    using ospf6_mdr_update_lsa_mincost_selects [OF e, of 0] n by (simp add: e)
qed

end
