(* ===== verification/Mdr_Ack.thy ===== *)
theory Mdr_Ack
  imports Ospf6_Create
begin

text \<open>
  The acknowledgments that a router remembers for each neighbor (RFC 5614, 8.1), the functions on
  \<^verbatim>\<open>ack_list\<close> of \<^verbatim>\<open>src/ospf6d/ospf6_mdr_neighbor.c\<close>. Comparing two LSAs brings the ages in their
  headers up to date, so the functions return the list too. \<^term>\<open>None\<close> is a failed assertion.
\<close>

section \<open>Operations\<close>

definition ospf6_mdr_neighbor_lookup_ack :: "ospf6_neighbor \<Rightarrow> ospf6_lsa \<Rightarrow> ospf6_lsa option" where
  "ospf6_mdr_neighbor_lookup_ack on lsa =
     (let h = lsa_header lsa
      in ospf6_lsdb_lookup (h_type h) (h_id h) (h_adv_router h) (nm_ack_list (on_mdr on)))"

text \<open>An LSA of the list whose age has been brought up to date.\<close>
definition lsdb_touch :: "ospf6_lsa \<Rightarrow> lsdb \<Rightarrow> lsdb" where
  "lsdb_touch l db = map (\<lambda>x. if lsa_key x = lsa_key l then l else x) db"

definition set_ack_list :: "lsdb \<Rightarrow> ospf6_neighbor \<Rightarrow> ospf6_neighbor" where
  "set_ack_list db = on_mdr_update (nm_ack_list_update (\<lambda>_. db))"

definition ospf6_mdr_neighbor_store_ack ::
    "timeval \<Rightarrow> ospf6_interface \<Rightarrow> ospf6_neighbor \<Rightarrow> ospf6_lsa \<Rightarrow> ospf6_neighbor option" where
  "ospf6_mdr_neighbor_store_ack now oi on lsa =
     (if oi_type oi \<noteq> OSPF6_IFTYPE_MDR then None
      else
        let store = (\<lambda>on lsa.
              let ack = (ospf6_lsa_create_headeronly now (lsa_header lsa))\<lparr>lsa_received := now\<rparr> in
              case nbr_list_add now ack (nm_ack_list (on_mdr on)) of
                None \<Rightarrow> None
              | Some db \<Rightarrow>
                  let on = set_ack_list db on in
                  Some (if nm_thread_ack_list_expire (on_mdr on) = None
                        then on_mdr_update (nm_thread_ack_list_expire_update
                               (\<lambda>_. Some (im_ack_cache_timeout (oi_mdr oi) * 1000))) on
                        else on)) in
        case ospf6_mdr_neighbor_lookup_ack on lsa of
          None \<Rightarrow> store on lsa
        | Some ack \<Rightarrow>
            (case ospf6_lsa_compare now lsa ack of
               None \<Rightarrow> None
             | Some (c, lsa, ack) \<Rightarrow>
                 let on = set_ack_list (lsdb_touch ack (nm_ack_list (on_mdr on))) on in
                 if c < 0 then store on lsa else Some on))"

definition ospf6_mdr_neighbor_has_acked ::
    "timeval \<Rightarrow> ospf6_interface \<Rightarrow> ospf6_neighbor \<Rightarrow> ospf6_lsa \<Rightarrow> (bool \<times> ospf6_neighbor) option" where
  "ospf6_mdr_neighbor_has_acked now oi on lsa =
     (if oi_type oi \<noteq> OSPF6_IFTYPE_MDR then None
      else case ospf6_mdr_neighbor_lookup_ack on lsa of
        None \<Rightarrow> Some (False, on)
      | Some ack \<Rightarrow>
          (case ospf6_lsa_compare now ack lsa of
             None \<Rightarrow> None
           | Some (c, ack, lsa) \<Rightarrow>
               let on = set_ack_list (lsdb_touch ack (nm_ack_list (on_mdr on))) on
               in Some (c \<le> 0, on)))"

text \<open>The loop of the timer: the iteration holds a second lock on the LSA, which the assertion counts.
  The result is the remaining list.\<close>
fun ack_expire_loop :: "timeval \<Rightarrow> int \<Rightarrow> lsdb \<Rightarrow> lsdb option" where
  "ack_expire_loop now timeout [] = Some []"
| "ack_expire_loop now timeout (ack # acks) =
     (if timersub_sec now (lsa_received ack) > timeout then
        if lsa_lock ack + 1 \<noteq> 2 then None
        else ack_expire_loop now timeout acks
      else map_option ((#) ack) (ack_expire_loop now timeout acks))"

definition ospf6_mdr_neighbor_ack_list_expire ::
    "timeval \<Rightarrow> ospf6_interface \<Rightarrow> ospf6_neighbor \<Rightarrow> ospf6_neighbor option" where
  "ospf6_mdr_neighbor_ack_list_expire now oi on =
     (let on = on_mdr_update (nm_thread_ack_list_expire_update (\<lambda>_. None)) on;
          timeout = im_ack_cache_timeout (oi_mdr oi) in
      case ack_expire_loop now timeout (nm_ack_list (on_mdr on)) of
        None \<Rightarrow> None
      | Some db \<Rightarrow>
          let on = set_ack_list db on in
          Some (if length db > 0
                then on_mdr_update (nm_thread_ack_list_expire_update (\<lambda>_. Some (timeout * 1000))) on
                else on))"

section \<open>The invariant\<close>

text \<open>The list is one of header-only LSAs, each locked once, and while it is not empty the timer runs.\<close>
definition ack_list_ok :: "ospf6_neighbor \<Rightarrow> bool" where
  "ack_list_ok on \<longleftrightarrow> nbr_list_ok (nm_ack_list (on_mdr on)) \<and>
     (nm_ack_list (on_mdr on) \<noteq> [] \<longrightarrow> nm_thread_ack_list_expire (on_mdr on) \<noteq> None)"

lemma set_ack_list_simps [simp]:
  "nm_ack_list (on_mdr (set_ack_list db on)) = db"
  "nm_thread_ack_list_expire (on_mdr (set_ack_list db on)) = nm_thread_ack_list_expire (on_mdr on)"
  by (simp_all add: set_ack_list_def)

lemma lookup_ack_key: "ospf6_mdr_neighbor_lookup_ack on lsa = nbr_list_lookup (lsa_key lsa) (nm_ack_list (on_mdr on))"
  by (simp add: ospf6_mdr_neighbor_lookup_ack_def Let_def nbr_list_lookup_key)

lemma touch_ok:
  assumes "nbr_list_ok db" "lsa_wf l" "lsa_lock l = 1"
  shows "nbr_list_ok (lsdb_touch l db)"
proof -
  have keys: "map lsa_key (lsdb_touch l db) = map lsa_key db" by (simp add: lsdb_touch_def)
  have "lsdb_sorted (lsdb_touch l db)" using assms(1) unfolding nbr_list_ok_def lsdb_sorted_def keys by simp
  moreover have "lsa_wf x \<and> lsa_lock x = 1" if "x \<in> set (lsdb_touch l db)" for x
    using that assms by (auto simp: nbr_list_ok_def lsdb_touch_def)
  ultimately show ?thesis by (simp add: nbr_list_ok_def)
qed

lemma lookup_touch:
  assumes "nbr_list_lookup (lsa_key l) db \<noteq> None"
  shows "nbr_list_lookup (lsa_key l) (lsdb_touch l db) = Some l"
  using assms by (induction db) (auto simp: nbr_list_lookup_find lsdb_touch_def)

text \<open>The comparison returns its arguments, with the age brought up to date or not.\<close>

lemma compare_result:
  assumes "lsa_key a = lsa_key b"
  obtains a' b' where "ospf6_lsa_compare now a b = Some (lsa_cmp now a b, a', b')"
    "a' = a \<or> a' = snd (ospf6_lsa_age_current now a)" "b' = b \<or> b' = snd (ospf6_lsa_age_current now b)"
proof -
  obtain c a' b' where c: "ospf6_lsa_compare now a b = Some (c, a', b')"
    using ospf6_lsa_compare_cmp [of now a b] assms by (cases "ospf6_lsa_compare now a b") auto
  moreover have "c = lsa_cmp now a b" using ospf6_lsa_compare_cmp [of now a b] assms c by simp
  moreover have "(a' = a \<or> a' = snd (ospf6_lsa_age_current now a)) \<and> (b' = b \<or> b' = snd (ospf6_lsa_age_current now b))"
    using c by (auto simp: ospf6_lsa_compare_def Let_def case_prod_beta split: if_splits)
  ultimately show ?thesis using that by simp
qed

section \<open>Storing\<close>

text \<open>The acknowledgment that is stored.\<close>
definition ack_for :: "timeval \<Rightarrow> ospf6_lsa \<Rightarrow> ospf6_lsa" where
  "ack_for now lsa = (ospf6_lsa_create_headeronly now (lsa_header lsa))\<lparr>lsa_received := now\<rparr>"

definition ack_start_timer :: "ospf6_interface \<Rightarrow> ospf6_neighbor \<Rightarrow> ospf6_neighbor" where
  "ack_start_timer oi on =
     (if nm_thread_ack_list_expire (on_mdr on) = None
      then on_mdr_update (nm_thread_ack_list_expire_update (\<lambda>_. Some (im_ack_cache_timeout (oi_mdr oi) * 1000))) on
      else on)"

lemma ack_for_facts:
  "lsa_wf (ack_for now lsa)" "lsa_lock (ack_for now lsa) = 0" "lsa_key (ack_for now lsa) = lsa_key lsa"
  "lsa_header (ack_for now lsa) = lsa_header lsa"
  "lsa_birth (ack_for now lsa) = \<lparr>tv_sec = tv_sec now - int (unat (h_age (lsa_header lsa))), tv_usec = tv_usec now\<rparr>"
  by (simp_all add: ack_for_def ospf6_lsa_create_headeronly_def lsa_wf_def CHECK_FLAG_def SET_FLAG_def
      lsa_blank_def ospf6_lsa_age_set_def lsa_key_def Let_def)

lemma ack_start_timer_simps [simp]:
  "nm_ack_list (on_mdr (ack_start_timer oi on)) = nm_ack_list (on_mdr on)"
  "nm_thread_ack_list_expire (on_mdr (ack_start_timer oi on)) \<noteq> None"
  by (simp_all add: ack_start_timer_def)

lemma store_ack_cases:
  assumes "oi_type oi = OSPF6_IFTYPE_MDR" "nbr_list_ok (nm_ack_list (on_mdr on))"
  obtains (new) "nbr_list_lookup (lsa_key lsa) (nm_ack_list (on_mdr on)) = None"
      "ospf6_mdr_neighbor_store_ack now oi on lsa =
       Some (ack_start_timer oi (set_ack_list (lsdb_link (lsa_stored now (ack_for now lsa)) (nm_ack_list (on_mdr on))) on))"
  | (old) ack ack' lsa' where "nbr_list_lookup (lsa_key lsa) (nm_ack_list (on_mdr on)) = Some ack"
      "ack' = ack \<or> ack' = snd (ospf6_lsa_age_current now ack)"
      "lsa' = lsa \<or> lsa' = snd (ospf6_lsa_age_current now lsa)"
      "ospf6_mdr_neighbor_store_ack now oi on lsa = Some (let db = lsdb_touch ack' (nm_ack_list (on_mdr on)) in
         if lsa_cmp now lsa ack < 0
         then ack_start_timer oi (set_ack_list (lsdb_link (lsa_stored now (ack_for now lsa')) db) on)
         else set_ack_list db on)"
proof (cases "nbr_list_lookup (lsa_key lsa) (nm_ack_list (on_mdr on))")
  case None
  have "nbr_list_add now (ack_for now lsa) (nm_ack_list (on_mdr on)) =
      Some (lsdb_link (lsa_stored now (ack_for now lsa)) (nm_ack_list (on_mdr on)))"
    by (rule nbr_list_add_eq [OF assms(2) ack_for_facts(1)])
  then show ?thesis
    using None assms(1) by (intro new) (simp_all add: ospf6_mdr_neighbor_store_ack_def lookup_ack_key Let_def
        ack_for_def ack_start_timer_def)
next
  case (Some ack)
  note a = nbr_list.lookup_ok [OF assms(2) Some]
  obtain lsa' ack' where c: "ospf6_lsa_compare now lsa ack = Some (lsa_cmp now lsa ack, lsa', ack')"
    "lsa' = lsa \<or> lsa' = snd (ospf6_lsa_age_current now lsa)" "ack' = ack \<or> ack' = snd (ospf6_lsa_age_current now ack)"
    using compare_result [of lsa ack now] a by metis
  let ?db = "lsdb_touch ack' (nm_ack_list (on_mdr on))"
  have "nbr_list_ok ?db" by (rule touch_ok [OF assms(2)]) (use a c(3) in auto)
  note add = nbr_list_add_eq [OF this ack_for_facts(1), of now now lsa']
  let ?on = "let db = ?db in if lsa_cmp now lsa ack < 0
      then ack_start_timer oi (set_ack_list (lsdb_link (lsa_stored now (ack_for now lsa')) db) on)
      else set_ack_list db on"
  have twice: "set_ack_list x (set_ack_list y on) = set_ack_list x on" for x y
    by (simp add: set_ack_list_def comp_def)
  have "ospf6_mdr_neighbor_store_ack now oi on lsa = Some ?on"
    using Some assms(1) add c(1) twice
    by (simp add: ospf6_mdr_neighbor_store_ack_def lookup_ack_key Let_def ack_for_def ack_start_timer_def)
  with Some c(2,3) show ?thesis by (intro old)
qed

lemma link_nonempty [simp]: "lsdb_link l db \<noteq> []"
  by (cases db) auto

lemma ack_list_ok_touch:
  assumes "ack_list_ok on" "nbr_list_lookup k (nm_ack_list (on_mdr on)) = Some ack"
    and "ack' = ack \<or> ack' = snd (ospf6_lsa_age_current now ack)"
  shows "nbr_list_ok (lsdb_touch ack' (nm_ack_list (on_mdr on)))" "ack_list_ok (set_ack_list (lsdb_touch ack' (nm_ack_list (on_mdr on))) on)"
proof -
  have ok: "nbr_list_ok (nm_ack_list (on_mdr on))" using assms(1) by (simp add: ack_list_ok_def)
  show 1: "nbr_list_ok (lsdb_touch ack' (nm_ack_list (on_mdr on)))"
    by (rule touch_ok [OF ok]) (use nbr_list.lookup_ok [OF ok assms(2)] assms(3) in auto)
  show "ack_list_ok (set_ack_list (lsdb_touch ack' (nm_ack_list (on_mdr on))) on)"
    using 1 assms(1) by (auto simp: ack_list_ok_def lsdb_touch_def)
qed

lemma store_ack_ok:
  assumes "oi_type oi = OSPF6_IFTYPE_MDR" "ack_list_ok on"
  shows "\<exists>on'. ospf6_mdr_neighbor_store_ack now oi on lsa = Some on' \<and> ack_list_ok on'"
proof -
  have ok: "nbr_list_ok (nm_ack_list (on_mdr on))" using assms(2) by (simp add: ack_list_ok_def)
  have link: "ack_list_ok (ack_start_timer oi (set_ack_list (lsdb_link (lsa_stored now (ack_for now l)) db) on))"
    if "nbr_list_ok db" for l db
    using nbr_list_ok_link [OF that ack_for_facts(1,2)] by (simp add: ack_list_ok_def)
  show ?thesis
  proof (cases rule: store_ack_cases [OF assms(1) ok, of lsa now])
    case 1
    then show ?thesis using link [OF ok] by simp
  next
    case (2 ack ack' lsa')
    then show ?thesis
      using link [OF ack_list_ok_touch(1) [OF assms(2) 2(1,2)]] ack_list_ok_touch(2) [OF assms(2) 2(1,2)]
      by (simp add: Let_def)
  qed
qed

lemma expire_ok:
  assumes "ack_list_ok on"
  shows "\<exists>on'. ospf6_mdr_neighbor_ack_list_expire now oi on = Some on' \<and> ack_list_ok on' \<and>
    nm_ack_list (on_mdr on') = filter (\<lambda>ack. timersub_sec now (lsa_received ack) \<le> im_ack_cache_timeout (oi_mdr oi))
      (nm_ack_list (on_mdr on))"
proof -
  have loop: "ack_expire_loop now t db = Some (filter (\<lambda>ack. timersub_sec now (lsa_received ack) \<le> t) db)"
    if "\<forall>l \<in> set db. lsa_lock l = 1" for t db
    using that by (induction db) auto
  have ok: "nbr_list_ok (nm_ack_list (on_mdr on))" using assms by (simp add: ack_list_ok_def)
  then have "ack_expire_loop now t (nm_ack_list (on_mdr on)) =
      Some (filter (\<lambda>ack. timersub_sec now (lsa_received ack) \<le> t) (nm_ack_list (on_mdr on)))" for t
    by (intro loop) (simp add: nbr_list_ok_def)
  moreover have "nbr_list_ok (filter P (nm_ack_list (on_mdr on)))" for P
  proof -
    have "sorted_wrt (\<lambda>x y. lsa_key x < lsa_key y) (nm_ack_list (on_mdr on))"
      using ok by (simp add: nbr_list_ok_def lsdb_sorted_def sorted_wrt_map)
    then show ?thesis
      using ok by (simp add: nbr_list_ok_def lsdb_sorted_def sorted_wrt_map sorted_wrt_filter)
  qed
  moreover have "nbr_list_ok []" by (simp add: nbr_list_ok_def)
  ultimately show ?thesis
    by (simp add: ospf6_mdr_neighbor_ack_list_expire_def ack_list_ok_def Let_def)
qed

section \<open>Properties\<close>

text \<open>On an MDR interface the three operations on the acknowledgments of a neighbor do not abort, in
  particular the assertion that an expired acknowledgment is locked by the list and the iteration only
  holds, and they keep the invariant: the list is sorted by key without duplicates and the timer runs
  while it is not empty. The timer drops exactly the acknowledgments older than the timeout.\<close>

theorem ack_list_invariant:
  assumes "oi_type oi = OSPF6_IFTYPE_MDR" "ack_list_ok on"
  shows "(\<exists>on'. ospf6_mdr_neighbor_store_ack now oi on lsa = Some on' \<and> ack_list_ok on') \<and>
    (\<exists>r on'. ospf6_mdr_neighbor_has_acked now oi on lsa = Some (r, on') \<and> ack_list_ok on') \<and>
    (\<exists>on'. ospf6_mdr_neighbor_ack_list_expire now oi on = Some on' \<and> ack_list_ok on' \<and>
       nm_ack_list (on_mdr on') = filter (\<lambda>ack. timersub_sec now (lsa_received ack) \<le> im_ack_cache_timeout (oi_mdr oi))
         (nm_ack_list (on_mdr on)))"
proof (intro conjI)
  have ok: "nbr_list_ok (nm_ack_list (on_mdr on))" using assms(2) by (simp add: ack_list_ok_def)
  show "\<exists>r on'. ospf6_mdr_neighbor_has_acked now oi on lsa = Some (r, on') \<and> ack_list_ok on'"
  proof (cases "nbr_list_lookup (lsa_key lsa) (nm_ack_list (on_mdr on))")
    case None
    then show ?thesis
      using assms by (intro exI [of _ False] exI [of _ on]) (simp add: ospf6_mdr_neighbor_has_acked_def lookup_ack_key)
  next
    case (Some ack)
    obtain ack' lsa' where c: "ospf6_lsa_compare now ack lsa = Some (lsa_cmp now ack lsa, ack', lsa')"
      "ack' = ack \<or> ack' = snd (ospf6_lsa_age_current now ack)"
      using compare_result [of ack lsa now] nbr_list.lookup_ok [OF ok Some] by metis
    show ?thesis
      using Some assms(1) c(1) ack_list_ok_touch(2) [OF assms(2) Some c(2)]
      by (simp add: ospf6_mdr_neighbor_has_acked_def lookup_ack_key Let_def)
  qed
qed (rule store_ack_ok [OF assms], rule expire_ok [OF assms(2)])

text \<open>An LSA whose age field is current.\<close>
definition lsa_fresh :: "timeval \<Rightarrow> ospf6_lsa \<Rightarrow> bool" where
  "lsa_fresh now lsa \<longleftrightarrow> lsa_age_at now lsa = unat (h_age (lsa_header lsa))"

definition ack_times_ok :: "timeval \<Rightarrow> ospf6_neighbor \<Rightarrow> bool" where
  "ack_times_ok now on \<longleftrightarrow> (\<forall>l \<in> set (nm_ack_list (on_mdr on)).
     tv_sec (lsa_birth l) \<le> tv_sec now \<and> tv_sec now - tv_sec (lsa_birth l) < 2 ^ 32)"

lemma lsa_fresh_age: "lsa_fresh now lsa \<Longrightarrow> snd (ospf6_lsa_age_current now lsa) = lsa"
proof -
  assume f: "lsa_fresh now lsa"
  have snd: "snd (ospf6_lsa_age_current now lsa) =
      lsa\<lparr>lsa_header := (lsa_header lsa)\<lparr>h_age := fst (ospf6_lsa_age_current now lsa)\<rparr>\<rparr>"
    by (simp add: ospf6_lsa_age_current_def Let_def)
  have "fst (ospf6_lsa_age_current now lsa) = h_age (lsa_header lsa)"
    using f by (simp add: lsa_fresh_def lsa_age_at_def word_unat_eq_iff)
  with snd show ?thesis by simp
qed

lemma stored_ack_cmp:
  assumes "lsa_fresh now lsa"
  shows "lsa_cmp now (lsa_stored now (ack_for now lsa)) lsa = 0"
proof (rule lsa_cmp_zero)
  let ?a = "ospf6_lsa_lock (ack_for now lsa)"
  have le: "unat (h_age (lsa_header lsa)) \<le> MAXAGE"
    using lsa_age_at_le [of now lsa] assms by (simp add: lsa_fresh_def)
  have "lsa_age_at now (lsa_stored now (ack_for now lsa)) = lsa_age_at now ?a"
    unfolding lsa_stored_def
    by (rule lsa_age_cache)
      (use uint_lt2p [of "h_age (lsa_header lsa)"] in \<open>simp_all add: ospf6_lsa_lock_def ack_for_facts\<close>)
  also have "\<dots> = lsa_age_at now (ospf6_lsa_age_set now lsa)"
    by (rule lsa_age_at_cong) (simp_all add: ospf6_lsa_lock_def ack_for_facts ospf6_lsa_age_set_def)
  also have "\<dots> = lsa_age_at now lsa"
    using ospf6_lsa_age_set_age [OF le] assms by (simp add: lsa_fresh_def)
  finally show "lsa_age_at now (lsa_stored now (ack_for now lsa)) = lsa_age_at now lsa" .
qed (simp_all add: ack_for_facts)

lemma has_acked_lookup:
  assumes "oi_type oi = OSPF6_IFTYPE_MDR" "nbr_list_lookup (lsa_key lsa) (nm_ack_list (on_mdr on)) = Some b"
    and "lsa_key b = lsa_key lsa" "lsa_cmp now b lsa \<le> 0"
  shows "\<exists>on'. ospf6_mdr_neighbor_has_acked now oi on lsa = Some (True, on')"
proof -
  obtain b' lsa' where "ospf6_lsa_compare now b lsa = Some (lsa_cmp now b lsa, b', lsa')"
    using compare_result [OF assms(3), of now] by metis
  then show ?thesis using assms(1,2,4) by (simp add: ospf6_mdr_neighbor_has_acked_def lookup_ack_key Let_def)
qed

text \<open>C31: An acknowledgment that has been stored counts: after \<open>ospf6_mdr_neighbor_store_ack\<close> for an LSA whose
  age field is current, \<open>ospf6_mdr_neighbor_has_acked\<close> answers yes for it, whether or not an
  acknowledgment for an older, the same or a more recent instance was there before.\<close>

theorem store_ack_has_acked:
  assumes "oi_type oi = OSPF6_IFTYPE_MDR" "ack_list_ok on" "ack_times_ok now on" "lsa_fresh now lsa"
  shows "\<exists>on' on''. ospf6_mdr_neighbor_store_ack now oi on lsa = Some on' \<and>
    ospf6_mdr_neighbor_has_acked now oi on' lsa = Some (True, on'')"
proof -
  let ?db = "nm_ack_list (on_mdr on)"
  have ok: "nbr_list_ok ?db" using assms(2) by (simp add: ack_list_ok_def)
  have new: "nbr_list_lookup (lsa_key lsa) (lsdb_link (lsa_stored now (ack_for now lsa)) db) =
      Some (lsa_stored now (ack_for now lsa))" if "nbr_list_ok db" for db
    using that by (simp add: nbr_list_lookup_find find_lsdb_link nbr_list_ok_def ack_for_facts)
  have acked: "\<exists>on''. ospf6_mdr_neighbor_has_acked now oi on' lsa = Some (True, on'')"
    if "nm_ack_list (on_mdr on') = lsdb_link (lsa_stored now (ack_for now lsa)) db" "nbr_list_ok db" for on' db
    by (rule has_acked_lookup [OF assms(1), of lsa on' "lsa_stored now (ack_for now lsa)"])
      (use that new stored_ack_cmp [OF assms(4)] in \<open>simp_all add: ack_for_facts\<close>)
  show ?thesis
  proof (cases rule: store_ack_cases [OF assms(1) ok, of lsa now])
    case 1
    then show ?thesis using acked [of _ ?db] ok by simp
  next
    case (2 ack ack' lsa')
    note k = nbr_list.lookup_ok [OF ok 2(1)]
    show ?thesis
    proof (cases "lsa_cmp now lsa ack < 0")
      case True
      have "lsa' = lsa" using 2(3) lsa_fresh_age [OF assms(4)] by auto
      then show ?thesis
        using 2(4) True acked [OF _ ack_list_ok_touch(1) [OF assms(2) 2(1,2)]] by (simp add: Let_def)
    next
      case False
      have "lsa_age_at now ack' = lsa_age_at now ack"
        using 2(2) lsa_age_cache [of ack now now] nbr_list_lookup_some [OF 2(1)] assms(3) by (auto simp: ack_times_ok_def)
      then have "lsa_cmp now ack' lsa = lsa_cmp now ack lsa" using 2(2) by (auto simp: lsa_cmp_def)
      then have le: "lsa_cmp now ack' lsa \<le> 0" using False lsa_cmp_antisym [of now ack lsa] by simp
      have key: "lsa_key ack' = lsa_key lsa" using k 2(2) by auto
      have "nbr_list_lookup (lsa_key lsa) (lsdb_touch ack' ?db) = Some ack'"
        using lookup_touch [of ack' ?db] 2(1) key by simp
      then have "\<exists>on''. ospf6_mdr_neighbor_has_acked now oi (set_ack_list (lsdb_touch ack' ?db) on) lsa = Some (True, on'')"
        by (intro has_acked_lookup [OF assms(1) _ key le]) simp
      then show ?thesis using 2(4) False by (simp add: Let_def)
    qed
  qed
qed

section \<open>Examples\<close>

definition example_mdr_interface :: ospf6_interface where
  "example_mdr_interface = example_interface\<lparr>oi_type := OSPF6_IFTYPE_MDR\<rparr>"

definition example_lsa :: ospf6_lsa where
  "example_lsa = ospf6_lsa_age_set example_time (lsa_ex 5 [])"

lemma example_ack:
  "oi_type example_mdr_interface = OSPF6_IFTYPE_MDR" "ack_list_ok (nbr example_mdr_interface 0)"
  "ack_times_ok example_time (nbr example_mdr_interface 0)" "lsa_fresh example_time example_lsa"
proof -
  show "lsa_fresh example_time example_lsa"
    using ospf6_lsa_age_set_age [of "lsa_ex 5 []" example_time]
    by (simp add: lsa_fresh_def example_lsa_def lsa_ex_def lsa_blank_def ospf6_lsa_age_set_def)
qed (simp_all add: example_mdr_interface_def example_defs Let_def ack_list_ok_def nbr_list_ok_def ack_times_ok_def)

theorem ack_list_invariant_witness:
  "\<exists>on'. ospf6_mdr_neighbor_store_ack example_time example_mdr_interface (nbr example_mdr_interface 0) example_lsa =
      Some on' \<and> ack_list_ok on'"
  using ack_list_invariant [OF example_ack(1,2)] by blast

theorem store_ack_has_acked_witness:
  "\<exists>on' on''. ospf6_mdr_neighbor_store_ack example_time example_mdr_interface (nbr example_mdr_interface 0)
      example_lsa = Some on' \<and>
    ospf6_mdr_neighbor_has_acked example_time example_mdr_interface on' example_lsa = Some (True, on'')"
  by (rule store_ack_has_acked [OF example_ack])

end
