(* ===== verification/Mdr_Frame.thy ===== *)
theory Mdr_Frame
  imports Mdr_Result Mdr_Lsa
begin

text \<open>
  What the MDR calculation and the update of the LSA leave unchanged. \<open>mdr_frame\<close> forgets the MDR
  parts of an interface and its neighbors and the trace of effects; the calculation writes nothing
  else. \<open>lsa_frame\<close> forgets only the fields of the neighbors that the update of the LSA writes. The
  neighbor state machine, which calls both, relies on these facts and on the calculation returning.
\<close>

section \<open>The calculation\<close>

definition nbr_frame :: "ospf6_neighbor \<Rightarrow> ospf6_neighbor" where
  "nbr_frame = on_mdr_update (\<lambda>_. mdr_neighbor_zero)"

definition mdr_frame :: "ospf6_interface \<Rightarrow> ospf6_interface" where
  "mdr_frame oi = oi\<lparr>oi_mdr := mdr_interface_zero, oi_effects := [],
     oi_neighbor_list := map nbr_frame (oi_neighbor_list oi)\<rparr>"

named_theorems frame_simps \<open>operations that keep the frame\<close>

lemma map_list_update_same:
  assumes "\<And>x. g (f x) = g x"
  shows "map g (xs[j := f (xs ! j)]) = map g xs"
proof (cases "j < length xs")
  case True
  then show ?thesis by (simp add: map_update assms list_update_same_conv)
qed (simp add: list_update_beyond not_less)

lemma mdr_frame_nbr_mdr_update [frame_simps]: "mdr_frame (nbr_mdr_update j f oi) = mdr_frame oi"
proof -
  have "map nbr_frame ((oi_neighbor_list oi)[j := on_mdr_update f (nbr oi j)]) = map nbr_frame (oi_neighbor_list oi)"
    by (rule map_list_update_same) (simp add: nbr_frame_def)
  then show ?thesis by (simp add: mdr_frame_def nbr_mdr_update_def nbr_update_def)
qed

lemma mdr_frame_fields [frame_simps]:
  "mdr_frame (oi_mdr_update f oi) = mdr_frame oi" "mdr_frame (oi_effects_update g oi) = mdr_frame oi"
  "mdr_frame (emit e oi) = mdr_frame oi"
  by (simp_all add: mdr_frame_def emit_def)

lemma fold_frame:
  assumes "\<And>x s. F (f x s) = F s"
  shows "F (fold f xs s) = F s"
  by (induction xs arbitrary: s) (simp_all add: assms)

lemma mdr_frame_init [frame_simps]: "mdr_frame (cost_matrix_init oi) = mdr_frame oi"
  unfolding cost_matrix_init_def by (rule fold_frame) (rule mdr_frame_nbr_mdr_update)

lemma mdr_frame_cost_matrix [frame_simps]: "mdr_frame (snd (ospf6_mdr_create_cost_matrix oi)) = mdr_frame oi"
  by (simp add: ospf6_mdr_create_cost_matrix_def Let_def frame_simps)

lemma mdr_frame_select [frame_simps]: "mdr_frame (fst (fold (mdr_select ospf6 cm) js s)) = mdr_frame (fst s)"
  by (rule fold_frame [where F = "mdr_frame \<circ> fst", simplified])
    (simp add: mdr_select_def Let_def frame_simps split: prod.split)

lemma mdr_frame_no_neighbors [frame_simps]: "mdr_frame (mdr_no_neighbors oi) = mdr_frame oi"
  by (simp add: mdr_no_neighbors_def mdr_frame_def)

lemma mdr_frame_self_dependents [frame_simps]: "mdr_frame (mdr_self_dependents ospf6 cm js oi) = mdr_frame oi"
  by (induction js arbitrary: oi) (simp_all add: frame_simps)

lemma mdr_frame_self_largest [frame_simps]: "mdr_frame (mdr_self_largest ospf6 cm oi) = mdr_frame oi"
proof -
  have "mdr_frame (mdr_self_largest ospf6 cm oi) =
      mdr_frame (oi\<lparr>oi_mdr := (oi_mdr oi)\<lparr>im_mdr_level := OSPF6_MDR, im_nonflooding_mdr := False\<rparr>\<rparr>)"
    by (simp add: mdr_self_largest_def Let_def frame_simps)
  then show ?thesis by (simp add: mdr_frame_def)
qed

lemma mdr_frame_remove_tree [frame_simps]: "mdr_frame (remove_tree L oi) = mdr_frame oi"
  unfolding remove_tree_def by (rule fold_frame) (rule mdr_frame_nbr_mdr_update)

lemma mdr_frame_add_tree_node [frame_simps]: "mdr_frame (snd (add_tree_node u p s)) = mdr_frame (snd s)"
  by (simp add: add_tree_node_def Let_def frame_simps split: prod.split)

lemma mdr_frame_bfs_relax [frame_simps]: "mdr_frame (fst (snd (mdr_bfs_relax ospf6 cm k u s))) = mdr_frame (fst (snd s))"
  by (cases s) (simp add: mdr_bfs_relax_def add_tree_node_def Let_def frame_simps)

lemma mdr_frame_bfs_relax_fold [frame_simps]:
  "mdr_frame (fst (snd (fold (mdr_bfs_relax ospf6 cm k) us s))) = mdr_frame (fst (snd s))"
  by (rule fold_frame [where F = "mdr_frame \<circ> fst \<circ> snd", simplified]) (rule mdr_frame_bfs_relax)

lemma mdr_frame_bfs_loop [frame_simps]: "mdr_frame (fst (snd (mdr_bfs_loop ospf6 cm s))) = mdr_frame (fst (snd s))"
proof (induction ospf6 cm s rule: mdr_bfs_loop.induct)
  case (1 ospf6 cm tree oi q)
  show ?case
  proof (cases q)
    case (Cons k q')
    then show ?thesis using 1 [OF Cons]
      by (subst mdr_bfs_loop.simps) (simp add: frame_simps)
  qed (simp add: mdr_bfs_loop.simps)
qed

lemma mdr_frame_bfs [frame_simps]: "mdr_frame (snd (mdr_bfs ospf6 cm m oi)) = mdr_frame oi"
proof -
  obtain tree oi1 where 1: "add_tree_node m None ([], nbr_mdr_update m (nm_hops_update (\<lambda>_. 0)) oi) = (tree, oi1)"
    by fastforce
  have "mdr_frame oi1 = mdr_frame oi"
    using mdr_frame_add_tree_node [of m None "([], nbr_mdr_update m (nm_hops_update (\<lambda>_. 0)) oi)"]
    by (simp add: 1 frame_simps)
  then show ?thesis
    using mdr_frame_bfs_loop [of ospf6 cm "(set_sec_node (treenode_of oi1 m) None tree, oi1, [m])"]
    by (simp add: mdr_bfs_def Let_def 1 case_prod_beta)
qed

lemma mdr_frame_step26 [frame_simps]: "mdr_frame (snd (mdr_step26 ospf6 cm ks s)) = mdr_frame (snd s)"
proof (induction ks arbitrary: s)
  case (Cons k ks)
  then show ?case by (cases s) (simp add: frame_simps)
next
  case Nil
  show ?case by (cases s) simp
qed

lemma mdr_frame_phase2_end [frame_simps]: "mdr_frame (mdr_phase2_end m dr oi) = mdr_frame oi"
  by (simp add: mdr_phase2_end_def Let_def frame_simps)

lemma mdr_frame_phase3a [frame_simps]: "mdr_frame (mdr_phase3a ospf6 cm m tree v oi) = mdr_frame oi"
  by (simp add: mdr_phase3a_def frame_simps split: option.split)

lemma mdr_frame_process_links [frame_simps]: "mdr_frame (mdr_process_links ospf6 cm u v oi) = mdr_frame oi"
  by (simp add: mdr_process_links_def Let_def frame_simps)

lemma dfs_for_frame:
  assumes "\<And>t s s'. body t s = Some s' \<Longrightarrow> F s' = F s" and "dfs_for fuel L root body t s = Some s'"
  shows "F s' = F s"
  using assms(2)
proof (induction fuel arbitrary: t s)
  case (Suc fuel)
  show ?case
  proof (cases t)
    case (Some u)
    then obtain s1 t' where "body u s = Some s1" "dfs_for fuel L root body t' s1 = Some s'"
      using Suc.prems by (auto split: option.splits)
    then show ?thesis using Suc.IH assms(1) by metis
  qed (use Suc.prems in simp)
qed simp

lemma mdr_frame_label_node:
  assumes "mdr_label_node ospf6 cm m min_on tree oi = Some (tree', oi')"
  shows "mdr_frame oi' = mdr_frame oi"
proof -
  obtain tm tree1 root where "dfs_for (length tree1 + 1) tree1 root
      (\<lambda>tu. dfs_for (length tree1 + 1) tree1 tm (\<lambda>tv oi. Some (mdr_process_links ospf6 cm (tn_on (tree1 ! tu))
         (tn_on (tree1 ! tv)) oi)) (Some tm)) (Some root) oi = Some oi'"
    using assms by (fastforce simp: mdr_label_node_def Let_def split: option.splits)
  then show ?thesis
    by (rule dfs_for_frame [rotated]) (erule dfs_for_frame [rotated], auto simp: frame_simps)
qed

lemma mdr_frame_label_loop:
  assumes "mdr_label_loop fuel ospf6 cm m tree oi = Some (tree', oi')"
  shows "mdr_frame oi' = mdr_frame oi"
  using assms
proof (induction fuel arbitrary: tree oi)
  case (Suc fuel)
  show ?case
  proof (cases "mdr_find_min ospf6 cm tree oi")
    case (Some k)
    then obtain tree1 oi1 where "mdr_label_node ospf6 cm m k tree oi = Some (tree1, oi1)"
      "mdr_label_loop fuel ospf6 cm m tree1 oi1 = Some (tree', oi')"
      using Suc.prems by (auto split: option.splits)
    then show ?thesis using Suc.IH [of tree1 oi1] mdr_frame_label_node [of ospf6 cm m k tree oi tree1 oi1] by simp
  qed (use Suc.prems in simp)
qed simp

lemma mdr_frame_phase3_paths:
  assumes "mdr_phase3_paths ospf6 cm m tree oi = Some (tree', oi')"
  shows "mdr_frame oi' = mdr_frame oi"
proof -
  obtain fuel tree1 where "mdr_label_loop fuel ospf6 cm m tree1
      (fold (mdr_phase3a ospf6 cm m tree1) [0 ..< num_neigh oi] (set_hops2_0 m oi)) = Some (tree', oi')"
    using assms by (auto simp: mdr_phase3_paths_def Let_def simp del: mdr_label_loop.simps split: option.splits)
  from mdr_frame_label_loop [OF this] show ?thesis
    by (simp add: fold_frame [where F = mdr_frame, OF mdr_frame_phase3a] frame_simps)
qed

lemma mdr_frame_step33 [frame_simps]: "mdr_frame (snd (fold (mdr_step33 ospf6 cm dr) ks s)) = mdr_frame (snd s)"
  by (rule fold_frame [where F = "mdr_frame \<circ> snd", simplified])
    (simp add: mdr_step33_def frame_simps split: prod.split)

lemma mdr_frame_phase3_end [frame_simps]: "mdr_frame (mdr_phase3_end m dr bdr oi) = mdr_frame oi"
  by (simp add: mdr_phase3_end_def Let_def frame_simps)

lemma mdr_frame_parents [frame_simps]: "mdr_frame (mdr_parents dr bdr mx oi) = mdr_frame oi"
  by (simp add: mdr_parents_def Let_def mdr_frame_def)

lemma mdr_frame_flood_relax_fold [frame_simps]:
  "mdr_frame (fst (fold (mdr_flood_relax ospf6 cm k) us s)) = mdr_frame (fst s)"
  by (rule fold_frame [where F = "mdr_frame \<circ> fst", simplified])
    (simp add: mdr_flood_relax_def frame_simps split: prod.split)

lemma mdr_frame_flood_loop [frame_simps]: "mdr_frame (fst (mdr_flood_loop ospf6 cm s)) = mdr_frame (fst s)"
proof (induction ospf6 cm s rule: mdr_flood_loop.induct)
  case (1 ospf6 cm oi q)
  show ?case
  proof (cases q)
    case (Cons k q')
    then show ?thesis using 1 [OF Cons] by (subst mdr_flood_loop.simps) (simp add: frame_simps)
  qed (simp add: mdr_flood_loop.simps)
qed

lemma mdr_frame_nonflooding [frame_simps]: "mdr_frame (mdr_nonflooding ospf6 cm dr m oi) = mdr_frame oi"
proof -
  define oi1 where "oi1 = oi\<lparr>oi_mdr := (oi_mdr oi)\<lparr>im_nonflooding_mdr := False\<rparr>\<rparr>"
  define oi2 where "oi2 = nbr_mdr_update m (nm_hops_update (\<lambda>_. 0))
    (fold (\<lambda>j. nbr_mdr_update j (nm_hops_update (\<lambda>_. INFTY))) [0 ..< num_neigh oi1] oi1)"
  have 1: "mdr_frame oi1 = mdr_frame oi" by (simp add: oi1_def mdr_frame_def)
  have 2: "mdr_frame oi2 = mdr_frame oi1"
    by (simp add: oi2_def frame_simps fold_frame [where F = mdr_frame, OF mdr_frame_nbr_mdr_update])
  obtain oi3 q where 3: "mdr_flood_loop ospf6 cm (oi2, [m]) = (oi3, q)" by fastforce
  have "mdr_frame oi3 = mdr_frame oi2" using mdr_frame_flood_loop [of ospf6 cm "(oi2, [m])"] by (simp add: 3)
  moreover have "\<exists>f. mdr_nonflooding ospf6 cm dr m oi = (if dr then oi_mdr_update f oi3 else oi1)"
    by (auto simp: mdr_nonflooding_def Let_def oi1_def [symmetric] oi2_def [symmetric] 3)
  ultimately show ?thesis using 1 2 by (auto simp: frame_simps)
qed

lemma mdr_frame_main:
  assumes "mdr_main ospf6 cm mx m oi = Some oi'"
  shows "mdr_frame oi' = mdr_frame oi"
proof -
  obtain tree1 oi1 where 1: "mdr_bfs ospf6 cm m oi = (tree1, oi1)" by fastforce
  obtain dr oi2 where 2: "mdr_step26 ospf6 cm [0 ..< num_neigh oi1] (False, oi1) = (dr, oi2)" by fastforce
  obtain tree3 oi3 where 3: "mdr_phase3_paths ospf6 cm m tree1 (mdr_phase2_end m dr oi2) = Some (tree3, oi3)"
    using assms by (auto simp: mdr_main_def mdr_levels_def 1 2 Let_def split: option.splits)
  obtain bdr oi4 where 4: "fold (mdr_step33 ospf6 cm dr) [0 ..< num_neigh oi3] (False, oi3) = (bdr, oi4)" by fastforce
  have "mdr_frame oi1 = mdr_frame oi" using mdr_frame_bfs [of ospf6 cm m oi] by (simp add: 1)
  moreover have "mdr_frame oi2 = mdr_frame oi1"
    using mdr_frame_step26 [of ospf6 cm "[0 ..< num_neigh oi1]" "(False, oi1)"] by (simp add: 2)
  moreover have "mdr_frame oi3 = mdr_frame oi2" using mdr_frame_phase3_paths [OF 3] by (simp add: frame_simps)
  moreover have "mdr_frame oi4 = mdr_frame oi3"
    using mdr_frame_step33 [of ospf6 cm dr "[0 ..< num_neigh oi3]" "(False, oi3)"] by (simp add: 4)
  moreover have "mdr_frame oi' = mdr_frame oi4"
    using assms by (auto simp: mdr_main_def mdr_levels_def 1 2 3 4 Let_def ospf6_run_update_mdr_level_hooks_def frame_simps)
  ultimately show ?thesis by simp
qed

lemma ospf6_calculate_mdr_frame:
  assumes "ospf6_calculate_mdr now ospf6 oi = Some oi'"
  shows "mdr_frame oi' = mdr_frame oi"
proof -
  obtain cm oi1 where 1: "ospf6_mdr_create_cost_matrix oi = (cm, oi1)" by fastforce
  obtain oi2 mx where 2: "fold (mdr_select ospf6 cm) [0 ..< num_neigh oi1] (oi1, mdr_max_init) = (oi2, mx)" by fastforce
  have "mdr_frame oi1 = mdr_frame oi" using mdr_frame_cost_matrix [of oi] by (simp add: 1)
  moreover have "mdr_frame oi2 = mdr_frame oi1"
    using mdr_frame_select [of ospf6 cm "[0 ..< num_neigh oi1]" "(oi1, mdr_max_init)"] by (simp add: 2)
  ultimately have f: "mdr_frame oi2 = mdr_frame oi" by simp
  show ?thesis
    using assms f mdr_frame_main [of ospf6 cm mx _ oi2 oi']
    by (auto simp: ospf6_calculate_mdr_def 1 2 ospf6_run_update_mdr_level_hooks_def frame_simps
        split: if_splits option.splits)
qed

lemma ospf6_calculate_mdr_total:
  assumes "mdr_valid oi"
  shows "\<exists>oi'. ospf6_calculate_mdr now ospf6 oi = Some oi' \<and> mdr_frame oi' = mdr_frame oi \<and> mdr_valid oi'"
proof (cases "mdr_wait now ospf6 oi")
  case True
  then show ?thesis using assms by (simp add: ospf6_calculate_mdr_def)
next
  case False
  have kept: ?thesis if "ospf6_calculate_mdr now ospf6 oi = Some oi'" "mdr_kept oi oi'" for oi'
    using that(1) ospf6_calculate_mdr_frame [OF that(1)] mdr_valid_kept [OF assms that(2)] by simp
  show ?thesis
  proof (rule ospf6_calculate_mdr_cases [OF assms False])
  qed (erule (1) kept)+
qed

section \<open>The update of the LSA\<close>

definition nbr_lsa_frame :: "ospf6_neighbor \<Rightarrow> ospf6_neighbor" where
  "nbr_lsa_frame = on_mdr_update (\<lambda>m. m\<lparr>nm_cost_matrix_index := 0, nm_sel_adv := False, nm_adv := False,
     nm_routable := False\<rparr>)"

definition lsa_frame :: "ospf6_interface \<Rightarrow> ospf6_interface" where
  "lsa_frame oi = oi\<lparr>oi_effects := [], oi_neighbor_list := map nbr_lsa_frame (oi_neighbor_list oi)\<rparr>"

lemma lsa_frame_emit: "lsa_frame (emit e oi) = lsa_frame oi"
  by (simp add: lsa_frame_def emit_def)

lemma lsa_frame_routable:
  assumes "ospf6_mdr_update_routable_neighbors spf oi = (change, oi')"
  shows "lsa_frame oi' = lsa_frame oi"
proof -
  have "nbr_lsa_frame (snd (routable_step spf on)) = nbr_lsa_frame on" for on
    by (simp add: routable_step_def nbr_lsa_frame_def Let_def)
  then show ?thesis
    using assms by (auto simp: ospf6_mdr_update_routable_neighbors_def lsa_frame_def Let_def split: if_splits)
qed

lemma lsa_frame_finish:
  assumes "lsa_finish r oi = (orig, oi')" "map (\<lambda>x. nbr_lsa_frame (snd (snd x))) r = map nbr_lsa_frame (oi_neighbor_list oi)"
  shows "lsa_frame oi' = lsa_frame oi"
proof -
  have "nbr_lsa_frame (on_mdr_update (nm_adv_update f) on) = nbr_lsa_frame on" for f on
    by (simp add: nbr_lsa_frame_def)
  then show ?thesis
    using assms by (auto simp: lsa_finish_def lsa_frame_def Let_def o_def case_prod_beta' case_prod_unfold)
qed

lemma map2_upt: "length xs = n \<Longrightarrow> map2 f [0 ..< n] xs = map (\<lambda>i. f i (xs ! i)) [0 ..< n]"
  by (rule nth_equalityI) simp_all

lemma lsa_frame_cost_matrix:
  assumes "ospf6_mdr_create_cost_matrix oi = (cm, oi')"
  shows "lsa_frame oi' = lsa_frame oi"
proof -
  have "lsa_frame (nbr_mdr_update j (nm_cost_matrix_index_update f) oi) = lsa_frame oi" for j f oi
  proof -
    have "map nbr_lsa_frame ((oi_neighbor_list oi)[j := on_mdr_update (nm_cost_matrix_index_update f) (nbr oi j)]) =
        map nbr_lsa_frame (oi_neighbor_list oi)"
      by (rule map_list_update_same) (simp add: nbr_lsa_frame_def)
    then show ?thesis by (simp add: lsa_frame_def nbr_mdr_update_def nbr_update_def)
  qed
  then have "lsa_frame (cost_matrix_init oi) = lsa_frame oi"
    unfolding cost_matrix_init_def by (rule fold_frame)
  then show ?thesis using assms by (auto simp: ospf6_mdr_create_cost_matrix_def Let_def)
qed

lemma lsa_frame_full:
  assumes "ospf6_mdr_update_lsa_full oi = (orig, oi')"
  shows "lsa_frame oi' = lsa_frame oi"
  by (rule lsa_frame_finish [OF assms [unfolded ospf6_mdr_update_lsa_full_def]])
    (auto simp: map2_upt lsa_full_step_def nbr_lsa_frame_def Let_def intro!: nth_equalityI)

lemma lsa_frame_minimal:
  assumes "ospf6_mdr_update_lsa_minimal ospf6 oi = (orig, oi')"
  shows "lsa_frame oi' = lsa_frame oi"
  by (rule lsa_frame_finish [OF assms [unfolded ospf6_mdr_update_lsa_minimal_def]])
    (auto simp: map2_upt lsa_minimal_step_def nbr_lsa_frame_def Let_def intro!: nth_equalityI)

lemma lsa_frame_mincost:
  assumes "ospf6_mdr_update_lsa_mincost ospf6 oi = (orig, oi')"
  shows "lsa_frame oi' = lsa_frame oi"
proof -
  obtain cm oi1 where 1: "ospf6_mdr_create_cost_matrix oi = (cm, oi1)" by fastforce
  obtain adj san where 2: "ospf6_mdr_create_adj_san_matrices oi1 cm = (adj, san)" by fastforce
  have "lsa_finish (map (lsa_mincost_step ospf6 oi1 cm adj san) [0 ..< num_neigh oi1]) oi1 = (orig, oi')"
    using assms by (simp add: ospf6_mdr_update_lsa_mincost_def 1 2)
  then have "lsa_frame oi' = lsa_frame oi1"
    by (rule lsa_frame_finish) (auto simp: lsa_mincost_step_def nbr_lsa_frame_def Let_def intro!: nth_equalityI)
  then show ?thesis using lsa_frame_cost_matrix [OF 1] by simp
qed

lemma ospf6_mdr_update_lsa_frame: "lsa_frame (snd (ospf6_mdr_update_lsa ospf6 spf oi)) = lsa_frame oi"
proof -
  obtain change oi1 where 1: "ospf6_mdr_update_routable_neighbors spf oi = (change, oi1)" by fastforce
  obtain orig oi2 where 2: "(case im_LSAFullness (oi_mdr oi1) of
               OSPF6_LSA_FULLNESS_MINCOST \<Rightarrow> ospf6_mdr_update_lsa_mincost ospf6 oi1
             | OSPF6_LSA_FULLNESS_MINCOST2PATHS \<Rightarrow> ospf6_mdr_update_lsa_mincost ospf6 oi1
             | OSPF6_LSA_FULLNESS_MIN \<Rightarrow> ospf6_mdr_update_lsa_minimal ospf6 oi1
             | OSPF6_LSA_FULLNESS_FULL \<Rightarrow> ospf6_mdr_update_lsa_full oi1
             | OSPF6_LSA_FULLNESS_MDRFULL \<Rightarrow>
                 if im_mdr_level (oi_mdr oi1) = OSPF6_MDR then ospf6_mdr_update_lsa_full oi1
                 else ospf6_mdr_update_lsa_minimal ospf6 oi1) = (orig, oi2)" by fastforce
  have "lsa_frame oi2 = lsa_frame oi1"
    using 2 by (cases "im_LSAFullness (oi_mdr oi1)")
      (simp_all add: lsa_frame_mincost lsa_frame_minimal lsa_frame_full split: if_splits)
  moreover have "lsa_frame (snd (ospf6_mdr_update_lsa ospf6 spf oi)) = lsa_frame oi2"
    unfolding ospf6_mdr_update_lsa_def 1 prod.case Let_def 2 by (simp add: lsa_frame_emit)
  ultimately show ?thesis using lsa_frame_routable [OF 1] by simp
qed

lemma map_lsa_frame:
  assumes "map nbr_lsa_frame xs = map nbr_lsa_frame ys" "\<And>on. g (nbr_lsa_frame on) = g on"
  shows "map g xs = map g ys"
  using arg_cong [OF assms(1), of "map g"] by (simp add: o_def assms(2))

text \<open>The finer frame determines the coarser one, and what the calculation needs.\<close>

lemma lsa_frame_mdr:
  assumes "lsa_frame oi' = lsa_frame oi"
  shows "mdr_frame oi' = mdr_frame oi" "oi_mdr oi' = oi_mdr oi" "mdr_valid oi \<Longrightarrow> mdr_valid oi'"
proof -
  have l: "map nbr_lsa_frame (oi_neighbor_list oi') = map nbr_lsa_frame (oi_neighbor_list oi)"
    using arg_cong [OF assms, of oi_neighbor_list] by (simp add: lsa_frame_def)
  show m: "oi_mdr oi' = oi_mdr oi" using arg_cong [OF assms, of oi_mdr] by (simp add: lsa_frame_def)
  have f: "mdr_frame (lsa_frame x) = mdr_frame x" for x
    by (simp add: mdr_frame_def lsa_frame_def nbr_frame_def nbr_lsa_frame_def o_def)
  show "mdr_frame oi' = mdr_frame oi" using arg_cong [OF assms, of mdr_frame] by (simp add: f)
  have r: "map on_router_id (oi_neighbor_list oi') = map on_router_id (oi_neighbor_list oi)"
    by (rule map_lsa_frame [OF l]) (simp add: nbr_lsa_frame_def)
  have t: "map (\<lambda>on. nm_treenode (on_mdr on)) (oi_neighbor_list oi') = map (\<lambda>on. nm_treenode (on_mdr on)) (oi_neighbor_list oi)"
    by (rule map_lsa_frame [OF l]) (simp add: nbr_lsa_frame_def)
  have n: "num_neigh oi' = num_neigh oi" using map_eq_imp_length_eq [OF r] .
  show "mdr_valid oi'" if v: "mdr_valid oi"
  proof -
    have "on_router_id (nbr oi' j) \<noteq> 0 \<and> treenode_of oi' j = None" if "j < num_neigh oi" for j
      using arg_cong [OF r, of "\<lambda>xs. xs ! j"] arg_cong [OF t, of "\<lambda>xs. xs ! j"] that n mdr_valid_nth [OF v that] by simp
    then show ?thesis using v by (simp add: mdr_valid_def m r n all_set_conv_all_nth)
  qed
qed

end
