(* ===== verification/Neighbor.thy ===== *)
theory Neighbor
  imports Mdr_Frame
begin

text \<open>
  The neighbor state machine: \<open>ospf6_neighbor_state_change\<close> and the handlers of the neighbor events of
  \<^verbatim>\<open>src/ospf6d/ospf6_neighbor.c\<close>, \<open>ospf6_mdr_neighbor_state_change\<close> and \<open>ospf6_mdr_neighbor_delete\<close> of
  \<^verbatim>\<open>ospf6_mdr_neighbor.c\<close>, \<open>ospf6_update_adjacencies\<close> of \<^verbatim>\<open>ospf6_mdr_interface.c\<close>, the retransmission
  counts of \<^verbatim>\<open>ospf6_flood.c\<close> and \<open>ospf6_schedule_immediate_hello\<close> of \<^verbatim>\<open>ospf6_message.c\<close>.

  The state is the interface together with the databases of its area and of the process. A neighbor
  is given by its position in the neighbor list, which no handler but \<open>inactivity_timer\<close> changes. A
  failed assertion and a null pointer that is followed are \<^term>\<open>None\<close>. Scheduled threads are recorded in
  their fields; events without a field, LSA origination and the registered hooks of the neighbor
  operations are recorded as effects.
\<close>

unbundle bit_operations_syntax

section \<open>The state\<close>

text \<open>What a handler reads besides the state: the time, the process, the router IDs with a route in the
  SPF tree, and whether a registered operation refuses a new neighbor.\<close>
record nbr_env =
  ne_now :: timeval
  ne_ospf6 :: ospf6
  ne_spf :: "rid list"
  ne_create_fails :: "rid \<Rightarrow> bool"

record world =
  w_oi :: ospf6_interface
  w_area_lsdb :: lsdb
  w_as_lsdb :: lsdb

abbreviation w_nbr :: "world \<Rightarrow> nat \<Rightarrow> ospf6_neighbor" where
  "w_nbr w j \<equiv> nbr (w_oi w) j"

abbreviation w_num :: "world \<Rightarrow> nat" where
  "w_num w \<equiv> num_neigh (w_oi w)"

definition w_nbr_update :: "nat \<Rightarrow> (ospf6_neighbor \<Rightarrow> ospf6_neighbor) \<Rightarrow> world \<Rightarrow> world" where
  "w_nbr_update j f w = w\<lparr>w_oi := nbr_update j f (w_oi w)\<rparr>"

definition w_emit :: "effect \<Rightarrow> world \<Rightarrow> world" where
  "w_emit e w = w\<lparr>w_oi := emit e (w_oi w)\<rparr>"

text \<open>A loop whose body may abort.\<close>
fun for_each :: "('a \<Rightarrow> 's \<Rightarrow> 's option) \<Rightarrow> 'a list \<Rightarrow> 's \<Rightarrow> 's option" where
  "for_each f [] s = Some s"
| "for_each f (x # xs) s = Option.bind (f x s) (for_each f xs)"

section \<open>Retransmission counts\<close>

text \<open>The database that holds the originals: the one of the scope of the LSA, which its back pointer
  leads to. \<^term>\<open>None\<close> if the back pointer is null or does not lead to the structure of that scope.\<close>
definition ospf6_get_scoped_lsdb :: "ospf6_lsa \<Rightarrow> world \<Rightarrow> lsdb option" where
  "ospf6_get_scoped_lsdb lsa w =
     (case OSPF6_LSA_SCOPE (h_type (lsa_header lsa)) of
        OSPF6_SCOPE_LINKLOCAL \<Rightarrow>
          if lsa_lsdb lsa = Some (LsdbInterface (oi_ifindex (w_oi w))) then Some (oi_lsdb (w_oi w)) else None
      | OSPF6_SCOPE_AREA \<Rightarrow>
          if lsa_lsdb lsa = Some (LsdbArea (oi_area_id (w_oi w))) then Some (w_area_lsdb w) else None
      | OSPF6_SCOPE_AS \<Rightarrow> if lsa_lsdb lsa = Some LsdbProcess then Some (w_as_lsdb w) else None
      | OSPF6_SCOPE_RESERVED \<Rightarrow> None)"

text \<open>The database of a scope changes.\<close>
definition w_scoped_lsdb_update :: "lsa_scope \<Rightarrow> (lsdb \<Rightarrow> lsdb) \<Rightarrow> world \<Rightarrow> world" where
  "w_scoped_lsdb_update scope f w =
     (if scope = OSPF6_SCOPE_LINKLOCAL then w\<lparr>w_oi := oi_lsdb_update f (w_oi w)\<rparr>
      else if scope = OSPF6_SCOPE_AREA then w_area_lsdb_update f w
      else w_as_lsdb_update f w)"

text \<open>An LSA of a database is written in place.\<close>
definition lsdb_modify :: "lsa_key \<Rightarrow> (ospf6_lsa \<Rightarrow> ospf6_lsa) \<Rightarrow> lsdb \<Rightarrow> lsdb" where
  "lsdb_modify k f db = map (\<lambda>l. if lsa_key l = k then f l else l) db"

definition ospf6_increment_retrans_count :: "ospf6_lsa \<Rightarrow> ospf6_lsa" where
  "ospf6_increment_retrans_count lsa = lsa\<lparr>lsa_retrans_count := lsa_retrans_count lsa + 1\<rparr>"

definition ospf6_decrement_retrans_count :: "ospf6_lsa \<Rightarrow> world \<Rightarrow> world option" where
  "ospf6_decrement_retrans_count lsa w =
     (let h = lsa_header lsa in
      case ospf6_get_scoped_lsdb lsa w of
        None \<Rightarrow> None
      | Some lsdb \<Rightarrow>
          (case ospf6_lsdb_lookup (h_type h) (h_id h) (h_adv_router h) lsdb of
             None \<Rightarrow> Some w
           | Some orig \<Rightarrow>
               if lsa_retrans_count orig - 1 \<ge> 0
               then Some (w_scoped_lsdb_update (OSPF6_LSA_SCOPE (h_type h))
                      (lsdb_modify (lsa_key lsa) (\<lambda>l. l\<lparr>lsa_retrans_count := lsa_retrans_count l - 1\<rparr>)) w)
               else None))"

text \<open>The loop that empties a retransmission list. The iteration goes along the links of the LSAs, which
  it keeps locked; so it visits what was in the list at its start.\<close>
definition retrans_remove :: "ospf6_lsa \<Rightarrow> lsdb \<times> world \<Rightarrow> (lsdb \<times> world) option" where
  "retrans_remove lsa = (\<lambda>(retrans, w).
     Option.bind (ospf6_decrement_retrans_count lsa w) (\<lambda>w.
     Option.bind (nbr_list_remove lsa retrans) (\<lambda>retrans. Some (retrans, w))))"

definition retrans_clear :: "lsdb \<Rightarrow> world \<Rightarrow> (lsdb \<times> world) option" where
  "retrans_clear retrans w = for_each retrans_remove retrans (retrans, w)"

text \<open>Clear the LS lists of a neighbor.\<close>
definition clear_ls_lists :: "nat \<Rightarrow> world \<Rightarrow> world option" where
  "clear_ls_lists j w =
     (let w = w_nbr_update j (\<lambda>on. on\<lparr>on_summary_list := snd (ospf6_lsdb_remove_all no_hooks (on_summary_list on))\<rparr>) w;
          w = w_nbr_update j (\<lambda>on. on\<lparr>on_request_list := snd (ospf6_lsdb_remove_all no_hooks (on_request_list on))\<rparr>) w
      in Option.bind (retrans_clear (on_retrans_list (w_nbr w j)) w) (\<lambda>(retrans, w).
         Some (w_nbr_update j (on_retrans_list_update (\<lambda>_. retrans)) w)))"

section \<open>Changes of state\<close>

text \<open>Neighbors with a partial adjacency; an \<^verbatim>\<open>unsigned int\<close>.\<close>
definition ospf6_interface_adjacency_formation_count :: "ospf6_interface \<Rightarrow> u32" where
  "ospf6_interface_adjacency_formation_count oi =
     of_nat (length (filter (\<lambda>on. on_state on > OSPF6_NEIGHBOR_TWOWAY \<and> on_state on < OSPF6_NEIGHBOR_FULL)
       (oi_neighbor_list oi)))"

text \<open>
  The functions from here to \<open>state_change_body\<close> call each other recursively through
  \<open>ospf6_neighbor_state_change\<close>; its recursive call is the argument \<open>sc\<close>.
\<close>
type_synonym state_change_fun = "nbr_state \<Rightarrow> nat \<Rightarrow> world \<Rightarrow> world option"

abbreviation (input) OSPF6_DBDESC_MSBIT :: u8 where "OSPF6_DBDESC_MSBIT \<equiv> 0x01"
abbreviation (input) OSPF6_DBDESC_MBIT :: u8 where "OSPF6_DBDESC_MBIT \<equiv> 0x02"
abbreviation (input) OSPF6_DBDESC_IBIT :: u8 where "OSPF6_DBDESC_IBIT \<equiv> 0x04"

definition exstart_from :: "state_change_fun \<Rightarrow> nat \<Rightarrow> u32 \<Rightarrow> world \<Rightarrow> world option" where
  "exstart_from sc j dbdesc_seqnum w =
     Option.bind (sc OSPF6_NEIGHBOR_EXSTART j w) (\<lambda>w.
     Some (w_nbr_update j (\<lambda>on.
       on\<lparr>on_dbdesc_bits := SET_FLAG (SET_FLAG (SET_FLAG (on_dbdesc_bits on) OSPF6_DBDESC_MSBIT)
                             OSPF6_DBDESC_MBIT) OSPF6_DBDESC_IBIT,
          on_dbdesc_seqnum := dbdesc_seqnum,
          on_thread_send_dbdesc := Some 0\<rparr>) w))"

definition exstart :: "state_change_fun \<Rightarrow> nbr_env \<Rightarrow> nat \<Rightarrow> world \<Rightarrow> world option" where
  "exstart sc env j w =
     (let oi = w_oi w in
      if oi_adjacency_formation_limit oi > 0 \<and>
         ospf6_interface_adjacency_formation_count oi \<ge> oi_adjacency_formation_limit oi
      then Some w
      else exstart_from sc j (word_of_int (tv_sec (ne_now env))) w)"

text \<open>The two loops of \<open>ospf6_update_adjacencies\<close>.\<close>
definition adjacencies_form :: "state_change_fun \<Rightarrow> nbr_env \<Rightarrow> nat \<Rightarrow> world \<Rightarrow> world option" where
  "adjacencies_form sc env j w =
     (if on_state (w_nbr w j) = OSPF6_NEIGHBOR_TWOWAY \<and> need_adjacency (w_oi w) (w_nbr w j)
      then exstart sc env j w else Some w)"

definition adjacencies_drop :: "state_change_fun \<Rightarrow> nat \<Rightarrow> world \<Rightarrow> world option" where
  "adjacencies_drop sc j w =
     (if on_state (w_nbr w j) > OSPF6_NEIGHBOR_TWOWAY \<and> \<not> keep_adjacency (w_oi w) (w_nbr w j)
      then Option.bind (sc OSPF6_NEIGHBOR_TWOWAY j w) (clear_ls_lists j) else Some w)"

definition update_adjacencies :: "state_change_fun \<Rightarrow> nbr_env \<Rightarrow> world \<Rightarrow> world option" where
  "update_adjacencies sc env w =
     Option.bind (for_each (adjacencies_form sc env) [0 ..< w_num w] w) (\<lambda>w.
     for_each (adjacencies_drop sc) [0 ..< w_num w] w)"

definition w_update_lsa :: "nbr_env \<Rightarrow> world \<Rightarrow> world" where
  "w_update_lsa env w = w\<lparr>w_oi := snd (ospf6_mdr_update_lsa (ne_ospf6 env) (ne_spf env) (w_oi w))\<rparr>"

definition mdr_neighbor_state_change ::
    "state_change_fun \<Rightarrow> nbr_env \<Rightarrow> nbr_state \<Rightarrow> nbr_state \<Rightarrow> world \<Rightarrow> world option" where
  "mdr_neighbor_state_change sc env prev_state next_state w =
     (if prev_state \<ge> OSPF6_NEIGHBOR_TWOWAY \<and> next_state < OSPF6_NEIGHBOR_TWOWAY then
        Option.bind (ospf6_calculate_mdr (ne_now env) (ne_ospf6 env) (w_oi w)) (\<lambda>oi.
        Option.bind (update_adjacencies sc env (w\<lparr>w_oi := oi\<rparr>)) (\<lambda>w.
        Some (w_update_lsa env w)))
      else if prev_state < OSPF6_NEIGHBOR_TWOWAY \<and> next_state \<ge> OSPF6_NEIGHBOR_TWOWAY \<or>
              next_state = OSPF6_NEIGHBOR_FULL
      then Some (w_update_lsa env w)
      else Some w)"

text \<open>What interfaces of the other types schedule.\<close>
definition full_schedule :: "nbr_state \<Rightarrow> nbr_state \<Rightarrow> world \<Rightarrow> world" where
  "full_schedule prev_state next_state w =
     (if prev_state = OSPF6_NEIGHBOR_FULL \<or> next_state = OSPF6_NEIGHBOR_FULL then
        let w = w_emit RouterLsaSchedule w;
            w = (if oi_state (w_oi w) = OSPF6_INTERFACE_DR
                 then w_emit IntraPrefixTransitSchedule (w_emit NetworkLsaSchedule w) else w)
        in w_emit IntraPrefixStubSchedule w
      else w)"

text \<open>The first part: the fields that are set before other components are called.\<close>
definition state_set :: "nbr_env \<Rightarrow> nbr_state \<Rightarrow> nat \<Rightarrow> world \<Rightarrow> world" where
  "state_set env next_state j w =
     (let prev_state = on_state (w_nbr w j);
          w = w_nbr_update j (\<lambda>on. on\<lparr>on_state := next_state, on_last_changed := ne_now env\<rparr>) w;
          oi = w_oi w in
      if oi_allow_immediate_hello oi \<and> oi_immediate_hello_delay oi > 0 \<and>
         prev_state < OSPF6_NEIGHBOR_TWOWAY \<and> next_state > prev_state
      then w\<lparr>w_oi := oi\<lparr>oi_immediate_hello_delay := 0\<rparr>\<rparr> else w)"

text \<open>The last part: a waiting neighbor starts to form an adjacency.\<close>
definition formation_next :: "state_change_fun \<Rightarrow> nbr_env \<Rightarrow> nbr_state \<Rightarrow> world \<Rightarrow> world option" where
  "formation_next sc env next_state w =
     (let oi = w_oi w in
      if oi_adjacency_formation_limit oi > 0 \<and> next_state = OSPF6_NEIGHBOR_FULL \<and>
         ospf6_interface_adjacency_formation_count oi < oi_adjacency_formation_limit oi
      then case List.find (\<lambda>j. on_state (nbr oi j) = OSPF6_NEIGHBOR_TWOWAY \<and> need_adjacency oi (nbr oi j))
                  [0 ..< num_neigh oi] of
             None \<Rightarrow> Some w
           | Some on2 \<Rightarrow> exstart sc env on2 w
      else Some w)"

definition state_change_body :: "state_change_fun \<Rightarrow> nbr_env \<Rightarrow> state_change_fun" where
  "state_change_body sc env next_state j w =
     (let prev_state = on_state (w_nbr w j) in
      if prev_state = next_state then Some w
      else
        let w = state_set env next_state j w in
        Option.bind (if oi_type (w_oi w) = OSPF6_IFTYPE_MDR
                     then mdr_neighbor_state_change sc env prev_state next_state w
                     else Some (full_schedule prev_state next_state w)) (\<lambda>w.
        let w = (if (prev_state = OSPF6_NEIGHBOR_EXCHANGE \<or> prev_state = OSPF6_NEIGHBOR_LOADING) \<and>
                    next_state \<noteq> OSPF6_NEIGHBOR_EXCHANGE \<and> next_state \<noteq> OSPF6_NEIGHBOR_LOADING
                 then w_emit MaxageRemove w else w);
            w = w_emit (NeighborStateHooks (on_router_id (w_nbr w j)) prev_state next_state) w
        in formation_next sc env next_state w))"

text \<open>The depth of the recursion is bounded by fuel; two calls are enough (property \<open>state_change_depth\<close>).\<close>
primrec state_change :: "nat \<Rightarrow> nbr_env \<Rightarrow> state_change_fun" where
  "state_change 0 env = (\<lambda>next_state j w. None)"
| "state_change (Suc n) env = state_change_body (state_change n env) env"

definition ospf6_neighbor_state_change :: "nbr_env \<Rightarrow> state_change_fun" where
  "ospf6_neighbor_state_change env = state_change 2 env"

abbreviation ospf6_neighbor_exstart :: "nbr_env \<Rightarrow> nat \<Rightarrow> world \<Rightarrow> world option" where
  "ospf6_neighbor_exstart env \<equiv> exstart (ospf6_neighbor_state_change env) env"

abbreviation ospf6_update_adjacencies :: "nbr_env \<Rightarrow> world \<Rightarrow> world option" where
  "ospf6_update_adjacencies env \<equiv> update_adjacencies (ospf6_neighbor_state_change env) env"

section \<open>Events\<close>

text \<open>The delay is an \<^verbatim>\<open>unsigned int\<close>.\<close>
definition ospf6_neighbor_schedule_inactivity :: "nat \<Rightarrow> world \<Rightarrow> world" where
  "ospf6_neighbor_schedule_inactivity j w =
     (let msec = 1000 * ucast (oi_dead_interval (w_oi w)) + 100 :: u32
      in w_nbr_update j (on_inactivity_timer_update (\<lambda>_. Some (uint msec))) w)"

definition ospf6_schedule_immediate_hello :: "timeval \<Rightarrow> ospf6_interface \<Rightarrow> ospf6_interface option" where
  "ospf6_schedule_immediate_hello now oi =
     (if \<not> oi_allow_immediate_hello oi then None
      else if \<not> oi_initial_immediate_hello_delay oi > 0 then None
      else
        let delay = (if oi_immediate_hello_delay oi = 0 then oi_initial_immediate_hello_delay oi
                     else push_bit 2 (oi_immediate_hello_delay oi));
            max_msec = 1000 * ucast (oi_hello_interval oi) :: u32;
            max_msec = (if tv_sec (oi_last_hello_time oi) \<noteq> 0 \<or> tv_usec (oi_last_hello_time oi) \<noteq> 0
                        then word_of_int (uint max_msec - timersub_msec now (oi_last_hello_time oi)) else max_msec);
            msec = (if delay < max_msec then delay else max_msec)
        in Some (oi\<lparr>oi_immediate_hello_delay := delay, oi_thread_send_hello := Some (uint msec)\<rparr>))"

definition hello_received :: "nbr_env \<Rightarrow> nat \<Rightarrow> world \<Rightarrow> world option" where
  "hello_received env j w =
     (let w = ospf6_neighbor_schedule_inactivity j w in
      Option.bind (if oi_allow_immediate_hello (w_oi w) \<and> on_state (w_nbr w j) < OSPF6_NEIGHBOR_TWOWAY
                   then map_option (\<lambda>oi. w\<lparr>w_oi := oi\<rparr>) (ospf6_schedule_immediate_hello (ne_now env) (w_oi w))
                   else Some w) (\<lambda>w.
      if on_state (w_nbr w j) \<le> OSPF6_NEIGHBOR_DOWN \<and>
         (oi_type (w_oi w) \<noteq> OSPF6_IFTYPE_MDR \<or>
          nm_consec_hellos (on_mdr (w_nbr w j)) \<ge> im_consec_hello_threshold (oi_mdr (w_oi w)))
      then ospf6_neighbor_state_change env OSPF6_NEIGHBOR_INIT j w
      else Some w))"

definition twoway_received :: "nbr_env \<Rightarrow> nat \<Rightarrow> world \<Rightarrow> world option" where
  "twoway_received env j w =
     (if on_state (w_nbr w j) > OSPF6_NEIGHBOR_INIT then Some w
      else
        let w = w_emit NeighborChange w in
        if oi_type (w_oi w) = OSPF6_IFTYPE_MDR then
          if on_state (w_nbr w j) = OSPF6_NEIGHBOR_INIT
          then ospf6_neighbor_state_change env OSPF6_NEIGHBOR_TWOWAY j w else Some w
        else if \<not> need_adjacency (w_oi w) (w_nbr w j)
        then ospf6_neighbor_state_change env OSPF6_NEIGHBOR_TWOWAY j w
        else ospf6_neighbor_exstart env j w)"

text \<open>One LSA of a database when the database exchange begins: the LSA of the database, and the two
  lists of the neighbor.\<close>
definition negotiation_step :: "timeval \<Rightarrow> ospf6_lsa \<Rightarrow> lsdb \<times> lsdb \<times> lsdb \<Rightarrow> (lsdb \<times> lsdb \<times> lsdb) option" where
  "negotiation_step now lsa = (\<lambda>(db, summary, retrans).
     let maxage = OSPF6_LSA_IS_MAXAGE now lsa;
         lsa = snd (ospf6_lsa_age_current now lsa) in
     if maxage then
       Option.bind (ospf6_lsa_copy now (ospf6_increment_retrans_count (lsa\<lparr>lsa_rxmt_time := now\<rparr>))) (\<lambda>(copy, lsa).
       Option.bind (nbr_list_add now copy retrans) (\<lambda>retrans. Some (db @ [lsa], summary, retrans)))
     else
       Option.bind (ospf6_lsa_copy now lsa) (\<lambda>(copy, lsa).
       Option.bind (nbr_list_add now copy summary) (\<lambda>summary. Some (db @ [lsa], summary, retrans))))"

definition negotiation_scope :: "timeval \<Rightarrow> lsdb \<Rightarrow> lsdb \<times> lsdb \<Rightarrow> (lsdb \<times> lsdb \<times> lsdb) option" where
  "negotiation_scope now db = (\<lambda>(summary, retrans). for_each (negotiation_step now) db ([], summary, retrans))"

definition negotiation_done :: "nbr_env \<Rightarrow> nat \<Rightarrow> world \<Rightarrow> world option" where
  "negotiation_done env j w =
     (if on_state (w_nbr w j) \<noteq> OSPF6_NEIGHBOR_EXSTART then Some w
      else
        let now = ne_now env in
        Option.bind (clear_ls_lists j w) (\<lambda>w.
        Option.bind (negotiation_scope now (oi_lsdb (w_oi w)) (on_summary_list (w_nbr w j), on_retrans_list (w_nbr w j)))
          (\<lambda>(oi_db, lists).
        Option.bind (negotiation_scope now (w_area_lsdb w) lists) (\<lambda>(area_db, lists).
        Option.bind (negotiation_scope now (w_as_lsdb w) lists) (\<lambda>(as_db, summary, retrans).
        let w = w\<lparr>w_oi := (w_oi w)\<lparr>oi_lsdb := oi_db\<rparr>, w_area_lsdb := area_db, w_as_lsdb := as_db\<rparr>;
            w = w_nbr_update j (\<lambda>on. on\<lparr>on_summary_list := summary, on_retrans_list := retrans,
                  on_dbdesc_bits := on_dbdesc_bits on AND NOT OSPF6_DBDESC_IBIT\<rparr>) w
        in ospf6_neighbor_state_change env OSPF6_NEIGHBOR_EXCHANGE j w)))))"

definition exchange_done :: "nbr_env \<Rightarrow> nat \<Rightarrow> world \<Rightarrow> world option" where
  "exchange_done env j w =
     (if on_state (w_nbr w j) \<noteq> OSPF6_NEIGHBOR_EXCHANGE then Some w
      else
        let w = w_nbr_update j (\<lambda>on. on\<lparr>on_thread_send_dbdesc := None,
                  on_dbdesc_list := snd (ospf6_lsdb_remove_all no_hooks (on_dbdesc_list on))\<rparr>) w in
        if length (on_request_list (w_nbr w j)) = 0
        then ospf6_neighbor_state_change env OSPF6_NEIGHBOR_FULL j w
        else ospf6_neighbor_state_change env OSPF6_NEIGHBOR_LOADING j w)"

definition loading_done :: "nbr_env \<Rightarrow> nat \<Rightarrow> world \<Rightarrow> world option" where
  "loading_done env j w =
     (if on_state (w_nbr w j) \<noteq> OSPF6_NEIGHBOR_LOADING then Some w
      else if length (on_request_list (w_nbr w j)) \<noteq> 0 then None
      else ospf6_neighbor_state_change env OSPF6_NEIGHBOR_FULL j w)"

definition adj_ok :: "nbr_env \<Rightarrow> nat \<Rightarrow> world \<Rightarrow> world option" where
  "adj_ok env j w =
     (let w = w_nbr_update j (on_thread_adjok_update (\<lambda>_. None)) w in
      if on_state (w_nbr w j) = OSPF6_NEIGHBOR_TWOWAY \<and> need_adjacency (w_oi w) (w_nbr w j)
      then ospf6_neighbor_exstart env j w
      else if on_state (w_nbr w j) \<ge> OSPF6_NEIGHBOR_EXSTART \<and> \<not> need_adjacency (w_oi w) (w_nbr w j)
      then Option.bind (ospf6_neighbor_state_change env OSPF6_NEIGHBOR_TWOWAY j w) (clear_ls_lists j)
      else Some w)"

definition ospf6_neighbor_schedule_adjok :: "nat \<Rightarrow> world \<Rightarrow> world" where
  "ospf6_neighbor_schedule_adjok j w =
     (if on_thread_adjok (w_nbr w j) = None then w_nbr_update j (on_thread_adjok_update (\<lambda>_. Some 0)) w else w)"

definition seqnumber_mismatch :: "nbr_env \<Rightarrow> nat \<Rightarrow> world \<Rightarrow> world option" where
  "seqnumber_mismatch env j w =
     (if on_state (w_nbr w j) < OSPF6_NEIGHBOR_EXCHANGE then Some w
      else Option.bind (clear_ls_lists j w) (\<lambda>w.
           exstart_from (ospf6_neighbor_state_change env) j (on_dbdesc_seqnum (w_nbr w j) + 1) w))"

definition bad_lsreq :: "nbr_env \<Rightarrow> nat \<Rightarrow> world \<Rightarrow> world option" where
  "bad_lsreq env j w =
     (if on_state (w_nbr w j) < OSPF6_NEIGHBOR_EXCHANGE then Some w
      else Option.bind (clear_ls_lists j w) (\<lambda>w.
           exstart_from (ospf6_neighbor_state_change env) j (on_dbdesc_seqnum (w_nbr w j) + 1) w))"

definition oneway_received :: "nbr_env \<Rightarrow> nat \<Rightarrow> world \<Rightarrow> world option" where
  "oneway_received env j w =
     (if on_state (w_nbr w j) < OSPF6_NEIGHBOR_TWOWAY then Some w
      else
        Option.bind (ospf6_neighbor_state_change env OSPF6_NEIGHBOR_INIT j w) (\<lambda>w.
        Option.bind (clear_ls_lists j (w_emit NeighborChange w)) (\<lambda>w.
        Some (w_nbr_update j (\<lambda>on. on\<lparr>on_thread_send_dbdesc := None, on_thread_send_lsreq := None,
                on_thread_send_lsupdate := None, on_thread_send_lsack := None\<rparr>) w))))"

text \<open>The rest of \<open>ospf6_neighbor_delete\<close> after its change of state, which does nothing for a neighbor
  that is Down. The neighbor is in no list any more and its memory is freed.\<close>
definition ospf6_mdr_neighbor_delete :: "ospf6_neighbor \<Rightarrow> world \<Rightarrow> world" where
  "ospf6_mdr_neighbor_delete on w =
     (if oi_type (w_oi w) = OSPF6_IFTYPE_MDR
      then w\<lparr>w_oi := ospf6_mdr_add_lnl_element (on_router_id on) (w_oi w)\<rparr> else w)"

definition neighbor_free :: "ospf6_neighbor \<Rightarrow> world \<Rightarrow> world option" where
  "neighbor_free on w =
     Option.bind (retrans_clear (on_retrans_list on) w) (\<lambda>(retrans, w).
     Some (w_emit (DeleteNeighborHooks (on_router_id on)) (ospf6_mdr_neighbor_delete on w)))"

definition inactivity_timer :: "nbr_env \<Rightarrow> nat \<Rightarrow> world \<Rightarrow> world option" where
  "inactivity_timer env j w =
     (let w = w_nbr_update j (\<lambda>on. on\<lparr>on_inactivity_timer := None, on_drouter := 0, on_prev_drouter := 0,
                on_bdrouter := 0, on_prev_bdrouter := 0\<rparr>) w in
      Option.bind (ospf6_neighbor_state_change env OSPF6_NEIGHBOR_DOWN j w) (\<lambda>w.
      let w = w_emit NeighborChange w;
          on = w_nbr w j;
          oi = w_oi w;
          w = w\<lparr>w_oi := oi\<lparr>oi_neighbor_list := take j (oi_neighbor_list oi) @ drop (Suc j) (oi_neighbor_list oi)\<rparr>\<rparr>
      in neighbor_free on w))"

text \<open>A registered operation may refuse the neighbor, which is deleted again then. The result says
  whether there is a new neighbor.\<close>
definition ospf6_neighbor_create :: "nbr_env \<Rightarrow> rid \<Rightarrow> world \<Rightarrow> (bool \<times> world) option" where
  "ospf6_neighbor_create env router_id w =
     (let on = neighbor_alloc (ne_now env) router_id (w_oi w);
          (on, oi) = ospf6_mdr_neighbor_create on (w_oi w);
          w = w\<lparr>w_oi := oi\<rparr> in
      if ne_create_fails env router_id
      then map_option (Pair False) (neighbor_free on w)
      else Some (True, w\<lparr>w_oi := oi\<lparr>oi_neighbor_list := listnode_add_sort ospf6_neighbor_cmp (oi_neighbor_list oi) on\<rparr>\<rparr>))"

end
