(* ===== verification/Neighbor_Retrans.thy ===== *)
theory Neighbor_Retrans
  imports Neighbor
begin

text \<open>
  The retransmission lists and their counts: every LSA of a database counts at least as many
  retransmissions as there are neighbors of the interface with a copy of it in their retransmission
  list. So the assertion in \<open>ospf6_decrement_retrans_count\<close> never fails when the LS lists of a
  neighbor are cleared.
\<close>

section \<open>Access\<close>

lemma w_nbr_update_fields [simp]:
  "w_num (w_nbr_update j f w) = w_num w" "w_area_lsdb (w_nbr_update j f w) = w_area_lsdb w"
  "w_as_lsdb (w_nbr_update j f w) = w_as_lsdb w" "oi_lsdb (w_oi (w_nbr_update j f w)) = oi_lsdb (w_oi w)"
  "oi_mdr (w_oi (w_nbr_update j f w)) = oi_mdr (w_oi w)" "oi_type (w_oi (w_nbr_update j f w)) = oi_type (w_oi w)"
  "oi_ifindex (w_oi (w_nbr_update j f w)) = oi_ifindex (w_oi w)"
  "oi_area_id (w_oi (w_nbr_update j f w)) = oi_area_id (w_oi w)"
  by (simp_all add: w_nbr_update_def nbr_update_def)

lemma w_nbr_w_nbr_update [simp]:
  "k < w_num w \<Longrightarrow> w_nbr (w_nbr_update j f w) k = (if j = k then f (w_nbr w k) else w_nbr w k)"
  by (simp add: w_nbr_update_def)

lemma w_emit_fields [simp]:
  "oi_neighbor_list (w_oi (w_emit e w)) = oi_neighbor_list (w_oi w)" "w_area_lsdb (w_emit e w) = w_area_lsdb w"
  "w_as_lsdb (w_emit e w) = w_as_lsdb w" "oi_lsdb (w_oi (w_emit e w)) = oi_lsdb (w_oi w)"
  "oi_mdr (w_oi (w_emit e w)) = oi_mdr (w_oi w)" "oi_type (w_oi (w_emit e w)) = oi_type (w_oi w)"
  "oi_ifindex (w_oi (w_emit e w)) = oi_ifindex (w_oi w)" "oi_area_id (w_oi (w_emit e w)) = oi_area_id (w_oi w)"
  by (simp_all add: w_emit_def emit_def)

lemma for_each_append: "for_each f (xs @ ys) s = Option.bind (for_each f xs s) (for_each f ys)"
  by (induction xs arbitrary: s) (simp_all add: Option.bind_assoc cong: Option.bind_cong)

section \<open>The invariant of the databases\<close>

definition lsa_home_ok :: "world \<Rightarrow> ospf6_lsa \<Rightarrow> bool" where
  "lsa_home_ok w lsa \<longleftrightarrow> ospf6_get_scoped_lsdb lsa w \<noteq> None"

definition db_ok :: "world \<Rightarrow> lsa_scope \<Rightarrow> lsdb \<Rightarrow> bool" where
  "db_ok w scope db \<longleftrightarrow> lsdb_sorted db \<and>
     (\<forall>l \<in> set db. OSPF6_LSA_SCOPE (h_type (lsa_header l)) = scope \<and> lsa_home_ok w l \<and> lsa_wf l)"

definition dbs_ok :: "world \<Rightarrow> bool" where
  "dbs_ok w \<longleftrightarrow> db_ok w OSPF6_SCOPE_LINKLOCAL (oi_lsdb (w_oi w)) \<and> db_ok w OSPF6_SCOPE_AREA (w_area_lsdb w) \<and>
     db_ok w OSPF6_SCOPE_AS (w_as_lsdb w)"

definition w_lsas :: "world \<Rightarrow> ospf6_lsa set" where
  "w_lsas w = set (oi_lsdb (w_oi w)) \<union> set (w_area_lsdb w) \<union> set (w_as_lsdb w)"

abbreviation lsdb_keys :: "lsdb \<Rightarrow> lsa_key set" where
  "lsdb_keys db \<equiv> lsa_key ` set db"

text \<open>Each LSA counts at least the given number of references.\<close>
definition counts_ok :: "(lsa_key \<Rightarrow> nat) \<Rightarrow> world \<Rightarrow> bool" where
  "counts_ok C w \<longleftrightarrow> (\<forall>l \<in> w_lsas w. int (C (lsa_key l)) \<le> lsa_retrans_count l)"

text \<open>The world without the counts.\<close>
definition uncounted :: "ospf6_lsa \<Rightarrow> ospf6_lsa" where
  "uncounted l = l\<lparr>lsa_retrans_count := 0\<rparr>"

definition count_frame :: "world \<Rightarrow> world" where
  "count_frame w = w\<lparr>w_oi := oi_lsdb_update (map uncounted) (w_oi w), w_area_lsdb := map uncounted (w_area_lsdb w),
     w_as_lsdb := map uncounted (w_as_lsdb w)\<rparr>"

lemma uncounted_fields [simp]:
  "lsa_key (uncounted l) = lsa_key l" "lsa_header (uncounted l) = lsa_header l" "lsa_wf (uncounted l) = lsa_wf l"
  "lsa_lsdb (uncounted l) = lsa_lsdb l"
  by (simp_all add: uncounted_def lsa_key_def lsa_wf_def)

lemma lsa_home_ok_iff:
  "lsa_home_ok w l \<longleftrightarrow>
     (case OSPF6_LSA_SCOPE (h_type (lsa_header l)) of
        OSPF6_SCOPE_LINKLOCAL \<Rightarrow> lsa_lsdb l = Some (LsdbInterface (oi_ifindex (w_oi w)))
      | OSPF6_SCOPE_AREA \<Rightarrow> lsa_lsdb l = Some (LsdbArea (oi_area_id (w_oi w)))
      | OSPF6_SCOPE_AS \<Rightarrow> lsa_lsdb l = Some LsdbProcess
      | OSPF6_SCOPE_RESERVED \<Rightarrow> False)"
  by (simp add: lsa_home_ok_def ospf6_get_scoped_lsdb_def split: lsa_scope.split)

lemma lsa_home_ok_cong:
  assumes "oi_ifindex (w_oi w') = oi_ifindex (w_oi w)" "oi_area_id (w_oi w') = oi_area_id (w_oi w)"
    and "lsa_lsdb l' = lsa_lsdb l" "h_type (lsa_header l') = h_type (lsa_header l)"
  shows "lsa_home_ok w' l' = lsa_home_ok w l"
  by (simp add: lsa_home_ok_iff assms split: lsa_scope.split)

lemma db_ok_uncounted:
  assumes "oi_ifindex (w_oi w') = oi_ifindex (w_oi w)" "oi_area_id (w_oi w') = oi_area_id (w_oi w)"
    and "map uncounted db' = map uncounted db"
  shows "db_ok w' scope db' = db_ok w scope db"
proof -
  have key: "map lsa_key db' = map lsa_key db"
    using arg_cong [OF assms(3), of "map lsa_key"] by (simp add: o_def)
  have all: "(\<forall>l \<in> set d. OSPF6_LSA_SCOPE (h_type (lsa_header l)) = scope \<and> lsa_home_ok v l \<and> lsa_wf l) \<longleftrightarrow>
      (\<forall>l \<in> set (map uncounted d). OSPF6_LSA_SCOPE (h_type (lsa_header l)) = scope \<and> lsa_home_ok w l \<and> lsa_wf l)"
    if "oi_ifindex (w_oi v) = oi_ifindex (w_oi w)" "oi_area_id (w_oi v) = oi_area_id (w_oi w)" for d v
  proof -
    have "lsa_home_ok v l = lsa_home_ok w (uncounted l)" for l by (rule lsa_home_ok_cong) (simp_all add: that)
    then show ?thesis by simp
  qed
  have "lsdb_sorted db' = lsdb_sorted db" by (simp add: lsdb_sorted_def key)
  then show ?thesis
    using all [OF assms(1,2), of db'] all [OF refl refl, of db] assms(3) unfolding db_ok_def by argo
qed

lemma count_frameD:
  assumes "count_frame w' = count_frame w"
  shows "oi_neighbor_list (w_oi w') = oi_neighbor_list (w_oi w)" "oi_mdr (w_oi w') = oi_mdr (w_oi w)"
    "oi_type (w_oi w') = oi_type (w_oi w)"
    "oi_ifindex (w_oi w') = oi_ifindex (w_oi w)" "oi_area_id (w_oi w') = oi_area_id (w_oi w)"
    "map uncounted (oi_lsdb (w_oi w')) = map uncounted (oi_lsdb (w_oi w))"
    "map uncounted (w_area_lsdb w') = map uncounted (w_area_lsdb w)"
    "map uncounted (w_as_lsdb w') = map uncounted (w_as_lsdb w)"
proof -
  show "oi_neighbor_list (w_oi w') = oi_neighbor_list (w_oi w)"
    using arg_cong [OF assms, of "\<lambda>w. oi_neighbor_list (w_oi w)"] by (simp add: count_frame_def)
  show "oi_mdr (w_oi w') = oi_mdr (w_oi w)"
    using arg_cong [OF assms, of "\<lambda>w. oi_mdr (w_oi w)"] by (simp add: count_frame_def)
  show "oi_type (w_oi w') = oi_type (w_oi w)"
    using arg_cong [OF assms, of "\<lambda>w. oi_type (w_oi w)"] by (simp add: count_frame_def)
  show "oi_ifindex (w_oi w') = oi_ifindex (w_oi w)"
    using arg_cong [OF assms, of "\<lambda>w. oi_ifindex (w_oi w)"] by (simp add: count_frame_def)
  show "oi_area_id (w_oi w') = oi_area_id (w_oi w)"
    using arg_cong [OF assms, of "\<lambda>w. oi_area_id (w_oi w)"] by (simp add: count_frame_def)
  show "map uncounted (oi_lsdb (w_oi w')) = map uncounted (oi_lsdb (w_oi w))"
    using arg_cong [OF assms, of "\<lambda>w. oi_lsdb (w_oi w)"] by (simp add: count_frame_def)
  show "map uncounted (w_area_lsdb w') = map uncounted (w_area_lsdb w)"
    using arg_cong [OF assms, of w_area_lsdb] by (simp add: count_frame_def)
  show "map uncounted (w_as_lsdb w') = map uncounted (w_as_lsdb w)"
    using arg_cong [OF assms, of w_as_lsdb] by (simp add: count_frame_def)
qed

lemma dbs_ok_count_frame: "count_frame w' = count_frame w \<Longrightarrow> dbs_ok w' = dbs_ok w"
  using count_frameD [of w' w] db_ok_uncounted [of w' w] by (simp add: dbs_ok_def)

lemma lsa_home_ok_update [simp]:
  "lsa_home_ok (w_nbr_update j f w) = lsa_home_ok w" "lsa_home_ok (w_emit e w) = lsa_home_ok w"
proof -
  show "lsa_home_ok (w_nbr_update j f w) = lsa_home_ok w" by (rule ext, rule lsa_home_ok_cong) simp_all
  show "lsa_home_ok (w_emit e w) = lsa_home_ok w" by (rule ext, rule lsa_home_ok_cong) simp_all
qed

lemma dbs_ok_update [simp]: "dbs_ok (w_nbr_update j f w) = dbs_ok w" "dbs_ok (w_emit e w) = dbs_ok w"
  by (simp_all add: dbs_ok_def db_ok_def)

lemma counts_ok_update [simp]: "counts_ok C (w_nbr_update j f w) = counts_ok C w" "counts_ok C (w_emit e w) = counts_ok C w"
  by (simp_all add: counts_ok_def w_lsas_def)

section \<open>Decrementing\<close>

lemma map_uncounted_modify:
  "map uncounted (lsdb_modify k (\<lambda>l. l\<lparr>lsa_retrans_count := f l\<rparr>) db) = map uncounted db"
  by (simp add: lsdb_modify_def uncounted_def)

lemma count_frame_scoped_update:
  assumes "\<And>db. map uncounted (f db) = map uncounted db"
  shows "count_frame (w_scoped_lsdb_update scope f w) = count_frame w"
  by (simp add: count_frame_def w_scoped_lsdb_update_def assms)

lemma decrement_retrans_count:
  assumes "dbs_ok w" "lsa_home_ok w lsa" "counts_ok C w" "C (lsa_key lsa) = Suc c"
  shows "\<exists>w'. ospf6_decrement_retrans_count lsa w = Some w' \<and> count_frame w' = count_frame w \<and>
    counts_ok (C(lsa_key lsa := c)) w'"
proof -
  let ?k = "lsa_key lsa" and ?scope = "OSPF6_LSA_SCOPE (h_type (lsa_header lsa))"
  obtain db where db: "ospf6_get_scoped_lsdb lsa w = Some db" using assms(2) by (auto simp: lsa_home_ok_def)
  have less: "int ((C(?k := c)) k) \<le> x" if "int (C k) \<le> x" for k x using that assms(4) by auto
  show ?thesis
  proof (cases "nbr_list_lookup ?k db")
    case None
    then show ?thesis
      using db assms(3) less
      by (auto simp: ospf6_decrement_retrans_count_def Let_def nbr_list_lookup_key counts_ok_def simp del: fun_upd_apply)
  next
    case (Some orig)
    note o = nbr_list_lookup_some [OF Some]
    let ?f = "lsdb_modify ?k (\<lambda>l. l\<lparr>lsa_retrans_count := lsa_retrans_count l - 1\<rparr>)"
    let ?w = "w_scoped_lsdb_update ?scope ?f w"
    have "orig \<in> w_lsas w"
      using o db by (auto simp: w_lsas_def ospf6_get_scoped_lsdb_def Let_def split: if_splits lsa_scope.splits)
    then have "1 \<le> lsa_retrans_count orig" using assms(3,4) o by (fastforce simp: counts_ok_def)
    then have run: "ospf6_decrement_retrans_count lsa w = Some ?w"
      using db Some by (simp add: ospf6_decrement_retrans_count_def Let_def nbr_list_lookup_key)
    have mod: "int ((C(?k := c)) (lsa_key l)) \<le> lsa_retrans_count l"
      if mem: "l \<in> set (?f d)" and sub: "set d \<subseteq> w_lsas w" for l d
    proof -
      obtain x where x: "x \<in> set d" "l = (if lsa_key x = ?k then x\<lparr>lsa_retrans_count := lsa_retrans_count x - 1\<rparr> else x)"
        using mem unfolding lsdb_modify_def set_map by blast
      have "int (C (lsa_key x)) \<le> lsa_retrans_count x" using x(1) sub assms(3) by (auto simp: counts_ok_def)
      moreover have "lsa_key l = lsa_key x" by (simp add: x(2) lsa_key_def)
      ultimately show ?thesis using x(2) assms(4) by (cases "lsa_key x = ?k") auto
    qed
    have old: "int ((C(?k := c)) (lsa_key l)) \<le> lsa_retrans_count l" if "l \<in> w_lsas w" for l
      by (rule less) (use that assms(3) in \<open>simp add: counts_ok_def\<close>)
    have sub: "set (oi_lsdb (w_oi w)) \<subseteq> w_lsas w" "set (w_area_lsdb w) \<subseteq> w_lsas w" "set (w_as_lsdb w) \<subseteq> w_lsas w"
      by (auto simp: w_lsas_def)
    have "int ((C(?k := c)) (lsa_key l)) \<le> lsa_retrans_count l" if "l \<in> w_lsas ?w" for l
    proof -
      have "l \<in> w_lsas w \<or> l \<in> set (?f (oi_lsdb (w_oi w))) \<or> l \<in> set (?f (w_area_lsdb w)) \<or> l \<in> set (?f (w_as_lsdb w))"
        using that by (auto simp: w_lsas_def w_scoped_lsdb_update_def split: if_splits)
      then show ?thesis using old mod [OF _ sub(1)] mod [OF _ sub(2)] mod [OF _ sub(3)] by blast
    qed
    then have "counts_ok (C(?k := c)) ?w" by (simp add: counts_ok_def)
    then show ?thesis using run count_frame_scoped_update [of ?f, OF map_uncounted_modify] by simp
  qed
qed

section \<open>Clearing a list\<close>

lemma nbr_list_remove_head:
  assumes "nbr_list_ok (l # db)"
  shows "nbr_list_remove l (l # db) = Some db" "nbr_list_ok db" "lsa_key l \<notin> lsdb_keys db"
  using assms
  by (auto simp: nbr_list_ok_def nbr_list_remove_def ospf6_lsdb_remove_def Let_def nbr_list_lookup_key
      nbr_list_lookup_find no_hooks_def lsa_unlock_one)

lemma retrans_clear_list:
  assumes "dbs_ok w" "nbr_list_ok db" "\<And>l. l \<in> set db \<Longrightarrow> lsa_home_ok w l"
    and "counts_ok (\<lambda>k. C k + of_bool (k \<in> lsdb_keys db)) w"
  shows "\<exists>w'. retrans_clear db w = Some ([], w') \<and> count_frame w' = count_frame w \<and> counts_ok C w'"
  using assms unfolding retrans_clear_def
proof (induction db arbitrary: w)
  case (Cons l db)
  note h = nbr_list_remove_head [OF Cons.prems(2)]
  let ?C = "\<lambda>k. C k + of_bool (k \<in> lsdb_keys (l # db))"
  have "?C (lsa_key l) = Suc (C (lsa_key l))" by simp
  from decrement_retrans_count [OF Cons.prems(1) Cons.prems(3) Cons.prems(4) this]
  obtain w1 where w1: "ospf6_decrement_retrans_count l w = Some w1" "count_frame w1 = count_frame w"
    "counts_ok (?C(lsa_key l := C (lsa_key l))) w1" by auto
  have eq: "?C(lsa_key l := C (lsa_key l)) = (\<lambda>k. C k + of_bool (k \<in> lsdb_keys db))"
    using h(3) by (auto simp: fun_eq_iff)
  note f = count_frameD [OF w1(2)]
  have "lsa_home_ok w1 x" if "x \<in> set db" for x
    using Cons.prems(3) [of x] that lsa_home_ok_cong [OF f(4,5), of x x] by simp
  from Cons.IH [OF _ h(2) this] obtain w' where
    "for_each retrans_remove db (db, w1) = Some ([], w')" "count_frame w' = count_frame w1" "counts_ok C w'"
    using w1(3) dbs_ok_count_frame [OF w1(2)] Cons.prems(1) unfolding eq by auto
  moreover have "retrans_remove l (l # db, w) = Some (db, w1)" using w1(1) h(1) by (simp add: retrans_remove_def)
  ultimately show ?case using w1(2) by simp
qed (simp add: fun_eq_iff)

section \<open>References from the neighbors\<close>

text \<open>The number of neighbors with a copy in their retransmission list.\<close>
definition retrans_refs :: "ospf6_neighbor list \<Rightarrow> lsa_key \<Rightarrow> nat" where
  "retrans_refs ons k = length (filter (\<lambda>on. k \<in> lsdb_keys (on_retrans_list on)) ons)"

lemma retrans_refs_split:
  assumes "j < length ons"
  shows "retrans_refs ons k = retrans_refs (take j ons @ drop (Suc j) ons) k +
    of_bool (k \<in> lsdb_keys (on_retrans_list (ons ! j)))"
proof -
  have "retrans_refs (take j ons @ ons ! j # drop (Suc j) ons) k = retrans_refs (take j ons @ drop (Suc j) ons) k +
      of_bool (k \<in> lsdb_keys (on_retrans_list (ons ! j)))"
    by (simp add: retrans_refs_def)
  then show ?thesis by (simp only: id_take_nth_drop [OF assms, symmetric])
qed

lemma retrans_refs_update:
  assumes "j < length ons"
  shows "retrans_refs (ons[j := on]) k = retrans_refs (take j ons @ drop (Suc j) ons) k +
    of_bool (k \<in> lsdb_keys (on_retrans_list on))"
  using retrans_refs_split [of j "ons[j := on]" k] assms by simp

lemma retrans_refs_same:
  "map on_retrans_list ons' = map on_retrans_list ons \<Longrightarrow> retrans_refs ons' = retrans_refs ons"
proof (rule ext)
  fix k assume eq: "map on_retrans_list ons' = map on_retrans_list ons"
  have "retrans_refs xs k = length (filter (\<lambda>db. k \<in> lsdb_keys db) (map on_retrans_list xs))" for xs
    by (simp add: retrans_refs_def filter_map o_def)
  then show "retrans_refs ons' k = retrans_refs ons k" by (simp only: eq)
qed

definition retrans_ok :: "world \<Rightarrow> bool" where
  "retrans_ok w \<longleftrightarrow> dbs_ok w \<and> counts_ok (retrans_refs (oi_neighbor_list (w_oi w))) w \<and>
     (\<forall>on \<in> set (oi_neighbor_list (w_oi w)). nbr_list_ok (on_retrans_list on) \<and>
        (\<forall>l \<in> set (on_retrans_list on). lsa_home_ok w l))"

text \<open>The LS lists of a neighbor.\<close>
definition ls_lists :: "ospf6_neighbor \<Rightarrow> lsdb \<times> lsdb \<times> lsdb" where
  "ls_lists on = (on_summary_list on, on_request_list on, on_retrans_list on)"

definition set_ls_lists :: "lsdb \<times> lsdb \<times> lsdb \<Rightarrow> ospf6_neighbor \<Rightarrow> ospf6_neighbor" where
  "set_ls_lists = (\<lambda>(s, q, r) on. on\<lparr>on_summary_list := s, on_request_list := q, on_retrans_list := r\<rparr>)"

lemma clear_ls_lists_ok:
  assumes "retrans_ok w" "j < w_num w"
  shows "\<exists>w'. clear_ls_lists j w = Some w' \<and> retrans_ok w' \<and>
    count_frame w' = count_frame (w_nbr_update j (set_ls_lists ([], [], [])) w)"
proof -
  let ?ons = "oi_neighbor_list (w_oi w)"
  let ?w0 = "w_nbr_update j (on_request_list_update (\<lambda>_. [])) (w_nbr_update j (on_summary_list_update (\<lambda>_. [])) w)"
  let ?db = "on_retrans_list (w_nbr w j)"
  define C where "C = retrans_refs (take j ?ons @ drop (Suc j) ?ons)"
  have mem: "?ons ! j \<in> set ?ons" using assms(2) by simp
  have dbs: "dbs_ok ?w0" using assms(1) by (simp add: retrans_ok_def)
  have home: "lsa_home_ok ?w0 l" if "l \<in> set ?db" for l
    using assms(1) mem that by (auto simp: retrans_ok_def)
  have ok: "nbr_list_ok ?db" using assms(1) mem by (auto simp: retrans_ok_def)
  have "retrans_refs ?ons = (\<lambda>k. C k + of_bool (k \<in> lsdb_keys ?db))"
    using retrans_refs_split [OF assms(2)] by (simp add: fun_eq_iff C_def)
  then have "counts_ok (\<lambda>k. C k + of_bool (k \<in> lsdb_keys ?db)) ?w0"
    using assms(1) by (simp add: retrans_ok_def)
  from retrans_clear_list [OF dbs ok home this] obtain w1 where
    w1: "retrans_clear ?db ?w0 = Some ([], w1)" "count_frame w1 = count_frame ?w0" "counts_ok C w1" by auto
  let ?w' = "w_nbr_update j (on_retrans_list_update (\<lambda>_. [])) w1"
  note f = count_frameD [OF w1(2)]
  have run: "clear_ls_lists j w = Some ?w'"
    using w1(1) assms(2) by (simp add: clear_ls_lists_def ospf6_lsdb_remove_all_def Let_def)
  have ons: "oi_neighbor_list (w_oi ?w') = ?ons[j := set_ls_lists ([], [], []) (?ons ! j)]"
    using assms(2) f(1) by (simp add: w_nbr_update_def nbr_update_def set_ls_lists_def)
  have frame: "count_frame ?w' = count_frame (w_nbr_update j (set_ls_lists ([], [], [])) w)"
  proof -
    have cf: "count_frame (w_nbr_update j g v) = w_nbr_update j g (count_frame v)" for g v
      by (simp add: count_frame_def w_nbr_update_def nbr_update_def)
    have "w_nbr_update j g (w_nbr_update j h v) = w_nbr_update j (g \<circ> h) v" if "j < w_num v" for g h v
      using that by (simp add: w_nbr_update_def nbr_update_def)
    moreover have "j < w_num (count_frame w)" using assms(2) by (simp add: count_frame_def)
    ultimately show ?thesis unfolding cf w1(2) by (simp add: o_def set_ls_lists_def)
  qed
  have "retrans_ok ?w'"
    unfolding retrans_ok_def
  proof (intro conjI)
    show "dbs_ok ?w'" using dbs dbs_ok_count_frame [OF w1(2)] by simp
    have "retrans_refs (oi_neighbor_list (w_oi ?w')) = C"
      unfolding ons using retrans_refs_update [OF assms(2)] by (simp add: fun_eq_iff C_def set_ls_lists_def)
    then show "counts_ok (retrans_refs (oi_neighbor_list (w_oi ?w'))) ?w'"
      using w1(3) by simp
    have "nbr_list_ok (on_retrans_list on) \<and> (\<forall>l \<in> set (on_retrans_list on). lsa_home_ok w l)"
      if "on \<in> set (oi_neighbor_list (w_oi ?w'))" for on
    proof -
      have "on \<in> set ?ons \<or> on_retrans_list on = []"
        using that set_update_subset_insert [of ?ons j "set_ls_lists ([], [], []) (?ons ! j)"]
        unfolding ons by (auto simp: set_ls_lists_def)
      then show ?thesis using assms(1) by (auto simp: retrans_ok_def nbr_list_ok_def)
    qed
    then show "\<forall>on \<in> set (oi_neighbor_list (w_oi ?w')). nbr_list_ok (on_retrans_list on) \<and>
        (\<forall>l \<in> set (on_retrans_list on). lsa_home_ok ?w' l)"
      using lsa_home_ok_cong [OF f(4,5)] by simp
  qed
  then show ?thesis using run frame by blast
qed

end
