(* ===== verification/Neighbor_State.thy ===== *)
theory Neighbor_State
  imports Neighbor_Retrans
begin

text \<open>
  What a change of state does. The recursion has a bounded depth: the recursive calls only move a
  neighbor to TwoWay or ExStart, and such a call makes no further one. The interface \<open>leaf_change\<close>
  says what the callers rely on for these two states; the lemmas about the callers are proved once
  from it. The result is that \<open>ospf6_neighbor_state_change\<close> always returns, keeps the invariant and
  changes other neighbors only in the ways that \<open>nbr_tr\<close> lists.
\<close>

section \<open>Frames\<close>

text \<open>A neighbor without what a change of state writes, and without its LS lists.\<close>

definition nbr_st_frame :: "ospf6_neighbor \<Rightarrow> ospf6_neighbor" where
  "nbr_st_frame on = on\<lparr>on_state := OSPF6_NEIGHBOR_DOWN, on_last_changed := \<lparr>tv_sec = 0, tv_usec = 0\<rparr>,
     on_dbdesc_bits := 0, on_dbdesc_seqnum := 0, on_thread_send_dbdesc := None, on_mdr := mdr_neighbor_zero\<rparr>"

definition nbrs_frame :: "(ospf6_neighbor \<Rightarrow> ospf6_neighbor) \<Rightarrow> world \<Rightarrow> world" where
  "nbrs_frame g w = w\<lparr>w_oi := (w_oi w)\<lparr>oi_mdr := mdr_interface_zero, oi_effects := [],
     oi_immediate_hello_delay := 0, oi_neighbor_list := map g (oi_neighbor_list (w_oi w))\<rparr>\<rparr>"

abbreviation st_frame :: "world \<Rightarrow> world" where
  "st_frame \<equiv> nbrs_frame nbr_st_frame"

definition ls_frame :: "world \<Rightarrow> world" where
  "ls_frame w = count_frame (nbrs_frame (set_ls_lists ([], [], []) \<circ> nbr_st_frame) w)"

abbreviation w_states :: "world \<Rightarrow> nbr_state list" where
  "w_states w \<equiv> map on_state (oi_neighbor_list (w_oi w))"

lemma ls_frame_st_frame: "st_frame w' = st_frame w \<Longrightarrow> ls_frame w' = ls_frame w"
proof -
  assume eq: "st_frame w' = st_frame w"
  have "ls_frame v = count_frame (nbrs_frame (set_ls_lists ([], [], [])) (st_frame v))" for v
    by (simp add: ls_frame_def nbrs_frame_def)
  then show ?thesis by (simp add: eq)
qed

lemma st_frameD:
  assumes "st_frame w' = st_frame w"
  shows "map nbr_st_frame (oi_neighbor_list (w_oi w')) = map nbr_st_frame (oi_neighbor_list (w_oi w))"
    and "w_num w' = w_num w" "oi_lsdb (w_oi w') = oi_lsdb (w_oi w)" "w_area_lsdb w' = w_area_lsdb w"
    and "w_as_lsdb w' = w_as_lsdb w" "oi_ifindex (w_oi w') = oi_ifindex (w_oi w)"
    and "oi_area_id (w_oi w') = oi_area_id (w_oi w)" "oi_type (w_oi w') = oi_type (w_oi w)"
proof -
  show m: "map nbr_st_frame (oi_neighbor_list (w_oi w')) = map nbr_st_frame (oi_neighbor_list (w_oi w))"
    using arg_cong [OF assms, of "\<lambda>w. oi_neighbor_list (w_oi w)"] by (simp add: nbrs_frame_def)
  show "w_num w' = w_num w" by (rule map_eq_imp_length_eq [OF m])
  show "oi_lsdb (w_oi w') = oi_lsdb (w_oi w)"
    using arg_cong [OF assms, of "\<lambda>w. oi_lsdb (w_oi w)"] by (simp add: nbrs_frame_def)
  show "w_area_lsdb w' = w_area_lsdb w" using arg_cong [OF assms, of w_area_lsdb] by (simp add: nbrs_frame_def)
  show "w_as_lsdb w' = w_as_lsdb w" using arg_cong [OF assms, of w_as_lsdb] by (simp add: nbrs_frame_def)
  show "oi_ifindex (w_oi w') = oi_ifindex (w_oi w)"
    using arg_cong [OF assms, of "\<lambda>w. oi_ifindex (w_oi w)"] by (simp add: nbrs_frame_def)
  show "oi_area_id (w_oi w') = oi_area_id (w_oi w)"
    using arg_cong [OF assms, of "\<lambda>w. oi_area_id (w_oi w)"] by (simp add: nbrs_frame_def)
  show "oi_type (w_oi w') = oi_type (w_oi w)"
    using arg_cong [OF assms, of "\<lambda>w. oi_type (w_oi w)"] by (simp add: nbrs_frame_def)
qed

lemma st_frame_map:
  assumes "st_frame w' = st_frame w" "\<And>on. g (nbr_st_frame on) = g on"
  shows "map g (oi_neighbor_list (w_oi w')) = map g (oi_neighbor_list (w_oi w))"
  using arg_cong [OF st_frameD(1) [OF assms(1)], of "map g"] by (simp add: o_def assms(2))

lemma st_frame_ls_lists:
  assumes "st_frame w' = st_frame w" "i < w_num w"
  shows "ls_lists (w_nbr w' i) = ls_lists (w_nbr w i)"
proof -
  have "map ls_lists (oi_neighbor_list (w_oi w')) = map ls_lists (oi_neighbor_list (w_oi w))"
    by (rule st_frame_map [OF assms(1)]) (simp add: ls_lists_def nbr_st_frame_def)
  from arg_cong [OF this, of "\<lambda>xs. xs ! i"] show ?thesis
    using assms(2) st_frameD(2) [OF assms(1)] by simp
qed

lemma retrans_ok_st_frame:
  assumes "st_frame w' = st_frame w" "retrans_ok w"
  shows "retrans_ok w'"
proof -
  note d = st_frameD [OF assms(1)]
  have r: "map on_retrans_list (oi_neighbor_list (w_oi w')) = map on_retrans_list (oi_neighbor_list (w_oi w))"
    by (rule st_frame_map [OF assms(1)]) (simp add: nbr_st_frame_def)
  have h: "lsa_home_ok w' = lsa_home_ok w" by (rule ext, rule lsa_home_ok_cong) (simp_all add: d)
  have nbr: "nbr_list_ok (on_retrans_list on) \<and> (\<forall>l \<in> set (on_retrans_list on). lsa_home_ok w' l)"
    if "on \<in> set (oi_neighbor_list (w_oi w'))" for on
  proof -
    have "on_retrans_list on \<in> set (map on_retrans_list (oi_neighbor_list (w_oi w)))"
      unfolding r [symmetric] using that by simp
    then show ?thesis using assms(2) by (auto simp: retrans_ok_def h)
  qed
  have "dbs_ok w' = dbs_ok w" by (simp add: dbs_ok_def db_ok_def d h)
  moreover have "counts_ok C w' = counts_ok C w" for C by (simp add: counts_ok_def w_lsas_def d)
  ultimately show ?thesis
    using assms(2) nbr by (simp add: retrans_ok_def retrans_refs_same [OF r])
qed

section \<open>The steps of a change of state\<close>

lemma st_frame_nbr_update:
  assumes "\<And>on. nbr_st_frame (f on) = nbr_st_frame on"
  shows "st_frame (w_nbr_update j f w) = st_frame w"
proof -
  have "map nbr_st_frame ((oi_neighbor_list (w_oi w))[j := f (w_nbr w j)]) = map nbr_st_frame (oi_neighbor_list (w_oi w))"
    by (rule map_list_update_same) (rule assms)
  then show ?thesis by (simp add: nbrs_frame_def w_nbr_update_def nbr_update_def)
qed

lemma w_states_nbr_update:
  assumes "\<And>on. on_state (f on) = on_state on"
  shows "w_states (w_nbr_update j f w) = w_states w"
proof -
  have "map on_state ((oi_neighbor_list (w_oi w))[j := f (w_nbr w j)]) = w_states w"
    by (rule map_list_update_same) (rule assms)
  then show ?thesis by (simp add: w_nbr_update_def nbr_update_def)
qed

lemma st_frame_emit [simp]: "nbrs_frame g (w_emit e w) = nbrs_frame g w"
  by (simp add: nbrs_frame_def w_emit_def emit_def)

lemma mdr_frame_states: "mdr_frame oi' = mdr_frame oi \<Longrightarrow> map on_state (oi_neighbor_list oi') = map on_state (oi_neighbor_list oi)"
proof -
  assume eq: "mdr_frame oi' = mdr_frame oi"
  have "map on_state (oi_neighbor_list x) = map on_state (oi_neighbor_list (mdr_frame x))" for x
    by (simp add: mdr_frame_def nbr_frame_def)
  from this [of oi'] this [of oi] show ?thesis unfolding eq by (rule trans [OF _ sym])
qed

lemma st_frame_mdr_frame: "mdr_frame oi' = mdr_frame (w_oi w) \<Longrightarrow> st_frame (w\<lparr>w_oi := oi'\<rparr>) = st_frame w"
proof -
  assume eq: "mdr_frame oi' = mdr_frame (w_oi w)"
  have st: "st_frame v = st_frame (v\<lparr>w_oi := mdr_frame (w_oi v)\<rparr>)" for v
    by (simp add: nbrs_frame_def mdr_frame_def nbr_frame_def nbr_st_frame_def)
  show ?thesis by (subst (1 2) st) (simp add: eq)
qed

lemma mdr_valid_cong:
  assumes "map (\<lambda>on. (on_router_id on, nm_treenode (on_mdr on))) (oi_neighbor_list oi') =
      map (\<lambda>on. (on_router_id on, nm_treenode (on_mdr on))) (oi_neighbor_list oi)"
    and "im_MDRConstraint (oi_mdr oi') = im_MDRConstraint (oi_mdr oi)"
  shows "mdr_valid oi' = mdr_valid oi"
proof -
  let ?g = "\<lambda>on. (on_router_id on, nm_treenode (on_mdr on))"
  have r: "map on_router_id (oi_neighbor_list oi') = map on_router_id (oi_neighbor_list oi)"
    using arg_cong [OF assms(1), of "map fst"] by (simp add: o_def)
  have "(\<forall>on \<in> set (oi_neighbor_list x). on_router_id on \<noteq> 0 \<and> nm_treenode (on_mdr on) = None) \<longleftrightarrow>
      (\<forall>p \<in> set (map ?g (oi_neighbor_list x)). fst p \<noteq> 0 \<and> snd p = None)" for x by simp
  note all = this [of oi', unfolded assms(1)] this [of oi]
  show ?thesis
    unfolding mdr_valid_def r assms(2) map_eq_imp_length_eq [OF r] using all by argo
qed

lemma mdr_valid_nbr_update:
  assumes "\<And>on. on_router_id (f on) = on_router_id on" "\<And>on. on_mdr (f on) = on_mdr on"
  shows "mdr_valid (w_oi (w_nbr_update j f w)) = mdr_valid (w_oi w)"
proof (rule mdr_valid_cong)
  show "map (\<lambda>on. (on_router_id on, nm_treenode (on_mdr on))) (oi_neighbor_list (w_oi (w_nbr_update j f w))) =
      map (\<lambda>on. (on_router_id on, nm_treenode (on_mdr on))) (oi_neighbor_list (w_oi w))"
    using map_list_update_same [where f = f and g = "\<lambda>on. (on_router_id on, nm_treenode (on_mdr on))"] assms
    by (simp add: w_nbr_update_def nbr_update_def)
qed simp

lemma mdr_valid_emit [simp]: "mdr_valid (w_oi (w_emit e w)) = mdr_valid (w_oi w)"
  by (rule mdr_valid_cong) simp_all

lemma state_set_ok:
  assumes "j < w_num w"
  shows "st_frame (state_set env next_state j w) = st_frame w"
    "w_states (state_set env next_state j w) = (w_states w)[j := next_state]"
    "mdr_valid (w_oi (state_set env next_state j w)) = mdr_valid (w_oi w)"
    "oi_mdr (w_oi (state_set env next_state j w)) = oi_mdr (w_oi w)"
    "oi_type (w_oi (state_set env next_state j w)) = oi_type (w_oi w)"
proof -
  let ?f = "\<lambda>on. on\<lparr>on_state := next_state, on_last_changed := ne_now env\<rparr>"
  have cases: "state_set env next_state j w = w_nbr_update j ?f w \<or>
      state_set env next_state j w = (w_nbr_update j ?f w)\<lparr>w_oi := (w_oi (w_nbr_update j ?f w))\<lparr>oi_immediate_hello_delay := 0\<rparr>\<rparr>"
    by (simp add: state_set_def Let_def)
  have st: "st_frame (w_nbr_update j ?f w) = st_frame w"
    by (rule st_frame_nbr_update) (simp add: nbr_st_frame_def)
  have v: "mdr_valid (w_oi (w_nbr_update j ?f w)) = mdr_valid (w_oi w)" by (rule mdr_valid_nbr_update) simp_all
  show "st_frame (state_set env next_state j w) = st_frame w"
    using cases st by (auto simp: nbrs_frame_def)
  show "w_states (state_set env next_state j w) = (w_states w)[j := next_state]"
    using cases by (auto simp: w_nbr_update_def nbr_update_def map_update)
  show "mdr_valid (w_oi (state_set env next_state j w)) = mdr_valid (w_oi w)"
    using cases v by (auto simp: mdr_valid_def)
  show "oi_mdr (w_oi (state_set env next_state j w)) = oi_mdr (w_oi w)" using cases by auto
  show "oi_type (w_oi (state_set env next_state j w)) = oi_type (w_oi w)" using cases by auto
qed

lemma w_update_lsa_ok:
  "st_frame (w_update_lsa env w) = st_frame w" "w_states (w_update_lsa env w) = w_states w"
  "mdr_valid (w_oi w) \<Longrightarrow> mdr_valid (w_oi (w_update_lsa env w))"
proof -
  note f = lsa_frame_mdr [OF ospf6_mdr_update_lsa_frame [of "ne_ospf6 env" "ne_spf env" "w_oi w"]]
  show "st_frame (w_update_lsa env w) = st_frame w" unfolding w_update_lsa_def by (rule st_frame_mdr_frame [OF f(1)])
  show "w_states (w_update_lsa env w) = w_states w" using mdr_frame_states [OF f(1)] by (simp add: w_update_lsa_def)
  show "mdr_valid (w_oi w) \<Longrightarrow> mdr_valid (w_oi (w_update_lsa env w))" using f(3) by (simp add: w_update_lsa_def)
qed

lemma full_schedule_ok:
  "st_frame (full_schedule s t w) = st_frame w" "oi_neighbor_list (w_oi (full_schedule s t w)) = oi_neighbor_list (w_oi w)"
  "mdr_valid (w_oi (full_schedule s t w)) = mdr_valid (w_oi w)"
  by (simp_all add: full_schedule_def Let_def)

section \<open>The recursive calls\<close>

definition leaf_state :: "nbr_state \<Rightarrow> bool" where
  "leaf_state s \<longleftrightarrow> s = OSPF6_NEIGHBOR_TWOWAY \<or> s = OSPF6_NEIGHBOR_EXSTART"

lemma leaf_state_not_less: "leaf_state s \<Longrightarrow> \<not> s < OSPF6_NEIGHBOR_TWOWAY" "leaf_state s \<Longrightarrow> s \<noteq> OSPF6_NEIGHBOR_FULL"
  by (auto simp: leaf_state_def less_nbr_state_def)

text \<open>A change to one of these states does not depend on the recursive calls.\<close>

lemma state_change_body_leaf:
  assumes "leaf_state s"
  shows "state_change_body sc env s j w = state_change_body sc' env s j w"
  using leaf_state_not_less [OF assms]
  by (simp add: state_change_body_def mdr_neighbor_state_change_def formation_next_def Let_def)

lemma state_change_body_leaf_ok:
  assumes "leaf_state s" "j < w_num w" "mdr_valid (w_oi w)"
  shows "\<exists>w'. state_change_body sc env s j w = Some w' \<and> st_frame w' = st_frame w \<and>
    w_states w' = (w_states w)[j := s] \<and> mdr_valid (w_oi w')"
proof (cases "on_state (w_nbr w j) = s")
  case True
  have "(w_states w)[j := s] = w_states w" using True assms(2) by (simp add: list_update_same_conv)
  then show ?thesis using True assms(3) by (simp add: state_change_body_def)
next
  case False
  let ?w1 = "state_set env s j w"
  note s1 = state_set_ok [OF assms(2), of env s]
  note l = leaf_state_not_less [OF assms(1)]
  let ?mid = "if oi_type (w_oi ?w1) = OSPF6_IFTYPE_MDR then mdr_neighbor_state_change sc env (on_state (w_nbr w j)) s ?w1
      else Some (full_schedule (on_state (w_nbr w j)) s ?w1)"
  have "?mid = Some (w_update_lsa env ?w1) \<or> ?mid = Some ?w1 \<or> ?mid = Some (full_schedule (on_state (w_nbr w j)) s ?w1)"
    using l by (simp add: mdr_neighbor_state_change_def)
  then obtain w2 where w2: "?mid = Some w2" "st_frame w2 = st_frame ?w1" "w_states w2 = w_states ?w1" "mdr_valid (w_oi w2)"
    using s1(3) assms(3) w_update_lsa_ok [where env = env and w = ?w1]
      full_schedule_ok [of "on_state (w_nbr w j)" s ?w1]
    by (elim disjE) simp_all
  then show ?thesis
    using False l(2) s1(1,2)
    by (simp add: state_change_body_def Let_def formation_next_def)
qed

text \<open>What the callers rely on.\<close>

locale leaf_change =
  fixes sc :: state_change_fun and env :: nbr_env
  assumes leaf: "leaf_state s \<Longrightarrow> j < w_num w \<Longrightarrow> mdr_valid (w_oi w) \<Longrightarrow>
    \<exists>w'. sc s j w = Some w' \<and> st_frame w' = st_frame w \<and> w_states w' = (w_states w)[j := s] \<and> mdr_valid (w_oi w')"
begin

lemma exstart_from_ok:
  assumes "j < w_num w" "mdr_valid (w_oi w)"
  shows "\<exists>w'. exstart_from sc j seqnum w = Some w' \<and> st_frame w' = st_frame w \<and>
    w_states w' = (w_states w)[j := OSPF6_NEIGHBOR_EXSTART] \<and> mdr_valid (w_oi w')"
proof -
  obtain w1 where w1: "sc OSPF6_NEIGHBOR_EXSTART j w = Some w1" "st_frame w1 = st_frame w"
    "w_states w1 = (w_states w)[j := OSPF6_NEIGHBOR_EXSTART]" "mdr_valid (w_oi w1)"
    using leaf [OF _ assms, of OSPF6_NEIGHBOR_EXSTART] by (auto simp: leaf_state_def)
  let ?f = "\<lambda>on. on\<lparr>on_dbdesc_bits := SET_FLAG (SET_FLAG (SET_FLAG (on_dbdesc_bits on) OSPF6_DBDESC_MSBIT)
      OSPF6_DBDESC_MBIT) OSPF6_DBDESC_IBIT, on_dbdesc_seqnum := seqnum, on_thread_send_dbdesc := Some 0\<rparr>"
  have "exstart_from sc j seqnum w = Some (w_nbr_update j ?f w1)" by (simp add: exstart_from_def w1(1))
  moreover have "st_frame (w_nbr_update j ?f w1) = st_frame w1"
    by (rule st_frame_nbr_update) (simp add: nbr_st_frame_def)
  moreover have "w_states (w_nbr_update j ?f w1) = w_states w1"
    by (rule w_states_nbr_update) simp
  moreover have "mdr_valid (w_oi (w_nbr_update j ?f w1))"
    using w1(4) by (subst mdr_valid_nbr_update) simp_all
  ultimately show ?thesis using w1(2,3) by simp
qed

lemma exstart_ok:
  assumes "j < w_num w" "mdr_valid (w_oi w)"
  shows "\<exists>w'. exstart sc env j w = Some w' \<and> st_frame w' = st_frame w \<and>
    w_states w' = (if oi_adjacency_formation_limit (w_oi w) > 0 \<and>
        ospf6_interface_adjacency_formation_count (w_oi w) \<ge> oi_adjacency_formation_limit (w_oi w)
      then w_states w else (w_states w)[j := OSPF6_NEIGHBOR_EXSTART]) \<and> mdr_valid (w_oi w')"
  using exstart_from_ok [OF assms, of "word_of_int (tv_sec (ne_now env))"] assms(2) by (simp add: exstart_def Let_def)

end

interpretation state_change: leaf_change "state_change (Suc n) env" env for n env
  using state_change_body_leaf_ok by unfold_locales simp

section \<open>The other neighbors\<close>

definition w_ok :: "world \<Rightarrow> bool" where
  "w_ok w \<longleftrightarrow> mdr_valid (w_oi w) \<and> retrans_ok w"

text \<open>A neighbor keeps its state and its LS lists, or goes from TwoWay to ExStart with the same lists, or
  its adjacency is given up, with the lists cleared; the last may be followed by the second.\<close>
definition nbr_tr :: "ospf6_neighbor \<Rightarrow> ospf6_neighbor \<Rightarrow> bool" where
  "nbr_tr on on' \<longleftrightarrow>
     ls_lists on' = ls_lists on \<and>
       (on_state on' = on_state on \<or> on_state on = OSPF6_NEIGHBOR_TWOWAY \<and> on_state on' = OSPF6_NEIGHBOR_EXSTART) \<or>
     OSPF6_NEIGHBOR_TWOWAY \<le> on_state on \<and> leaf_state (on_state on') \<and> ls_lists on' = ([], [], [])"

definition world_tr :: "world \<Rightarrow> world \<Rightarrow> bool" where
  "world_tr w w' \<longleftrightarrow> ls_frame w' = ls_frame w \<and> w_ok w' \<and> (\<forall>i < w_num w. nbr_tr (w_nbr w i) (w_nbr w' i))"

lemma nbr_tr_refl [simp]: "nbr_tr on on"
  by (simp add: nbr_tr_def)

lemma nbr_tr_trans: "nbr_tr a b \<Longrightarrow> nbr_tr b c \<Longrightarrow> nbr_tr a c"
  by (auto simp: nbr_tr_def leaf_state_def less_eq_nbr_state_def)

lemma nbr_tr_below: "nbr_tr on on' \<Longrightarrow> on_state on < OSPF6_NEIGHBOR_TWOWAY \<Longrightarrow>
    on_state on' = on_state on \<and> ls_lists on' = ls_lists on"
  by (auto simp: nbr_tr_def)

lemma ls_frame_num: "ls_frame w' = ls_frame w \<Longrightarrow> w_num w' = w_num w"
proof -
  assume eq: "ls_frame w' = ls_frame w"
  have "w_num v = w_num (ls_frame v)" for v by (simp add: ls_frame_def count_frame_def nbrs_frame_def)
  from this [of w'] this [of w] show ?thesis unfolding eq by (rule trans [OF _ sym])
qed

lemma ls_frame_emit [simp]: "ls_frame (w_emit e w) = ls_frame w"
  by (simp add: ls_frame_def)

lemma ls_frame_count_frame: "count_frame w' = count_frame w \<Longrightarrow> ls_frame w' = ls_frame w"
proof -
  assume eq: "count_frame w' = count_frame w"
  have "ls_frame v = nbrs_frame (set_ls_lists ([], [], []) \<circ> nbr_st_frame) (count_frame v)" for v
    by (simp add: ls_frame_def nbrs_frame_def count_frame_def)
  then show ?thesis by (simp only: eq)
qed

lemma ls_frame_set_ls_lists: "ls_frame (w_nbr_update j (set_ls_lists l) w) = ls_frame w"
proof -
  let ?g = "set_ls_lists ([], [], []) \<circ> nbr_st_frame"
  have "map ?g ((oi_neighbor_list (w_oi w))[j := set_ls_lists l (w_nbr w j)]) = map ?g (oi_neighbor_list (w_oi w))"
    by (rule map_list_update_same) (simp add: set_ls_lists_def nbr_st_frame_def split: prod.split)
  then show ?thesis by (simp add: ls_frame_def nbrs_frame_def w_nbr_update_def nbr_update_def)
qed

lemma world_tr_refl: "w_ok w \<Longrightarrow> world_tr w w"
  by (simp add: world_tr_def)

lemma world_tr_trans: "world_tr a b \<Longrightarrow> world_tr b c \<Longrightarrow> world_tr a c"
  using ls_frame_num [of b a] nbr_tr_trans by (auto simp: world_tr_def)

lemma w_ok_emit [simp]: "w_ok (w_emit e w) = w_ok w"
  by (simp add: w_ok_def retrans_ok_def)

lemma w_states_nth: "w_states w' = xs \<Longrightarrow> i < w_num w' \<Longrightarrow> on_state (w_nbr w' i) = xs ! i"
  by auto

lemma world_tr_states:
  assumes "w_ok w" "st_frame w' = st_frame w" "w_states w' = w_states w" "mdr_valid (w_oi w')"
  shows "world_tr w w'"
proof -
  have "nbr_tr (w_nbr w i) (w_nbr w' i)" if "i < w_num w" for i
    using st_frame_ls_lists [OF assms(2) that] w_states_nth [OF assms(3), of i] that st_frameD(2) [OF assms(2)]
    by (simp add: nbr_tr_def)
  then show ?thesis
    using assms retrans_ok_st_frame [OF assms(2)] ls_frame_st_frame [OF assms(2)] by (simp add: world_tr_def w_ok_def)
qed

lemma world_tr_exstart:
  assumes "w_ok w" "st_frame w' = st_frame w" "w_states w' = (w_states w)[j := OSPF6_NEIGHBOR_EXSTART]"
    and "mdr_valid (w_oi w')" "j < w_num w" "on_state (w_nbr w j) = OSPF6_NEIGHBOR_TWOWAY"
  shows "world_tr w w'"
proof -
  have "nbr_tr (w_nbr w i) (w_nbr w' i)" if "i < w_num w" for i
    using st_frame_ls_lists [OF assms(2) that] w_states_nth [OF assms(3), of i] that st_frameD(2) [OF assms(2)] assms(6)
    by (cases "i = j") (simp_all add: nbr_tr_def)
  then show ?thesis
    using assms retrans_ok_st_frame [OF assms(2)] ls_frame_st_frame [OF assms(2)] by (simp add: world_tr_def w_ok_def)
qed

lemma for_each_tr:
  assumes "\<And>j w. w_ok w \<Longrightarrow> j < w_num w \<Longrightarrow> \<exists>w'. f j w = Some w' \<and> world_tr w w'"
    and "w_ok w" "set js \<subseteq> {..< w_num w}"
  shows "\<exists>w'. for_each f js w = Some w' \<and> world_tr w w'"
  using assms(2,3)
proof (induction js arbitrary: w)
  case (Cons j js)
  obtain w1 where w1: "f j w = Some w1" "world_tr w w1" using assms(1) [of w j] Cons.prems by auto
  have "w_ok w1" "set js \<subseteq> {..< w_num w1}"
    using w1(2) Cons.prems(2) ls_frame_num [of w1 w] by (auto simp: world_tr_def)
  from Cons.IH [OF this] obtain w2 where "for_each f js w1 = Some w2" "world_tr w1 w2" by blast
  then show ?case using w1 world_tr_trans by auto
qed (simp add: world_tr_refl)

lemma clear_ls_lists_world:
  assumes "w_ok w" "j < w_num w"
  shows "\<exists>w'. clear_ls_lists j w = Some w' \<and> w_ok w' \<and> ls_frame w' = ls_frame w \<and>
    oi_neighbor_list (w_oi w') = (oi_neighbor_list (w_oi w))[j := set_ls_lists ([], [], []) (w_nbr w j)]"
proof -
  obtain w' where w': "clear_ls_lists j w = Some w'" "retrans_ok w'"
    "count_frame w' = count_frame (w_nbr_update j (set_ls_lists ([], [], [])) w)"
    using clear_ls_lists_ok [OF _ assms(2)] assms(1) by (auto simp: w_ok_def)
  note f = count_frameD [OF w'(3)]
  have "mdr_valid (w_oi w') = mdr_valid (w_oi (w_nbr_update j (set_ls_lists ([], [], [])) w))"
    by (rule mdr_valid_cong) (simp_all add: f)
  also have "\<dots> = mdr_valid (w_oi w)" by (rule mdr_valid_nbr_update) (simp_all add: set_ls_lists_def)
  finally have "mdr_valid (w_oi w')" using assms(1) by (simp add: w_ok_def)
  moreover have "ls_frame w' = ls_frame w"
    using ls_frame_count_frame [OF w'(3)] by (simp add: ls_frame_set_ls_lists)
  ultimately show ?thesis using w'(1,2) f(1) by (simp add: w_ok_def w_nbr_update_def nbr_update_def)
qed

context leaf_change
begin

lemma adjacencies_form_ok:
  assumes "w_ok w" "j < w_num w"
  shows "\<exists>w'. adjacencies_form sc env j w = Some w' \<and> world_tr w w'"
proof (cases "on_state (w_nbr w j) = OSPF6_NEIGHBOR_TWOWAY \<and> need_adjacency (w_oi w) (w_nbr w j)")
  case True
  have v: "mdr_valid (w_oi w)" using assms(1) by (simp add: w_ok_def)
  obtain w' where w': "exstart sc env j w = Some w'" "st_frame w' = st_frame w" "mdr_valid (w_oi w')"
    "w_states w' = w_states w \<or> w_states w' = (w_states w)[j := OSPF6_NEIGHBOR_EXSTART]"
    using exstart_ok [OF assms(2) v] by (auto split: if_splits)
  have "world_tr w w'"
    using w'(4) world_tr_states [OF assms(1) w'(2) _ w'(3)] world_tr_exstart [OF assms(1) w'(2) _ w'(3) assms(2)] True
    by blast
  then show ?thesis using True w'(1) by (simp add: adjacencies_form_def)
next
  case False
  then have "adjacencies_form sc env j w = Some w" unfolding adjacencies_form_def by (rule if_not_P)
  then show ?thesis using world_tr_refl [OF assms(1)] by simp
qed

lemma adjacencies_drop_ok:
  assumes "w_ok w" "j < w_num w"
  shows "\<exists>w'. adjacencies_drop sc j w = Some w' \<and> world_tr w w'"
proof (cases "on_state (w_nbr w j) > OSPF6_NEIGHBOR_TWOWAY \<and> \<not> keep_adjacency (w_oi w) (w_nbr w j)")
  case True
  have v: "mdr_valid (w_oi w)" using assms(1) by (simp add: w_ok_def)
  obtain w1 where w1: "sc OSPF6_NEIGHBOR_TWOWAY j w = Some w1" "st_frame w1 = st_frame w"
    "w_states w1 = (w_states w)[j := OSPF6_NEIGHBOR_TWOWAY]" "mdr_valid (w_oi w1)"
    using leaf [OF _ assms(2) v, of OSPF6_NEIGHBOR_TWOWAY] by (auto simp: leaf_state_def)
  have ok1: "w_ok w1" using w1(4) retrans_ok_st_frame [OF w1(2)] assms(1) by (simp add: w_ok_def)
  have n1: "w_num w1 = w_num w" by (rule st_frameD(2) [OF w1(2)])
  obtain w2 where w2: "clear_ls_lists j w1 = Some w2" "w_ok w2" "ls_frame w2 = ls_frame w1"
    "oi_neighbor_list (w_oi w2) = (oi_neighbor_list (w_oi w1))[j := set_ls_lists ([], [], []) (w_nbr w1 j)]"
    using clear_ls_lists_world [OF ok1] assms(2) n1 by auto
  have "nbr_tr (w_nbr w i) (w_nbr w2 i)" if "i < w_num w" for i
    using st_frame_ls_lists [OF w1(2) that] w_states_nth [OF w1(3), of i] that n1 True
    by (cases "i = j") (simp_all add: w2(4) nbr_tr_def set_ls_lists_def ls_lists_def leaf_state_def less_imp_le)
  then have "world_tr w w2"
    using w2(2,3) ls_frame_st_frame [OF w1(2)] by (simp add: world_tr_def)
  then show ?thesis using True w1(1) w2(1) by (simp add: adjacencies_drop_def)
next
  case False
  then have "adjacencies_drop sc j w = Some w" unfolding adjacencies_drop_def by (rule if_not_P)
  then show ?thesis using world_tr_refl [OF assms(1)] by simp
qed

lemma update_adjacencies_ok:
  assumes "w_ok w"
  shows "\<exists>w'. update_adjacencies sc env w = Some w' \<and> world_tr w w'"
proof -
  obtain w1 where w1: "for_each (adjacencies_form sc env) [0 ..< w_num w] w = Some w1" "world_tr w w1"
    using for_each_tr [of "adjacencies_form sc env", OF _ assms, of "[0 ..< w_num w]"] adjacencies_form_ok by (auto simp: atLeast0LessThan)
  have ok1: "w_ok w1" using w1(2) by (simp add: world_tr_def)
  obtain w2 where "for_each (adjacencies_drop sc) [0 ..< w_num w1] w1 = Some w2" "world_tr w1 w2"
    using for_each_tr [of "adjacencies_drop sc", OF _ ok1, of "[0 ..< w_num w1]"] adjacencies_drop_ok by (auto simp: atLeast0LessThan)
  then show ?thesis using w1 world_tr_trans by (auto simp: update_adjacencies_def)
qed

lemma formation_next_ok:
  assumes "w_ok w"
  shows "\<exists>w'. formation_next sc env s w = Some w' \<and> world_tr w w' \<and>
    (\<forall>i < w_num w. on_state (w_nbr w i) \<noteq> OSPF6_NEIGHBOR_TWOWAY \<longrightarrow>
       on_state (w_nbr w' i) = on_state (w_nbr w i) \<and> ls_lists (w_nbr w' i) = ls_lists (w_nbr w i))"
proof -
  have v: "mdr_valid (w_oi w)" using assms by (simp add: w_ok_def)
  have ex: "\<exists>w'. exstart sc env j w = Some w' \<and> world_tr w w' \<and>
      (\<forall>i < w_num w. on_state (w_nbr w i) \<noteq> OSPF6_NEIGHBOR_TWOWAY \<longrightarrow>
         on_state (w_nbr w' i) = on_state (w_nbr w i) \<and> ls_lists (w_nbr w' i) = ls_lists (w_nbr w i))"
    if j: "j < w_num w" "on_state (w_nbr w j) = OSPF6_NEIGHBOR_TWOWAY" for j
  proof -
    obtain w' where w': "exstart sc env j w = Some w'" "st_frame w' = st_frame w" "mdr_valid (w_oi w')"
      "w_states w' = w_states w \<or> w_states w' = (w_states w)[j := OSPF6_NEIGHBOR_EXSTART]"
      using exstart_ok [OF j(1) v] by (auto split: if_splits)
    have "world_tr w w'"
      using w'(4) world_tr_states [OF assms w'(2) _ w'(3)] world_tr_exstart [OF assms w'(2) _ w'(3) j] by blast
    moreover have "on_state (w_nbr w' i) = on_state (w_nbr w i)"
      if "i < w_num w" "on_state (w_nbr w i) \<noteq> OSPF6_NEIGHBOR_TWOWAY" for i
    proof -
      have "i \<noteq> j" "i < w_num w'" using that j(2) st_frameD(2) [OF w'(2)] by auto
      then show ?thesis
        using w'(4) w_states_nth [of w' "w_states w" i] that(1)
          w_states_nth [of w' "(w_states w)[j := OSPF6_NEIGHBOR_EXSTART]" i]
        by (elim disjE) simp_all
    qed
    ultimately show ?thesis using w'(1) st_frame_ls_lists [OF w'(2)] by blast
  qed
  let ?P = "\<lambda>j. on_state (w_nbr w j) = OSPF6_NEIGHBOR_TWOWAY \<and> need_adjacency (w_oi w) (w_nbr w j)"
  show ?thesis
  proof (cases "List.find ?P [0 ..< w_num w]")
    case None
    then show ?thesis using world_tr_refl [OF assms] by (simp add: formation_next_def Let_def)
  next
    case (Some j)
    then have "j < w_num w" "?P j" by (auto simp: find_Some_iff)
    then show ?thesis using Some ex [of j] world_tr_refl [OF assms] by (auto simp: formation_next_def Let_def)
  qed
qed

end

section \<open>The change of state\<close>

text \<open>What a change of neighbor \<open>j\<close> to the state \<open>s\<close> does.\<close>
definition sc_done :: "nbr_state \<Rightarrow> nat \<Rightarrow> world \<Rightarrow> world \<Rightarrow> bool" where
  "sc_done s j w w' \<longleftrightarrow> ls_frame w' = ls_frame w \<and> w_ok w' \<and> on_state (w_nbr w' j) = s \<and>
     ls_lists (w_nbr w' j) = ls_lists (w_nbr w j) \<and>
     (\<forall>i < w_num w. i \<noteq> j \<longrightarrow> nbr_tr (w_nbr w i) (w_nbr w' i))"

context leaf_change
begin

lemma mdr_neighbor_state_change_ok:
  assumes "w_ok w" "j < w_num w" "on_state (w_nbr w j) = s"
  shows "\<exists>w'. mdr_neighbor_state_change sc env prev s w = Some w' \<and> world_tr w w' \<and>
    on_state (w_nbr w' j) = s \<and> ls_lists (w_nbr w' j) = ls_lists (w_nbr w j)"
proof -
  have lsa: "world_tr v (w_update_lsa env v)" if "w_ok v" for v
    using world_tr_states [OF that w_update_lsa_ok(1,2)] w_update_lsa_ok(3) that by (simp add: w_ok_def)
  have lsa_j: "on_state (w_nbr (w_update_lsa env v) j) = on_state (w_nbr v j) \<and>
      ls_lists (w_nbr (w_update_lsa env v) j) = ls_lists (w_nbr v j)" if "j < w_num v" for v
    using st_frame_ls_lists [OF w_update_lsa_ok(1) that] st_frameD(2) [OF w_update_lsa_ok(1)] that
      w_states_nth [OF w_update_lsa_ok(2), of j] by simp
  show ?thesis
  proof (cases "prev \<ge> OSPF6_NEIGHBOR_TWOWAY \<and> s < OSPF6_NEIGHBOR_TWOWAY")
    case True
    have v: "mdr_valid (w_oi w)" using assms(1) by (simp add: w_ok_def)
    obtain oi where oi: "ospf6_calculate_mdr (ne_now env) (ne_ospf6 env) (w_oi w) = Some oi"
      "mdr_frame oi = mdr_frame (w_oi w)" "mdr_valid oi"
      using ospf6_calculate_mdr_total [OF v] by blast
    let ?w1 = "w\<lparr>w_oi := oi\<rparr>"
    have 1: "world_tr w ?w1"
      by (rule world_tr_states [OF assms(1) st_frame_mdr_frame [OF oi(2)]])
        (use mdr_frame_states [OF oi(2)] oi(3) in simp_all)
    then have "w_ok ?w1" by (simp add: world_tr_def)
    then obtain w2 where w2: "update_adjacencies sc env ?w1 = Some w2" "world_tr ?w1 w2"
      using update_adjacencies_ok by blast
    have tr: "world_tr w w2" by (rule world_tr_trans [OF 1 w2(2)])
    have "w_num w2 = w_num w" using tr ls_frame_num [of w2 w] by (simp add: world_tr_def)
    then have n: "j < w_num w2" using assms(2) by simp
    have j: "on_state (w_nbr w2 j) = s \<and> ls_lists (w_nbr w2 j) = ls_lists (w_nbr w j)"
      using nbr_tr_below [of "w_nbr w j" "w_nbr w2 j"] tr assms(2,3) True by (auto simp: world_tr_def)
    have "w_ok w2" using tr by (simp add: world_tr_def)
    then have "world_tr w (w_update_lsa env w2)" using world_tr_trans [OF tr lsa] by simp
    then show ?thesis
      using True oi(1) w2(1) j lsa_j [OF n] by (simp add: mdr_neighbor_state_change_def)
  next
    case False
    show ?thesis
      using False lsa [OF assms(1)] lsa_j [OF assms(2)] assms(3) world_tr_refl [OF assms(1)]
      by (auto simp: mdr_neighbor_state_change_def)
  qed
qed

lemma state_change_body_ok:
  assumes "w_ok w" "j < w_num w"
  shows "\<exists>w'. state_change_body sc env s j w = Some w' \<and> sc_done s j w w'"
proof (cases "on_state (w_nbr w j) = s")
  case True
  then show ?thesis using assms(1) by (simp add: state_change_body_def sc_done_def)
next
  case False
  let ?prev = "on_state (w_nbr w j)" and ?w1 = "state_set env s j w"
  note s1 = state_set_ok [OF assms(2), of env s]
  have n1: "w_num ?w1 = w_num w" by (rule st_frameD(2) [OF s1(1)])
  have ok1: "w_ok ?w1" using s1(3) retrans_ok_st_frame [OF s1(1)] assms(1) by (simp add: w_ok_def)
  have st1: "on_state (w_nbr ?w1 i) = (if i = j then s else on_state (w_nbr w i))" if "i < w_num w" for i
    using w_states_nth [OF s1(2), of i] n1 that by simp
  let ?mid = "if oi_type (w_oi ?w1) = OSPF6_IFTYPE_MDR then mdr_neighbor_state_change sc env ?prev s ?w1
      else Some (full_schedule ?prev s ?w1)"
  have full: "world_tr ?w1 (full_schedule ?prev s ?w1)"
    by (rule world_tr_states [OF ok1 full_schedule_ok(1)])
      (use ok1 in \<open>simp_all add: full_schedule_ok w_ok_def\<close>)
  obtain w2 where w2: "?mid = Some w2" "world_tr ?w1 w2" "on_state (w_nbr w2 j) = s"
    "ls_lists (w_nbr w2 j) = ls_lists (w_nbr ?w1 j)"
  proof (cases "oi_type (w_oi ?w1) = OSPF6_IFTYPE_MDR")
    case True
    then show ?thesis
      using mdr_neighbor_state_change_ok [OF ok1, of j s ?prev] assms(2) n1 st1 [OF assms(2)] that by auto
  next
    case False
    then show ?thesis using that full st1 [OF assms(2)] by (simp add: full_schedule_ok(2))
  qed
  define w3 where "w3 = (if (?prev = OSPF6_NEIGHBOR_EXCHANGE \<or> ?prev = OSPF6_NEIGHBOR_LOADING) \<and>
      s \<noteq> OSPF6_NEIGHBOR_EXCHANGE \<and> s \<noteq> OSPF6_NEIGHBOR_LOADING then w_emit MaxageRemove w2 else w2)"
  define w4 where "w4 = w_emit (NeighborStateHooks (on_router_id (w_nbr w3 j)) ?prev s) w3"
  have e: "ls_frame w4 = ls_frame w2" "w_ok w4 = w_ok w2" "oi_neighbor_list (w_oi w4) = oi_neighbor_list (w_oi w2)"
    by (simp_all add: w4_def w3_def)
  have ok4: "w_ok w4" using w2(2) e(2) by (simp add: world_tr_def)
  have n4: "w_num w4 = w_num w" using w2(2) n1 ls_frame_num [of w2 ?w1] by (simp add: e(3) world_tr_def)
  obtain w5 where w5: "formation_next sc env s w4 = Some w5" "world_tr w4 w5"
    "\<forall>i < w_num w4. on_state (w_nbr w4 i) \<noteq> OSPF6_NEIGHBOR_TWOWAY \<longrightarrow>
       on_state (w_nbr w5 i) = on_state (w_nbr w4 i) \<and> ls_lists (w_nbr w5 i) = ls_lists (w_nbr w4 i)"
    using formation_next_ok [OF ok4] by blast
  have run: "state_change_body sc env s j w = Some w5"
    using False w2(1) w5(1) unfolding w4_def w3_def by (simp add: state_change_body_def Let_def)
  have j5: "on_state (w_nbr w5 j) = s \<and> ls_lists (w_nbr w5 j) = ls_lists (w_nbr w4 j)"
  proof (cases "s = OSPF6_NEIGHBOR_TWOWAY")
    case True
    then have "w5 = w4" using w5(1) by (simp add: formation_next_def Let_def)
    then show ?thesis using w2(3) by (simp add: e(3))
  qed (use w5(3) n4 assms(2) w2(3) e(3) in simp)
  have lists: "ls_lists (w_nbr ?w1 i) = ls_lists (w_nbr w i)" if "i < w_num w" for i
    by (rule st_frame_ls_lists [OF s1(1) that])
  have other: "nbr_tr (w_nbr w i) (w_nbr w5 i)" if "i < w_num w" "i \<noteq> j" for i
  proof -
    have "nbr_tr (w_nbr w i) (w_nbr ?w1 i)" using lists [OF that(1)] st1 [OF that(1)] that(2) by (simp add: nbr_tr_def)
    moreover have "nbr_tr (w_nbr ?w1 i) (w_nbr w4 i)" using w2(2) that(1) n1 by (simp add: world_tr_def e(3))
    moreover have "nbr_tr (w_nbr w4 i) (w_nbr w5 i)" using w5(2) that(1) n4 by (simp add: world_tr_def)
    ultimately show ?thesis using nbr_tr_trans by blast
  qed
  have "ls_frame w5 = ls_frame w" "w_ok w5"
    using w5(2) w2(2) e(1) ls_frame_st_frame [OF s1(1)] by (simp_all add: world_tr_def)
  then have "sc_done s j w w5"
    using j5 w2(4) lists [OF assms(2)] other by (simp add: sc_done_def e(3))
  then show ?thesis using run by blast
qed

end

text \<open>The result for the whole function, and the depth of its recursion.\<close>

lemma state_change_ok:
  assumes "w_ok w" "j < w_num w"
  shows "\<exists>w'. ospf6_neighbor_state_change env s j w = Some w' \<and> sc_done s j w w'"
  using state_change.state_change_body_ok [OF assms, of 0 env s]
  by (simp add: ospf6_neighbor_state_change_def numeral_2_eq_2)

end
