(* ===== verification/Neighbor_Exchange.thy ===== *)
theory Neighbor_Exchange
  imports Neighbor_State
begin

text \<open>
  The beginning of the database exchange (\<open>negotiation_done\<close>): the database summary list becomes the
  copies of the LSAs of the three databases that are not MaxAge, and the MaxAge LSAs go to the
  retransmission list, counted in their originals.
\<close>

section \<open>One LSA\<close>

text \<open>What identifies an instance of an LSA, and the database it belongs to.\<close>
definition lsa_ident :: "ospf6_lsa \<Rightarrow> lsa_key \<times> u32 \<times> u16 \<times> lsdb_ref option" where
  "lsa_ident l = (lsa_key l, h_seqnum (lsa_header l), h_checksum (lsa_header l), lsa_lsdb l)"

lemma lsa_ident_eqD:
  assumes "lsa_ident a = lsa_ident b"
  shows "lsa_key a = lsa_key b" "lsa_home_ok w a = lsa_home_ok w b"
  using assms by (simp_all add: lsa_ident_def lsa_key_def lsa_home_ok_iff split: lsa_scope.split)

lemma lsa_ident_age [simp]:
  "lsa_ident (snd (ospf6_lsa_age_current now l)) = lsa_ident l" "lsa_ident (lsa_stored now l) = lsa_ident l"
  by (simp_all add: lsa_ident_def lsa_stored_def ospf6_lsa_age_current_def ospf6_lsa_lock_def lsa_key_def Let_def)

lemma lsa_retrans_count_age [simp]: "lsa_retrans_count (snd (ospf6_lsa_age_current now l)) = lsa_retrans_count l"
  by (simp add: ospf6_lsa_age_current_def Let_def)

lemma ospf6_lsa_copy_ok:
  assumes "lsa_wf l"
  obtains copy where "ospf6_lsa_copy now l = Some (copy, snd (ospf6_lsa_age_current now l))"
    "lsa_ident copy = lsa_ident l" "lsa_wf copy" "lsa_lock copy = 0"
proof -
  let ?l = "snd (ospf6_lsa_age_current now l)"
  have wf: "lsa_wf ?l" using assms by simp
  have "\<exists>copy. ospf6_lsa_copy now l = Some (copy, ?l) \<and> lsa_ident copy = lsa_ident ?l \<and> lsa_wf copy \<and> lsa_lock copy = 0"
    using wf
    by (cases "CHECK_FLAG (lsa_flag ?l) OSPF6_LSA_HEADERONLY")
      (auto simp: ospf6_lsa_copy_def ospf6_lsa_create_headeronly_def ospf6_lsa_create_def lsa_wf_def
        ospf6_lsa_age_set_def lsa_blank_def Let_def SET_FLAG_def CHECK_FLAG_def lsa_ident_def lsa_key_def)
  then show ?thesis using that by auto
qed

text \<open>The LSA of the database afterwards.\<close>
definition neg_post :: "timeval \<Rightarrow> ospf6_lsa \<Rightarrow> ospf6_lsa \<Rightarrow> bool" where
  "neg_post now l l' \<longleftrightarrow> lsa_ident l' = lsa_ident l \<and> lsa_wf l' = lsa_wf l \<and>
     lsa_retrans_count l' = lsa_retrans_count l + of_bool (OSPF6_LSA_IS_MAXAGE now l)"

lemma negotiation_step_ok:
  assumes "lsa_wf l" "nbr_list_ok s" "nbr_list_ok r"
  shows "\<exists>l' copy. neg_post now l l' \<and> lsa_ident copy = lsa_ident l \<and> lsa_wf copy \<and> lsa_lock copy = 0 \<and>
    negotiation_step now l (db, s, r) = Some (db @ [l'],
      if OSPF6_LSA_IS_MAXAGE now l then (s, lsdb_link (lsa_stored now copy) r)
      else (lsdb_link (lsa_stored now copy) s, r))"
proof (cases "OSPF6_LSA_IS_MAXAGE now l")
  case True
  let ?l = "ospf6_increment_retrans_count (snd (ospf6_lsa_age_current now l)\<lparr>lsa_rxmt_time := now\<rparr>)"
  have id: "lsa_ident ?l = lsa_ident l"
    using lsa_ident_age(1) [of now l] by (simp add: ospf6_increment_retrans_count_def lsa_ident_def lsa_key_def)
  have wf: "lsa_wf ?l = lsa_wf l"
    using lsa_wf_age(1) [of now l] by (simp add: ospf6_increment_retrans_count_def lsa_wf_def)
  have wf': "lsa_wf ?l" using assms(1) wf by simp
  obtain copy where c: "ospf6_lsa_copy now ?l = Some (copy, snd (ospf6_lsa_age_current now ?l))"
    "lsa_ident copy = lsa_ident ?l" "lsa_wf copy" "lsa_lock copy = 0"
    by (rule ospf6_lsa_copy_ok [OF wf'])
  have "neg_post now l (snd (ospf6_lsa_age_current now ?l))"
    using True id wf by (simp add: neg_post_def ospf6_increment_retrans_count_def)
  then show ?thesis
    using True c id nbr_list_add_eq [OF assms(3) c(3), of now]
    by (intro exI [of _ "snd (ospf6_lsa_age_current now ?l)"] exI [of _ copy]) (simp add: negotiation_step_def Let_def)
next
  case False
  let ?l = "snd (ospf6_lsa_age_current now l)"
  have wf: "lsa_wf ?l" using assms(1) by simp
  obtain copy where c: "ospf6_lsa_copy now ?l = Some (copy, snd (ospf6_lsa_age_current now ?l))"
    "lsa_ident copy = lsa_ident ?l" "lsa_wf copy" "lsa_lock copy = 0"
    by (rule ospf6_lsa_copy_ok [OF wf])
  have "neg_post now l (snd (ospf6_lsa_age_current now ?l))"
    using False by (simp add: neg_post_def)
  then show ?thesis
    using False c nbr_list_add_eq [OF assms(2) c(3), of now]
    by (intro exI [of _ "snd (ospf6_lsa_age_current now ?l)"] exI [of _ copy]) (simp add: negotiation_step_def Let_def)
qed

section \<open>One database\<close>

lemma set_lsdb_link_fresh: "lsa_key l \<notin> lsdb_keys db \<Longrightarrow> set (lsdb_link l db) = insert l (set db)"
  by (induction db) auto

lemma ident_link:
  assumes "lsa_key copy \<notin> lsdb_keys db"
  shows "lsa_ident ` set (lsdb_link (lsa_stored now copy) db) = insert (lsa_ident copy) (lsa_ident ` set db)"
  using set_lsdb_link_fresh [of "lsa_stored now copy" db] assms by simp

lemma lsdb_keys_ident: "lsdb_keys db = fst ` lsa_ident ` set db"
  by (simp add: lsa_ident_def image_image)

lemma negotiation_loop_ok:
  assumes "\<forall>l \<in> set db. lsa_wf l" "distinct (map lsa_key db)" "nbr_list_ok s" "nbr_list_ok r"
    and "lsdb_keys db \<inter> (lsdb_keys s \<union> lsdb_keys r) = {}"
  shows "\<exists>db' s' r'. for_each (negotiation_step now) db (done, s, r) = Some (done @ db', s', r') \<and>
    list_all2 (neg_post now) db db' \<and> nbr_list_ok s' \<and> nbr_list_ok r' \<and>
    lsa_ident ` set s' = lsa_ident ` (set s \<union> {l \<in> set db. \<not> OSPF6_LSA_IS_MAXAGE now l}) \<and>
    lsa_ident ` set r' = lsa_ident ` (set r \<union> {l \<in> set db. OSPF6_LSA_IS_MAXAGE now l})"
  using assms
proof (induction db arbitrary: "done" s r)
  case (Cons l db)
  let ?m = "OSPF6_LSA_IS_MAXAGE now l"
  have wf: "lsa_wf l" using Cons.prems(1) by simp
  obtain l' copy where st: "neg_post now l l'" "lsa_ident copy = lsa_ident l" "lsa_wf copy" "lsa_lock copy = 0"
    "negotiation_step now l (done, s, r) = Some (done @ [l'],
      if ?m then (s, lsdb_link (lsa_stored now copy) r) else (lsdb_link (lsa_stored now copy) s, r))"
    using negotiation_step_ok [OF wf Cons.prems(3,4), of now "done"] by blast
  define s1 where "s1 = (if ?m then s else lsdb_link (lsa_stored now copy) s)"
  define r1 where "r1 = (if ?m then lsdb_link (lsa_stored now copy) r else r)"
  have key: "lsa_key copy = lsa_key l" by (rule lsa_ident_eqD [OF st(2)])
  have ok: "nbr_list_ok s1" "nbr_list_ok r1"
    using Cons.prems(3,4) nbr_list_ok_link [OF _ st(3,4)] by (simp_all add: s1_def r1_def)
  have id: "lsa_ident ` set s1 = (if ?m then lsa_ident ` set s else insert (lsa_ident l) (lsa_ident ` set s))"
    "lsa_ident ` set r1 = (if ?m then insert (lsa_ident l) (lsa_ident ` set r) else lsa_ident ` set r)"
    using ident_link [of copy s now] ident_link [of copy r now] key st(2) Cons.prems(5) by (auto simp: s1_def r1_def)
  have "lsdb_keys s1 \<union> lsdb_keys r1 = insert (lsa_key l) (lsdb_keys s \<union> lsdb_keys r)"
    unfolding lsdb_keys_ident id by (auto simp: lsa_ident_def)
  then have "lsdb_keys db \<inter> (lsdb_keys s1 \<union> lsdb_keys r1) = {}" using Cons.prems(2,5) by auto
  from Cons.IH [OF _ _ ok this, of "done @ [l']"] Cons.prems(1,2)
  obtain db' s' r' where IH: "for_each (negotiation_step now) db (done @ [l'], s1, r1) = Some ((done @ [l']) @ db', s', r')"
    "list_all2 (neg_post now) db db'" "nbr_list_ok s'" "nbr_list_ok r'"
    "lsa_ident ` set s' = lsa_ident ` (set s1 \<union> {l \<in> set db. \<not> OSPF6_LSA_IS_MAXAGE now l})"
    "lsa_ident ` set r' = lsa_ident ` (set r1 \<union> {l \<in> set db. OSPF6_LSA_IS_MAXAGE now l})" by auto
  have run: "for_each (negotiation_step now) (l # db) (done, s, r) = Some (done @ l' # db', s', r')"
    using st(5) IH(1) by (cases ?m) (simp_all add: s1_def r1_def)
  have "lsa_ident ` set s' = lsa_ident ` (set s \<union> {x \<in> set (l # db). \<not> OSPF6_LSA_IS_MAXAGE now x})"
    "lsa_ident ` set r' = lsa_ident ` (set r \<union> {x \<in> set (l # db). OSPF6_LSA_IS_MAXAGE now x})"
    using id unfolding IH(5,6) image_Un by (auto split: if_splits)
  then show ?case using run IH(2-4) st(1) by (intro exI [of _ "l' # db'"] exI [of _ s'] exI [of _ r']) simp
qed simp

section \<open>The three databases\<close>

lemma db_ok_distinct: "db_ok w scope db \<Longrightarrow> distinct (map lsa_key db)"
  by (simp add: db_ok_def lsdb_sorted_def strict_sorted_iff)

lemma db_ok_scope_disjoint:
  assumes "db_ok w scope db" "db_ok w scope' db'" "scope \<noteq> scope'"
  shows "lsdb_keys db \<inter> lsdb_keys db' = {}"
proof (rule ccontr)
  assume "lsdb_keys db \<inter> lsdb_keys db' \<noteq> {}"
  then obtain a b where ab: "a \<in> set db" "b \<in> set db'" "lsa_key a = lsa_key b" by fastforce
  then have "h_type (lsa_header a) = h_type (lsa_header b)" by (simp add: lsa_key_def)
  then show False using assms ab by (auto simp: db_ok_def)
qed

lemma list_all2_right:
  assumes "list_all2 P xs ys" "y \<in> set ys"
  shows "\<exists>x \<in> set xs. P x y"
  using assms by (induction rule: list_all2_induct) auto

lemma neg_post_key: "list_all2 (neg_post now) db db' \<Longrightarrow> map lsa_key db' = map lsa_key db"
  by (induction rule: list_all2_induct) (auto simp: neg_post_def lsa_ident_def)

lemma db_ok_neg_post:
  assumes "list_all2 (neg_post now) db db'" "db_ok w scope db"
    and "oi_ifindex (w_oi w') = oi_ifindex (w_oi w)" "oi_area_id (w_oi w') = oi_area_id (w_oi w)"
  shows "db_ok w' scope db'"
proof -
  have "OSPF6_LSA_SCOPE (h_type (lsa_header l')) = scope \<and> lsa_home_ok w' l' \<and> lsa_wf l'" if mem: "l' \<in> set db'" for l'
  proof -
    obtain l where l: "l \<in> set db" "neg_post now l l'" using list_all2_right [OF assms(1) mem] by blast
    have id: "lsa_ident l' = lsa_ident l" using l(2) by (simp add: neg_post_def)
    have "h_type (lsa_header l') = h_type (lsa_header l)" using lsa_ident_eqD(1) [OF id] by (simp add: lsa_key_def)
    moreover have "lsa_home_ok w' l' = lsa_home_ok w l'" by (rule lsa_home_ok_cong) (simp_all add: assms(3,4))
    ultimately show ?thesis
      using l assms(2) lsa_ident_eqD(2) [OF id] by (auto simp: db_ok_def neg_post_def)
  qed
  moreover have "lsdb_sorted db'" using assms(2) neg_post_key [OF assms(1)] by (simp add: db_ok_def lsdb_sorted_def)
  ultimately show ?thesis by (simp add: db_ok_def)
qed

text \<open>All LSAs of the databases, those that are MaxAge, and those that are not.\<close>
definition w_maxage :: "timeval \<Rightarrow> bool \<Rightarrow> world \<Rightarrow> ospf6_lsa set" where
  "w_maxage now m w = {l \<in> w_lsas w. OSPF6_LSA_IS_MAXAGE now l = m}"

lemma dbs_ok_same_key:
  assumes "dbs_ok w" "a \<in> w_lsas w" "b \<in> w_lsas w" "lsa_key a = lsa_key b"
  shows "a = b"
proof -
  have same: "a = b" if "db_ok w scope db" "a \<in> set db" "b \<in> set db" for scope db
    using db_ok_distinct [OF that(1)] that(2,3) assms(4) by (auto simp: distinct_map dest: inj_onD)
  have scope: "OSPF6_LSA_SCOPE (h_type (lsa_header a)) = OSPF6_LSA_SCOPE (h_type (lsa_header b))"
    using assms(4) by (simp add: lsa_key_def)
  have ok: "db_ok w OSPF6_SCOPE_LINKLOCAL (oi_lsdb (w_oi w))" "db_ok w OSPF6_SCOPE_AREA (w_area_lsdb w)"
    "db_ok w OSPF6_SCOPE_AS (w_as_lsdb w)" using assms(1) by (simp_all add: dbs_ok_def)
  have sc: "OSPF6_LSA_SCOPE (h_type (lsa_header l)) = s" if "db_ok w s db" "l \<in> set db" for l s db
    using that by (simp add: db_ok_def)
  show ?thesis
    using assms(2,3) scope same [OF ok(1)] same [OF ok(2)] same [OF ok(3)] sc [OF ok(1)] sc [OF ok(2)] sc [OF ok(3)]
    unfolding w_lsas_def Un_iff by (metis lsa_scope.distinct(1,3,7))
qed

lemma keys_split:
  "fst ` lsa_ident ` {l \<in> A. \<not> P l} \<union> fst ` lsa_ident ` {l \<in> A. P l} = lsa_key ` A"
proof -
  have "fst ` lsa_ident ` B = lsa_key ` B" for B by (simp add: lsa_ident_def image_image)
  moreover have "{l \<in> A. \<not> P l} \<union> {l \<in> A. P l} = A" by auto
  ultimately show ?thesis by (simp add: image_Un [symmetric])
qed

lemma negotiation_scopes_ok:
  assumes "dbs_ok w"
  shows "\<exists>d1 d2 d3 s1 r1 s2 r2 s r.
    negotiation_scope now (oi_lsdb (w_oi w)) ([], []) = Some (d1, s1, r1) \<and>
    negotiation_scope now (w_area_lsdb w) (s1, r1) = Some (d2, s2, r2) \<and>
    negotiation_scope now (w_as_lsdb w) (s2, r2) = Some (d3, s, r) \<and>
    list_all2 (neg_post now) (oi_lsdb (w_oi w)) d1 \<and> list_all2 (neg_post now) (w_area_lsdb w) d2 \<and>
    list_all2 (neg_post now) (w_as_lsdb w) d3 \<and> nbr_list_ok s \<and> nbr_list_ok r \<and>
    lsa_ident ` set s = lsa_ident ` w_maxage now False w \<and> lsa_ident ` set r = lsa_ident ` w_maxage now True w"
proof -
  let ?D1 = "oi_lsdb (w_oi w)" and ?D2 = "w_area_lsdb w" and ?D3 = "w_as_lsdb w"
  let ?m = "OSPF6_LSA_IS_MAXAGE now"
  have ok: "db_ok w OSPF6_SCOPE_LINKLOCAL ?D1" "db_ok w OSPF6_SCOPE_AREA ?D2" "db_ok w OSPF6_SCOPE_AS ?D3"
    using assms by (simp_all add: dbs_ok_def)
  have wf: "\<forall>l \<in> set ?D1. lsa_wf l" "\<forall>l \<in> set ?D2. lsa_wf l" "\<forall>l \<in> set ?D3. lsa_wf l"
    using ok by (auto simp: db_ok_def)
  note dist = ok [THEN db_ok_distinct]
  have nil: "nbr_list_ok []" by (simp add: nbr_list_ok_def)
  obtain d1 s1 r1 where 1: "for_each (negotiation_step now) ?D1 ([], [], []) = Some (d1, s1, r1)"
    "list_all2 (neg_post now) ?D1 d1" "nbr_list_ok s1" "nbr_list_ok r1"
    "lsa_ident ` set s1 = lsa_ident ` {l \<in> set ?D1. \<not> ?m l}" "lsa_ident ` set r1 = lsa_ident ` {l \<in> set ?D1. ?m l}"
    using negotiation_loop_ok [OF wf(1) dist(1) nil nil, of now "[]"] by auto
  have k1: "lsdb_keys s1 \<union> lsdb_keys r1 = lsdb_keys ?D1"
    unfolding lsdb_keys_ident [of s1] lsdb_keys_ident [of r1] 1(5,6) by (rule keys_split)
  have "lsdb_keys ?D2 \<inter> (lsdb_keys s1 \<union> lsdb_keys r1) = {}"
    unfolding k1 by (rule db_ok_scope_disjoint [OF ok(2,1)]) simp
  from negotiation_loop_ok [OF wf(2) dist(2) 1(3,4) this, of now "[]"]
  obtain d2 s2 r2 where 2: "for_each (negotiation_step now) ?D2 ([], s1, r1) = Some (d2, s2, r2)"
    "list_all2 (neg_post now) ?D2 d2" "nbr_list_ok s2" "nbr_list_ok r2"
    "lsa_ident ` set s2 = lsa_ident ` (set s1 \<union> {l \<in> set ?D2. \<not> ?m l})"
    "lsa_ident ` set r2 = lsa_ident ` (set r1 \<union> {l \<in> set ?D2. ?m l})" by auto
  have k2: "lsdb_keys s2 \<union> lsdb_keys r2 = lsdb_keys ?D1 \<union> lsdb_keys ?D2"
    unfolding lsdb_keys_ident [of s2] lsdb_keys_ident [of r2] 2(5,6) image_Un 1(5,6)
    by (simp only: keys_split [of "set ?D1" ?m, symmetric] keys_split [of "set ?D2" ?m, symmetric] Un_ac)
  have "lsdb_keys ?D3 \<inter> (lsdb_keys s2 \<union> lsdb_keys r2) = {}"
    unfolding k2 Int_Un_distrib
    using db_ok_scope_disjoint [OF ok(3,1)] db_ok_scope_disjoint [OF ok(3,2)] by simp
  from negotiation_loop_ok [OF wf(3) dist(3) 2(3,4) this, of now "[]"]
  obtain d3 s r where 3: "for_each (negotiation_step now) ?D3 ([], s2, r2) = Some (d3, s, r)"
    "list_all2 (neg_post now) ?D3 d3" "nbr_list_ok s" "nbr_list_ok r"
    "lsa_ident ` set s = lsa_ident ` (set s2 \<union> {l \<in> set ?D3. \<not> ?m l})"
    "lsa_ident ` set r = lsa_ident ` (set r2 \<union> {l \<in> set ?D3. ?m l})" by auto
  have "w_maxage now False w = {l \<in> set ?D1. \<not> ?m l} \<union> {l \<in> set ?D2. \<not> ?m l} \<union> {l \<in> set ?D3. \<not> ?m l}"
    "w_maxage now True w = {l \<in> set ?D1. ?m l} \<union> {l \<in> set ?D2. ?m l} \<union> {l \<in> set ?D3. ?m l}"
    by (auto simp: w_maxage_def w_lsas_def)
  then have "lsa_ident ` set s = lsa_ident ` w_maxage now False w" "lsa_ident ` set r = lsa_ident ` w_maxage now True w"
    unfolding 3(5,6) image_Un 2(5,6) 1(5,6) by (simp_all add: image_Un)
  then show ?thesis using 1(1,2) 2(1,2) 3(1-4) unfolding negotiation_scope_def by auto
qed

section \<open>The handler\<close>

abbreviation w_rids :: "world \<Rightarrow> rid list" where
  "w_rids w \<equiv> map on_router_id (oi_neighbor_list (w_oi w))"

lemma w_rids_nbr_update [simp]:
  assumes "\<And>on. on_router_id (f on) = on_router_id on"
  shows "w_rids (w_nbr_update j f w) = w_rids w"
  using map_list_update_same [where f = f and g = on_router_id] assms by (simp add: w_nbr_update_def nbr_update_def)

lemma ls_frameD:
  assumes "ls_frame w' = ls_frame w"
  shows "map uncounted (oi_lsdb (w_oi w')) = map uncounted (oi_lsdb (w_oi w))"
    and "map uncounted (w_area_lsdb w') = map uncounted (w_area_lsdb w)"
    and "map uncounted (w_as_lsdb w') = map uncounted (w_as_lsdb w)"
    and "oi_ifindex (w_oi w') = oi_ifindex (w_oi w)" "oi_area_id (w_oi w') = oi_area_id (w_oi w)"
    and "oi_type (w_oi w') = oi_type (w_oi w)"
    and "oi_initial_immediate_hello_delay (w_oi w') = oi_initial_immediate_hello_delay (w_oi w)"
    and "map on_router_id (oi_neighbor_list (w_oi w')) = map on_router_id (oi_neighbor_list (w_oi w))"
proof -
  note d = ls_frame_def count_frame_def nbrs_frame_def
  show "map uncounted (oi_lsdb (w_oi w')) = map uncounted (oi_lsdb (w_oi w))"
    using arg_cong [OF assms, of "\<lambda>w. oi_lsdb (w_oi w)"] by (simp add: d)
  show "map uncounted (w_area_lsdb w') = map uncounted (w_area_lsdb w)"
    using arg_cong [OF assms, of w_area_lsdb] by (simp add: d)
  show "map uncounted (w_as_lsdb w') = map uncounted (w_as_lsdb w)"
    using arg_cong [OF assms, of w_as_lsdb] by (simp add: d)
  show "oi_ifindex (w_oi w') = oi_ifindex (w_oi w)"
    using arg_cong [OF assms, of "\<lambda>w. oi_ifindex (w_oi w)"] by (simp add: d)
  show "oi_area_id (w_oi w') = oi_area_id (w_oi w)"
    using arg_cong [OF assms, of "\<lambda>w. oi_area_id (w_oi w)"] by (simp add: d)
  show "oi_type (w_oi w') = oi_type (w_oi w)"
    using arg_cong [OF assms, of "\<lambda>w. oi_type (w_oi w)"] by (simp add: d)
  show "oi_initial_immediate_hello_delay (w_oi w') = oi_initial_immediate_hello_delay (w_oi w)"
    using arg_cong [OF assms, of "\<lambda>w. oi_initial_immediate_hello_delay (w_oi w)"] by (simp add: d)
  have "map on_router_id (oi_neighbor_list (w_oi v)) = map on_router_id (oi_neighbor_list (w_oi (ls_frame v)))" for v
    by (simp add: d set_ls_lists_def nbr_st_frame_def)
  from this [of w'] this [of w] show "map on_router_id (oi_neighbor_list (w_oi w')) = map on_router_id (oi_neighbor_list (w_oi w))"
    unfolding assms by (rule trans [OF _ sym])
qed

lemma w_maxage_ls_frame:
  assumes "ls_frame w' = ls_frame w"
  shows "lsa_ident ` w_maxage now m w' = lsa_ident ` w_maxage now m w"
proof -
  have u: "uncounted ` w_lsas w' = uncounted ` w_lsas w"
    using ls_frameD(1-3) [OF assms, THEN arg_cong, of set] by (simp add: w_lsas_def image_Un)
  have m: "OSPF6_LSA_IS_MAXAGE now (uncounted l) = OSPF6_LSA_IS_MAXAGE now l" for l
    by (simp add: OSPF6_LSA_IS_MAXAGE_def ospf6_lsa_age_current_def uncounted_def Let_def)
  have i: "lsa_ident (uncounted l) = lsa_ident l" for l by (simp add: lsa_ident_def)
  have "lsa_ident ` w_maxage now m v = lsa_ident ` {l \<in> uncounted ` w_lsas v. OSPF6_LSA_IS_MAXAGE now l = m}" for v
    unfolding w_maxage_def by (force simp: m i image_iff)
  from this [of w'] this [of w] show ?thesis unfolding u by (rule trans [OF _ sym])
qed

text \<open>The world after the lists are filled.\<close>
lemma negotiation_world_ok:
  assumes ok: "w_ok w" and j: "j < w_num w" and nil: "on_retrans_list (w_nbr w j) = []"
    and d: "list_all2 (neg_post now) (oi_lsdb (w_oi w)) d1" "list_all2 (neg_post now) (w_area_lsdb w) d2"
      "list_all2 (neg_post now) (w_as_lsdb w) d3"
    and r: "nbr_list_ok r" "lsa_ident ` set r = lsa_ident ` w_maxage now True w"
    and f: "\<And>on. on_router_id (f on) = on_router_id on" "\<And>on. on_mdr (f on) = on_mdr on"
      "\<And>on. on_retrans_list (f on) = r"
  defines "w' \<equiv> w_nbr_update j f (w\<lparr>w_oi := (w_oi w)\<lparr>oi_lsdb := d1\<rparr>, w_area_lsdb := d2, w_as_lsdb := d3\<rparr>)"
  shows "w_ok w'"
proof -
  let ?ons = "oi_neighbor_list (w_oi w)"
  have dbs: "dbs_ok w" using ok by (simp add: w_ok_def retrans_ok_def)
  have ons: "oi_neighbor_list (w_oi w') = ?ons[j := f (?ons ! j)]"
    by (simp add: w'_def w_nbr_update_def nbr_update_def)
  have v: "mdr_valid (w_oi w') = mdr_valid ((w_oi w)\<lparr>oi_lsdb := d1\<rparr>)"
    unfolding w'_def by (subst mdr_valid_nbr_update) (simp_all add: f)
  have valid: "mdr_valid (w_oi w')" using ok unfolding v by (simp add: w_ok_def mdr_valid_def)
  have home: "lsa_home_ok w' = lsa_home_ok w"
    by (rule ext, rule lsa_home_ok_cong) (simp_all add: w'_def)
  have dbs': "dbs_ok w'"
    using dbs db_ok_neg_post [OF d(1)] db_ok_neg_post [OF d(2)] db_ok_neg_post [OF d(3)]
    by (auto simp: dbs_ok_def w'_def)
  have key: "lsdb_keys r = lsa_key ` w_maxage now True w"
    unfolding lsdb_keys_ident r(2) by (simp add: lsa_ident_def image_image)
  have post: "\<exists>l \<in> w_lsas w. neg_post now l l'" if mem: "l' \<in> w_lsas w'" for l'
  proof -
    have "l' \<in> set d1 \<or> l' \<in> set d2 \<or> l' \<in> set d3" using mem by (simp add: w_lsas_def w'_def)
    then show ?thesis
      using list_all2_right [OF d(1), of l'] list_all2_right [OF d(2), of l'] list_all2_right [OF d(3), of l']
      unfolding w_lsas_def by blast
  qed
  have "int (retrans_refs (oi_neighbor_list (w_oi w')) (lsa_key l')) \<le> lsa_retrans_count l'" if mem: "l' \<in> w_lsas w'" for l'
  proof -
    obtain l where l: "l \<in> w_lsas w" "neg_post now l l'" using post [OF mem] by blast
    have k: "lsa_key l' = lsa_key l" using l(2) by (simp add: neg_post_def lsa_ident_def)
    have "int (retrans_refs ?ons (lsa_key l)) \<le> lsa_retrans_count l"
      using ok l(1) by (simp add: w_ok_def retrans_ok_def counts_ok_def)
    moreover have "retrans_refs (oi_neighbor_list (w_oi w')) (lsa_key l) =
        retrans_refs ?ons (lsa_key l) + of_bool (lsa_key l \<in> lsdb_keys r)"
      unfolding ons retrans_refs_update [OF j] using retrans_refs_split [OF j, of "lsa_key l"] nil by (simp add: f(3))
    moreover have "OSPF6_LSA_IS_MAXAGE now l" if in_r: "lsa_key l \<in> lsdb_keys r"
    proof -
      obtain x where x: "x \<in> w_lsas w" "OSPF6_LSA_IS_MAXAGE now x" "lsa_key l = lsa_key x"
        using in_r unfolding key by (auto simp: w_maxage_def)
      then show ?thesis using dbs_ok_same_key [OF dbs l(1) x(1,3)] by simp
    qed
    ultimately show ?thesis using l(2) by (cases "lsa_key l \<in> lsdb_keys r") (simp_all add: neg_post_def k)
  qed
  then have counts: "counts_ok (retrans_refs (oi_neighbor_list (w_oi w'))) w'" by (simp add: counts_ok_def)
  have hr: "lsa_home_ok w l" if "l \<in> set r" for l
  proof -
    have "lsa_ident l \<in> lsa_ident ` w_maxage now True w" unfolding r(2) [symmetric] using that by simp
    then obtain x where x: "x \<in> w_lsas w" "lsa_ident l = lsa_ident x" by (auto simp: w_maxage_def)
    then show ?thesis using dbs lsa_ident_eqD(2) [OF x(2)] by (auto simp: dbs_ok_def db_ok_def w_lsas_def)
  qed
  have "nbr_list_ok (on_retrans_list on) \<and> (\<forall>l \<in> set (on_retrans_list on). lsa_home_ok w l)"
    if "on \<in> set (oi_neighbor_list (w_oi w'))" for on
  proof -
    have "on \<in> set ?ons \<or> on = f (?ons ! j)"
      using that set_update_subset_insert [of ?ons j "f (?ons ! j)"] unfolding ons by auto
    then show ?thesis using ok hr r(1) f(3) by (auto simp: w_ok_def retrans_ok_def)
  qed
  then show ?thesis using valid dbs' counts by (simp add: w_ok_def retrans_ok_def home)
qed

lemma negotiation_done_ok:
  assumes ok: "w_ok w" and j: "j < w_num w" and ex: "on_state (w_nbr w j) = OSPF6_NEIGHBOR_EXSTART"
  shows "\<exists>w'. negotiation_done env j w = Some w' \<and> w_ok w' \<and> on_state (w_nbr w' j) = OSPF6_NEIGHBOR_EXCHANGE \<and>
    w_num w' = w_num w \<and> w_rids w' = w_rids w \<and> oi_type (w_oi w') = oi_type (w_oi w) \<and>
    oi_initial_immediate_hello_delay (w_oi w') = oi_initial_immediate_hello_delay (w_oi w) \<and>
    lsa_ident ` set (on_summary_list (w_nbr w' j)) = lsa_ident ` w_maxage (ne_now env) False w \<and>
    nbr_list_ok (on_summary_list (w_nbr w' j)) \<and> on_request_list (w_nbr w' j) = [] \<and>
    lsa_ident ` set (on_retrans_list (w_nbr w' j)) = lsa_ident ` w_maxage (ne_now env) True w \<and>
    (\<forall>i < w_num w. i \<noteq> j \<longrightarrow> nbr_tr (w_nbr w i) (w_nbr w' i))"
proof -
  let ?now = "ne_now env"
  obtain w1 where w1: "clear_ls_lists j w = Some w1" "w_ok w1" "ls_frame w1 = ls_frame w"
    "oi_neighbor_list (w_oi w1) = (oi_neighbor_list (w_oi w))[j := set_ls_lists ([], [], []) (w_nbr w j)]"
    using clear_ls_lists_world [OF ok j] by blast
  have nj: "w_nbr w1 j = set_ls_lists ([], [], []) (w_nbr w j)" and n1: "j < w_num w1"
    using j by (simp_all add: w1(4))
  have nil: "on_summary_list (w_nbr w1 j) = []" "on_retrans_list (w_nbr w1 j) = []" "on_request_list (w_nbr w1 j) = []"
    by (simp_all add: nj set_ls_lists_def)
  have dbs1: "dbs_ok w1" using w1(2) by (simp add: w_ok_def retrans_ok_def)
  obtain d1 d2 d3 s1 r1 s2 r2 s r where
    run: "negotiation_scope ?now (oi_lsdb (w_oi w1)) ([], []) = Some (d1, s1, r1)"
      "negotiation_scope ?now (w_area_lsdb w1) (s1, r1) = Some (d2, s2, r2)"
      "negotiation_scope ?now (w_as_lsdb w1) (s2, r2) = Some (d3, s, r)"
    and d: "list_all2 (neg_post ?now) (oi_lsdb (w_oi w1)) d1" "list_all2 (neg_post ?now) (w_area_lsdb w1) d2"
      "list_all2 (neg_post ?now) (w_as_lsdb w1) d3"
    and sr: "nbr_list_ok s" "nbr_list_ok r" "lsa_ident ` set s = lsa_ident ` w_maxage ?now False w1"
      "lsa_ident ` set r = lsa_ident ` w_maxage ?now True w1"
    using negotiation_scopes_ok [OF dbs1, of ?now] by (elim exE conjE) (rule that)
  let ?f = "\<lambda>on. on\<lparr>on_summary_list := s, on_retrans_list := r,
      on_dbdesc_bits := on_dbdesc_bits on AND NOT OSPF6_DBDESC_IBIT\<rparr>"
  let ?w2 = "w_nbr_update j ?f (w1\<lparr>w_oi := (w_oi w1)\<lparr>oi_lsdb := d1\<rparr>, w_area_lsdb := d2, w_as_lsdb := d3\<rparr>)"
  have ok2: "w_ok ?w2" by (rule negotiation_world_ok [OF w1(2) n1 nil(2) d sr(2,4)]) simp_all
  have nbr2: "w_nbr ?w2 i = (if i = j then ?f (w_nbr w1 i) else w_nbr w1 i)" if "i < w_num w1" for i
    using that by simp
  have n2: "w_num ?w2 = w_num w1" by simp
  obtain w3 where w3: "ospf6_neighbor_state_change env OSPF6_NEIGHBOR_EXCHANGE j ?w2 = Some w3"
    "sc_done OSPF6_NEIGHBOR_EXCHANGE j ?w2 w3"
    using state_change_ok [OF ok2, of j env OSPF6_NEIGHBOR_EXCHANGE] n1 n2 by auto
  have res: "negotiation_done env j w = Some w3"
    using ex w1(1) nil(1,2) run w3(1) by (simp add: negotiation_done_def Let_def)
  have n3: "w_num w3 = w_num w" using w3(2) ls_frame_num [of w3 ?w2] n2 by (simp add: sc_done_def w1(4))
  have lists: "ls_lists (w_nbr w3 j) = (s, [], r)"
    using w3(2) nbr2 [OF n1] nil(3) by (simp add: sc_done_def ls_lists_def)
  have delay: "oi_initial_immediate_hello_delay (w_oi w3) = oi_initial_immediate_hello_delay (w_oi w)"
    using ls_frameD(7) [of w3 ?w2] w3(2) ls_frameD(7) [OF w1(3)]
    by (simp add: sc_done_def w_nbr_update_def nbr_update_def)
  have rids: "w_rids w3 = w_rids w"
    using ls_frameD(8) [of w3 ?w2] w3(2) ls_frameD(8) [OF w1(3)] w_rids_nbr_update [where f = ?f] by (simp add: sc_done_def)
  have type: "oi_type (w_oi w3) = oi_type (w_oi w)"
    using ls_frameD(6) [of w3 ?w2] w3(2) ls_frameD(6) [OF w1(3)] by (simp add: sc_done_def)
  have other: "nbr_tr (w_nbr w i) (w_nbr w3 i)" if "i < w_num w" "i \<noteq> j" for i
    using w3(2) nbr2 [of i] that n2 by (simp add: sc_done_def w1(4))
  show ?thesis
    using res w3(2) n3 rids type lists delay other sr(1,3,4) w_maxage_ls_frame [OF w1(3), of ?now]
    by (simp add: sc_done_def ls_lists_def)
qed

end
