(* ===== verification/Neighbor_Fsm.thy ===== *)
theory Neighbor_Fsm
  imports Neighbor_Exchange
begin

text \<open>
  The neighbor events. \<open>nbr_fsm_next\<close> is the table of the neighbor state machine (RFC 2328, section
  10.3, with the conditions of this program); every handler implements it, always returns and keeps the
  invariant, and so the invariant holds in all worlds that sequences of events lead to.
\<close>

section \<open>The invariant\<close>

text \<open>Below Exchange the LS lists are empty.\<close>
definition nbr_quiet :: "ospf6_neighbor \<Rightarrow> bool" where
  "nbr_quiet on \<longleftrightarrow> (on_state on \<le> OSPF6_NEIGHBOR_EXSTART \<longrightarrow> ls_lists on = ([], [], []))"

definition fsm_inv :: "world \<Rightarrow> bool" where
  "fsm_inv w \<longleftrightarrow> w_ok w \<and> (\<forall>i < w_num w. nbr_quiet (w_nbr w i)) \<and> 0 < oi_initial_immediate_hello_delay (w_oi w)"

lemma nbr_tr_quiet: "nbr_tr on on' \<Longrightarrow> nbr_quiet on \<Longrightarrow> nbr_quiet on'"
  by (auto simp: nbr_tr_def nbr_quiet_def leaf_state_def less_eq_nbr_state_def)

text \<open>The effect of an event on the world: the neighbor is in the given state, and the others change only
  as \<open>nbr_tr\<close> allows.\<close>
definition event_done :: "nbr_state \<Rightarrow> nat \<Rightarrow> world \<Rightarrow> world \<Rightarrow> bool" where
  "event_done s j w w' \<longleftrightarrow> fsm_inv w' \<and> w_num w' = w_num w \<and> w_rids w' = w_rids w \<and> oi_type (w_oi w') = oi_type (w_oi w) \<and>
     on_state (w_nbr w' j) = s \<and> (\<forall>i < w_num w. i \<noteq> j \<longrightarrow> nbr_tr (w_nbr w i) (w_nbr w' i))"

lemma event_done_refl: "fsm_inv w \<Longrightarrow> event_done (on_state (w_nbr w j)) j w w"
  by (simp add: event_done_def)

lemma sc_done_event:
  assumes "fsm_inv w" "j < w_num w" "sc_done s j w w'" "s \<le> OSPF6_NEIGHBOR_EXSTART \<Longrightarrow> ls_lists (w_nbr w j) = ([], [], [])"
  shows "event_done s j w w'"
proof -
  have n: "w_num w' = w_num w" using assms(3) ls_frame_num [of w' w] by (simp add: sc_done_def)
  have "nbr_quiet (w_nbr w' i)" if i: "i < w_num w" for i
  proof (cases "i = j")
    case True
    then show ?thesis using assms(3,4) by (auto simp: sc_done_def nbr_quiet_def)
  next
    case False
    then have "nbr_tr (w_nbr w i) (w_nbr w' i)" using assms(3) i by (simp add: sc_done_def)
    then show ?thesis using nbr_tr_quiet assms(1) i by (auto simp: fsm_inv_def)
  qed
  moreover have "oi_initial_immediate_hello_delay (w_oi w') = oi_initial_immediate_hello_delay (w_oi w)"
    by (rule ls_frameD(7)) (use assms(3) in \<open>simp add: sc_done_def\<close>)
  moreover have "w_rids w' = w_rids w" by (rule ls_frameD(8)) (use assms(3) in \<open>simp add: sc_done_def\<close>)
  moreover have "oi_type (w_oi w') = oi_type (w_oi w)" by (rule ls_frameD(6)) (use assms(3) in \<open>simp add: sc_done_def\<close>)
  ultimately show ?thesis using assms(1,3) n by (simp add: event_done_def fsm_inv_def sc_done_def)
qed

text \<open>Updates of fields that the state machine does not look at.\<close>

lemma w_ok_cong:
  assumes "map (\<lambda>on. (on_router_id on, nm_treenode (on_mdr on))) (oi_neighbor_list (w_oi w')) =
      map (\<lambda>on. (on_router_id on, nm_treenode (on_mdr on))) (oi_neighbor_list (w_oi w))"
    and "map on_retrans_list (oi_neighbor_list (w_oi w')) = map on_retrans_list (oi_neighbor_list (w_oi w))"
    and "im_MDRConstraint (oi_mdr (w_oi w')) = im_MDRConstraint (oi_mdr (w_oi w))"
    and "oi_lsdb (w_oi w') = oi_lsdb (w_oi w)" "w_area_lsdb w' = w_area_lsdb w" "w_as_lsdb w' = w_as_lsdb w"
    and "oi_ifindex (w_oi w') = oi_ifindex (w_oi w)" "oi_area_id (w_oi w') = oi_area_id (w_oi w)"
    and "w_ok w"
  shows "w_ok w'"
proof -
  have h: "lsa_home_ok w' = lsa_home_ok w" by (rule ext, rule lsa_home_ok_cong) (simp_all add: assms)
  have nbr: "nbr_list_ok (on_retrans_list on) \<and> (\<forall>l \<in> set (on_retrans_list on). lsa_home_ok w' l)"
    if "on \<in> set (oi_neighbor_list (w_oi w'))" for on
  proof -
    have "on_retrans_list on \<in> set (map on_retrans_list (oi_neighbor_list (w_oi w)))"
      unfolding assms(2) [symmetric] using that by simp
    then show ?thesis using assms(9) by (auto simp: w_ok_def retrans_ok_def h)
  qed
  have "dbs_ok w' = dbs_ok w" by (simp add: dbs_ok_def db_ok_def h assms)
  moreover have "counts_ok C w' = counts_ok C w" for C by (simp add: counts_ok_def w_lsas_def assms)
  ultimately show ?thesis
    using assms(9) nbr mdr_valid_cong [OF assms(1,3)] by (simp add: w_ok_def retrans_ok_def retrans_refs_same [OF assms(2)])
qed

definition light_update :: "(ospf6_neighbor \<Rightarrow> ospf6_neighbor) \<Rightarrow> bool" where
  "light_update f \<longleftrightarrow> (\<forall>on. on_state (f on) = on_state on \<and> ls_lists (f on) = ls_lists on \<and>
     on_router_id (f on) = on_router_id on \<and> on_mdr (f on) = on_mdr on)"

lemma light_updateD:
  assumes "light_update f"
  shows "on_state (f on) = on_state on" "ls_lists (f on) = ls_lists on" "on_router_id (f on) = on_router_id on"
    "on_mdr (f on) = on_mdr on" "on_request_list (f on) = on_request_list on"
  using assms by (simp_all add: light_update_def ls_lists_def)

lemma need_adjacency_cong:
  assumes "oi_mdr oi' = oi_mdr oi" "oi_type oi' = oi_type oi" "oi_state oi' = oi_state oi"
    and "oi_drouter oi' = oi_drouter oi" "oi_bdrouter oi' = oi_bdrouter oi"
    and "on_mdr on' = on_mdr on" "on_router_id on' = on_router_id on"
  shows "need_adjacency oi' on' = need_adjacency oi on"
  by (simp add: need_adjacency_def ospf6_mdr_neighbor_need_adjacency_def assms)

lemma formation_count_states:
  "ospf6_interface_adjacency_formation_count (w_oi w) =
     of_nat (length (filter (\<lambda>s. s > OSPF6_NEIGHBOR_TWOWAY \<and> s < OSPF6_NEIGHBOR_FULL) (w_states w)))"
  by (simp add: ospf6_interface_adjacency_formation_count_def filter_map o_def)

lemma light_update_world:
  assumes "light_update f"
  shows "w_ok w \<Longrightarrow> w_ok (w_nbr_update j f w)" "fsm_inv w \<Longrightarrow> fsm_inv (w_nbr_update j f w)"
    and "i < w_num w \<Longrightarrow> need_adjacency (w_oi (w_nbr_update j f w)) (w_nbr (w_nbr_update j f w) i) =
      need_adjacency (w_oi w) (w_nbr w i)"
    and "ospf6_interface_adjacency_formation_count (w_oi (w_nbr_update j f w)) =
      ospf6_interface_adjacency_formation_count (w_oi w)"
    and "oi_adjacency_formation_limit (w_oi (w_nbr_update j f w)) = oi_adjacency_formation_limit (w_oi w)"
    and "i < w_num w \<Longrightarrow> on_state (w_nbr (w_nbr_update j f w) i) = on_state (w_nbr w i)"
    and "i < w_num w \<Longrightarrow> ls_lists (w_nbr (w_nbr_update j f w) i) = ls_lists (w_nbr w i)"
proof -
  note f = light_updateD [OF assms]
  have r: "on_retrans_list (f on) = on_retrans_list on" for on using f(2) [of on] by (simp add: ls_lists_def)
  show ok: "w_ok (w_nbr_update j f w)" if "w_ok w"
  proof (rule w_ok_cong [OF _ _ _ _ _ _ _ _ that])
    show "map (\<lambda>on. (on_router_id on, nm_treenode (on_mdr on))) (oi_neighbor_list (w_oi (w_nbr_update j f w))) =
        map (\<lambda>on. (on_router_id on, nm_treenode (on_mdr on))) (oi_neighbor_list (w_oi w))"
      using map_list_update_same [where f = f and g = "\<lambda>on. (on_router_id on, nm_treenode (on_mdr on))"] f
      by (simp add: w_nbr_update_def nbr_update_def)
    show "map on_retrans_list (oi_neighbor_list (w_oi (w_nbr_update j f w))) = map on_retrans_list (oi_neighbor_list (w_oi w))"
      using map_list_update_same [where f = f and g = on_retrans_list] r by (simp add: w_nbr_update_def nbr_update_def)
  qed simp_all
  show st: "on_state (w_nbr (w_nbr_update j f w) i) = on_state (w_nbr w i)" if "i < w_num w" for i
    using that f(1) by simp
  show ls: "ls_lists (w_nbr (w_nbr_update j f w) i) = ls_lists (w_nbr w i)" if "i < w_num w" for i
    using that f(2) by simp
  show "fsm_inv (w_nbr_update j f w)" if "fsm_inv w"
    using that ok st ls by (simp add: fsm_inv_def nbr_quiet_def w_nbr_update_def nbr_update_def)
  show "need_adjacency (w_oi (w_nbr_update j f w)) (w_nbr (w_nbr_update j f w) i) = need_adjacency (w_oi w) (w_nbr w i)"
    if "i < w_num w"
    by (rule need_adjacency_cong) (use that f(3,4) in \<open>simp_all add: w_nbr_update_def nbr_update_def nth_list_update_if\<close>)
  show "ospf6_interface_adjacency_formation_count (w_oi (w_nbr_update j f w)) =
      ospf6_interface_adjacency_formation_count (w_oi w)"
    unfolding formation_count_states w_states_nbr_update [of f, OF f(1)] by simp
  show "oi_adjacency_formation_limit (w_oi (w_nbr_update j f w)) = oi_adjacency_formation_limit (w_oi w)"
    by (simp add: w_nbr_update_def nbr_update_def)
qed

text \<open>A light update before an event does not matter for its effect.\<close>

lemma event_done_light:
  assumes "light_update f" "j < w_num w" "event_done s j (w_nbr_update j f w) w'"
  shows "event_done s j w w'"
  using assms by (auto simp: event_done_def light_updateD)

lemma fsm_inv_emit [simp]: "fsm_inv (w_emit e w) = fsm_inv w"
  by (simp add: fsm_inv_def w_emit_def emit_def w_ok_emit [unfolded w_emit_def emit_def])

lemma event_done_emit: "event_done s j (w_emit e w) w' = event_done s j w w'"
  by (simp add: event_done_def)

section \<open>Changes of state from the handlers\<close>

lemma state_change_event:
  assumes "fsm_inv w" "j < w_num w" "s \<le> OSPF6_NEIGHBOR_EXSTART \<Longrightarrow> ls_lists (w_nbr w j) = ([], [], [])"
  shows "\<exists>w'. ospf6_neighbor_state_change env s j w = Some w' \<and> event_done s j w w'"
proof -
  have "w_ok w" using assms(1) by (simp add: fsm_inv_def)
  then obtain w' where "ospf6_neighbor_state_change env s j w = Some w'" "sc_done s j w w'"
    using state_change_ok [of w j env s] assms(2) by blast
  then show ?thesis using sc_done_event [OF assms(1,2) _ assms(3)] by blast
qed

lemma quiet_lists: "fsm_inv w \<Longrightarrow> j < w_num w \<Longrightarrow> on_state (w_nbr w j) \<le> OSPF6_NEIGHBOR_EXSTART \<Longrightarrow>
    ls_lists (w_nbr w j) = ([], [], [])"
  by (simp add: fsm_inv_def nbr_quiet_def)

text \<open>A change of state followed by clearing the lists.\<close>

lemma state_change_clear:
  assumes "fsm_inv w" "j < w_num w" "\<And>v. ls_frame (g v) = ls_frame v" "\<And>v. w_ok (g v) = w_ok v"
    and "\<And>v. oi_neighbor_list (w_oi (g v)) = oi_neighbor_list (w_oi v)"
  shows "\<exists>w1 w'. ospf6_neighbor_state_change env s j w = Some w1 \<and> clear_ls_lists j (g w1) = Some w' \<and> event_done s j w w'"
proof -
  have ok: "w_ok w" using assms(1) by (simp add: fsm_inv_def)
  obtain w1 where w1: "ospf6_neighbor_state_change env s j w = Some w1" "sc_done s j w w1"
    using state_change_ok [OF ok assms(2), of env s] by blast
  have n1: "w_num w1 = w_num w" using w1(2) ls_frame_num [of w1 w] by (simp add: sc_done_def)
  obtain w2 where w2: "clear_ls_lists j (g w1) = Some w2" "w_ok w2" "ls_frame w2 = ls_frame w1"
    "oi_neighbor_list (w_oi w2) = (oi_neighbor_list (w_oi w1))[j := set_ls_lists ([], [], []) (w_nbr w1 j)]"
    using clear_ls_lists_world [of "g w1" j] w1(2) assms(2) n1 by (auto simp: sc_done_def assms(3-5))
  have nbr: "w_nbr w2 i = (if i = j then set_ls_lists ([], [], []) (w_nbr w1 i) else w_nbr w1 i)" if "i < w_num w" for i
    using that n1 by (simp add: w2(4))
  have "nbr_quiet (w_nbr w2 i)" if i: "i < w_num w" for i
  proof (cases "i = j")
    case False
    then have "nbr_tr (w_nbr w i) (w_nbr w1 i)" using w1(2) i by (simp add: sc_done_def)
    then show ?thesis using nbr_tr_quiet assms(1) i False by (auto simp: fsm_inv_def nbr [OF i])
  qed (use nbr [OF i] in \<open>simp add: nbr_quiet_def set_ls_lists_def ls_lists_def\<close>)
  moreover have "oi_initial_immediate_hello_delay (w_oi w2) = oi_initial_immediate_hello_delay (w_oi w)"
    using ls_frameD(7) [OF w2(3)] ls_frameD(7) [of w1 w] w1(2) by (simp add: sc_done_def)
  ultimately have "fsm_inv w2" using w2(2) assms(1) n1 by (simp add: fsm_inv_def w2(4))
  moreover have "w_rids w2 = w_rids w"
    using ls_frameD(8) [OF w2(3)] ls_frameD(8) [of w1 w] w1(2) by (simp add: sc_done_def)
  moreover have "oi_type (w_oi w2) = oi_type (w_oi w)"
    using ls_frameD(6) [OF w2(3)] ls_frameD(6) [of w1 w] w1(2) by (simp add: sc_done_def)
  ultimately have "event_done s j w w2"
    using w1(2) n1 nbr assms(2) by (simp add: event_done_def sc_done_def w2(4) set_ls_lists_def)
  then show ?thesis using w1(1) w2(1) by blast
qed

lemmas state_change_clear_event = state_change_clear [where g = "\<lambda>w. w", OF _ _ refl refl refl]

lemma state_change_clear_emit_event:
  assumes "fsm_inv w" "j < w_num w"
  shows "\<exists>w1 w'. ospf6_neighbor_state_change env s j w = Some w1 \<and> clear_ls_lists j (w_emit e w1) = Some w' \<and>
    event_done s j w w'"
  by (rule state_change_clear [where g = "w_emit e", OF assms]) simp_all

lemma clear_ls_lists_event:
  assumes "fsm_inv w" "j < w_num w"
  shows "\<exists>w'. clear_ls_lists j w = Some w' \<and> fsm_inv w' \<and> w_num w' = w_num w \<and> w_rids w' = w_rids w \<and> oi_type (w_oi w') = oi_type (w_oi w) \<and>
    ls_lists (w_nbr w' j) = ([], [], []) \<and> on_state (w_nbr w' j) = on_state (w_nbr w j) \<and>
    (\<forall>i < w_num w. i \<noteq> j \<longrightarrow> w_nbr w' i = w_nbr w i)"
proof -
  have ok: "w_ok w" using assms(1) by (simp add: fsm_inv_def)
  obtain w2 where w2: "clear_ls_lists j w = Some w2" "w_ok w2" "ls_frame w2 = ls_frame w"
    "oi_neighbor_list (w_oi w2) = (oi_neighbor_list (w_oi w))[j := set_ls_lists ([], [], []) (w_nbr w j)]"
    using clear_ls_lists_world [OF ok assms(2)] by blast
  have nbr: "w_nbr w2 i = (if i = j then set_ls_lists ([], [], []) (w_nbr w i) else w_nbr w i)" if "i < w_num w" for i
    using that by (simp add: w2(4))
  have "nbr_quiet (w_nbr w2 i)" if "i < w_num w" for i
    using assms(1) that by (cases "i = j") (simp_all add: nbr fsm_inv_def nbr_quiet_def set_ls_lists_def ls_lists_def)
  then have "fsm_inv w2" using w2(2) assms(1) ls_frameD(7) [OF w2(3)] by (simp add: fsm_inv_def w2(4))
  then show ?thesis using w2(1) nbr assms(2) ls_frameD(6,8) [OF w2(3)] by (simp add: w2(4) set_ls_lists_def ls_lists_def)
qed

section \<open>The table of the state machine\<close>

datatype nbr_event =
    HelloReceived | TwowayReceived | NegotiationDone | ExchangeDone | LoadingDone | AdjOK
  | SeqNumberMismatch | BadLSReq | OnewayReceived

text \<open>What a transition depends on: the type of the interface, enough consecutive Hellos, whether an
  adjacency is needed, whether a new one must wait, and whether the link state request list is empty.\<close>
record fsm_cond =
  fc_mdr :: bool
  fc_hellos :: bool
  fc_need :: bool
  fc_deferred :: bool
  fc_loaded :: bool

fun nbr_fsm_next :: "nbr_event \<Rightarrow> fsm_cond \<Rightarrow> nbr_state \<Rightarrow> nbr_state" where
  "nbr_fsm_next HelloReceived c s =
     (if s = OSPF6_NEIGHBOR_DOWN \<and> (fc_mdr c \<longrightarrow> fc_hellos c) then OSPF6_NEIGHBOR_INIT else s)"
| "nbr_fsm_next TwowayReceived c s =
     (if s > OSPF6_NEIGHBOR_INIT then s
      else if fc_mdr c then (if s = OSPF6_NEIGHBOR_INIT then OSPF6_NEIGHBOR_TWOWAY else s)
      else if \<not> fc_need c then OSPF6_NEIGHBOR_TWOWAY
      else if fc_deferred c then s
      else OSPF6_NEIGHBOR_EXSTART)"
| "nbr_fsm_next NegotiationDone c s = (if s = OSPF6_NEIGHBOR_EXSTART then OSPF6_NEIGHBOR_EXCHANGE else s)"
| "nbr_fsm_next ExchangeDone c s =
     (if s = OSPF6_NEIGHBOR_EXCHANGE then if fc_loaded c then OSPF6_NEIGHBOR_FULL else OSPF6_NEIGHBOR_LOADING else s)"
| "nbr_fsm_next LoadingDone c s = (if s = OSPF6_NEIGHBOR_LOADING then OSPF6_NEIGHBOR_FULL else s)"
| "nbr_fsm_next AdjOK c s =
     (if s = OSPF6_NEIGHBOR_TWOWAY \<and> fc_need c then if fc_deferred c then s else OSPF6_NEIGHBOR_EXSTART
      else if s \<ge> OSPF6_NEIGHBOR_EXSTART \<and> \<not> fc_need c then OSPF6_NEIGHBOR_TWOWAY
      else s)"
| "nbr_fsm_next SeqNumberMismatch c s = (if s \<ge> OSPF6_NEIGHBOR_EXCHANGE then OSPF6_NEIGHBOR_EXSTART else s)"
| "nbr_fsm_next BadLSReq c s = (if s \<ge> OSPF6_NEIGHBOR_EXCHANGE then OSPF6_NEIGHBOR_EXSTART else s)"
| "nbr_fsm_next OnewayReceived c s = (if s \<ge> OSPF6_NEIGHBOR_TWOWAY then OSPF6_NEIGHBOR_INIT else s)"

definition fsm_deferred :: "ospf6_interface \<Rightarrow> bool" where
  "fsm_deferred oi \<longleftrightarrow> oi_adjacency_formation_limit oi > 0 \<and>
     ospf6_interface_adjacency_formation_count oi \<ge> oi_adjacency_formation_limit oi"

definition fsm_cond_of :: "world \<Rightarrow> nat \<Rightarrow> fsm_cond" where
  "fsm_cond_of w j =
     \<lparr>fc_mdr = (oi_type (w_oi w) = OSPF6_IFTYPE_MDR),
      fc_hellos = (nm_consec_hellos (on_mdr (w_nbr w j)) \<ge> im_consec_hello_threshold (oi_mdr (w_oi w))),
      fc_need = need_adjacency (w_oi w) (w_nbr w j),
      fc_deferred = fsm_deferred (w_oi w),
      fc_loaded = (on_request_list (w_nbr w j) = [])\<rparr>"

fun nbr_handle :: "nbr_event \<Rightarrow> nbr_env \<Rightarrow> nat \<Rightarrow> world \<Rightarrow> world option" where
  "nbr_handle HelloReceived = hello_received"
| "nbr_handle TwowayReceived = twoway_received"
| "nbr_handle NegotiationDone = negotiation_done"
| "nbr_handle ExchangeDone = exchange_done"
| "nbr_handle LoadingDone = loading_done"
| "nbr_handle AdjOK = adj_ok"
| "nbr_handle SeqNumberMismatch = seqnumber_mismatch"
| "nbr_handle BadLSReq = bad_lsreq"
| "nbr_handle OnewayReceived = oneway_received"

section \<open>The handlers\<close>

lemma exstart_from_event:
  assumes "fsm_inv w" "j < w_num w" "ls_lists (w_nbr w j) = ([], [], [])"
  shows "\<exists>w'. exstart_from (ospf6_neighbor_state_change env) j seqnum w = Some w' \<and>
    event_done OSPF6_NEIGHBOR_EXSTART j w w'"
proof -
  obtain w1 where w1: "ospf6_neighbor_state_change env OSPF6_NEIGHBOR_EXSTART j w = Some w1"
    "event_done OSPF6_NEIGHBOR_EXSTART j w w1"
    using state_change_event [OF assms(1,2), of OSPF6_NEIGHBOR_EXSTART env] assms(3) by blast
  let ?f = "\<lambda>on. on\<lparr>on_dbdesc_bits := SET_FLAG (SET_FLAG (SET_FLAG (on_dbdesc_bits on) OSPF6_DBDESC_MSBIT)
      OSPF6_DBDESC_MBIT) OSPF6_DBDESC_IBIT, on_dbdesc_seqnum := seqnum, on_thread_send_dbdesc := Some 0\<rparr>"
  have l: "light_update ?f" by (simp add: light_update_def ls_lists_def)
  have "event_done OSPF6_NEIGHBOR_EXSTART j w (w_nbr_update j ?f w1)"
    using w1(2) light_update_world(2) [OF l, of w1 j] assms(2) by (simp add: event_done_def)
  then show ?thesis using w1(1) by (simp add: exstart_from_def)
qed

lemma exstart_event:
  assumes "fsm_inv w" "j < w_num w" "ls_lists (w_nbr w j) = ([], [], [])"
  shows "\<exists>w'. ospf6_neighbor_exstart env j w = Some w' \<and>
    event_done (if fsm_deferred (w_oi w) then on_state (w_nbr w j) else OSPF6_NEIGHBOR_EXSTART) j w w'"
proof (cases "fsm_deferred (w_oi w)")
  case True
  then show ?thesis using event_done_refl [OF assms(1)] by (simp add: exstart_def fsm_deferred_def Let_def)
next
  case False
  let ?seqnum = "word_of_int (tv_sec (ne_now env))"
  obtain w' where w': "exstart_from (ospf6_neighbor_state_change env) j ?seqnum w = Some w'"
    "event_done OSPF6_NEIGHBOR_EXSTART j w w'"
    using exstart_from_event [OF assms] by blast
  then show ?thesis using False by (auto simp: exstart_def fsm_deferred_def Let_def)
qed

lemma immediate_hello_event:
  assumes "fsm_inv w" "b \<Longrightarrow> oi_allow_immediate_hello (w_oi w)"
  shows "\<exists>w'. (if b then map_option (\<lambda>oi. w\<lparr>w_oi := oi\<rparr>) (ospf6_schedule_immediate_hello now (w_oi w)) else Some w) = Some w' \<and>
    fsm_inv w' \<and> oi_neighbor_list (w_oi w') = oi_neighbor_list (w_oi w) \<and>
    oi_type (w_oi w') = oi_type (w_oi w) \<and> oi_mdr (w_oi w') = oi_mdr (w_oi w)"
proof (cases b)
  case True
  obtain oi delay t where oi: "ospf6_schedule_immediate_hello now (w_oi w) = Some oi"
    "oi = (w_oi w)\<lparr>oi_immediate_hello_delay := delay, oi_thread_send_hello := t\<rparr>"
    using assms True by (auto simp: ospf6_schedule_immediate_hello_def fsm_inv_def Let_def)
  have ok: "w_ok w" using assms(1) by (simp add: fsm_inv_def)
  have "w_ok (w\<lparr>w_oi := oi\<rparr>)" by (rule w_ok_cong [OF _ _ _ _ _ _ _ _ ok]) (simp_all add: oi(2))
  then have "fsm_inv (w\<lparr>w_oi := oi\<rparr>)" using assms(1) by (simp add: fsm_inv_def oi(2))
  then show ?thesis using True oi by simp
qed (use assms(1) in simp)

lemma hello_received_event:
  assumes "fsm_inv w" "j < w_num w"
  shows "\<exists>w'. hello_received env j w = Some w' \<and>
    event_done (nbr_fsm_next HelloReceived (fsm_cond_of w j) (on_state (w_nbr w j))) j w w'"
proof -
  let ?msec = "1000 * ucast (oi_dead_interval (w_oi w)) + 100 :: u32"
  let ?f = "on_inactivity_timer_update (\<lambda>_. Some (uint ?msec))"
  define w1 where "w1 = w_nbr_update j ?f w"
  have l: "light_update ?f" by (simp add: light_update_def ls_lists_def)
  have inv1: "fsm_inv w1" unfolding w1_def by (rule light_update_world(2) [OF l assms(1)])
  have n1: "w_num w1 = w_num w" by (simp add: w1_def)
  have st: "on_state (w_nbr w1 j) = on_state (w_nbr w j)" "on_mdr (w_nbr w1 j) = on_mdr (w_nbr w j)"
    using assms(2) by (simp_all add: w1_def)
  let ?hello = "oi_allow_immediate_hello (w_oi w1) \<and> on_state (w_nbr w1 j) < OSPF6_NEIGHBOR_TWOWAY"
  obtain w2 where w2: "(if ?hello then map_option (\<lambda>oi. w1\<lparr>w_oi := oi\<rparr>) (ospf6_schedule_immediate_hello (ne_now env) (w_oi w1))
      else Some w1) = Some w2" "fsm_inv w2" "oi_neighbor_list (w_oi w2) = oi_neighbor_list (w_oi w1)"
    "oi_type (w_oi w2) = oi_type (w_oi w1)" "oi_mdr (w_oi w2) = oi_mdr (w_oi w1)"
    using immediate_hello_event [OF inv1, of ?hello "ne_now env"] by blast
  let ?go = "on_state (w_nbr w j) = OSPF6_NEIGHBOR_DOWN \<and> (oi_type (w_oi w) \<noteq> OSPF6_IFTYPE_MDR \<or>
      nm_consec_hellos (on_mdr (w_nbr w j)) \<ge> im_consec_hello_threshold (oi_mdr (w_oi w)))"
  have down: "s \<le> OSPF6_NEIGHBOR_DOWN \<longleftrightarrow> s = OSPF6_NEIGHBOR_DOWN" for s
    by (cases s) (simp_all add: less_eq_nbr_state_def)
  have run: "hello_received env j w = (if ?go then ospf6_neighbor_state_change env OSPF6_NEIGHBOR_INIT j w2 else Some w2)"
    using w2(1,3-5) st unfolding hello_received_def ospf6_neighbor_schedule_inactivity_def Let_def w1_def [symmetric]
    by (simp add: down w1_def)
  have fin: "event_done s j w w'" if "event_done s j w2 w'" for s w'
    using that event_done_light [OF l assms(2)] w2(3,4) by (simp add: event_done_def w1_def)
  have next_s: "nbr_fsm_next HelloReceived (fsm_cond_of w j) (on_state (w_nbr w j)) =
      (if ?go then OSPF6_NEIGHBOR_INIT else on_state (w_nbr w j))" by (simp add: fsm_cond_of_def)
  show ?thesis
  proof (cases ?go)
    case True
    have "on_state (w_nbr w2 j) \<le> OSPF6_NEIGHBOR_EXSTART" using True st w2(3) by (simp add: less_eq_nbr_state_def)
    then have "ls_lists (w_nbr w2 j) = ([], [], [])" using quiet_lists [OF w2(2), of j] assms(2) n1 w2(3) by simp
    then show ?thesis
      using state_change_event [OF w2(2), of j OSPF6_NEIGHBOR_INIT env] assms(2) n1 w2(3) True
      unfolding run next_s by (auto intro: fin)
  next
    case False
    then show ?thesis
      using fin [OF event_done_refl [OF w2(2), of j]] st w2(3) unfolding run next_s if_not_P [OF False] by simp
  qed
qed

lemma twoway_received_event:
  assumes "fsm_inv w" "j < w_num w"
  shows "\<exists>w'. twoway_received env j w = Some w' \<and>
    event_done (nbr_fsm_next TwowayReceived (fsm_cond_of w j) (on_state (w_nbr w j))) j w w'"
proof (cases "on_state (w_nbr w j) > OSPF6_NEIGHBOR_INIT")
  case True
  then show ?thesis using event_done_refl [OF assms(1)] by (simp add: twoway_received_def)
next
  case False
  let ?w1 = "w_emit NeighborChange w"
  have inv1: "fsm_inv ?w1" using assms(1) by simp
  have n1: "j < w_num ?w1" using assms(2) by simp
  have "on_state (w_nbr w j) \<le> OSPF6_NEIGHBOR_EXSTART"
    using False by (simp add: not_less less_eq_nbr_state_def)
  then have q: "ls_lists (w_nbr ?w1 j) = ([], [], [])" using quiet_lists [OF assms] by simp
  have need: "need_adjacency (w_oi ?w1) (w_nbr ?w1 j) = need_adjacency (w_oi w) (w_nbr w j)"
    by (rule need_adjacency_cong) (simp_all add: w_emit_def emit_def)
  have dfr: "fsm_deferred (w_oi ?w1) = fsm_deferred (w_oi w)"
    by (simp add: fsm_deferred_def ospf6_interface_adjacency_formation_count_def w_emit_def emit_def)
  obtain w2 where w2: "ospf6_neighbor_state_change env OSPF6_NEIGHBOR_TWOWAY j ?w1 = Some w2"
    "event_done OSPF6_NEIGHBOR_TWOWAY j ?w1 w2"
    using state_change_event [OF inv1 n1, of OSPF6_NEIGHBOR_TWOWAY env] q by blast
  obtain w3 where w3: "ospf6_neighbor_exstart env j ?w1 = Some w3"
    "event_done (if fsm_deferred (w_oi w) then on_state (w_nbr w j) else OSPF6_NEIGHBOR_EXSTART) j ?w1 w3"
    using exstart_event [OF inv1 n1 q, of env] dfr by auto
  show ?thesis
    using False w2 w3 event_done_refl [OF inv1, of j] need
    unfolding event_done_emit twoway_received_def Let_def by (simp add: fsm_cond_of_def)
qed

lemma negotiation_done_event:
  assumes "fsm_inv w" "j < w_num w"
  shows "\<exists>w'. negotiation_done env j w = Some w' \<and>
    event_done (nbr_fsm_next NegotiationDone (fsm_cond_of w j) (on_state (w_nbr w j))) j w w'"
proof (cases "on_state (w_nbr w j) = OSPF6_NEIGHBOR_EXSTART")
  case True
  have ok: "w_ok w" using assms(1) by (simp add: fsm_inv_def)
  obtain w' where w': "negotiation_done env j w = Some w'" "w_ok w'" "on_state (w_nbr w' j) = OSPF6_NEIGHBOR_EXCHANGE"
    "w_num w' = w_num w" "oi_initial_immediate_hello_delay (w_oi w') = oi_initial_immediate_hello_delay (w_oi w)"
    "w_rids w' = w_rids w" "oi_type (w_oi w') = oi_type (w_oi w)" "\<forall>i < w_num w. i \<noteq> j \<longrightarrow> nbr_tr (w_nbr w i) (w_nbr w' i)"
    using negotiation_done_ok [OF ok assms(2) True, of env] by blast
  have "nbr_quiet (w_nbr w' i)" if i: "i < w_num w" for i
  proof (cases "i = j")
    case True
    then show ?thesis using w'(3) by (simp add: nbr_quiet_def less_eq_nbr_state_def)
  next
    case False
    then show ?thesis using nbr_tr_quiet w'(8) assms(1) i by (auto simp: fsm_inv_def)
  qed
  then have "fsm_inv w'" using w'(2,4,5) assms(1) by (simp add: fsm_inv_def)
  then show ?thesis using True w' by (simp add: event_done_def)
next
  case False
  then show ?thesis using event_done_refl [OF assms(1), of j] by (simp add: negotiation_done_def)
qed

lemma exchange_done_event:
  assumes "fsm_inv w" "j < w_num w"
  shows "\<exists>w'. exchange_done env j w = Some w' \<and>
    event_done (nbr_fsm_next ExchangeDone (fsm_cond_of w j) (on_state (w_nbr w j))) j w w'"
proof (cases "on_state (w_nbr w j) = OSPF6_NEIGHBOR_EXCHANGE")
  case True
  let ?f = "\<lambda>on. on\<lparr>on_thread_send_dbdesc := None, on_dbdesc_list := snd (ospf6_lsdb_remove_all no_hooks (on_dbdesc_list on))\<rparr>"
  let ?w1 = "w_nbr_update j ?f w"
  let ?s = "if on_request_list (w_nbr w j) = [] then OSPF6_NEIGHBOR_FULL else OSPF6_NEIGHBOR_LOADING"
  have l: "light_update ?f" by (simp add: light_update_def ls_lists_def)
  have n1: "j < w_num ?w1" using assms(2) by simp
  have "\<not> ?s \<le> OSPF6_NEIGHBOR_EXSTART" by (simp add: less_eq_nbr_state_def)
  then obtain w' where w': "ospf6_neighbor_state_change env ?s j ?w1 = Some w'" "event_done ?s j ?w1 w'"
    using state_change_event [OF light_update_world(2) [OF l assms(1)] n1, of ?s env] by blast
  have "exchange_done env j w = ospf6_neighbor_state_change env ?s j ?w1"
    using True assms(2) by (simp add: exchange_done_def Let_def)
  then show ?thesis using True w' event_done_light [OF l assms(2) w'(2)] by (simp add: fsm_cond_of_def split: if_splits)
next
  case False
  then show ?thesis using event_done_refl [OF assms(1), of j] by (simp add: exchange_done_def)
qed

lemma loading_done_event:
  assumes "fsm_inv w" "j < w_num w" "on_state (w_nbr w j) = OSPF6_NEIGHBOR_LOADING \<Longrightarrow> on_request_list (w_nbr w j) = []"
  shows "\<exists>w'. loading_done env j w = Some w' \<and>
    event_done (nbr_fsm_next LoadingDone (fsm_cond_of w j) (on_state (w_nbr w j))) j w w'"
proof (cases "on_state (w_nbr w j) = OSPF6_NEIGHBOR_LOADING")
  case True
  have "\<not> OSPF6_NEIGHBOR_FULL \<le> OSPF6_NEIGHBOR_EXSTART" by (simp add: less_eq_nbr_state_def)
  then show ?thesis
    using True assms(3) state_change_event [OF assms(1,2), of OSPF6_NEIGHBOR_FULL env] by (simp add: loading_done_def)
next
  case False
  then show ?thesis using event_done_refl [OF assms(1), of j] by (simp add: loading_done_def)
qed

lemma adj_ok_event:
  assumes "fsm_inv w" "j < w_num w"
  shows "\<exists>w'. adj_ok env j w = Some w' \<and>
    event_done (nbr_fsm_next AdjOK (fsm_cond_of w j) (on_state (w_nbr w j))) j w w'"
proof -
  let ?f = "on_thread_adjok_update (\<lambda>_. None)"
  let ?w1 = "w_nbr_update j ?f w"
  have l: "light_update ?f" by (simp add: light_update_def ls_lists_def)
  note u = light_update_world [OF l]
  have inv1: "fsm_inv ?w1" by (rule u(2) [OF assms(1)])
  have n1: "j < w_num ?w1" using assms(2) by simp
  have st: "on_state (w_nbr ?w1 j) = on_state (w_nbr w j)" using assms(2) by simp
  have need: "need_adjacency (w_oi ?w1) (w_nbr ?w1 j) = need_adjacency (w_oi w) (w_nbr w j)" by (rule u(3) [OF assms(2)])
  have dfr: "fsm_deferred (w_oi ?w1) = fsm_deferred (w_oi w)" by (simp add: fsm_deferred_def u(4,5))
  have run: "adj_ok env j w =
      (if on_state (w_nbr w j) = OSPF6_NEIGHBOR_TWOWAY \<and> need_adjacency (w_oi w) (w_nbr w j) then ospf6_neighbor_exstart env j ?w1
       else if on_state (w_nbr w j) \<ge> OSPF6_NEIGHBOR_EXSTART \<and> \<not> need_adjacency (w_oi w) (w_nbr w j)
       then Option.bind (ospf6_neighbor_state_change env OSPF6_NEIGHBOR_TWOWAY j ?w1) (clear_ls_lists j) else Some ?w1)"
    unfolding adj_ok_def Let_def st need by simp
  note light = event_done_light [OF l assms(2)]
  consider (form) "on_state (w_nbr w j) = OSPF6_NEIGHBOR_TWOWAY \<and> need_adjacency (w_oi w) (w_nbr w j)"
    | (drop) "\<not> (on_state (w_nbr w j) = OSPF6_NEIGHBOR_TWOWAY \<and> need_adjacency (w_oi w) (w_nbr w j))"
      "on_state (w_nbr w j) \<ge> OSPF6_NEIGHBOR_EXSTART \<and> \<not> need_adjacency (w_oi w) (w_nbr w j)"
    | (keep) "\<not> (on_state (w_nbr w j) = OSPF6_NEIGHBOR_TWOWAY \<and> need_adjacency (w_oi w) (w_nbr w j))"
      "\<not> (on_state (w_nbr w j) \<ge> OSPF6_NEIGHBOR_EXSTART \<and> \<not> need_adjacency (w_oi w) (w_nbr w j))"
    by blast
  then show ?thesis
  proof cases
    case form
    then have "on_state (w_nbr ?w1 j) \<le> OSPF6_NEIGHBOR_EXSTART" unfolding st by (simp add: less_eq_nbr_state_def)
    then have q: "ls_lists (w_nbr ?w1 j) = ([], [], [])" by (rule quiet_lists [OF inv1 n1])
    obtain w' where w': "ospf6_neighbor_exstart env j ?w1 = Some w'"
      "event_done (if fsm_deferred (w_oi w) then on_state (w_nbr w j) else OSPF6_NEIGHBOR_EXSTART) j ?w1 w'"
      using exstart_event [OF inv1 n1 q, of env] unfolding dfr st by blast
    have "nbr_fsm_next AdjOK (fsm_cond_of w j) (on_state (w_nbr w j)) =
        (if fsm_deferred (w_oi w) then on_state (w_nbr w j) else OSPF6_NEIGHBOR_EXSTART)"
      using form by (simp add: fsm_cond_of_def)
    then show ?thesis using form w'(1) light [OF w'(2)] unfolding run by simp
  next
    case drop
    obtain w1 w' where w': "ospf6_neighbor_state_change env OSPF6_NEIGHBOR_TWOWAY j ?w1 = Some w1"
      "clear_ls_lists j w1 = Some w'" "event_done OSPF6_NEIGHBOR_TWOWAY j ?w1 w'"
      using state_change_clear_event [OF inv1 n1] by blast
    have "nbr_fsm_next AdjOK (fsm_cond_of w j) (on_state (w_nbr w j)) = OSPF6_NEIGHBOR_TWOWAY"
      using drop by (simp add: fsm_cond_of_def)
    then show ?thesis using drop w'(1,2) light [OF w'(3)] unfolding run by simp
  next
    case keep
    have "nbr_fsm_next AdjOK (fsm_cond_of w j) (on_state (w_nbr w j)) = on_state (w_nbr w j)"
      using keep by (auto simp: fsm_cond_of_def)
    then show ?thesis
      using light [OF event_done_refl [OF inv1]] st unfolding run if_not_P [OF keep(1)] if_not_P [OF keep(2)] by simp
  qed
qed

lemma mismatch_event:
  assumes "fsm_inv w" "j < w_num w"
  shows "\<exists>w'. Option.bind (clear_ls_lists j w) (\<lambda>w.
      exstart_from (ospf6_neighbor_state_change env) j (on_dbdesc_seqnum (w_nbr w j) + 1) w) = Some w' \<and>
    event_done OSPF6_NEIGHBOR_EXSTART j w w'"
proof -
  obtain w1 where w1: "clear_ls_lists j w = Some w1" "fsm_inv w1" "w_num w1 = w_num w" "w_rids w1 = w_rids w"
    "oi_type (w_oi w1) = oi_type (w_oi w)" "ls_lists (w_nbr w1 j) = ([], [], [])" "\<forall>i < w_num w. i \<noteq> j \<longrightarrow> w_nbr w1 i = w_nbr w i"
    using clear_ls_lists_event [OF assms] by blast
  have n1: "j < w_num w1" using assms(2) w1(3) by simp
  obtain w' where "exstart_from (ospf6_neighbor_state_change env) j (on_dbdesc_seqnum (w_nbr w1 j) + 1) w1 = Some w'"
    "event_done OSPF6_NEIGHBOR_EXSTART j w1 w'"
    using exstart_from_event [OF w1(2) n1 w1(6)] by blast
  then show ?thesis using w1(1,3,4,5,7) by (simp add: event_done_def)
qed

lemma oneway_received_event:
  assumes "fsm_inv w" "j < w_num w"
  shows "\<exists>w'. oneway_received env j w = Some w' \<and>
    event_done (nbr_fsm_next OnewayReceived (fsm_cond_of w j) (on_state (w_nbr w j))) j w w'"
proof (cases "on_state (w_nbr w j) < OSPF6_NEIGHBOR_TWOWAY")
  case True
  then show ?thesis using event_done_refl [OF assms(1), of j] by (simp add: oneway_received_def not_le [symmetric])
next
  case False
  obtain w1 w2 where w: "ospf6_neighbor_state_change env OSPF6_NEIGHBOR_INIT j w = Some w1"
    "clear_ls_lists j (w_emit NeighborChange w1) = Some w2" "event_done OSPF6_NEIGHBOR_INIT j w w2"
    using state_change_clear_emit_event [OF assms] by blast
  let ?f = "\<lambda>on. on\<lparr>on_thread_send_dbdesc := None, on_thread_send_lsreq := None,
                on_thread_send_lsupdate := None, on_thread_send_lsack := None\<rparr>"
  have l: "light_update ?f" by (simp add: light_update_def ls_lists_def)
  have "event_done OSPF6_NEIGHBOR_INIT j w (w_nbr_update j ?f w2)"
    using w(3) light_update_world(2) [OF l, of w2 j] assms(2) by (simp add: event_done_def)
  then show ?thesis using False w(1,2) unfolding oneway_received_def if_not_P [OF False] by (simp add: not_less)
qed

lemma nbr_handle_event:
  assumes "fsm_inv w" "j < w_num w"
    and "ev = LoadingDone \<Longrightarrow> on_state (w_nbr w j) = OSPF6_NEIGHBOR_LOADING \<Longrightarrow> on_request_list (w_nbr w j) = []"
  shows "\<exists>w'. nbr_handle ev env j w = Some w' \<and>
    event_done (nbr_fsm_next ev (fsm_cond_of w j) (on_state (w_nbr w j))) j w w'"
proof (cases ev)
  case SeqNumberMismatch
  then show ?thesis
    using mismatch_event [OF assms(1,2), of env] event_done_refl [OF assms(1), of j]
    by (cases "on_state (w_nbr w j) < OSPF6_NEIGHBOR_EXCHANGE") (auto simp: seqnumber_mismatch_def not_less not_le dest: leD)
next
  case BadLSReq
  then show ?thesis
    using mismatch_event [OF assms(1,2), of env] event_done_refl [OF assms(1), of j]
    by (cases "on_state (w_nbr w j) < OSPF6_NEIGHBOR_EXCHANGE") (auto simp: bad_lsreq_def not_less not_le dest: leD)
next
  case LoadingDone
  then show ?thesis using loading_done_event [OF assms(1,2), of env] assms(3) by simp
next
  case HelloReceived
  then show ?thesis using hello_received_event [OF assms(1,2)] by simp
next
  case TwowayReceived
  then show ?thesis using twoway_received_event [OF assms(1,2)] by simp
next
  case NegotiationDone
  then show ?thesis using negotiation_done_event [OF assms(1,2)] by simp
next
  case ExchangeDone
  then show ?thesis using exchange_done_event [OF assms(1,2)] by simp
next
  case AdjOK
  then show ?thesis using adj_ok_event [OF assms(1,2)] by simp
next
  case OnewayReceived
  then show ?thesis using oneway_received_event [OF assms(1,2)] by simp
qed

end
