(* ===== verification/Neighbor_Reach.thy ===== *)
theory Neighbor_Reach
  imports Neighbor_Fsm
begin

text \<open>
  The life of the neighbors of an interface: neighbors are created, receive events and time out, in any
  order, and the invariant of the state machine holds in every world that can be reached. The properties of
  the neighbor state machine are at the end.
\<close>

section \<open>Neighbors are created and deleted\<close>

lemma neighbor_free_ok:
  assumes "mdr_valid (w_oi w)" "dbs_ok w"
    and "counts_ok (\<lambda>k. retrans_refs (oi_neighbor_list (w_oi w)) k + of_bool (k \<in> lsdb_keys (on_retrans_list on))) w"
    and lists: "\<And>x. x \<in> insert on (set (oi_neighbor_list (w_oi w))) \<Longrightarrow>
      nbr_list_ok (on_retrans_list x) \<and> (\<forall>l \<in> set (on_retrans_list x). lsa_home_ok w l)"
  shows "\<exists>w'. neighbor_free on w = Some w' \<and> w_ok w' \<and> oi_neighbor_list (w_oi w') = oi_neighbor_list (w_oi w) \<and>
    oi_initial_immediate_hello_delay (w_oi w') = oi_initial_immediate_hello_delay (w_oi w)"
proof -
  let ?C = "retrans_refs (oi_neighbor_list (w_oi w))"
  obtain w1 where w1: "retrans_clear (on_retrans_list on) w = Some ([], w1)" "count_frame w1 = count_frame w" "counts_ok ?C w1"
    using retrans_clear_list [OF assms(2) _ _ assms(3)] lists by auto
  let ?w2 = "ospf6_mdr_neighbor_delete on w1"
  let ?w' = "w_emit (DeleteNeighborHooks (on_router_id on)) ?w2"
  note f = count_frameD [OF w1(2)]
  have home: "lsa_home_ok w1 l = lsa_home_ok w l" for l by (rule lsa_home_ok_cong [OF f(4,5)]) simp_all
  have v: "mdr_valid (w_oi w1)" by (rule mdr_valid_cong [THEN iffD2, OF _ _ assms(1)]) (simp_all add: f)
  have "dbs_ok w1" using dbs_ok_count_frame [OF w1(2)] assms(2) by simp
  then have ok1: "w_ok w1"
    unfolding w_ok_def retrans_ok_def f(1) home using w1(3) lists [OF insertI2] v by blast
  have "w_ok ?w2" by (rule w_ok_cong [OF _ _ _ _ _ _ _ _ ok1])
      (simp_all add: ospf6_mdr_neighbor_delete_def ospf6_mdr_add_lnl_element_def Let_def)
  moreover have "oi_initial_immediate_hello_delay (w_oi w1) = oi_initial_immediate_hello_delay (w_oi w)"
    using arg_cong [OF w1(2), of "\<lambda>w. oi_initial_immediate_hello_delay (w_oi w)"] by (simp add: count_frame_def)
  moreover have "oi_neighbor_list (w_oi ?w2) = oi_neighbor_list (w_oi w1)"
    "oi_initial_immediate_hello_delay (w_oi ?w2) = oi_initial_immediate_hello_delay (w_oi w1)"
    by (simp_all add: ospf6_mdr_neighbor_delete_def ospf6_mdr_add_lnl_element_def Let_def)
  moreover have "neighbor_free on w = Some ?w'" by (simp add: neighbor_free_def w1(1))
  ultimately show ?thesis using f(1) by (simp add: w_emit_def emit_def w_ok_emit [unfolded w_emit_def emit_def])
qed

lemma list_remove_nth: "j < length xs \<Longrightarrow> set (take j xs @ drop (Suc j) xs) \<subseteq> set xs"
  using set_take_subset [of j xs] set_drop_subset [of "Suc j" xs] by auto

lemma distinct_remove_nth: "distinct xs \<Longrightarrow> distinct (take j xs @ drop (Suc j) xs)"
  using set_take_disj_set_drop_if_distinct [of xs j "Suc j"] by simp

lemma list_all2_remove_nth:
  assumes "length xs = length ys" "\<And>i. i < length xs \<Longrightarrow> i \<noteq> j \<Longrightarrow> P (xs ! i) (ys ! i)"
  shows "list_all2 P (take j xs @ drop (Suc j) xs) (take j ys @ drop (Suc j) ys)"
proof (rule list_all2_appendI)
  show "list_all2 P (take j xs) (take j ys)" using assms by (simp add: list_all2_conv_all_nth)
  show "list_all2 P (drop (Suc j) xs) (drop (Suc j) ys)" using assms by (simp add: list_all2_conv_all_nth)
qed

lemma neighbor_remove_ok:
  assumes ok: "w_ok w" and j: "j < w_num w"
  defines "rest \<equiv> take j (oi_neighbor_list (w_oi w)) @ drop (Suc j) (oi_neighbor_list (w_oi w))"
  shows "\<exists>w'. neighbor_free (w_nbr w j) (w\<lparr>w_oi := (w_oi w)\<lparr>oi_neighbor_list := rest\<rparr>\<rparr>) = Some w' \<and> w_ok w' \<and>
    oi_neighbor_list (w_oi w') = rest \<and>
    oi_initial_immediate_hello_delay (w_oi w') = oi_initial_immediate_hello_delay (w_oi w)"
proof -
  let ?ons = "oi_neighbor_list (w_oi w)"
  let ?w2 = "w\<lparr>w_oi := (w_oi w)\<lparr>oi_neighbor_list := rest\<rparr>\<rparr>"
  have home: "lsa_home_ok ?w2 = lsa_home_ok w" by (rule ext, rule lsa_home_ok_cong) simp_all
  have sub: "set rest \<subseteq> set ?ons" unfolding rest_def by (rule list_remove_nth [OF j])
  have v: "mdr_valid (w_oi w)" and r: "retrans_ok w" using ok by (simp_all add: w_ok_def)
  have "distinct (map on_router_id rest)"
    using v distinct_remove_nth [of "map on_router_id ?ons" j] by (simp add: mdr_valid_def rest_def take_map drop_map)
  moreover have "length rest \<le> length ?ons" by (simp add: rest_def)
  ultimately have v2: "mdr_valid (w_oi ?w2)" using v sub unfolding mdr_valid_def by auto
  have dbs2: "dbs_ok ?w2" using r by (simp add: retrans_ok_def dbs_ok_def db_ok_def home)
  have refs: "retrans_refs ?ons = (\<lambda>k. retrans_refs rest k + of_bool (k \<in> lsdb_keys (on_retrans_list (w_nbr w j))))"
    using retrans_refs_split [OF j] by (simp add: fun_eq_iff rest_def)
  have counts2: "counts_ok (\<lambda>k. retrans_refs rest k + of_bool (k \<in> lsdb_keys (on_retrans_list (w_nbr w j)))) ?w2"
    using r unfolding refs [symmetric] by (simp add: retrans_ok_def counts_ok_def w_lsas_def)
  have lists: "nbr_list_ok (on_retrans_list x) \<and> (\<forall>l \<in> set (on_retrans_list x). lsa_home_ok w l)"
    if "x \<in> insert (w_nbr w j) (set rest)" for x
  proof -
    have "x \<in> set ?ons" using that sub j by auto
    then show ?thesis using r by (simp add: retrans_ok_def)
  qed
  show ?thesis using neighbor_free_ok [OF v2 dbs2, of "w_nbr w j"] counts2 lists unfolding home by simp
qed

lemma inactivity_timer_ok:
  assumes inv: "fsm_inv w" and j: "j < w_num w"
  shows "\<exists>w'. inactivity_timer env j w = Some w' \<and> fsm_inv w' \<and>
    w_rids w' = take j (w_rids w) @ drop (Suc j) (w_rids w) \<and>
    list_all2 nbr_tr (take j (oi_neighbor_list (w_oi w)) @ drop (Suc j) (oi_neighbor_list (w_oi w))) (oi_neighbor_list (w_oi w'))"
proof -
  let ?f = "\<lambda>on. on\<lparr>on_inactivity_timer := None, on_drouter := 0, on_prev_drouter := 0, on_bdrouter := 0, on_prev_bdrouter := 0\<rparr>"
  let ?w0 = "w_nbr_update j ?f w"
  let ?ns = "oi_neighbor_list (w_oi w)"
  have l: "light_update ?f" by (simp add: light_update_def ls_lists_def)
  have "w_ok ?w0" by (rule light_update_world(1) [OF l]) (use inv in \<open>simp add: fsm_inv_def\<close>)
  then obtain w1 where w1: "ospf6_neighbor_state_change env OSPF6_NEIGHBOR_DOWN j ?w0 = Some w1" "sc_done OSPF6_NEIGHBOR_DOWN j ?w0 w1"
    using state_change_ok [of ?w0 j env OSPF6_NEIGHBOR_DOWN] j by auto
  let ?w1 = "w_emit NeighborChange w1"
  let ?ons = "oi_neighbor_list (w_oi w1)"
  have ok1: "w_ok ?w1" and n1: "length ?ons = w_num w"
    using w1(2) ls_frame_num [of w1 ?w0] by (simp_all add: sc_done_def)
  have delay: "oi_initial_immediate_hello_delay (w_oi ?w1) = oi_initial_immediate_hello_delay (w_oi w)"
    using ls_frameD(7) [of w1 ?w0] w1(2) by (simp add: sc_done_def w_nbr_update_def nbr_update_def w_emit_def emit_def)
  have rids: "w_rids w1 = w_rids w"
    using ls_frameD(8) [of w1 ?w0] w1(2) w_rids_nbr_update [where f = ?f] by (simp add: sc_done_def)
  have jn: "j < w_num ?w1" using j n1 by simp
  obtain w' where w': "inactivity_timer env j w = Some w'" "w_ok w'" "oi_neighbor_list (w_oi w') = take j ?ons @ drop (Suc j) ?ons"
    "oi_initial_immediate_hello_delay (w_oi w') = oi_initial_immediate_hello_delay (w_oi w)"
    using neighbor_remove_ok [OF ok1 jn] w1(1) delay by (auto simp: inactivity_timer_def Let_def)
  have tr: "list_all2 nbr_tr (take j ?ns @ drop (Suc j) ?ns) (oi_neighbor_list (w_oi w'))"
    unfolding w'(3) by (rule list_all2_remove_nth) (use w1(2) n1 in \<open>simp_all add: sc_done_def\<close>)
  have "nbr_quiet on" if "on \<in> set (take j ?ns @ drop (Suc j) ?ns)" for on
  proof -
    have "on \<in> set ?ns" using that list_remove_nth [OF j] by blast
    then show ?thesis using inv by (auto simp: fsm_inv_def in_set_conv_nth)
  qed
  then have "nbr_quiet (w_nbr w' i)" if "i < w_num w'" for i
    using nbr_tr_quiet [OF list_all2_nthD2 [OF tr that]] nth_mem that list_all2_lengthD [OF tr] by metis
  then have "fsm_inv w'" using w'(2,4) inv by (simp add: fsm_inv_def)
  moreover have "w_rids w' = take j (w_rids w) @ drop (Suc j) (w_rids w)"
    unfolding w'(3) rids [symmetric] by (simp add: take_map drop_map)
  ultimately show ?thesis using w'(1) tr by blast
qed

lemma neighbor_insert_ok:
  assumes inv: "fsm_inv w" and on: "on_router_id on \<noteq> 0" "nm_treenode (on_mdr on) = None" "ls_lists on = ([], [], [])"
    and fresh: "on_router_id on \<notin> set (w_rids w)" and n: "w_num w < INFTY"
  shows "fsm_inv (w\<lparr>w_oi := (w_oi w)\<lparr>oi_neighbor_list := listnode_add_sort ospf6_neighbor_cmp (oi_neighbor_list (w_oi w)) on\<rparr>\<rparr>)"
proof -
  define ns where "ns = oi_neighbor_list (w_oi w)"
  define ons where "ons = listnode_add_sort ospf6_neighbor_cmp ns on"
  let ?w' = "w\<lparr>w_oi := (w_oi w)\<lparr>oi_neighbor_list := ons\<rparr>\<rparr>"
  obtain pre post where s: "ns = pre @ post" "ons = pre @ on # post"
    using listnode_add_sort_split [of ns ospf6_neighbor_cmp on] unfolding ons_def [symmetric] by (elim exE conjE) (rule that)
  have nil: "on_retrans_list on = []" "nbr_list_ok []" using on(3) by (simp_all add: ls_lists_def nbr_list_ok_def)
  have ok: "mdr_valid (w_oi w)" "retrans_ok w" using inv by (simp_all add: fsm_inv_def w_ok_def)
  have home: "lsa_home_ok ?w' = lsa_home_ok w" by (rule ext, rule lsa_home_ok_cong) simp_all
  have set: "set ons = insert on (set ns)" by (auto simp: s)
  have "mdr_valid (w_oi ?w')"
    using ok(1) on(1,2) fresh n unfolding mdr_valid_def ns_def [symmetric] by (simp add: s)
  moreover have "retrans_refs ons = retrans_refs ns" by (simp add: fun_eq_iff retrans_refs_def s nil(1))
  then have "retrans_ok ?w'"
    using ok(2) nil unfolding retrans_ok_def dbs_ok_def db_ok_def counts_ok_def w_lsas_def home
    by (simp add: ns_def [symmetric] set)
  moreover have "nbr_quiet x" if "x \<in> set ons" for x
    using that inv on(3) unfolding set ns_def by (auto simp: fsm_inv_def nbr_quiet_def in_set_conv_nth)
  ultimately have "fsm_inv ?w'" using inv by (simp add: fsm_inv_def w_ok_def)
  then show ?thesis by (simp add: ons_def ns_def)
qed

text \<open>The caller has found no neighbor with the router ID.\<close>

lemma ospf6_neighbor_create_ok:
  assumes inv: "fsm_inv w" and rid: "rid \<noteq> 0" "rid \<notin> set (w_rids w)" and n: "w_num w < INFTY"
  shows "\<exists>w'. ospf6_neighbor_create env rid w = Some (\<not> ne_create_fails env rid, w') \<and> fsm_inv w' \<and>
    (if \<not> ne_create_fails env rid
     then oi_neighbor_list (w_oi w') = listnode_add_sort ospf6_neighbor_cmp (oi_neighbor_list (w_oi w))
        (fst (ospf6_mdr_neighbor_create (neighbor_alloc (ne_now env) rid (w_oi w)) (w_oi w)))
     else oi_neighbor_list (w_oi w') = oi_neighbor_list (w_oi w))"
proof -
  let ?ns = "oi_neighbor_list (w_oi w)"
  obtain on oi where c: "ospf6_mdr_neighbor_create (neighbor_alloc (ne_now env) rid (w_oi w)) (w_oi w) = (on, oi)"
    by (cases "ospf6_mdr_neighbor_create (neighbor_alloc (ne_now env) rid (w_oi w)) (w_oi w)")
  have on: "on_router_id on = rid" "nm_treenode (on_mdr on) = None" "ls_lists on = ([], [], [])" "on_retrans_list on = []"
    using c by (auto simp: ospf6_mdr_neighbor_create_def neighbor_alloc_def mdr_neighbor_zero_def ls_lists_def Let_def)
  have oi: "oi = (w_oi w)\<lparr>oi_mdr := (oi_mdr (w_oi w))\<lparr>im_lnl := im_lnl (oi_mdr oi)\<rparr>\<rparr>"
    using c by (auto simp: ospf6_mdr_neighbor_create_def ospf6_mdr_delete_lnl_element_def Let_def split: option.splits)
  let ?w1 = "w\<lparr>w_oi := oi\<rparr>"
  have oi1: "oi_neighbor_list oi = ?ns" "oi_initial_immediate_hello_delay oi = oi_initial_immediate_hello_delay (w_oi w)"
    by (subst oi, simp)+
  have nil: "nbr_list_ok []" by (simp add: nbr_list_ok_def)
  have ok: "w_ok w" using inv by (simp add: fsm_inv_def)
  have ok1: "w_ok ?w1" by (rule w_ok_cong [OF _ _ _ _ _ _ _ _ ok]) (subst oi, simp)+
  show ?thesis
  proof (cases "ne_create_fails env rid")
    case True
    have "\<exists>w'. neighbor_free on ?w1 = Some w' \<and> w_ok w' \<and> oi_neighbor_list (w_oi w') = oi_neighbor_list (w_oi ?w1) \<and>
        oi_initial_immediate_hello_delay (w_oi w') = oi_initial_immediate_hello_delay (w_oi ?w1)"
      by (rule neighbor_free_ok) (use ok1 on(4) nil in \<open>auto simp: w_ok_def retrans_ok_def\<close>)
    then show ?thesis using True inv oi1 c by (auto simp: ospf6_neighbor_create_def fsm_inv_def)
  next
    case False
    have "fsm_inv ?w1" using inv ok1 by (simp add: fsm_inv_def oi1)
    from neighbor_insert_ok [OF this, of on] on rid n have
      "fsm_inv (?w1\<lparr>w_oi := oi\<lparr>oi_neighbor_list := listnode_add_sort ospf6_neighbor_cmp ?ns on\<rparr>\<rparr>)"
      by (simp add: oi1)
    then show ?thesis using False c by (simp add: ospf6_neighbor_create_def oi1)
  qed
qed

section \<open>Reachable worlds\<close>

text \<open>What the other components do to the neighbors between two events: Hellos change what is known of a
  neighbor, the commands and the interface change the interface, and the request list of a neighbor
  changes from Exchange on.\<close>
definition nbr_input :: "ospf6_neighbor \<Rightarrow> ospf6_neighbor \<Rightarrow> bool" where
  "nbr_input on on' \<longleftrightarrow> on_state on' = on_state on \<and> on_router_id on' = on_router_id on \<and>
     nm_treenode (on_mdr on') = nm_treenode (on_mdr on) \<and> on_retrans_list on' = on_retrans_list on \<and>
     (on_state on \<le> OSPF6_NEIGHBOR_EXSTART \<longrightarrow> ls_lists on' = ls_lists on)"

definition world_input :: "world \<Rightarrow> world \<Rightarrow> bool" where
  "world_input w w' \<longleftrightarrow> list_all2 nbr_input (oi_neighbor_list (w_oi w)) (oi_neighbor_list (w_oi w')) \<and>
     im_MDRConstraint (oi_mdr (w_oi w')) = im_MDRConstraint (oi_mdr (w_oi w)) \<and>
     oi_lsdb (w_oi w') = oi_lsdb (w_oi w) \<and> w_area_lsdb w' = w_area_lsdb w \<and> w_as_lsdb w' = w_as_lsdb w \<and>
     oi_ifindex (w_oi w') = oi_ifindex (w_oi w) \<and> oi_area_id (w_oi w') = oi_area_id (w_oi w) \<and>
     oi_initial_immediate_hello_delay (w_oi w') = oi_initial_immediate_hello_delay (w_oi w)"

inductive nbr_step :: "world \<Rightarrow> world \<Rightarrow> bool" where
  event: "j < w_num w \<Longrightarrow> nbr_handle ev env j w = Some w' \<Longrightarrow> nbr_step w w'"
| timeout: "j < w_num w \<Longrightarrow> inactivity_timer env j w = Some w' \<Longrightarrow> nbr_step w w'"
| create: "rid \<noteq> 0 \<Longrightarrow> ospf6_neighbor_lookup rid (w_oi w) = None \<Longrightarrow> w_num w < INFTY \<Longrightarrow>
    ospf6_neighbor_create env rid w = Some (ok, w') \<Longrightarrow> nbr_step w w'"
| input: "world_input w w' \<Longrightarrow> nbr_step w w'"

inductive nbr_reach :: "world \<Rightarrow> world \<Rightarrow> bool" for w0 where
  start: "nbr_reach w0 w0"
| step: "nbr_reach w0 w \<Longrightarrow> nbr_step w w' \<Longrightarrow> nbr_reach w0 w'"

definition nbr_inv :: "world \<Rightarrow> bool" where
  "nbr_inv w \<longleftrightarrow> fsm_inv w \<and> nbrs_sorted (oi_neighbor_list (w_oi w))"

lemma lookup_None_iff: "ospf6_neighbor_lookup rid oi = None \<longleftrightarrow> rid \<notin> on_router_id ` set (oi_neighbor_list oi)"
  by (auto simp: ospf6_neighbor_lookup_def find_None_iff)

lemma loading_done_Some:
  "loading_done env j w \<noteq> None \<Longrightarrow> on_state (w_nbr w j) = OSPF6_NEIGHBOR_LOADING \<Longrightarrow> on_request_list (w_nbr w j) = []"
  by (auto simp: loading_done_def split: if_splits)

lemma nbr_event_inv:
  assumes "nbr_inv w" "j < w_num w" "nbr_handle ev env j w = Some w'"
  shows "nbr_inv w'"
proof -
  have "ev = LoadingDone \<Longrightarrow> on_state (w_nbr w j) = OSPF6_NEIGHBOR_LOADING \<Longrightarrow> on_request_list (w_nbr w j) = []"
    using loading_done_Some [of env j w] assms(3) by auto
  then have "event_done (nbr_fsm_next ev (fsm_cond_of w j) (on_state (w_nbr w j))) j w w'"
    using nbr_handle_event [of w j ev env] assms by (auto simp: nbr_inv_def)
  then show ?thesis using assms(1) by (simp add: event_done_def nbr_inv_def nbrs_sorted_def)
qed

lemma sorted_remove_nth: "sorted_wrt P xs \<Longrightarrow> sorted_wrt P (take j xs @ drop (Suc j) xs)"
proof (induction xs arbitrary: j)
  case (Cons x xs)
  then show ?case by (cases j) (auto dest: in_set_takeD in_set_dropD)
qed simp

lemma nbr_timeout_inv: "nbr_inv w \<Longrightarrow> j < w_num w \<Longrightarrow> inactivity_timer env j w = Some w' \<Longrightarrow> nbr_inv w'"
  using inactivity_timer_ok [of w j env] sorted_remove_nth [of "(<)" "w_rids w" j]
  by (auto simp: nbr_inv_def nbrs_sorted_def)

lemma nbr_create_inv:
  assumes "nbr_inv w" "rid \<noteq> 0" "ospf6_neighbor_lookup rid (w_oi w) = None" "w_num w < INFTY"
    and "ospf6_neighbor_create env rid w = Some (ok, w')"
  shows "nbr_inv w'"
proof -
  let ?on = "fst (ospf6_mdr_neighbor_create (neighbor_alloc (ne_now env) rid (w_oi w)) (w_oi w))"
  have "on_router_id ?on = rid" by (simp add: ospf6_mdr_neighbor_create_def neighbor_alloc_def Let_def)
  then have "nbrs_sorted (listnode_add_sort ospf6_neighbor_cmp (oi_neighbor_list (w_oi w)) ?on)"
    using nbrs_sorted_add [of "oi_neighbor_list (w_oi w)" ?on] assms(1,3) by (simp add: nbr_inv_def lookup_None_iff)
  then show ?thesis
    using ospf6_neighbor_create_ok [of w rid env] assms by (auto simp: nbr_inv_def lookup_None_iff split: if_splits)
qed

lemma nbr_input_inv:
  assumes "nbr_inv w" "world_input w w'"
  shows "nbr_inv w'"
proof -
  let ?ns = "oi_neighbor_list (w_oi w)" and ?ns' = "oi_neighbor_list (w_oi w')"
  have all: "list_all2 nbr_input ?ns ?ns'" using assms(2) by (simp add: world_input_def)
  have n: "w_num w' = w_num w" using list_all2_lengthD [OF all] by simp
  have nth: "nbr_input (w_nbr w i) (w_nbr w' i)" if "i < w_num w" for i using list_all2_nthD [OF all that] .
  have "w_ok w'"
    by (rule w_ok_cong [where w = w])
      (use assms n nth in \<open>auto simp: world_input_def nbr_inv_def fsm_inv_def nbr_input_def intro!: nth_equalityI\<close>)
  moreover have "w_rids w' = w_rids w" using n nth by (auto simp: nbr_input_def intro!: nth_equalityI)
  moreover have "nbr_quiet (w_nbr w' i)" if "i < w_num w" for i
    using nth [OF that] assms(1) that by (auto simp: nbr_input_def nbr_quiet_def nbr_inv_def fsm_inv_def)
  ultimately show ?thesis
    using assms n by (simp add: nbr_inv_def fsm_inv_def world_input_def nbrs_sorted_def)
qed

lemma nbr_reach_inv: "nbr_reach w0 w \<Longrightarrow> nbr_inv w0 \<Longrightarrow> nbr_inv w"
proof (induction rule: nbr_reach.induct)
  case (step w w')
  from \<open>nbr_step w w'\<close> show ?case
    by cases (use step.IH step.prems nbr_event_inv nbr_timeout_inv nbr_create_inv nbr_input_inv in blast)+
qed simp

end
