(* ===== verification/Neighbor_Props.thy ===== *)
theory Neighbor_Props
  imports Neighbor_Reach
begin

text \<open>
  The properties of the neighbor state machine of \<^verbatim>\<open>src/ospf6d/ospf6_neighbor.c\<close>, each with an
  application to a point-to-point interface with one or two neighbors.
\<close>

section \<open>Examples\<close>

definition example_env :: nbr_env where
  "example_env = \<lparr>ne_now = example_time, ne_ospf6 = example_router, ne_spf = [], ne_create_fails = \<lambda>_. False\<rparr>"

text \<open>The router IDs and states of the neighbors, and the limit of adjacencies that form at once.\<close>
definition example_world :: "u32 \<Rightarrow> (rid \<times> nbr_state) list \<Rightarrow> world" where
  "example_world limit ns =
     (let oi = the (ospf6_interface_create 1)
      in \<lparr>w_oi = oi\<lparr>oi_state := OSPF6_INTERFACE_POINTTOPOINT, oi_adjacency_formation_limit := limit,
            oi_neighbor_list := map (\<lambda>(r, s). (neighbor_alloc example_time r oi)\<lparr>on_state := s\<rparr>) ns\<rparr>,
          w_area_lsdb = [], w_as_lsdb = []\<rparr>)"

lemma example_world_simps [simp]:
  "w_num (example_world limit ns) = length ns" "w_rids (example_world limit ns) = map fst ns"
  "oi_adjacency_formation_limit (w_oi (example_world limit ns)) = limit"
  "oi_type (w_oi (example_world limit ns)) = OSPF6_IFTYPE_NONE"
  "i < length ns \<Longrightarrow> on_state (w_nbr (example_world limit ns) i) = snd (ns ! i)"
  "i < length ns \<Longrightarrow> on_request_list (w_nbr (example_world limit ns) i) = []"
  "i < length ns \<Longrightarrow> need_adjacency (w_oi (example_world limit ns)) (w_nbr (example_world limit ns) i)"
  "ospf6_interface_adjacency_formation_count (w_oi (example_world limit ns)) =
     of_nat (length (filter (\<lambda>p. snd p > OSPF6_NEIGHBOR_TWOWAY \<and> snd p < OSPF6_NEIGHBOR_FULL) ns))"
  by (simp_all add: example_world_def example_defs need_adjacency_def case_prod_beta o_def
      ospf6_interface_adjacency_formation_count_def filter_map Let_def)

lemma example_world_inv [simp]:
  assumes "distinct (map fst ns)" "\<forall>r \<in> set (map fst ns). r \<noteq> 0" "length ns \<le> INFTY"
  shows "fsm_inv (example_world limit ns)"
proof -
  have "mdr_valid (w_oi (example_world limit ns))"
    using assms by (auto simp: example_world_def example_defs mdr_valid_def case_prod_beta o_def Let_def)
  moreover have "retrans_ok (example_world limit ns)"
    by (auto simp: example_world_def example_defs retrans_ok_def dbs_ok_def db_ok_def counts_ok_def w_lsas_def nbr_list_ok_def Let_def)
  moreover have "nbr_quiet (w_nbr (example_world limit ns) i)" if "i < length ns" for i
    using that by (simp add: example_world_def example_defs nbr_quiet_def ls_lists_def case_prod_beta Let_def)
  ultimately show ?thesis
    by (simp add: fsm_inv_def w_ok_def) (simp add: example_world_def example_defs Let_def)
qed

section \<open>The depth of the recursion\<close>

lemma exstart_from_cong:
  "(\<And>s j w. leaf_state s \<Longrightarrow> sc s j w = sc' s j w) \<Longrightarrow> exstart_from sc = exstart_from sc'"
  by (simp add: exstart_from_def fun_eq_iff leaf_state_def)

lemma state_change_body_cong:
  assumes "\<And>s j w. leaf_state s \<Longrightarrow> sc s j w = sc' s j w"
  shows "state_change_body sc env = state_change_body sc' env"
proof -
  have "exstart_from sc = exstart_from sc'" by (rule exstart_from_cong) (rule assms)
  then have e: "exstart sc env = exstart sc' env" by (simp add: exstart_def fun_eq_iff Let_def)
  have f: "adjacencies_form sc env = adjacencies_form sc' env" by (simp add: adjacencies_form_def fun_eq_iff e)
  have d: "adjacencies_drop sc = adjacencies_drop sc'"
    using assms by (simp add: adjacencies_drop_def fun_eq_iff leaf_state_def)
  have u: "update_adjacencies sc env = update_adjacencies sc' env" by (simp add: update_adjacencies_def fun_eq_iff f d)
  have m: "mdr_neighbor_state_change sc env = mdr_neighbor_state_change sc' env"
    by (intro ext) (simp add: mdr_neighbor_state_change_def u)
  have n: "formation_next sc env = formation_next sc' env"
    by (intro ext) (unfold formation_next_def e, rule refl)
  show ?thesis by (intro ext) (unfold state_change_body_def m n, rule refl)
qed

text \<open>C30: The recursion of \<open>ospf6_neighbor_state_change\<close> through \<open>ospf6_update_adjacencies\<close> and
  \<open>ospf6_neighbor_exstart\<close> ends: a change of state calls itself only for changes to 2-Way and ExStart, which
  do not call it again. So any amount of fuel from two on gives the same function.\<close>
theorem state_change_depth: "state_change (Suc (Suc n)) env = ospf6_neighbor_state_change env"
proof -
  have "state_change (Suc n) env s j w = state_change (Suc 0) env s j w" if "leaf_state s" for s j w
    using state_change_body_leaf [OF that] by simp
  then have "state_change_body (state_change (Suc n) env) env = state_change_body (state_change (Suc 0) env) env"
    by (rule state_change_body_cong)
  then show ?thesis by (simp add: ospf6_neighbor_state_change_def numeral_2_eq_2)
qed

section \<open>The state machine\<close>

text \<open>C2: The handlers of the neighbor events implement the table \<open>nbr_fsm_next\<close>: each of them returns, the
  neighbor goes to the state that the table gives for its state and the conditions, and the invariant holds
  again. Every other neighbor keeps its state and lists, starts to form a waiting adjacency, or gives up an adjacency.
  The one assertion of a handler, that nothing is left to request when loading is done, is a hypothesis.\<close>
theorem neighbor_events_refine_fsm:
  assumes "fsm_inv w" "j < w_num w"
    and "ev = LoadingDone \<Longrightarrow> on_state (w_nbr w j) = OSPF6_NEIGHBOR_LOADING \<Longrightarrow> on_request_list (w_nbr w j) = []"
  shows "\<exists>w'. nbr_handle ev env j w = Some w' \<and>
      on_state (w_nbr w' j) = nbr_fsm_next ev (fsm_cond_of w j) (on_state (w_nbr w j)) \<and>
      fsm_inv w' \<and> w_rids w' = w_rids w \<and>
      (\<forall>i < w_num w. i \<noteq> j \<longrightarrow> nbr_tr (w_nbr w i) (w_nbr w' i))"
proof -
  obtain w' where "nbr_handle ev env j w = Some w'"
    "event_done (nbr_fsm_next ev (fsm_cond_of w j) (on_state (w_nbr w j))) j w w'"
    using nbr_handle_event [OF assms(1,2), of ev env] assms(3) by blast
  then show ?thesis by (simp add: event_done_def)
qed

theorem neighbor_events_refine_fsm_witness:
  "\<exists>w'. nbr_handle TwowayReceived example_env 0 (example_world 0 [(5, OSPF6_NEIGHBOR_INIT)]) = Some w' \<and>
     on_state (w_nbr w' 0) = OSPF6_NEIGHBOR_EXSTART"
  using neighbor_events_refine_fsm [of "example_world 0 [(5, OSPF6_NEIGHBOR_INIT)]" 0 TwowayReceived example_env]
  by (auto simp: fsm_cond_of_def fsm_deferred_def less_nbr_state_def)

text \<open>Each step of the life of the neighbors keeps the data well-formed: the neighbor list is strictly
  sorted by router ID, no router ID is zero, the three databases and all retransmission lists are well-formed,
  every LSA counts at least its references from the retransmission lists, and the lists of a neighbor below Exchange are empty.\<close>
theorem nbr_step_wellformed:
  assumes "nbr_step w w'" "nbr_inv w"
  shows "nbr_inv w'"
  using assms(1)
  by cases (use assms(2) nbr_event_inv nbr_timeout_inv nbr_create_inv nbr_input_inv in blast)+

text \<open>A new neighbor with the router ID 7.\<close>
definition example_created :: "(rid \<times> nbr_state) list \<Rightarrow> world" where
  "example_created ns = snd (the (ospf6_neighbor_create example_env 7 (example_world 0 ns)))"

lemma example_step:
  assumes "distinct (map fst ns)" "\<forall>r \<in> set (map fst ns). r \<noteq> 0 \<and> r \<noteq> 7" "length ns < INFTY"
  shows "nbr_step (example_world 0 ns) (example_created ns) \<and> w_num (example_created ns) = Suc (length ns)"
proof -
  let ?w = "example_world 0 ns"
  have fresh: "7 \<notin> set (w_rids ?w)" using assms(2) by auto
  have inv: "fsm_inv ?w" using assms by simp
  obtain w' where w': "ospf6_neighbor_create example_env 7 ?w = Some (True, w')" "w_num w' = Suc (length ns)"
    using ospf6_neighbor_create_ok [OF inv _ fresh, of example_env] assms(3) by (auto simp: example_env_def)
  have "nbr_step ?w w'"
    by (rule nbr_step.create [OF _ _ _ w'(1)]) (use fresh assms(3) in \<open>simp_all add: lookup_None_iff flip: set_map\<close>)
  then show ?thesis using w' by (simp add: example_created_def)
qed

theorem nbr_step_wellformed_witness: "nbr_inv (example_created [(5, OSPF6_NEIGHBOR_DOWN)])"
proof -
  have "nbr_step (example_world 0 [(5, OSPF6_NEIGHBOR_DOWN)]) (example_created [(5, OSPF6_NEIGHBOR_DOWN)])"
    using example_step [of "[(5, OSPF6_NEIGHBOR_DOWN)]"] by simp
  then show ?thesis by (rule nbr_step_wellformed) (simp add: nbr_inv_def nbrs_sorted_def)
qed

text \<open>C3: From an interface without neighbors, whatever neighbors are created, whatever events they receive
  and in whatever order, no assertion of a handler fails, except the one of \<open>loading_done\<close>: every reachable
  world has its next, and in particular the retransmission count of an LSA is never decremented below zero.\<close>
theorem neighbors_never_abort:
  assumes "nbr_reach w0 w" "oi_neighbor_list (w_oi w0) = []" "dbs_ok w0" "\<forall>l \<in> w_lsas w0. 0 \<le> lsa_retrans_count l"
    and "im_MDRConstraint (oi_mdr (w_oi w0)) < int INFTY" "0 < oi_initial_immediate_hello_delay (w_oi w0)"
    and "j < w_num w" "ev = LoadingDone \<Longrightarrow> on_request_list (w_nbr w j) = []"
  shows "nbr_handle ev env j w \<noteq> None \<and> inactivity_timer env j w \<noteq> None"
proof -
  have "retrans_ok w0" using assms(2-4) by (simp add: retrans_ok_def counts_ok_def retrans_refs_def)
  moreover have "mdr_valid (w_oi w0)" using assms(2,5) by (simp add: mdr_valid_def)
  ultimately have "nbr_inv w0" using assms(2,6) by (simp add: nbr_inv_def fsm_inv_def w_ok_def nbrs_sorted_def)
  then have "fsm_inv w" using nbr_reach_inv [OF assms(1)] by (simp add: nbr_inv_def)
  from nbr_handle_event [OF this assms(7), of ev env] inactivity_timer_ok [OF this assms(7), of env] assms(8)
  show ?thesis by auto
qed

theorem neighbors_never_abort_witness: "inactivity_timer example_env 0 (example_created []) \<noteq> None"
proof -
  let ?w0 = "example_world 0 []"
  have r: "nbr_reach ?w0 (example_created [])" and n: "0 < w_num (example_created [])"
    using example_step [of "[]"] nbr_reach.intros by auto
  have "oi_neighbor_list (w_oi ?w0) = []" "dbs_ok ?w0" "\<forall>l \<in> w_lsas ?w0. 0 \<le> lsa_retrans_count l"
    "im_MDRConstraint (oi_mdr (w_oi ?w0)) < int INFTY" "0 < oi_initial_immediate_hello_delay (w_oi ?w0)"
    by (simp_all add: example_world_def example_defs dbs_ok_def db_ok_def w_lsas_def Let_def)
  from neighbors_never_abort [OF r this n, of HelloReceived example_env] show ?thesis by simp
qed

text \<open>\<open>loading_done\<close> runs \<open>assert (on->request_list->count == 0)\<close>: a neighbor in Loading with
  something left to request is the only case in which the program stops, and otherwise the neighbor is Full.\<close>
theorem loading_done_assert:
  assumes "fsm_inv w" "j < w_num w" "on_state (w_nbr w j) = OSPF6_NEIGHBOR_LOADING"
  shows "if on_request_list (w_nbr w j) \<noteq> [] then loading_done env j w = None
    else \<exists>w'. loading_done env j w = Some w' \<and> on_state (w_nbr w' j) = OSPF6_NEIGHBOR_FULL"
  using loading_done_event [OF assms(1,2), of env] assms(3) by (auto simp: loading_done_def event_done_def)

theorem loading_done_assert_witness:
  "\<exists>w'. loading_done example_env 0 (example_world 0 [(5, OSPF6_NEIGHBOR_LOADING)]) = Some w' \<and>
     on_state (w_nbr w' 0) = OSPF6_NEIGHBOR_FULL"
  using loading_done_assert [of "example_world 0 [(5, OSPF6_NEIGHBOR_LOADING)]" 0 example_env] by simp

text \<open>C29: The beginning of the database exchange: every LSA of the three databases that is not MaxAge is on the
  summary list, every MaxAge LSA is on the retransmission list, nothing is requested yet, and nothing else
  is on the lists. An LSA on a list is a copy of the same instance.\<close>
theorem negotiation_done_lists:
  assumes "fsm_inv w" "j < w_num w" "on_state (w_nbr w j) = OSPF6_NEIGHBOR_EXSTART"
  shows "\<exists>w'. negotiation_done env j w = Some w' \<and> on_state (w_nbr w' j) = OSPF6_NEIGHBOR_EXCHANGE \<and>
    lsa_ident ` set (on_summary_list (w_nbr w' j)) = lsa_ident ` w_maxage (ne_now env) False w \<and>
    lsa_ident ` set (on_retrans_list (w_nbr w' j)) = lsa_ident ` w_maxage (ne_now env) True w \<and>
    on_request_list (w_nbr w' j) = []"
  using negotiation_done_ok [OF _ assms(2,3), of env] assms(1) by (auto simp: fsm_inv_def)

theorem negotiation_done_lists_witness:
  "\<exists>w'. negotiation_done example_env 0 (example_world 0 [(5, OSPF6_NEIGHBOR_EXSTART)]) = Some w' \<and>
     on_state (w_nbr w' 0) = OSPF6_NEIGHBOR_EXCHANGE \<and> on_request_list (w_nbr w' 0) = []"
  using negotiation_done_lists [of "example_world 0 [(5, OSPF6_NEIGHBOR_EXSTART)]" 0 example_env] by auto

section \<open>The limit of adjacencies that form at once\<close>

lemma formation_count_nat:
  assumes "mdr_valid (w_oi w)"
  shows "unat (ospf6_interface_adjacency_formation_count (w_oi w)) =
    length (filter (\<lambda>s. s > OSPF6_NEIGHBOR_TWOWAY \<and> s < OSPF6_NEIGHBOR_FULL) (w_states w))"
proof -
  let ?n = "length (filter (\<lambda>s. s > OSPF6_NEIGHBOR_TWOWAY \<and> s < OSPF6_NEIGHBOR_FULL) (w_states w))"
  have "?n \<le> length (w_states w)" by (rule length_filter_le)
  also have "\<dots> \<le> INFTY" using assms by (simp add: mdr_valid_def)
  finally have "?n mod 2 ^ 32 = ?n" by (intro mod_less) simp
  then show ?thesis unfolding formation_count_states unat_of_nat by simp
qed

lemma filter_update_length:
  assumes "i < length xs"
  shows "length (filter P (xs[i := x])) + of_bool (P (xs ! i)) = length (filter P xs) + of_bool (P x)"
proof -
  have "length (filter P (take i xs @ y # drop (Suc i) xs)) =
      length (filter P (take i xs)) + length (filter P (drop (Suc i) xs)) + of_bool (P y)" for y by simp
  from this [of x] this [of "xs ! i"] show ?thesis
    by (simp add: upd_conv_take_nth_drop [OF assms] id_take_nth_drop [OF assms, symmetric])
qed

text \<open>\<open>ospf6_neighbor_exstart\<close> keeps the number of partial adjacencies within the configured limit, which
  is an unsigned number; at the limit the neighbor waits, and nothing changes.\<close>
theorem exstart_within_limit:
  assumes "mdr_valid (w_oi w)" "j < w_num w" "0 < oi_adjacency_formation_limit (w_oi w)"
    and "ospf6_interface_adjacency_formation_count (w_oi w) \<le> oi_adjacency_formation_limit (w_oi w)"
  shows "\<exists>w'. ospf6_neighbor_exstart env j w = Some w' \<and>
    ospf6_interface_adjacency_formation_count (w_oi w') \<le> oi_adjacency_formation_limit (w_oi w) \<and>
    (ospf6_interface_adjacency_formation_count (w_oi w) = oi_adjacency_formation_limit (w_oi w) \<longrightarrow> w' = w)"
proof (cases "ospf6_interface_adjacency_formation_count (w_oi w) = oi_adjacency_formation_limit (w_oi w)")
  case True
  then show ?thesis using assms(3) by (simp add: exstart_def Let_def)
next
  case False
  then have less: "ospf6_interface_adjacency_formation_count (w_oi w) < oi_adjacency_formation_limit (w_oi w)"
    using assms(4) by simp
  obtain w' where w': "ospf6_neighbor_exstart env j w = Some w'" "w_states w' = (w_states w)[j := OSPF6_NEIGHBOR_EXSTART]"
    "mdr_valid (w_oi w')"
    using state_change.exstart_ok [where n = 1 and env = env, OF assms(2,1)] less leD [of "oi_adjacency_formation_limit (w_oi w)"]
    unfolding ospf6_neighbor_state_change_def numeral_2_eq_2 One_nat_def by (auto split: if_splits)
  have "unat (ospf6_interface_adjacency_formation_count (w_oi w')) \<le> Suc (unat (ospf6_interface_adjacency_formation_count (w_oi w)))"
    unfolding formation_count_nat [OF w'(3)] formation_count_nat [OF assms(1)] w'(2)
    using filter_update_length [of j "w_states w" "\<lambda>s. s > OSPF6_NEIGHBOR_TWOWAY \<and> s < OSPF6_NEIGHBOR_FULL" OSPF6_NEIGHBOR_EXSTART]
      assms(2) of_bool_less_eq_one by (auto simp: of_bool_def split: if_splits)
  then show ?thesis using w'(1) less False by (auto simp: word_less_nat_alt word_le_nat_alt)
qed

theorem exstart_within_limit_witness:
  "\<exists>w'. ospf6_neighbor_exstart example_env 0 (example_world 1 [(5, OSPF6_NEIGHBOR_TWOWAY)]) = Some w' \<and>
     ospf6_interface_adjacency_formation_count (w_oi w') \<le> 1"
proof -
  let ?w = "example_world 1 [(5, OSPF6_NEIGHBOR_TWOWAY)]"
  have "fsm_inv ?w" by simp
  then have "mdr_valid (w_oi ?w)" by (simp add: fsm_inv_def w_ok_def)
  from exstart_within_limit [OF this, of 0 example_env] show ?thesis by auto
qed

lemma formation_count_update:
  assumes "mdr_valid (w_oi w)" "mdr_valid (w_oi w')" "j < w_num w" "w_states w' = (w_states w)[j := OSPF6_NEIGHBOR_EXSTART]"
    and "on_state (w_nbr w j) = OSPF6_NEIGHBOR_FULL"
  shows "unat (ospf6_interface_adjacency_formation_count (w_oi w')) = Suc (unat (ospf6_interface_adjacency_formation_count (w_oi w)))"
  using filter_update_length [of j "w_states w" "\<lambda>s. s > OSPF6_NEIGHBOR_TWOWAY \<and> s < OSPF6_NEIGHBOR_FULL" OSPF6_NEIGHBOR_EXSTART]
    assms(3,5)
  unfolding formation_count_nat [OF assms(1)] formation_count_nat [OF assms(2)] assms(4) by (simp add: less_nbr_state_def)

text \<open>C37: The configured limit is not respected when an adjacency is formed again: a Full neighbor whose database
  description has a wrong sequence number goes back to ExStart without a look at the limit, and there is one partial adjacency more,
  also when their number was at the limit.\<close>
theorem seqnumber_mismatch_ignores_limit:
  assumes "fsm_inv w" "j < w_num w" "on_state (w_nbr w j) = OSPF6_NEIGHBOR_FULL"
  shows "\<exists>w'. seqnumber_mismatch env j w = Some w' \<and> on_state (w_nbr w' j) = OSPF6_NEIGHBOR_EXSTART \<and>
    unat (ospf6_interface_adjacency_formation_count (w_oi w')) = Suc (unat (ospf6_interface_adjacency_formation_count (w_oi w)))"
proof -
  obtain w1 where w1: "clear_ls_lists j w = Some w1" "fsm_inv w1" "w_num w1 = w_num w"
    "on_state (w_nbr w1 j) = on_state (w_nbr w j)" "\<forall>i < w_num w. i \<noteq> j \<longrightarrow> w_nbr w1 i = w_nbr w i"
    using clear_ls_lists_event [OF assms(1,2)] by blast
  have st: "on_state (w_nbr w1 i) = on_state (w_nbr w i)" if "i < w_num w" for i
    using w1(4,5) that by (cases "i = j") simp_all
  have states: "w_states w1 = w_states w" by (rule nth_equalityI) (use w1(3) st in simp_all)
  have v: "mdr_valid (w_oi w)" "mdr_valid (w_oi w1)" using assms(1) w1(2) by (simp_all add: fsm_inv_def w_ok_def)
  have n1: "j < w_num w1" using assms(2) w1(3) by simp
  obtain w' where w': "exstart_from (ospf6_neighbor_state_change env) j (on_dbdesc_seqnum (w_nbr w1 j) + 1) w1 = Some w'"
    "w_states w' = (w_states w1)[j := OSPF6_NEIGHBOR_EXSTART]" "mdr_valid (w_oi w')"
    using state_change.exstart_from_ok [where n = 1 and env = env, OF n1 v(2)]
    unfolding ospf6_neighbor_state_change_def numeral_2_eq_2 One_nat_def by blast
  have j': "j < w_num w'" using arg_cong [OF w'(2), of length] n1 by simp
  have "on_state (w_nbr w' j) = OSPF6_NEIGHBOR_EXSTART" using w_states_nth [OF w'(2) j'] n1 by simp
  moreover have "seqnumber_mismatch env j w = Some w'"
    using assms(3) w1(1) w'(1) by (simp add: seqnumber_mismatch_def less_nbr_state_def)
  ultimately show ?thesis
    using formation_count_update [OF v(1) w'(3) assms(2) _ assms(3)] w'(2) states by simp
qed

theorem seqnumber_mismatch_ignores_limit_witness:
  "\<exists>w'. seqnumber_mismatch example_env 1 (example_world 1 [(5, OSPF6_NEIGHBOR_EXSTART), (7, OSPF6_NEIGHBOR_FULL)]) = Some w' \<and>
     unat (ospf6_interface_adjacency_formation_count (w_oi w')) = 2"
  using seqnumber_mismatch_ignores_limit [of "example_world 1 [(5, OSPF6_NEIGHBOR_EXSTART), (7, OSPF6_NEIGHBOR_FULL)]" 1 example_env]
  by (auto simp: less_nbr_state_def)

section \<open>Progress\<close>

text \<open>C18: An adjacency forms: a neighbor that needs one and need not wait becomes Full after the events of a
  database exchange in which nothing is requested, on an interface of any type from 2-Way on, and on other than MDR
  interfaces from Init on.\<close>
theorem adjacency_becomes_full:
  assumes "fsm_inv w" "j < w_num w" "need_adjacency (w_oi w) (w_nbr w j)" "\<not> fsm_deferred (w_oi w)"
    and "on_state (w_nbr w j) = OSPF6_NEIGHBOR_TWOWAY \<and> ev = AdjOK \<or>
      on_state (w_nbr w j) = OSPF6_NEIGHBOR_INIT \<and> oi_type (w_oi w) \<noteq> OSPF6_IFTYPE_MDR \<and> ev = TwowayReceived"
  shows "\<exists>w1 w2 w3. nbr_handle ev env j w = Some w1 \<and> negotiation_done env1 j w1 = Some w2 \<and>
    exchange_done env2 j w2 = Some w3 \<and> on_state (w_nbr w3 j) = OSPF6_NEIGHBOR_FULL \<and> fsm_inv w3"
proof -
  have ev: "nbr_fsm_next ev (fsm_cond_of w j) (on_state (w_nbr w j)) = OSPF6_NEIGHBOR_EXSTART" "ev \<noteq> LoadingDone"
    using assms(3-5) by (auto simp: fsm_cond_of_def)
  obtain w1 where w1: "nbr_handle ev env j w = Some w1" "event_done OSPF6_NEIGHBOR_EXSTART j w w1"
    using nbr_handle_event [OF assms(1,2), of ev env] ev by auto
  have i1: "fsm_inv w1" "j < w_num w1" "on_state (w_nbr w1 j) = OSPF6_NEIGHBOR_EXSTART"
    using w1(2) assms(2) by (simp_all add: event_done_def)
  obtain w2 where w2: "negotiation_done env1 j w1 = Some w2" "event_done OSPF6_NEIGHBOR_EXCHANGE j w1 w2"
    using negotiation_done_event [OF i1(1,2), of env1] i1(3) by auto
  have i2: "fsm_inv w2" "j < w_num w2" "on_state (w_nbr w2 j) = OSPF6_NEIGHBOR_EXCHANGE"
    using w2(2) i1(2) by (simp_all add: event_done_def)
  have "on_request_list (w_nbr w2 j) = []"
    using negotiation_done_ok [OF _ i1(2,3), of env1] i1(1) w2(1) by (auto simp: fsm_inv_def)
  then obtain w3 where "exchange_done env2 j w2 = Some w3" "event_done OSPF6_NEIGHBOR_FULL j w2 w3"
    using exchange_done_event [OF i2(1,2), of env2] i2(3) by (auto simp: fsm_cond_of_def)
  then show ?thesis using w1(1) w2(1) by (auto simp: event_done_def)
qed

theorem adjacency_becomes_full_witness:
  "\<exists>w1 w2 w3. nbr_handle TwowayReceived example_env 0 (example_world 0 [(5, OSPF6_NEIGHBOR_INIT)]) = Some w1 \<and>
    negotiation_done example_env 0 w1 = Some w2 \<and> exchange_done example_env 0 w2 = Some w3 \<and>
    on_state (w_nbr w3 0) = OSPF6_NEIGHBOR_FULL \<and> fsm_inv w3"
  by (rule adjacency_becomes_full) (simp_all add: fsm_deferred_def)

text \<open>C39: At the limit a neighbor that is heard from in both directions, on an interface that is not an MDR
  interface, stays in Init: \<open>twoway_received\<close> does not put it in 2-Way, and the search for a waiting neighbor looks
  only at those in 2-Way. So when another adjacency becomes Full, whichever it is, the neighbor is still in Init.\<close>
theorem deferred_neighbor_stays_init:
  assumes "fsm_inv w" "j < w_num w" "on_state (w_nbr w j) = OSPF6_NEIGHBOR_INIT" "oi_type (w_oi w) \<noteq> OSPF6_IFTYPE_MDR"
    and "need_adjacency (w_oi w) (w_nbr w j)" "fsm_deferred (w_oi w)" "k < w_num w" "k \<noteq> j"
  shows "\<exists>w1 w2. twoway_received env j w = Some w1 \<and> ospf6_neighbor_state_change env' OSPF6_NEIGHBOR_FULL k w1 = Some w2 \<and>
    on_state (w_nbr w2 k) = OSPF6_NEIGHBOR_FULL \<and> on_state (w_nbr w2 j) = OSPF6_NEIGHBOR_INIT"
proof -
  obtain w1 where w1: "twoway_received env j w = Some w1" "event_done OSPF6_NEIGHBOR_INIT j w w1"
    using twoway_received_event [OF assms(1,2), of env] assms(3-6) by (auto simp: fsm_cond_of_def less_nbr_state_def)
  have i1: "fsm_inv w1" "k < w_num w1" "w_num w1 = w_num w" "on_state (w_nbr w1 j) = OSPF6_NEIGHBOR_INIT"
    using w1(2) assms(7) by (simp_all add: event_done_def)
  have ok: "w_ok w1" using i1(1) by (simp add: fsm_inv_def)
  obtain w2 where w2: "ospf6_neighbor_state_change env' OSPF6_NEIGHBOR_FULL k w1 = Some w2" "sc_done OSPF6_NEIGHBOR_FULL k w1 w2"
    using state_change_ok [OF ok i1(2)] by blast
  have "nbr_tr (w_nbr w1 j) (w_nbr w2 j)" using w2(2) assms(2,8) i1(3) by (auto simp: sc_done_def)
  from nbr_tr_below [OF this] i1(4) have "on_state (w_nbr w2 j) = OSPF6_NEIGHBOR_INIT" by (simp add: less_nbr_state_def)
  then show ?thesis using w1(1) w2 by (auto simp: sc_done_def)
qed

theorem deferred_neighbor_stays_init_witness:
  "\<exists>w1 w2. twoway_received example_env 0 (example_world 1 [(5, OSPF6_NEIGHBOR_INIT), (7, OSPF6_NEIGHBOR_LOADING)]) = Some w1 \<and>
    ospf6_neighbor_state_change example_env OSPF6_NEIGHBOR_FULL 1 w1 = Some w2 \<and>
    on_state (w_nbr w2 1) = OSPF6_NEIGHBOR_FULL \<and> on_state (w_nbr w2 0) = OSPF6_NEIGHBOR_INIT"
  by (rule deferred_neighbor_stays_init) (simp_all add: fsm_deferred_def less_nbr_state_def)

lemma lsa_frame_nbr:
  assumes "lsa_frame oi' = lsa_frame oi"
  shows "num_neigh oi' = num_neigh oi" "oi_adjacency_formation_limit oi' = oi_adjacency_formation_limit oi"
    and "i < num_neigh oi \<Longrightarrow> on_state (nbr oi' i) = on_state (nbr oi i)"
    and "i < num_neigh oi \<Longrightarrow> need_adjacency oi' (nbr oi' i) = need_adjacency oi (nbr oi i)"
    and "ospf6_interface_adjacency_formation_count oi' = ospf6_interface_adjacency_formation_count oi"
proof -
  have l: "map nbr_lsa_frame (oi_neighbor_list oi') = map nbr_lsa_frame (oi_neighbor_list oi)"
    using arg_cong [OF assms, of oi_neighbor_list] by (simp add: lsa_frame_def)
  show n: "num_neigh oi' = num_neigh oi" using arg_cong [OF l, of length] by simp
  show "oi_adjacency_formation_limit oi' = oi_adjacency_formation_limit oi"
    using arg_cong [OF assms, of oi_adjacency_formation_limit] by (simp add: lsa_frame_def)
  have f: "nbr_lsa_frame (nbr oi' i) = nbr_lsa_frame (nbr oi i)" if "i < num_neigh oi" for i
    using arg_cong [OF l, of "\<lambda>xs. xs ! i"] that n by simp
  have st: "on_state (nbr_lsa_frame on) = on_state on" for on by (simp add: nbr_lsa_frame_def)
  show "on_state (nbr oi' i) = on_state (nbr oi i)" if "i < num_neigh oi" for i
    using f [OF that] st by metis
  have need: "need_adjacency (lsa_frame oi) (nbr_lsa_frame on) = need_adjacency oi on" for oi on
    by (simp add: need_adjacency_def ospf6_mdr_neighbor_need_adjacency_def lsa_frame_def nbr_lsa_frame_def)
  show "need_adjacency oi' (nbr oi' i) = need_adjacency oi (nbr oi i)" if "i < num_neigh oi" for i
    using need [of oi' "nbr oi' i"] need [of oi "nbr oi i"] f [OF that] assms by simp
  have "map on_state (oi_neighbor_list oi') = map on_state (oi_neighbor_list oi)"
    using arg_cong [OF l, of "map on_state"] by (simp add: o_def st)
  then have "map on_state (oi_neighbor_list (w_oi (w\<lparr>w_oi := oi'\<rparr>))) = map on_state (oi_neighbor_list (w_oi (w\<lparr>w_oi := oi\<rparr>)))" for w :: world
    by simp
  then show "ospf6_interface_adjacency_formation_count oi' = ospf6_interface_adjacency_formation_count oi"
    using formation_count_states [of "undefined\<lparr>w_oi := oi'\<rparr>"] formation_count_states [of "undefined\<lparr>w_oi := oi\<rparr>"] by simp
qed

lemma state_set_waits:
  assumes "j < w_num w"
  shows "w_num (state_set env s j w) = w_num w"
    and "i < w_num w \<Longrightarrow> on_state (w_nbr (state_set env s j w) i) = (if i = j then s else on_state (w_nbr w i))"
    and "i < w_num w \<Longrightarrow> need_adjacency (w_oi (state_set env s j w)) (w_nbr (state_set env s j w) i) =
      need_adjacency (w_oi w) (w_nbr w i)"
    and "oi_adjacency_formation_limit (w_oi (state_set env s j w)) = oi_adjacency_formation_limit (w_oi w)"
    and "w_states (state_set env s j w) = (w_states w)[j := s]"
proof -
  show "w_num (state_set env s j w) = w_num w" by (simp add: state_set_def Let_def)
  show "on_state (w_nbr (state_set env s j w) i) = (if i = j then s else on_state (w_nbr w i))" if "i < w_num w" for i
    using that by (simp add: state_set_def Let_def)
  show "need_adjacency (w_oi (state_set env s j w)) (w_nbr (state_set env s j w) i) = need_adjacency (w_oi w) (w_nbr w i)"
    if "i < w_num w" for i
    by (rule need_adjacency_cong) (use that in \<open>simp_all add: state_set_def w_nbr_update_def nbr_update_def nth_list_update_if Let_def\<close>)
  show "oi_adjacency_formation_limit (w_oi (state_set env s j w)) = oi_adjacency_formation_limit (w_oi w)"
    by (simp add: state_set_def w_nbr_update_def nbr_update_def Let_def)
qed (rule state_set_ok(2) [OF assms])

lemma formation_count_full:
  assumes "mdr_valid (w_oi w)" "mdr_valid (w_oi w')" "j < w_num w"
    and "on_state (w_nbr w j) = OSPF6_NEIGHBOR_EXCHANGE \<or> on_state (w_nbr w j) = OSPF6_NEIGHBOR_LOADING"
    and "w_states w' = (w_states w)[j := OSPF6_NEIGHBOR_FULL]"
  shows "Suc (unat (ospf6_interface_adjacency_formation_count (w_oi w'))) = unat (ospf6_interface_adjacency_formation_count (w_oi w))"
  using filter_update_length [of j "w_states w" "\<lambda>s. s > OSPF6_NEIGHBOR_TWOWAY \<and> s < OSPF6_NEIGHBOR_FULL" OSPF6_NEIGHBOR_FULL]
    assms(3,4)
  unfolding formation_count_nat [OF assms(1)] formation_count_nat [OF assms(2)] assms(5) by (auto simp: less_nbr_state_def)

text \<open>A change to Full, up to the search for a waiting neighbor.\<close>

lemma state_change_full:
  assumes "w_ok w" "j < w_num w" "on_state (w_nbr w j) \<noteq> OSPF6_NEIGHBOR_FULL"
  shows "\<exists>w1. ospf6_neighbor_state_change env OSPF6_NEIGHBOR_FULL j w =
      formation_next (state_change 1 env) env OSPF6_NEIGHBOR_FULL w1 \<and>
    lsa_frame (w_oi w1) = lsa_frame (w_oi (state_set env OSPF6_NEIGHBOR_FULL j w)) \<and> mdr_valid (w_oi w1)"
proof -
  let ?s = "state_set env OSPF6_NEIGHBOR_FULL j w"
  let ?prev = "on_state (w_nbr w j)"
  have v: "mdr_valid (w_oi ?s)" using state_set_ok(3) [OF assms(2)] assms(1) by (simp add: w_ok_def)
  define mid where "mid = (if oi_type (w_oi ?s) = OSPF6_IFTYPE_MDR then w_update_lsa env ?s else full_schedule ?prev OSPF6_NEIGHBOR_FULL ?s)"
  have e: "lsa_frame (w_oi (w_emit e w)) = lsa_frame (w_oi w)" for e w by (simp add: w_emit_def lsa_frame_emit)
  have "lsa_frame (w_oi mid) = lsa_frame (w_oi ?s)"
    by (simp add: mid_def w_update_lsa_def ospf6_mdr_update_lsa_frame full_schedule_def Let_def e)
  moreover have "mdr_valid (w_oi mid)" using lsa_frame_mdr(3) [OF calculation v] .
  moreover have "\<not> OSPF6_NEIGHBOR_FULL < OSPF6_NEIGHBOR_TWOWAY" by (simp add: less_nbr_state_def)
  then have run: "(if oi_type (w_oi ?s) = OSPF6_IFTYPE_MDR then mdr_neighbor_state_change (state_change 1 env) env ?prev OSPF6_NEIGHBOR_FULL ?s
      else Some (full_schedule ?prev OSPF6_NEIGHBOR_FULL ?s)) = Some mid"
    by (simp add: mid_def mdr_neighbor_state_change_def)
  have sc: "ospf6_neighbor_state_change env = state_change_body (state_change 1 env) env"
    by (simp add: ospf6_neighbor_state_change_def numeral_2_eq_2)
  have "ospf6_neighbor_state_change env OSPF6_NEIGHBOR_FULL j w =
      formation_next (state_change 1 env) env OSPF6_NEIGHBOR_FULL
        (w_emit (NeighborStateHooks (on_router_id (w_nbr mid j)) ?prev OSPF6_NEIGHBOR_FULL)
          (if ?prev = OSPF6_NEIGHBOR_EXCHANGE \<or> ?prev = OSPF6_NEIGHBOR_LOADING then w_emit MaxageRemove mid else mid))"
    unfolding sc state_change_body_def Let_def run using assms(3) by simp
  moreover have "lsa_frame (w_oi (w_emit h (if b then w_emit MaxageRemove mid else mid))) = lsa_frame (w_oi mid)"
    "mdr_valid (w_oi (w_emit h (if b then w_emit MaxageRemove mid else mid))) = mdr_valid (w_oi mid)" for h b
    by (simp_all add: e)
  ultimately show ?thesis by metis
qed

text \<open>C16: A waiting neighbor is served, on interfaces of all types: when an adjacency becomes Full while the number of partial
  adjacencies is within the limit, and some other neighbor in 2-Way needs an adjacency, one of
  these neighbors goes to ExStart.\<close>
theorem waiting_neighbor_starts:
  assumes "fsm_inv w" "j < w_num w" "on_state (w_nbr w j) = OSPF6_NEIGHBOR_EXCHANGE \<or> on_state (w_nbr w j) = OSPF6_NEIGHBOR_LOADING"
    and "0 < oi_adjacency_formation_limit (w_oi w)"
    and "ospf6_interface_adjacency_formation_count (w_oi w) \<le> oi_adjacency_formation_limit (w_oi w)"
    and "k < w_num w" "on_state (w_nbr w k) = OSPF6_NEIGHBOR_TWOWAY" "need_adjacency (w_oi w) (w_nbr w k)"
  shows "\<exists>w' i. ospf6_neighbor_state_change env OSPF6_NEIGHBOR_FULL j w = Some w' \<and> i < w_num w \<and>
    on_state (w_nbr w i) = OSPF6_NEIGHBOR_TWOWAY \<and> need_adjacency (w_oi w) (w_nbr w i) \<and>
    on_state (w_nbr w' i) = OSPF6_NEIGHBOR_EXSTART"
proof -
  let ?s = "state_set env OSPF6_NEIGHBOR_FULL j w"
  have ok: "w_ok w" using assms(1) by (simp add: fsm_inv_def)
  obtain w1 where w1: "ospf6_neighbor_state_change env OSPF6_NEIGHBOR_FULL j w =
        formation_next (state_change 1 env) env OSPF6_NEIGHBOR_FULL w1"
      "lsa_frame (w_oi w1) = lsa_frame (w_oi ?s)" "mdr_valid (w_oi w1)"
    using state_change_full [OF ok assms(2), of env] assms(3) by auto
  note f = lsa_frame_nbr [OF w1(2)]
  note s = state_set_waits [OF assms(2), where env = env and s = OSPF6_NEIGHBOR_FULL]
  have st: "on_state (w_nbr w1 i) = (if i = j then OSPF6_NEIGHBOR_FULL else on_state (w_nbr w i))" if "i < w_num w" for i
    using f(3) [of i] s(1,2) that by simp
  have need: "need_adjacency (w_oi w1) (w_nbr w1 i) = need_adjacency (w_oi w) (w_nbr w i)" if "i < w_num w" for i
    using f(4) [of i] s(1,3) that by simp
  have count: "ospf6_interface_adjacency_formation_count (w_oi w1) < oi_adjacency_formation_limit (w_oi w1)"
    using f(2,5) s(4,5) formation_count_full [OF _ _ assms(2,3), of ?s] ok state_set_ok [OF assms(2), of env OSPF6_NEIGHBOR_FULL] assms(5)
    by (simp add: w_ok_def word_less_nat_alt word_le_nat_alt)
  let ?P = "\<lambda>i. on_state (w_nbr w1 i) = OSPF6_NEIGHBOR_TWOWAY \<and> need_adjacency (w_oi w1) (w_nbr w1 i)"
  have n1: "w_num w1 = w_num w" using f(1) s(1) by simp
  have "k \<noteq> j" using assms(3,7) by auto
  then have "?P k" "k \<in> set [0 ..< w_num w1]" using assms(6-8) st need n1 by simp_all
  then have "List.find ?P [0 ..< w_num w1] \<noteq> None" unfolding find_None_iff by blast
  then obtain i where i: "List.find ?P [0 ..< w_num w1] = Some i" by blast
  then have "i < w_num w" "?P i" using n1 by (auto simp: find_Some_iff)
  moreover have "i \<noteq> j" using calculation st [of i] by auto
  moreover obtain w' where w': "exstart (state_change 1 env) env i w1 = Some w'" "w_states w' = (w_states w1)[i := OSPF6_NEIGHBOR_EXSTART]"
    using state_change.exstart_ok [where n = 0 and env = env, of i w1] calculation(1) n1 w1(3) count leD [of "oi_adjacency_formation_limit (w_oi w1)"]
    unfolding One_nat_def by (auto split: if_splits)
  moreover have "ospf6_neighbor_state_change env OSPF6_NEIGHBOR_FULL j w = Some w'"
    unfolding w1(1) formation_next_def Let_def i using count assms(4) f(2) s(4) w'(1) by simp
  moreover have "on_state (w_nbr w' i) = OSPF6_NEIGHBOR_EXSTART"
    using w_states_nth [OF w'(2)] arg_cong [OF w'(2), of length] calculation(1) n1 by simp
  ultimately show ?thesis using st need by auto
qed


theorem waiting_neighbor_starts_witness:
  "\<exists>w' i. ospf6_neighbor_state_change example_env OSPF6_NEIGHBOR_FULL 0
      (example_world 1 [(5, OSPF6_NEIGHBOR_LOADING), (7, OSPF6_NEIGHBOR_TWOWAY)]) = Some w' \<and>
    on_state (w_nbr w' i) = OSPF6_NEIGHBOR_EXSTART"
  using waiting_neighbor_starts [of "example_world 1 [(5, OSPF6_NEIGHBOR_LOADING), (7, OSPF6_NEIGHBOR_TWOWAY)]" 0 1 example_env]
  by (auto simp: less_nbr_state_def)

section \<open>Creation and lookup\<close>

lemma find_insert:
  assumes "\<And>x. x \<in> set pre \<Longrightarrow> f x \<noteq> f y"
  shows "List.find (\<lambda>x. f x = r) (pre @ y # post) = (if r = f y then Some y else List.find (\<lambda>x. f x = r) (pre @ post))"
  using assms by (induction pre) auto

text \<open>A neighbor that is created is found by its router ID, in state Down and with empty lists; every other lookup
  has the same result as before. When the neighbor times out at once, it is not found any more.\<close>
theorem neighbor_create_lookup:
  assumes "nbr_inv w" "rid \<noteq> 0" "ospf6_neighbor_lookup rid (w_oi w) = None" "w_num w < INFTY" "\<not> ne_create_fails env rid"
  shows "\<exists>w' on j. ospf6_neighbor_create env rid w = Some (True, w') \<and>
    ospf6_neighbor_lookup rid (w_oi w') = Some on \<and> on_state on = OSPF6_NEIGHBOR_DOWN \<and> ls_lists on = ([], [], []) \<and>
    (\<forall>r. r \<noteq> rid \<longrightarrow> ospf6_neighbor_lookup r (w_oi w') = ospf6_neighbor_lookup r (w_oi w)) \<and>
    j < w_num w' \<and> on = w_nbr w' j \<and>
    (\<exists>w''. inactivity_timer env' j w' = Some w'' \<and> ospf6_neighbor_lookup rid (w_oi w'') = None)"
proof -
  define on where "on = fst (ospf6_mdr_neighbor_create (neighbor_alloc (ne_now env) rid (w_oi w)) (w_oi w))"
  let ?ns = "oi_neighbor_list (w_oi w)"
  have on: "on_router_id on = rid" "on_state on = OSPF6_NEIGHBOR_DOWN" "ls_lists on = ([], [], [])"
    by (simp_all add: on_def ospf6_mdr_neighbor_create_def neighbor_alloc_def ls_lists_def Let_def)
  have fresh: "rid \<notin> set (w_rids w)" and inv: "fsm_inv w" using assms(1,3) by (simp_all add: lookup_None_iff nbr_inv_def)
  obtain w' where w': "ospf6_neighbor_create env rid w = Some (True, w')" "fsm_inv w'"
    "oi_neighbor_list (w_oi w') = listnode_add_sort ospf6_neighbor_cmp ?ns on"
    using ospf6_neighbor_create_ok [OF inv assms(2) fresh assms(4), of env] assms(5) by (auto simp: on_def)
  obtain pre post where s: "?ns = pre @ post" "oi_neighbor_list (w_oi w') = pre @ on # post"
    using listnode_add_sort_split [of ?ns ospf6_neighbor_cmp on] unfolding w'(3) [symmetric] by (elim exE conjE) (rule that)
  have ne: "on_router_id x \<noteq> on_router_id on" if "x \<in> set pre" for x using that fresh on(1) by (auto simp: s(1) image_iff)
  have look: "ospf6_neighbor_lookup r (w_oi w') = (if r = rid then Some on else ospf6_neighbor_lookup r (w_oi w))" for r
    using find_insert [where f = on_router_id and y = on and pre = pre and post = post and r = r] ne on(1)
    by (simp add: ospf6_neighbor_lookup_def s)
  let ?j = "length pre"
  have j: "?j < w_num w'" "w_nbr w' ?j = on" by (simp_all add: s(2))
  obtain w'' where w'': "inactivity_timer env' ?j w' = Some w''" "w_rids w'' = take ?j (w_rids w') @ drop (Suc ?j) (w_rids w')"
    using inactivity_timer_ok [OF w'(2) j(1), of env'] by blast
  have "rid \<notin> set (w_rids w'')" using w''(2) fresh by (simp add: s)
  then have "ospf6_neighbor_lookup rid (w_oi w'') = None" by (simp add: lookup_None_iff)
  then show ?thesis using w'(1) look on(2,3) j w''(1) by auto
qed

theorem neighbor_create_lookup_witness:
  "\<exists>w' on. ospf6_neighbor_create example_env 7 (example_world 0 [(5, OSPF6_NEIGHBOR_FULL)]) = Some (True, w') \<and>
    ospf6_neighbor_lookup 7 (w_oi w') = Some on \<and> on_state on = OSPF6_NEIGHBOR_DOWN"
proof -
  let ?w = "example_world 0 [(5, OSPF6_NEIGHBOR_FULL)]"
  have "7 \<notin> set (w_rids ?w)" by simp
  then have "ospf6_neighbor_lookup 7 (w_oi ?w) = None" by (simp only: lookup_None_iff set_map not_False_eq_True)
  moreover have "nbr_inv ?w" by (simp add: nbr_inv_def nbrs_sorted_def)
  ultimately show ?thesis using neighbor_create_lookup [of ?w 7 example_env example_env] by (auto simp: example_env_def)
qed

end
