(* ===== verification/Checksum.thy ===== *)
theory Checksum
  imports Lsa
begin

text \<open>
  The checksums of \<^verbatim>\<open>src/lib/checksum.c\<close>: the Internet checksum \<open>in_cksum\<close> and \<open>fletcher_checksum\<close>.
  The Internet checksum reads memory by 16-bit words of the host, so the byte order of the host is a parameter;
  a block whose checksum field is filled in has the checksum zero in both orders.
\<close>

section \<open>The Internet checksum\<close>

text \<open>The value of two bytes in memory as \<^verbatim>\<open>u_short\<close>, and the bytes of such a value.\<close>
definition host_short :: "bool \<Rightarrow> u8 \<Rightarrow> u8 \<Rightarrow> nat" where
  "host_short big_endian a b = (if big_endian then 256 * unat a + unat b else unat a + 256 * unat b)"

definition host_bytes :: "bool \<Rightarrow> nat \<Rightarrow> u8 list" where
  "host_bytes big_endian n =
     (let hi = of_nat (n div 256); lo = of_nat (n mod 256) in if big_endian then [hi, lo] else [lo, hi])"

text \<open>The loop over the words, with the odd byte at the end. The sum is a \<^verbatim>\<open>long\<close>: it is below
  \<^term>\<open>2 ^ 31\<close> for all blocks of at most 65536 bytes.\<close>
fun in_cksum_sum :: "bool \<Rightarrow> u8 list \<Rightarrow> nat" where
  "in_cksum_sum be (a # b # bs) = host_short be a b + in_cksum_sum be bs"
| "in_cksum_sum be [a] = host_short be a 0"
| "in_cksum_sum be [] = 0"

definition in_cksum_fold :: "nat \<Rightarrow> nat" where
  "in_cksum_fold acc =
     (let acc = acc div 65536 + acc mod 65536;
          acc = acc + acc div 65536
      in acc mod 65536)"

definition in_cksum :: "bool \<Rightarrow> u8 list \<Rightarrow> nat" where
  "in_cksum be bs = 65535 - in_cksum_fold (in_cksum_sum be bs)"

lemma host_short_less: "host_short be a b < 65536"
  using unat_u8_less [of a] unat_u8_less [of b] by (auto simp: host_short_def)

lemma host_short_zero [simp]: "host_short be 0 0 = 0"
  by (simp add: host_short_def)

lemma host_bytes_short:
  assumes "n < 65536" "host_bytes be n = [a, b]"
  shows "host_short be a b = n"
proof -
  have "unat (of_nat (n div 256) :: u8) = n div 256" "unat (of_nat (n mod 256) :: u8) = n mod 256"
    using assms(1) by (simp_all add: unat_of_nat)
  then show ?thesis using assms(2) by (auto simp: host_bytes_def host_short_def Let_def split: if_splits)
qed

lemma in_cksum_sum_append: "even (length xs) \<Longrightarrow> in_cksum_sum be (xs @ ys) = in_cksum_sum be xs + in_cksum_sum be ys"
  by (induction be xs rule: in_cksum_sum.induct) simp_all

lemma in_cksum_sum_le: "in_cksum_sum be bs \<le> ((length bs + 1) div 2) * 65535"
proof (induction be bs rule: in_cksum_sum.induct)
  case (1 be a b bs)
  then show ?case using host_short_less [of be a b] by simp
next
  case (2 be a)
  then show ?case using host_short_less [of be a 0] by simp
qed simp

lemma in_cksum_sum_bound: "length bs \<le> 65536 \<Longrightarrow> in_cksum_sum be bs \<le> 32768 * 65535"
  by (rule order_trans [OF in_cksum_sum_le mult_le_mono1]) simp

text \<open>Folding is the sum modulo 65535, except that a positive sum never becomes zero.\<close>

lemma in_cksum_fold:
  assumes "acc \<le> 32768 * 65535"
  shows "in_cksum_fold acc mod 65535 = acc mod 65535" "in_cksum_fold acc \<le> 65535" "in_cksum_fold acc = 0 \<longleftrightarrow> acc = 0"
proof -
  define h l where "h = acc div 65536" and "l = acc mod 65536"
  have s: "acc = 65536 * h + l" "l < 65536" by (simp_all add: h_def l_def)
  have h: "h < 32768" using assms unfolding h_def by linarith
  have "65536 * h + l = 65535 * h + (h + l)" by simp
  then have m: "acc mod 65535 = (h + l) mod 65535" unfolding s(1) by (metis mod_mult_self4)
  have f: "in_cksum_fold acc = (if h + l < 65536 then h + l else h + l - 65535)"
  proof (cases "h + l < 65536")
    case True
    then show ?thesis by (simp add: in_cksum_fold_def h_def [symmetric] l_def [symmetric] Let_def)
  next
    case False
    then have "(h + l) div 65536 = 1" using h s(2) by linarith
    moreover have "(h + l + 1) mod 65536 = h + l - 65535" using False h s(2) by (simp add: mod_if)
    ultimately show ?thesis using False by (simp add: in_cksum_fold_def h_def [symmetric] l_def [symmetric] Let_def)
  qed
  show "in_cksum_fold acc mod 65535 = acc mod 65535" unfolding m f by (simp add: mod_if)
  show "in_cksum_fold acc \<le> 65535" using f h s(2) by auto
  show "in_cksum_fold acc = 0 \<longleftrightarrow> acc = 0" using f s by auto
qed

text \<open>The block with its checksum field filled in.\<close>

lemma in_cksum_filled:
  assumes "even (length pre)" "host_bytes be (in_cksum be (pre @ [0, 0] @ post)) = [a, b]"
    and "length (pre @ [0, 0] @ post) \<le> 65536" "in_cksum_sum be (pre @ [0, 0] @ post) \<noteq> 0"
  shows "in_cksum be (pre @ [a, b] @ post) = 0"
proof -
  let ?s = "in_cksum_sum be (pre @ [0, 0] @ post)"
  let ?c = "in_cksum be (pre @ [0, 0] @ post)"
  have "in_cksum_sum be (pre @ [a, b] @ post) = ?s + host_short be a b"
    using in_cksum_sum_append [OF assms(1), of be "0 # 0 # post"] in_cksum_sum_append [OF assms(1), of be "a # b # post"] by simp
  also have "host_short be a b = ?c" by (rule host_bytes_short [OF _ assms(2)]) (simp add: in_cksum_def)
  finally have total: "in_cksum_sum be (pre @ [a, b] @ post) = ?s + ?c" .
  have le: "?s \<le> 32768 * 65535" "?s + ?c \<le> 32768 * 65535"
    using in_cksum_sum_bound [of "pre @ [0, 0] @ post" be] in_cksum_sum_bound [of "pre @ [a, b] @ post" be] assms(3)
    unfolding total by simp_all
  note f = in_cksum_fold [OF le(1)] and g = in_cksum_fold [OF le(2)]
  have "in_cksum_fold (?s + ?c) mod 65535 = (in_cksum_fold ?s + ?c) mod 65535"
    unfolding g(1) using mod_add_cong [OF f(1) refl, of ?c] by simp
  also have "in_cksum_fold ?s + ?c = 65535" using f(2) by (simp add: in_cksum_def)
  finally have "in_cksum_fold (?s + ?c) mod 65535 = 0" by simp
  moreover have "in_cksum_fold (?s + ?c) \<noteq> 0" using g(3) assms(4) by simp
  ultimately have "in_cksum_fold (?s + ?c) = 65535" using g(2) by (metis le_neq_implies_less mod_less)
  then show ?thesis unfolding in_cksum_def total by simp
qed

section \<open>The Fletcher checksum\<close>

text \<open>The two check bytes.\<close>
definition fletcher_check :: "int \<Rightarrow> int \<Rightarrow> int \<times> int" where
  "fletcher_check v c0 =
     (let x = v smod 255;
          x = (if x \<le> 0 then x + 255 else x);
          y = 510 - c0 - x;
          y = (if y > 255 then y - 255 else y)
      in (x, y))"

text \<open>The routine that the other daemons use, with the position of the field as an argument. The buffer is the memory from
  its start; \<^term>\<open>None\<close> when the assertion fails, or the routine would leave the buffer. The difference is
  computed as \<^verbatim>\<open>size_t\<close> and converted to \<^verbatim>\<open>int\<close>.\<close>
definition fletcher_checksum :: "u8 list \<Rightarrow> nat \<Rightarrow> nat \<Rightarrow> (u16 \<times> u8 list) option" where
  "fletcher_checksum buffer len offset =
     (if \<not> offset < len then None
      else if length buffer < len \<or> length buffer < offset + 2 then None
      else
        let buffer = buffer[offset := 0, offset + 1 := 0];
            (c0, c1) = fletcher_loop (take len buffer) (0, 0);
            v = sint (ucast ((of_nat len - of_nat offset - 1) * word_of_int c0 - word_of_int c1 :: 64 word) :: u32);
            (x, y) = fletcher_check v c0
        in Some (word_of_int (push_bit 8 x + y), buffer[offset := word_of_int x, offset + 1 := word_of_int y]))"

lemma fletcher_xy_check: "fletcher_xy len c0 c1 = fletcher_check ((len - LSA_CHECKSUM_OFFSET) * c0 - c1) c0"
  unfolding fletcher_xy_def fletcher_check_def by (rule refl)

lemma sint_ucast_word_of_int:
  assumes "- (2 ^ 31) \<le> i" "i < 2 ^ 31"
  shows "sint (ucast (word_of_int i :: 64 word) :: u32) = i"
proof -
  have "(ucast (word_of_int i :: 64 word) :: u32) = word_of_int i"
    by (rule bit_word_eqI) (simp add: bit_ucast_iff bit_word_of_int_iff)
  then show ?thesis using assms by (simp add: signed_of_int signed_take_bit_int_eq_self)
qed

text \<open>The two Fletcher routines of the repository agree: on the bytes of an LSA from its type on, with the checksum
  field at offset 14, \<open>fletcher_checksum\<close> returns what \<open>ospf6_lsa_checksum\<close> returns and leaves
  the same bytes.\<close>
theorem fletcher_checksum_lsa:
  assumes "lsa_length_ok l"
  shows "\<exists>ck l'. ospf6_lsa_checksum l = Some (ck, l') \<and>
    fletcher_checksum (lsa_checksum_bytes l) (unat (h_length (lsa_header l) - 2)) 14 = Some (ck, lsa_checksum_bytes l')"
proof -
  let ?set = "\<lambda>ck. l\<lparr>lsa_header := (lsa_header l)\<lparr>h_checksum := ck\<rparr>\<rparr>"
  define L where "L = unat (h_length (lsa_header l) - 2)"
  obtain p s where ps: "length p = 14" "length s = L - 16" "18 \<le> L"
    and bytes: "\<And>ck. lsa_checksum_bytes (?set ck) = p @ be16 ck @ s"
    using lsa_checksum_bytes_split [OF assms] unfolding L_def by metis
  let ?z = "p @ [0, 0] @ s"
  have L: "L < 65536" unfolding L_def by (rule unat_u16_less)
  have z: "lsa_checksum_bytes (?set 0) = ?z" by (simp add: bytes) (simp add: be16_def)
  have l: "lsa_checksum_bytes l = p @ be16 (h_checksum (lsa_header l)) @ s" using bytes [of "h_checksum (lsa_header l)"] by simp
  obtain a b where ab: "be16 (h_checksum (lsa_header l)) = [a, b]" by (simp add: be16_def)
  obtain c0 c1 where c: "fletcher_loop ?z (0, 0) = (c0, c1)" by fastforce
  have r: "0 \<le> c0" "c0 < 255" "0 \<le> c1" "c1 < 255"
    using c fletcher_loop_eq [of 0 0 ?z] by auto
  have len: "length ?z = L" using ps by simp
  obtain x y where xy: "fletcher_xy (int L) c0 c1 = (x, y)" by fastforce
  note q = fletcher_xy_correct [OF xy r(1,2)]
  define ck where "ck = (word_of_int (push_bit 8 x + y) :: u16)"
  have run: "ospf6_lsa_checksum l = Some (ck, ?set ck)"
    using len xy z c by (simp add: ospf6_lsa_checksum_def Let_def L_def [symmetric] ck_def)
  have ck: "be16 ck = [word_of_int x, word_of_int y]"
    unfolding ck_def using q(1-4) by (intro be16_hi_lo) auto
  let ?i = "(int L - 15) * c0 - c1"
  have "(int L - 15) * c0 \<le> 65536 * 255" using L ps(3) r by (intro mult_mono) auto
  moreover have "0 \<le> (int L - 15) * c0" using ps(3) r(1) by simp
  ultimately have "sint (ucast (word_of_int ?i :: 64 word) :: u32) = ?i"
    using r by (intro sint_ucast_word_of_int) auto
  moreover have "(of_nat L - of_nat 14 - 1) * word_of_int c0 - word_of_int c1 = (word_of_int ?i :: 64 word)"
    by simp
  ultimately have v: "sint (ucast ((of_nat L - of_nat 14 - 1) * word_of_int c0 - word_of_int c1 :: 64 word) :: u32) = ?i" by metis
  have buf: "(p @ [a, b] @ s)[14 := u, 14 + 1 := v] = p @ [u, v] @ s" for u v
    using ps(1) by (simp add: list_update_append)
  have buf2: "(p @ [0, 0] @ s)[14 := u, 14 + 1 := v] = p @ [u, v] @ s" for u v
    using ps(1) by (simp add: list_update_append)
  have xy': "fletcher_check ?i c0 = (x, y)" using xy unfolding fletcher_xy_check .
  have cond: "(\<not> 14 < L) = False" "(length (p @ [a, b] @ s) < L \<or> length (p @ [a, b] @ s) < 14 + 2) = False" "take L ?z = ?z"
    using ps len by simp_all
  have "fletcher_checksum (p @ [a, b] @ s) L 14 = Some (ck, p @ [word_of_int x, word_of_int y] @ s)"
    unfolding fletcher_checksum_def buf Let_def cond if_False c case_prod_conv v xy' buf2 ck_def by (rule refl)
  then show ?thesis using run l ab bytes [of ck] ck by (auto simp: L_def)
qed


theorem fletcher_checksum_lsa_witness:
  "\<exists>ck l'. ospf6_lsa_checksum (lsa_ex 0x80000001 [0, 0, 0, 19, 1, 2, 3, 4]) = Some (ck, l') \<and>
    fletcher_checksum (lsa_checksum_bytes (lsa_ex 0x80000001 [0, 0, 0, 19, 1, 2, 3, 4])) 26 14 = Some (ck, lsa_checksum_bytes l')"
proof -
  let ?l = "lsa_ex 0x80000001 [0, 0, 0, 19, 1, 2, 3, 4]"
  have "lsa_length_ok ?l" "unat (h_length (lsa_header ?l) - 2) = 26" by code_simp+
  with fletcher_checksum_lsa [of ?l] show ?thesis by simp
qed

end
