(* ===== verification/Lls.thy ===== *)
theory Lls
  imports Checksum
begin

text \<open>
  Link-local signaling, \<^verbatim>\<open>src/ospf6d/ospf6_lls.c\<close>: the L-bit of a packet, the header of an LLS data block and
  its validation. A data block is the list of its bytes: two bytes checksum, two bytes length in 32-bit
  words, and the TLVs. A block that \<open>ospf6_set_lls_header\<close> completes is valid.
\<close>

section \<open>Bytes in memory\<close>

text \<open>Reading a 16-bit or 32-bit number in network order; \<^term>\<open>None\<close> outside of the block.\<close>
definition get16 :: "u8 list \<Rightarrow> nat \<Rightarrow> nat option" where
  "get16 bs i = (if i + 1 < length bs then Some (256 * unat (bs ! i) + unat (bs ! (i + 1))) else None)"

definition get32 :: "u8 list \<Rightarrow> nat \<Rightarrow> u32 option" where
  "get32 bs i =
     Option.bind (get16 bs i) (\<lambda>hi. Option.bind (get16 bs (i + 2)) (\<lambda>lo. Some (of_nat (65536 * hi + lo))))"

lemma get16_append [simp]:
  "length xs \<le> i \<Longrightarrow> get16 (xs @ ys) i = get16 ys (i - length xs)"
  "i + 1 < length xs \<Longrightarrow> get16 (xs @ ys) i = get16 xs i"
  by (auto simp: get16_def nth_append Suc_diff_le)

lemma get16_be16: "get16 (be16 w @ bs) 0 = Some (unat w)"
proof -
  have "256 * unat (ucast (drop_bit 8 w) :: u8) + unat (ucast w :: u8) = unat w"
  proof -
    have "unat (ucast (drop_bit 8 w) :: u8) = unat w div 256"
      using unat_u16_less [of w] by (simp add: unat_ucast_mod drop_bit_eq_div unat_div)
    moreover have "unat (ucast w :: u8) = unat w mod 256" by (simp add: unat_ucast_mod)
    ultimately show ?thesis by simp
  qed
  then show ?thesis by (simp add: get16_def be16_def)
qed

section \<open>The L-bit\<close>

datatype ospf6_message_type = OSPF6_HELLO | OSPF6_DBDESC | OSPF6_OTHER u8

abbreviation (input) OSPF6_OPT_L :: u8 where "OSPF6_OPT_L \<equiv> 2"

text \<open>A packet by its type and the options field of its body, which only Hello and Database Description packets have.\<close>
record ospf6_packet =
  p_type :: ospf6_message_type
  p_options :: "u8 list"

definition ospf6_lls_option_isset :: "ospf6_packet \<Rightarrow> bool" where
  "ospf6_lls_option_isset oh =
     (case p_type oh of
        OSPF6_HELLO \<Rightarrow> p_options oh ! 1 AND OSPF6_OPT_L \<noteq> 0
      | OSPF6_DBDESC \<Rightarrow> p_options oh ! 1 AND OSPF6_OPT_L \<noteq> 0
      | _ \<Rightarrow> False)"

definition ospf6_lls_option_clear :: "ospf6_packet \<Rightarrow> ospf6_packet" where
  "ospf6_lls_option_clear oh =
     (let cleared = oh\<lparr>p_options := (p_options oh)[1 := p_options oh ! 1 AND NOT OSPF6_OPT_L]\<rparr> in
      case p_type oh of
        OSPF6_HELLO \<Rightarrow> cleared
      | OSPF6_DBDESC \<Rightarrow> cleared
      | _ \<Rightarrow> oh)"

section \<open>The data block\<close>

text \<open>\<^verbatim>\<open>len\<close> is the length of the block, whose first four bytes are the header.\<close>
definition ospf6_set_lls_header :: "bool \<Rightarrow> u8 list \<Rightarrow> nat \<Rightarrow> u8 list option" where
  "ospf6_set_lls_header be lls len =
     (if len mod 4 \<noteq> 0 then None
      else if \<not> len div 4 \<le> 0xffff then None
      else
        let lls = [0, 0] @ be16 (of_nat (len div 4)) @ drop 4 lls;
            cksum = in_cksum be (take len lls)
        in Some (host_bytes be (cksum mod 65536) @ drop 2 lls))"

text \<open>The walk over the TLVs, to the position after the last one; each is padded to a multiple of four bytes, and the
  walk stops at the first position that is not before the end.\<close>
function lls_walk :: "u8 list \<Rightarrow> nat \<Rightarrow> nat \<Rightarrow> nat option" where
  "lls_walk lls tlv end_pos =
     (if tlv < end_pos then
        case get16 lls (tlv + 2) of
          None \<Rightarrow> None
        | Some vallen \<Rightarrow>
            let pad = vallen mod 4;
                pad = (if pad \<noteq> 0 then 4 - pad else pad)
            in lls_walk lls (tlv + 4 + vallen + pad) end_pos
      else Some tlv)"
  by pat_completeness auto
termination
  by (relation "measure (\<lambda>(lls, tlv, end_pos). end_pos - tlv)") auto

declare lls_walk.simps [simp del]

text \<open>\<^term>\<open>Some True\<close> for a valid block; \<^term>\<open>None\<close> if memory outside of the \<^verbatim>\<open>len\<close> bytes would be read.\<close>
definition ospf6_lls_validate_datablock :: "bool \<Rightarrow> u8 list \<Rightarrow> nat \<Rightarrow> bool option" where
  "ospf6_lls_validate_datablock be lls len =
     (if len < 4 then Some False
      else
        Option.bind (get16 lls 2) (\<lambda>words.
        let datalen = 4 * words in
        if len < datalen then Some False
        else if in_cksum be (take datalen lls) \<noteq> 0 then Some False
        else Option.bind (lls_walk lls 4 datalen) (\<lambda>tlv. Some (tlv = datalen))))"

section \<open>Validation\<close>

text \<open>The walk stays at multiples of four, and so never leaves a block whose length is one.\<close>

lemma lls_walk_total:
  assumes "tlv mod 4 = 0" "end_pos mod 4 = 0" "end_pos \<le> length lls"
  shows "\<exists>p. lls_walk lls tlv end_pos = Some p"
  using assms
proof (induction lls tlv end_pos rule: lls_walk.induct)
  case (1 lls tlv end_pos)
  show ?case
  proof (cases "tlv < end_pos")
    case True
    then have "tlv + 4 \<le> end_pos" using "1.prems"(1,2) by presburger
    then obtain vallen where v: "get16 lls (tlv + 2) = Some vallen" using "1.prems"(3) by (auto simp: get16_def)
    define pad where "pad = (if vallen mod 4 \<noteq> 0 then 4 - vallen mod 4 else vallen mod 4)"
    have "(vallen + pad) mod 4 = 0" unfolding pad_def by (cases "vallen mod 4 = 0") (simp, presburger)
    then have "(tlv + 4 + vallen + pad) mod 4 = 0" using "1.prems"(1) by presburger
    from "1.IH" [OF True v refl pad_def this "1.prems"(2,3)] show ?thesis
      using True v by (subst lls_walk.simps) (simp add: pad_def Let_def)
  qed (simp add: lls_walk.simps)
qed

lemma lls_walk_cong:
  assumes "\<And>i. tlv \<le> i \<Longrightarrow> get16 lls' i = get16 lls i"
  shows "lls_walk lls' tlv end_pos = lls_walk lls tlv end_pos"
  using assms
proof (induction lls tlv end_pos rule: lls_walk.induct)
  case (1 lls tlv end_pos)
  show ?case
  proof (cases "tlv < end_pos")
    case True
    have v: "get16 lls' (tlv + 2) = get16 lls (tlv + 2)" by (rule "1.prems") simp
    show ?thesis
    proof (cases "get16 lls (tlv + 2)")
      case None
      then show ?thesis using v by (simp add: lls_walk.simps)
    next
      case (Some vallen)
      from "1.IH" [OF True Some refl refl "1.prems"] show ?thesis
        using True v Some by (subst (1 2) lls_walk.simps) (simp add: Let_def)
    qed
  qed (simp add: lls_walk.simps)
qed

text \<open>C33: Validation is safe on every input: for any bytes that were received, also with lengths that are wrong or point
  beyond the packet, \<open>ospf6_lls_validate_datablock\<close> reads only within the block and returns.\<close>
theorem ospf6_lls_validate_safe:
  assumes "len \<le> length lls"
  shows "ospf6_lls_validate_datablock be lls len \<noteq> None"
proof (cases "len < 4")
  case False
  then obtain words where g: "get16 lls 2 = Some words" using assms by (auto simp: get16_def)
  have "\<exists>p. lls_walk lls 4 (4 * words) = Some p" if "4 * words \<le> len"
    using lls_walk_total [of 4 "4 * words" lls] that assms by simp
  then show ?thesis using False g by (cases "len < 4 * words") (auto simp: ospf6_lls_validate_datablock_def Let_def)
qed (simp add: ospf6_lls_validate_datablock_def)

theorem ospf6_lls_validate_safe_witness: "ospf6_lls_validate_datablock False [255, 255, 255, 255, 0, 14, 255, 255] 8 \<noteq> None"
  by (rule ospf6_lls_validate_safe) simp

lemma host_bytes_two: "\<exists>a b. host_bytes be n = [a, b]"
  by (cases be) (simp_all add: host_bytes_def Let_def)

lemma set_lls_header_valid:
  assumes "length lls = len" "len mod 4 = 0" "4 \<le> len" "len \<le> 65536" "lls_walk lls 4 len = Some len"
  shows "\<exists>lls'. ospf6_set_lls_header be lls len = Some lls' \<and> length lls' = len \<and> drop 4 lls' = drop 4 lls \<and>
    ospf6_lls_validate_datablock be lls' len = Some True"
proof -
  let ?w = "of_nat (len div 4) :: u16"
  let ?post = "be16 ?w @ drop 4 lls"
  let ?c = "in_cksum be ([] @ [0, 0] @ ?post)"
  have c: "?c mod 65536 = ?c" by (simp add: in_cksum_def)
  obtain a b where ab: "host_bytes be ?c = [a, b]" using host_bytes_two by blast
  let ?lls = "[a, b] @ ?post"
  have "4 * (len div 4) = len" using assms(2) by presburger
  then have w: "4 * unat ?w = len" using assms(4) by (simp add: unat_of_nat)
  have set: "ospf6_set_lls_header be lls len = Some ?lls"
    using assms(1-4) ab c by (simp add: ospf6_set_lls_header_def Let_def)
  have "get16 ?lls 2 = get16 ?post (2 - length [a, b])" by (rule get16_append(1)) simp
  also have "\<dots> = Some (unat ?w)" using get16_be16 [of ?w "drop 4 lls"] by simp
  finally have g2: "get16 ?lls 2 = Some (unat ?w)" .
  have sum: "in_cksum_sum be ([] @ [0, 0] @ ?post) \<noteq> 0"
  proof
    assume "in_cksum_sum be ([] @ [0, 0] @ ?post) = 0"
    then have "unat (ucast (drop_bit 8 ?w) :: u8) = 0" "unat (ucast ?w :: u8) = 0"
      by (auto simp: be16_def host_short_def split: if_splits)
    then have "get16 (be16 ?w @ []) 0 = Some 0" by (simp add: be16_def get16_def)
    then show False using get16_be16 [of ?w "[]"] w assms(3) by simp
  qed
  have "in_cksum be ([] @ [a, b] @ ?post) = 0"
    by (rule in_cksum_filled [OF _ ab _ sum]) (use assms in simp_all)
  moreover have "lls_walk ?lls 4 len = lls_walk lls 4 len"
  proof (rule lls_walk_cong)
    fix i :: nat assume i: "4 \<le> i"
    have "get16 lls i = get16 (take 4 lls @ drop 4 lls) i" by simp
    also have "\<dots> = get16 (drop 4 lls) (i - 4)" using i assms(1,3) by (subst get16_append(1)) simp_all
    also have "\<dots> = get16 ?lls i" using i get16_append(1) [of "[a, b] @ be16 ?w" i "drop 4 lls"] by simp
    finally show "get16 ?lls i = get16 lls i" by simp
  qed
  ultimately have "ospf6_lls_validate_datablock be ?lls len = Some True"
    using g2 w assms(1,3,5) unfolding ospf6_lls_validate_datablock_def by (simp add: Let_def)
  then show ?thesis using set assms(1,3) by simp
qed

text \<open>C32: A data block that \<open>ospf6_set_lls_header\<close> completes is valid, on hosts of either byte order, when the lengths of
  its TLVs add up; the TLVs themselves are not changed.\<close>
theorem ospf6_set_lls_header_valid:
  assumes "length lls = len" "len mod 4 = 0" "4 \<le> len" "len \<le> 65536" "lls_walk lls 4 len = Some len"
  shows "\<exists>lls'. ospf6_set_lls_header be lls len = Some lls' \<and> length lls' = len \<and> drop 4 lls' = drop 4 lls \<and>
    ospf6_lls_validate_datablock be lls' len = Some True"
  using assms by (rule set_lls_header_valid)

theorem ospf6_set_lls_header_valid_witness:
  "\<exists>lls'. ospf6_set_lls_header False [0, 0, 0, 0, 0, 15, 0, 4, 1, 2, 3, 4] 12 = Some lls' \<and>
    ospf6_lls_validate_datablock False lls' 12 = Some True"
proof -
  let ?lls = "[0, 0, 0, 0, 0, 15, 0, 4, 1, 2, 3, 4] :: u8 list"
  have "lls_walk ?lls 4 12 = Some 12" by (simp add: lls_walk.simps get16_def)
  with ospf6_set_lls_header_valid [of ?lls 12 False] show ?thesis by auto
qed

end
