(* ===== verification/Mdr_Hello.thy ===== *)
theory Mdr_Hello
  imports Lls Neighbor
begin

text \<open>
  The Hello messages of MDR interfaces, \<^verbatim>\<open>src/ospf6d/ospf6_mdr_message.c\<close>: the five neighbor lists of a full and of a
  differential Hello, the Hello TLV and the Database Description TLV of its LLS data block, and the sending and
  receiving of a Hello. The fields of a packet are kept by the number they denote and the router IDs that follow
  the Hello as a list; the LLS data block is a list of bytes.
\<close>

unbundle bit_operations_syntax

section \<open>Types\<close>

text \<open>The static variables with the TLV types.\<close>
record mdr_tlv_types =
  tlv_type_hello :: u16
  tlv_type_dd :: u16

definition ospf6_mdr_tlv_set_interoperability :: "bool \<Rightarrow> ospf6 \<Rightarrow> mdr_tlv_types \<times> ospf6" where
  "ospf6_mdr_tlv_set_interoperability val o6 =
     ((if val then \<lparr>tlv_type_hello = 14, tlv_type_dd = 15\<rparr> else \<lparr>tlv_type_hello = 0x11, tlv_type_dd = 0x12\<rparr>),
      o6\<lparr>o_mdr_tlv_interop := val\<rparr>)"

record ospf6_hello =
  hl_interface_id :: u32
  hl_priority :: u8
  hl_options :: "u8 list"
  hl_hello_interval :: u16
  hl_dead_interval :: u16
  hl_drouter :: rid
  hl_bdrouter :: rid

text \<open>A Hello packet: the router ID and the length of the packet header, the Hello, the router IDs behind it, and the LLS data
  block behind the packet.\<close>
record hello_packet =
  hp_router_id :: rid
  hp_length :: u16
  hp_hello :: ospf6_hello
  hp_rids :: "rid list"
  hp_lls :: "u8 list option"

text \<open>What the code reads besides the state: the environment of the neighbor events, the byte order of the host, the TLV types,
  the options of the area, the next pseudo-random number, and the error results of the registered operations.\<close>
record hello_env =
  he_nbr :: nbr_env
  he_big_endian :: bool
  he_tlv_types :: mdr_tlv_types
  he_area_options :: "u8 list"
  he_random :: u32
  he_hook_err :: "rid \<Rightarrow> bool"

abbreviation he_router_id :: "hello_env \<Rightarrow> rid" where
  "he_router_id env \<equiv> o_router_id (ne_ospf6 (he_nbr env))"

section \<open>The neighbor lists of a received Hello\<close>

fun ospf6_is_rtrid_in_list :: "rid \<Rightarrow> rid list \<Rightarrow> bool" where
  "ospf6_is_rtrid_in_list me [] = False"
| "ospf6_is_rtrid_in_list me (router_id # rids) = (if router_id = me then True else ospf6_is_rtrid_in_list me rids)"

text \<open>Deletion and addition on the lists of a neighbor, as the loops do them.\<close>
definition del_rid :: "rid \<Rightarrow> rid list \<Rightarrow> rid list" where
  "del_rid r n_list = snd (ospf6_mdr_delete_neighbor n_list r)"

definition add_rid :: "rid \<Rightarrow> rid list \<Rightarrow> rid list" where
  "add_rid r n_list = (if \<not> ospf6_mdr_lookup_neighbor n_list r then ospf6_mdr_add_neighbor n_list r else n_list)"

text \<open>The state of the loops: \<^verbatim>\<open>twoway\<close>, \<^verbatim>\<open>found\<close> and the neighbor.\<close>
type_synonym diff_state = "bool \<times> bool \<times> ospf6_mdr_neighbor"

definition diff_found :: "rid \<Rightarrow> rid \<Rightarrow> bool \<Rightarrow> bool \<Rightarrow> diff_state \<Rightarrow> diff_state" where
  "diff_found me r is_2way reverse_2way = (\<lambda>(tw, found, m).
     if r = me then (is_2way, True, m\<lparr>nm_reverse_2way := reverse_2way\<rparr>) else (tw, found, m))"

definition diff_lnl :: "rid \<Rightarrow> rid \<Rightarrow> diff_state \<Rightarrow> diff_state" where
  "diff_lnl me r s =
     (let (tw, found, m) = diff_found me r False False s
      in (tw, found, m\<lparr>nm_rnl := del_rid r (nm_rnl m), nm_dnl := del_rid r (nm_dnl m), nm_sanl := del_rid r (nm_sanl m)\<rparr>))"

definition diff_hnl :: "rid \<Rightarrow> rid \<Rightarrow> diff_state \<Rightarrow> diff_state" where
  "diff_hnl me r s =
     (let (tw, found, m) = diff_found me r True False s
      in (tw, found, m\<lparr>nm_rnl := del_rid r (nm_rnl m), nm_dnl := del_rid r (nm_dnl m), nm_sanl := del_rid r (nm_sanl m)\<rparr>))"

definition diff_dnl :: "rid \<Rightarrow> rid \<Rightarrow> diff_state \<Rightarrow> diff_state" where
  "diff_dnl me r s =
     (let (tw, found, m) = diff_found me r True True s
      in (tw, found, m\<lparr>nm_dnl := add_rid r (nm_dnl m), nm_rnl := add_rid r (nm_rnl m), nm_sanl := del_rid r (nm_sanl m)\<rparr>))"

definition diff_sanl :: "rid \<Rightarrow> rid \<Rightarrow> diff_state \<Rightarrow> diff_state" where
  "diff_sanl me r s =
     (let (tw, found, m) = diff_found me r True True s
      in (tw, found, m\<lparr>nm_sanl := add_rid r (nm_sanl m), nm_rnl := add_rid r (nm_rnl m), nm_dnl := del_rid r (nm_dnl m)\<rparr>))"

definition diff_rnl :: "rid \<Rightarrow> rid \<Rightarrow> diff_state \<Rightarrow> diff_state" where
  "diff_rnl me r s =
     (let (tw, found, m) = diff_found me r True True s
      in (tw, found, m\<lparr>nm_rnl := add_rid r (nm_rnl m), nm_dnl := del_rid r (nm_dnl m), nm_sanl := del_rid r (nm_sanl m)\<rparr>))"

text \<open>A differential Hello changes the lists only for the routers that it names.\<close>
definition process_diff_lists ::
    "rid \<Rightarrow> nbr_state \<Rightarrow> bool \<Rightarrow> rid list \<times> rid list \<times> rid list \<times> rid list \<times> rid list \<Rightarrow> ospf6_mdr_neighbor \<Rightarrow>
     bool \<times> ospf6_mdr_neighbor" where
  "process_diff_lists me state insufficienthellosreceived = (\<lambda>(lnl, hnl, dnl, sanl, rnl) m.
     let s = (False, False, m);
         s = fold (diff_lnl me) lnl s;
         s = fold (diff_hnl me) hnl s;
         s = fold (diff_dnl me) dnl s;
         s = fold (diff_sanl me) sanl s;
         (is_2way, found, m) = fold (diff_rnl me) rnl s;
         is_2way = (if \<not> found \<and> state \<ge> OSPF6_NEIGHBOR_TWOWAY \<and> \<not> insufficienthellosreceived then True else is_2way)
     in (is_2way, m))"

text \<open>A full Hello replaces the lists.\<close>
definition full_dnl :: "rid \<Rightarrow> ospf6_mdr_neighbor \<Rightarrow> ospf6_mdr_neighbor" where
  "full_dnl r m = m\<lparr>nm_dnl := add_rid r (nm_dnl m), nm_rnl := add_rid r (nm_rnl m)\<rparr>"

definition full_sanl :: "rid \<Rightarrow> ospf6_mdr_neighbor \<Rightarrow> ospf6_mdr_neighbor" where
  "full_sanl r m = m\<lparr>nm_sanl := add_rid r (nm_sanl m), nm_rnl := add_rid r (nm_rnl m)\<rparr>"

definition full_rnl :: "rid \<Rightarrow> ospf6_mdr_neighbor \<Rightarrow> ospf6_mdr_neighbor" where
  "full_rnl r m = m\<lparr>nm_rnl := add_rid r (nm_rnl m)\<rparr>"

definition process_full_lists ::
    "rid \<Rightarrow> rid list \<times> rid list \<times> rid list \<times> rid list \<times> rid list \<Rightarrow> ospf6_mdr_neighbor \<Rightarrow> bool \<times> ospf6_mdr_neighbor" where
  "process_full_lists me = (\<lambda>(lnl, hnl, dnl, sanl, rnl) m.
     let m = m\<lparr>nm_Report2Hop := True\<rparr>;
         (is_2way, m) =
           (if ospf6_is_rtrid_in_list me hnl then (True, m\<lparr>nm_reverse_2way := False\<rparr>)
            else if ospf6_is_rtrid_in_list me dnl \<or> ospf6_is_rtrid_in_list me sanl \<or> ospf6_is_rtrid_in_list me rnl
            then (True, m\<lparr>nm_reverse_2way := True\<rparr>)
            else (False, m\<lparr>nm_reverse_2way := False\<rparr>));
         m = m\<lparr>nm_rnl := ospf6_mdr_delete_all_neighbors (nm_rnl m), nm_dnl := ospf6_mdr_delete_all_neighbors (nm_dnl m),
               nm_sanl := ospf6_mdr_delete_all_neighbors (nm_sanl m)\<rparr>;
         m = fold full_dnl dnl m;
         m = fold full_sanl sanl m;
         m = fold full_rnl rnl m
     in (is_2way, m))"

text \<open>The lists stand one after the other behind \<^verbatim>\<open>rid\<close>.\<close>
definition split_lists ::
    "rid list \<Rightarrow> nat \<Rightarrow> nat \<Rightarrow> nat \<Rightarrow> nat \<Rightarrow> nat \<Rightarrow> rid list \<times> rid list \<times> rid list \<times> rid list \<times> rid list" where
  "split_lists rid num_lnl num_hnl num_dnl num_sanl num_rnl =
     (let lnl = rid;
          hnl = drop num_lnl lnl;
          dnl = drop num_hnl hnl;
          sanl = drop num_dnl dnl;
          rnl = drop num_sanl sanl
      in (take num_lnl lnl, take num_hnl hnl, take num_dnl dnl, take num_sanl sanl, take num_rnl rnl))"

definition ospf6_mdr_process_neighbor_lists ::
    "rid \<Rightarrow> u16 \<Rightarrow> nbr_state \<Rightarrow> rid list \<Rightarrow> nat \<Rightarrow> nat \<Rightarrow> nat \<Rightarrow> nat \<Rightarrow> nat \<Rightarrow> bool \<Rightarrow> u16 \<Rightarrow>
     ospf6_mdr_neighbor \<Rightarrow> bool \<times> ospf6_mdr_neighbor" where
  "ospf6_mdr_process_neighbor_lists me HelloRepeatCount state rid num_lnl num_hnl num_dnl num_sanl num_rnl diff hsn m =
     (let ls = split_lists rid num_lnl num_hnl num_dnl num_sanl num_rnl;
          prev_seq = nm_hsn m;
          m = m\<lparr>nm_hsn := hsn\<rparr>;
          m = m\<lparr>nm_consec_hellos := (if uint hsn = (uint prev_seq + 1) mod 65536 then nm_consec_hellos m + 1 else 1)\<rparr> in
      if diff then
        let insufficienthellosreceived =
              (state > OSPF6_NEIGHBOR_DOWN \<and> uint (nm_hsn m) > uint prev_seq + uint HelloRepeatCount)
        in process_diff_lists me state insufficienthellosreceived ls m
      else process_full_lists me ls m)"

section \<open>The Hello TLV\<close>

record ospf6_mdr_hello_tlv =
  ht_hsn :: u16
  ht_bits :: "u8 list"
  ht_n1 :: u8
  ht_n2 :: u8
  ht_n3 :: u8
  ht_n4 :: u8

abbreviation (input) OSPF6_MDR_OPT_A :: u8 where "OSPF6_MDR_OPT_A \<equiv> 2"
abbreviation (input) OSPF6_MDR_OPT_D :: u8 where "OSPF6_MDR_OPT_D \<equiv> 1"

definition hello_tlv_bytes :: "ospf6_mdr_hello_tlv \<Rightarrow> u8 list" where
  "hello_tlv_bytes t = be16 (ht_hsn t) @ ht_bits t @ [ht_n1 t, ht_n2 t, ht_n3 t, ht_n4 t]"

text \<open>The loop over the TLVs of a block, for the TLV of a type and a length: its position, if there is one. The assertions that there is at
  most one and that it has the right length fail with \<^term>\<open>None\<close>, as does a read outside of the block.\<close>
function mdr_tlv_loop :: "u16 \<Rightarrow> nat \<Rightarrow> u8 list \<Rightarrow> nat \<Rightarrow> int \<Rightarrow> nat option \<Rightarrow> nat option option" where
  "mdr_tlv_loop tlv_type value_size lls tlv length_lls result =
     (if length_lls > 4 then
        case (get16 lls tlv, get16 lls (tlv + 2)) of
          (Some type, Some vallen) \<Rightarrow>
            let tlvlen = 4 + vallen in
            if int tlvlen > length_lls then Some result
            else if type = unat tlv_type then
              if result \<noteq> None then None
              else if vallen \<noteq> value_size then None
              else mdr_tlv_loop tlv_type value_size lls (tlv + tlvlen) (length_lls - int tlvlen) (Some (tlv + 4))
            else mdr_tlv_loop tlv_type value_size lls (tlv + tlvlen) (length_lls - int tlvlen) result
        | _ \<Rightarrow> None
      else Some result)"
  by pat_completeness auto
termination
  by (relation "measure (\<lambda>(tlv_type, value_size, lls, tlv, length_lls, result). nat length_lls)") auto

declare mdr_tlv_loop.simps [simp del]

text \<open>The loop starts behind the LLS header.\<close>
definition mdr_find_tlv :: "u16 \<Rightarrow> nat \<Rightarrow> u8 list \<Rightarrow> nat option option" where
  "mdr_find_tlv tlv_type value_size lls =
     Option.bind (get16 lls 2) (\<lambda>datalen. mdr_tlv_loop tlv_type value_size lls 4 (int datalen * 4 - 4) None)"

text \<open>The result for the caller: sequence number, differential, and the numbers of the four first lists.\<close>
type_synonym hello_numbers = "u16 \<times> bool \<times> nat \<times> nat \<times> nat \<times> nat"

text \<open>The inner \<^term>\<open>None\<close> is the error that there is no Hello TLV.\<close>
definition ospf6_mdr_process_hello_tlv ::
    "mdr_tlv_types \<Rightarrow> u8 list \<Rightarrow> ospf6_mdr_neighbor \<Rightarrow> (hello_numbers option \<times> ospf6_mdr_neighbor) option" where
  "ospf6_mdr_process_hello_tlv types lls m =
     Option.bind (mdr_find_tlv (tlv_type_hello types) 8 lls) (\<lambda>result.
     case result of
       None \<Rightarrow> Some (None, m)
     | Some p \<Rightarrow>
         if length lls < p + 8 then None
         else Option.bind (get16 lls p) (\<lambda>hsn.
         Some (Some (of_nat hsn, lls ! (p + 2) AND OSPF6_MDR_OPT_D \<noteq> 0,
                     unat (lls ! (p + 4)), unat (lls ! (p + 5)), unat (lls ! (p + 6)), unat (lls ! (p + 7))),
               m\<lparr>nm_Abit := (lls ! (p + 2) AND OSPF6_MDR_OPT_A \<noteq> 0)\<rparr>)))"

text \<open>The sequence number of the interface is incremented after its use. The counts are stored in single bytes.\<close>
definition ospf6_mdr_append_hello_tlv ::
    "mdr_tlv_types \<Rightarrow> nat \<Rightarrow> nat \<Rightarrow> nat \<Rightarrow> nat \<Rightarrow> bool \<Rightarrow> ospf6_mdr_interface \<Rightarrow> u8 list \<times> ospf6_mdr_interface" where
  "ospf6_mdr_append_hello_tlv types n1 n2 n3 n4 diff m =
     (let bits = (if im_AdjConnectivity m = OSPF6_ADJ_FULLYCONNECTED then OSPF6_MDR_OPT_A else 0);
          bits = (if diff then bits OR OSPF6_MDR_OPT_D else bits);
          hello_tlv = \<lparr>ht_hsn = im_hsn m, ht_bits = [bits, 0], ht_n1 = of_nat n1, ht_n2 = of_nat n2,
                       ht_n3 = of_nat n3, ht_n4 = of_nat n4\<rparr>
      in (be16 (tlv_type_hello types) @ be16 8 @ hello_tlv_bytes hello_tlv, m\<lparr>im_hsn := im_hsn m + 1\<rparr>))"

section \<open>The Database Description TLV\<close>

text \<open>The MDR and backup MDR of the sender, as in its Hello.\<close>
definition mdr_drouter :: "rid \<Rightarrow> ospf6_mdr_interface \<Rightarrow> rid" where
  "mdr_drouter me m =
     (if im_mdr_level m = OSPF6_MDR then me
      else case im_parent m of Some r \<Rightarrow> r | None \<Rightarrow> 0)"

definition mdr_bdrouter :: "rid \<Rightarrow> ospf6_mdr_interface \<Rightarrow> rid" where
  "mdr_bdrouter me m =
     (if im_mdr_level m = OSPF6_BMDR then me
      else case im_bparent m of Some r \<Rightarrow> r | None \<Rightarrow> 0)"

definition ospf6_mdr_append_dd_tlv :: "mdr_tlv_types \<Rightarrow> rid \<Rightarrow> ospf6_mdr_interface \<Rightarrow> u8 list" where
  "ospf6_mdr_append_dd_tlv types me m =
     be16 (tlv_type_dd types) @ be16 8 @ be32 (mdr_drouter me m) @ be32 (mdr_bdrouter me m)"

definition ospf6_mdr_process_dd_tlv ::
    "ospf6 \<Rightarrow> mdr_tlv_types \<Rightarrow> u8 list \<Rightarrow> ospf6_neighbor \<Rightarrow> (bool \<times> ospf6_neighbor) option" where
  "ospf6_mdr_process_dd_tlv o6 types lls on =
     Option.bind (mdr_find_tlv (tlv_type_dd types) 8 lls) (\<lambda>result.
     case result of
       None \<Rightarrow> Some (False, on)
     | Some p \<Rightarrow>
         Option.bind (get32 lls p) (\<lambda>drouter. Option.bind (get32 lls (p + 4)) (\<lambda>bdrouter.
         let (changed, on) = ospf6_mdr_set_mdr_level o6 drouter bdrouter on;
             on = (if nm_mdr_level (on_mdr on) = OSPF6_MDR \<or> nm_mdr_level (on_mdr on) = OSPF6_BMDR
                   then on_mdr_update (nm_dependent_selector_update (\<lambda>_. True)) on else on)
         in Some (changed, on))))"

section \<open>Receiving\<close>

text \<open>The number of the fifth list, computed as \<^verbatim>\<open>size_t\<close> and converted to \<^verbatim>\<open>int\<close>.\<close>
definition hello_num_rnl :: "u16 \<Rightarrow> nat \<Rightarrow> nat \<Rightarrow> nat \<Rightarrow> nat \<Rightarrow> int" where
  "hello_num_rnl len n1 n2 n3 n4 =
     sint (ucast ((ucast len - 16 - 20) div 4 - of_nat n1 - of_nat n2 - of_nat n3 - of_nat n4 :: 64 word) :: u32)"

text \<open>The part after the checks: the neighbor is updated from the packet, and the events are executed.\<close>
definition mdr_hello_update ::
    "hello_env \<Rightarrow> hello_packet \<Rightarrow> hello_numbers \<Rightarrow> nat \<Rightarrow> u16 \<Rightarrow> ospf6_neighbor \<Rightarrow> bool \<times> ospf6_neighbor" where
  "mdr_hello_update env pkt = (\<lambda>(hsn, diff, n1, n2, n3, n4) n5 HelloRepeatCount on.
     let hello = hp_hello pkt;
         (is_2way, m) = ospf6_mdr_process_neighbor_lists (he_router_id env) HelloRepeatCount (on_state on)
                         (hp_rids pkt) n1 n2 n3 n4 n5 diff hsn (on_mdr on);
         m = m\<lparr>nm_dependent_selector := ospf6_mdr_lookup_neighbor (nm_dnl m) (he_router_id env)\<rparr>;
         on = on\<lparr>on_mdr := m, on_priority := hl_priority hello, on_drouter := hl_drouter hello, on_bdrouter := hl_bdrouter hello\<rparr>;
         (changed, on) = ospf6_mdr_set_mdr_level (ne_ospf6 (he_nbr env)) (on_drouter on) (on_bdrouter on) on
     in (is_2way, on))"

definition mdr_hello_events :: "nbr_env \<Rightarrow> bool \<Rightarrow> nat \<Rightarrow> world \<Rightarrow> world option" where
  "mdr_hello_events env is_2way j w =
     Option.bind (hello_received env j w) (\<lambda>w.
     Option.bind (if is_2way then twoway_received env j w else oneway_received env j w) (\<lambda>w.
     if on_state (w_nbr w j) = OSPF6_NEIGHBOR_TWOWAY \<and> need_adjacency (w_oi w) (w_nbr w j)
     then ospf6_neighbor_exstart env j w else Some w))"

definition ospf6_mdr_hello_recv :: "hello_env \<Rightarrow> nat \<Rightarrow> hello_packet \<Rightarrow> world \<Rightarrow> world option" where
  "ospf6_mdr_hello_recv env j pkt w =
     (if hl_options (hp_hello pkt) ! 1 AND OSPF6_OPT_L = 0 then Some w
      else case hp_lls pkt of
        None \<Rightarrow> None
      | Some lls \<Rightarrow>
          Option.bind (ospf6_mdr_process_hello_tlv (he_tlv_types env) lls (on_mdr (w_nbr w j))) (\<lambda>(numbers, m).
          let w = w_nbr_update j (on_mdr_update (\<lambda>_. m)) w in
          case numbers of
            None \<Rightarrow> Some w
          | Some (hsn, diff, n1, n2, n3, n4) \<Rightarrow>
              let n5 = hello_num_rnl (hp_length pkt) n1 n2 n3 n4 in
              if n5 < 0 then Some w
              else
                let (is_2way, on) = mdr_hello_update env pkt (hsn, diff, n1, n2, n3, n4) (nat n5)
                      (im_HelloRepeatCount (oi_mdr (w_oi w))) (w_nbr w j)
                in mdr_hello_events (he_nbr env) is_2way j (w_nbr_update j (\<lambda>_. on) w)))"

section \<open>Sending\<close>

definition ospf6_mdr_hello_list_type :: "ospf6_neighbor \<Rightarrow> int" where
  "ospf6_mdr_hello_list_type on =
     (if on_state on = OSPF6_NEIGHBOR_DOWN then 1
      else if on_state on = OSPF6_NEIGHBOR_INIT then 2
      else if nm_dependent (on_mdr on) then 3
      else if nm_sel_adv (on_mdr on) then 4
      else 5)"

text \<open>One neighbor: its new list type, and whether it is in the Hello.\<close>
definition hello_list_nbr :: "u16 \<Rightarrow> u16 \<Rightarrow> bool \<Rightarrow> ospf6_neighbor \<Rightarrow> bool \<times> ospf6_neighbor" where
  "hello_list_nbr hsn HelloRepeatCount diff on =
     (let new_list_type = ospf6_mdr_hello_list_type on;
          m = on_mdr on;
          m = (if new_list_type \<noteq> nm_list_type m then m\<lparr>nm_changed_hsn := hsn\<rparr> else m);
          m = m\<lparr>nm_list_type := new_list_type\<rparr>;
          skip = (diff \<and> uint hsn \<ge> uint (nm_changed_hsn m) + uint HelloRepeatCount \<and>
                  \<not> (on_state on \<ge> OSPF6_NEIGHBOR_TWOWAY \<and> \<not> nm_reverse_2way m))
      in (\<not> skip, on\<lparr>on_mdr := m\<rparr>))"

text \<open>The lists under construction: HNL, DNL, SANL and RNL.\<close>
definition hello_list_add :: "int \<Rightarrow> rid \<Rightarrow> rid list \<times> rid list \<times> rid list \<times> rid list \<Rightarrow> rid list \<times> rid list \<times> rid list \<times> rid list" where
  "hello_list_add list_type r = (\<lambda>(hnl, dnl, sanl, rnl).
     (if list_type = 2 then hnl @ [r] else hnl, if list_type = 3 then dnl @ [r] else dnl,
      if list_type = 4 then sanl @ [r] else sanl, if list_type = 5 then rnl @ [r] else rnl))"

fun hello_lists_loop ::
    "u16 \<Rightarrow> u16 \<Rightarrow> bool \<Rightarrow> ospf6_neighbor list \<Rightarrow> rid list \<times> rid list \<times> rid list \<times> rid list \<Rightarrow>
     ospf6_neighbor list \<times> rid list \<times> rid list \<times> rid list \<times> rid list" where
  "hello_lists_loop hsn HelloRepeatCount diff [] acc = ([], acc)"
| "hello_lists_loop hsn HelloRepeatCount diff (on # ons) acc =
     (let (included, on) = hello_list_nbr hsn HelloRepeatCount diff on;
          acc = (if included then hello_list_add (nm_list_type (on_mdr on)) (on_router_id on) acc else acc);
          (ons, acc) = hello_lists_loop hsn HelloRepeatCount diff ons acc
      in (on # ons, acc))"

text \<open>The lost neighbors: those reported often enough are forgotten.\<close>
fun hello_lnl_loop :: "u16 \<Rightarrow> u16 \<Rightarrow> ospf6_lnl_element list \<Rightarrow> ospf6_lnl_element list \<times> rid list" where
  "hello_lnl_loop hsn HelloRepeatCount [] = ([], [])"
| "hello_lnl_loop hsn HelloRepeatCount (e # es) =
     (let (rest, lnl) = hello_lnl_loop hsn HelloRepeatCount es
      in if uint (lnl_hsn e) + uint HelloRepeatCount \<le> uint hsn then (rest, lnl) else (e # rest, lnl_id e # lnl))"

definition ospf6_mdr_create_neighbor_lists ::
    "bool \<Rightarrow> ospf6_interface \<Rightarrow> (rid list \<times> rid list \<times> rid list \<times> rid list \<times> rid list) \<times> ospf6_interface" where
  "ospf6_mdr_create_neighbor_lists diff oi =
     (let m = oi_mdr oi;
          (ons, hnl, dnl, sanl, rnl) =
            hello_lists_loop (im_hsn m) (im_HelloRepeatCount m) diff (oi_neighbor_list oi) ([], [], [], []);
          (elements, lnl) = (if diff then hello_lnl_loop (im_hsn m) (im_HelloRepeatCount m) (im_lnl m) else (im_lnl m, []))
      in ((lnl, hnl, dnl, sanl, rnl), oi\<lparr>oi_neighbor_list := ons, oi_mdr := m\<lparr>im_lnl := elements\<rparr>\<rparr>))"

text \<open>\<^verbatim>\<open>OSPF6_HELLO_INTERVAL_JITTER_MSEC\<close> is 100; the delay is an \<^verbatim>\<open>unsigned int\<close>.\<close>
definition ospf6_schedule_hello :: "u32 \<Rightarrow> ospf6_interface \<Rightarrow> ospf6_interface" where
  "ospf6_schedule_hello random oi =
     (let msec = 1000 * ucast (oi_hello_interval oi) - 50 + random :: u32
      in oi\<lparr>oi_thread_send_hello := Some (uint msec)\<rparr>)"

text \<open>The packet that is sent, and the state after it.\<close>
definition ospf6_mdr_hello_send :: "hello_env \<Rightarrow> world \<Rightarrow> (hello_packet \<times> world) option" where
  "ospf6_mdr_hello_send env w =
     Option.bind (ospf6_calculate_mdr (ne_now (he_nbr env)) (ne_ospf6 (he_nbr env)) (w_oi w)) (\<lambda>oi.
     Option.bind (ospf6_update_adjacencies (he_nbr env) (w\<lparr>w_oi := oi\<rparr>)) (\<lambda>w.
     let w = w_update_lsa (he_nbr env) w;
         oi = w_oi w;
         hello = \<lparr>hl_interface_id = oi_ifindex oi, hl_priority = oi_priority oi, hl_options = take 3 (he_area_options env),
                  hl_hello_interval = oi_hello_interval oi, hl_dead_interval = oi_dead_interval oi,
                  hl_drouter = mdr_drouter (he_router_id env) (oi_mdr oi),
                  hl_bdrouter = mdr_bdrouter (he_router_id env) (oi_mdr oi)\<rparr>;
         (diff, count) = (if im_full_hello_count (oi_mdr oi) > 1 then (True, im_full_hello_count (oi_mdr oi) - 1)
                          else (False, ucast (im_TwoHopRefresh (oi_mdr oi))));
         oi = oi\<lparr>oi_mdr := (oi_mdr oi)\<lparr>im_full_hello_count := count\<rparr>\<rparr>;
         ((lnl, hnl, dnl, sanl, rnl), oi) = ospf6_mdr_create_neighbor_lists diff oi;
         rids = lnl @ hnl @ dnl @ sanl @ rnl;
         hello = hello\<lparr>hl_options := (hl_options hello)[1 := hl_options hello ! 1 OR OSPF6_OPT_L]\<rparr>;
         (tlv, m) = ospf6_mdr_append_hello_tlv (he_tlv_types env) (length lnl) (length hnl) (length dnl) (length sanl) diff (oi_mdr oi);
         oi = oi\<lparr>oi_mdr := m\<rparr>
     in Option.bind (ospf6_set_lls_header (he_big_endian env) ([0, 0, 0, 0] @ tlv) 16) (\<lambda>lls.
        Some (\<lparr>hp_router_id = he_router_id env, hp_length = of_nat (36 + 4 * length rids), hp_hello = hello,
               hp_rids = rids, hp_lls = Some lls\<rparr>,
              w\<lparr>w_oi := ospf6_schedule_hello (he_random env) oi\<rparr>))))"

end
