(* ===== verification/Mdr_Hello_Lists.thy ===== *)
theory Mdr_Hello_Lists
  imports Mdr_Hello
begin

text \<open>
  The neighbor lists of MDR Hellos, at the receiver and at the sender. The lists that a receiver keeps for a neighbor put every
  router ID in a class; a Hello changes the class of the IDs that it names. A sender puts each of its neighbors in a
  class by its list type. So the lists after a differential Hello are those after a full Hello of the same sender.
\<close>

section \<open>At the receiver\<close>

text \<open>The class of a router ID: whether it is in the RNL, the DNL and the SANL.\<close>
type_synonym rid_class = "bool \<times> bool \<times> bool"

definition rid_class :: "ospf6_mdr_neighbor \<Rightarrow> rid \<Rightarrow> rid_class" where
  "rid_class m r = (r \<in> set (nm_rnl m), r \<in> set (nm_dnl m), r \<in> set (nm_sanl m))"

lemma del_rid_eq: "del_rid r l = filter (\<lambda>x. x \<noteq> r) l"
  by (simp add: del_rid_def ospf6_mdr_delete_neighbor_eq)

lemma set_del_rid [simp]: "set (del_rid r l) = set l - {r}"
  by (auto simp: del_rid_eq)

lemma set_add_rid [simp]: "set (add_rid r l) = insert r (set l)"
  by (auto simp: add_rid_def ospf6_mdr_add_neighbor_def)

lemma distinct_add_rid [simp]: "distinct (add_rid r l) = distinct l"
  by (auto simp: add_rid_def ospf6_mdr_add_neighbor_def)

lemma ospf6_is_rtrid_in_list_iff [simp]: "ospf6_is_rtrid_in_list me rids \<longleftrightarrow> me \<in> set rids"
  by (induction rids) auto

text \<open>A loop whose step gives its router ID a class and leaves the others.\<close>

lemma fold_class:
  assumes "\<And>x s. c (f x s) = (\<lambda>r. if r = x then k else c s r)"
  shows "c (fold f xs s) = (\<lambda>r. if r \<in> set xs then k else c s r)"
  by (induction xs arbitrary: s) (auto simp: assms fun_eq_iff)

abbreviation diff_class :: "diff_state \<Rightarrow> rid \<Rightarrow> rid_class" where
  "diff_class s \<equiv> rid_class (snd (snd s))"

lemma diff_found_class [simp]: "diff_class (diff_found me r t b s) = diff_class s"
  by (auto simp: diff_found_def rid_class_def fun_eq_iff split: prod.split)

lemma diff_step_class:
  "diff_class (diff_lnl me x s) = (\<lambda>r. if r = x then (False, False, False) else diff_class s r)"
  "diff_class (diff_hnl me x s) = (\<lambda>r. if r = x then (False, False, False) else diff_class s r)"
  "diff_class (diff_dnl me x s) = (\<lambda>r. if r = x then (True, True, False) else diff_class s r)"
  "diff_class (diff_sanl me x s) = (\<lambda>r. if r = x then (True, False, True) else diff_class s r)"
  "diff_class (diff_rnl me x s) = (\<lambda>r. if r = x then (True, False, False) else diff_class s r)"
  by (cases s; auto simp: diff_lnl_def diff_hnl_def diff_dnl_def diff_sanl_def diff_rnl_def diff_found_def rid_class_def fun_eq_iff)+

text \<open>The class that the lists of a Hello give: the last list that has the router ID decides.\<close>
definition lists_class :: "rid list \<times> rid list \<times> rid list \<times> rid list \<times> rid list \<Rightarrow> rid \<Rightarrow> rid_class option" where
  "lists_class = (\<lambda>(lnl, hnl, dnl, sanl, rnl) r.
     if r \<in> set rnl then Some (True, False, False)
     else if r \<in> set sanl then Some (True, False, True)
     else if r \<in> set dnl then Some (True, True, False)
     else if r \<in> set hnl \<or> r \<in> set lnl then Some (False, False, False)
     else None)"

lemma process_diff_lists_class:
  "rid_class (snd (process_diff_lists me state insufficient ls m)) r =
     (case lists_class ls r of Some c \<Rightarrow> c | None \<Rightarrow> rid_class m r)"
proof -
  obtain lnl hnl dnl sanl rnl where ls: "ls = (lnl, hnl, dnl, sanl, rnl)" by (cases ls)
  let ?s = "fold (diff_rnl me) rnl (fold (diff_sanl me) sanl (fold (diff_dnl me) dnl
      (fold (diff_hnl me) hnl (fold (diff_lnl me) lnl (False, False, m)))))"
  note f = diff_step_class [THEN fold_class [where c = diff_class]]
  have "diff_class ?s r = (case lists_class ls r of Some c \<Rightarrow> c | None \<Rightarrow> rid_class m r)"
    by (simp add: f ls lists_class_def)
  moreover have "snd (process_diff_lists me state insufficient ls m) = snd (snd ?s)"
    by (simp add: process_diff_lists_def ls Let_def case_prod_beta)
  ultimately show ?thesis by simp
qed

lemma full_loops:
  "nm_dnl (fold full_dnl xs m) = fold add_rid xs (nm_dnl m)" "nm_rnl (fold full_dnl xs m) = fold add_rid xs (nm_rnl m)"
  "nm_sanl (fold full_dnl xs m) = nm_sanl m"
  "nm_dnl (fold full_sanl xs m) = nm_dnl m" "nm_rnl (fold full_sanl xs m) = fold add_rid xs (nm_rnl m)"
  "nm_sanl (fold full_sanl xs m) = fold add_rid xs (nm_sanl m)"
  "nm_dnl (fold full_rnl xs m) = nm_dnl m" "nm_rnl (fold full_rnl xs m) = fold add_rid xs (nm_rnl m)"
  "nm_sanl (fold full_rnl xs m) = nm_sanl m"
  by (induction xs arbitrary: m) (simp_all add: full_dnl_def full_sanl_def full_rnl_def)

lemma set_fold_add_rid [simp]: "set (fold add_rid xs l) = set xs \<union> set l"
  by (induction xs arbitrary: l) auto

lemma process_full_lists_class:
  "rid_class (snd (process_full_lists me (lnl, hnl, dnl, sanl, rnl) m)) r =
     (r \<in> set dnl \<or> r \<in> set sanl \<or> r \<in> set rnl, r \<in> set dnl, r \<in> set sanl)"
  "fst (process_full_lists me (lnl, hnl, dnl, sanl, rnl) m) \<longleftrightarrow> me \<in> set hnl \<union> set dnl \<union> set sanl \<union> set rnl"
  by (auto simp: process_full_lists_def rid_class_def full_loops ospf6_mdr_delete_all_neighbors_def Let_def)

section \<open>At the sender\<close>

text \<open>The class of the list types.\<close>
definition list_class :: "int \<Rightarrow> rid_class" where
  "list_class t = (if t = 3 then (True, True, False) else if t = 4 then (True, False, True)
     else if t = 5 then (True, False, False) else (False, False, False))"

lemma list_type_range: "ospf6_mdr_hello_list_type on \<in> {1, 2, 3, 4, 5}"
  by (simp add: ospf6_mdr_hello_list_type_def)

lemma hello_list_nbr_fields:
  "nm_list_type (on_mdr (snd (hello_list_nbr hsn h diff on))) = ospf6_mdr_hello_list_type on"
  "on_router_id (snd (hello_list_nbr hsn h diff on)) = on_router_id on"
  by (simp_all add: hello_list_nbr_def Let_def)

text \<open>The lists of the loop: the included neighbors by their list types, in order.\<close>

definition of_type :: "u16 \<Rightarrow> u16 \<Rightarrow> bool \<Rightarrow> int \<Rightarrow> ospf6_neighbor list \<Rightarrow> rid list" where
  "of_type hsn h diff t ons =
     map on_router_id (filter (\<lambda>on. fst (hello_list_nbr hsn h diff on) \<and> ospf6_mdr_hello_list_type on = t) ons)"

lemma hello_lists_loop_eq:
  "hello_lists_loop hsn h diff ons (hnl, dnl, sanl, rnl) =
     (map (\<lambda>on. snd (hello_list_nbr hsn h diff on)) ons,
      hnl @ of_type hsn h diff 2 ons, dnl @ of_type hsn h diff 3 ons,
      sanl @ of_type hsn h diff 4 ons, rnl @ of_type hsn h diff 5 ons)"
proof (induction ons arbitrary: hnl dnl sanl rnl)
  case (Cons on ons)
  obtain inc on' where on': "hello_list_nbr hsn h diff on = (inc, on')" by fastforce
  have f: "nm_list_type (on_mdr on') = ospf6_mdr_hello_list_type on" "on_router_id on' = on_router_id on"
    using hello_list_nbr_fields [of hsn h diff on] on' by simp_all
  show ?case by (simp add: on' Let_def hello_list_add_def of_type_def f Cons.IH)
qed (simp add: of_type_def)

lemma hello_lnl_loop_eq:
  "hello_lnl_loop hsn h es =
     (let keep = filter (\<lambda>e. \<not> uint (lnl_hsn e) + uint h \<le> uint hsn) es in (keep, map lnl_id keep))"
  by (induction es) (simp_all add: Let_def)

lemma create_neighbor_lists_eq:
  "fst (ospf6_mdr_create_neighbor_lists diff oi) =
     (let m = oi_mdr oi; T = (\<lambda>t. of_type (im_hsn m) (im_HelloRepeatCount m) diff t (oi_neighbor_list oi))
      in (if diff then map lnl_id (filter (\<lambda>e. \<not> uint (lnl_hsn e) + uint (im_HelloRepeatCount m) \<le> uint (im_hsn m)) (im_lnl m)) else [],
          T 2, T 3, T 4, T 5))"
  by (simp add: ospf6_mdr_create_neighbor_lists_def hello_lists_loop_eq hello_lnl_loop_eq Let_def)

lemma set_of_type:
  assumes "distinct (map on_router_id ons)" "on \<in> set ons"
  shows "on_router_id on \<in> set (of_type hsn h diff t ons) \<longleftrightarrow>
    fst (hello_list_nbr hsn h diff on) \<and> ospf6_mdr_hello_list_type on = t"
proof -
  have "on' = on" if "on' \<in> set ons" "on_router_id on' = on_router_id on" for on'
    using assms that by (auto simp: distinct_map inj_on_def)
  then show ?thesis using assms(2) by (auto simp: of_type_def)
qed

lemma set_of_type_other: "r \<notin> on_router_id ` set ons \<Longrightarrow> r \<notin> set (of_type hsn h diff t ons)"
  by (auto simp: of_type_def)

text \<open>A neighbor is left out of a differential Hello only if its list type did not change.\<close>

lemma hello_list_nbr_skip:
  assumes "\<not> fst (hello_list_nbr hsn h diff on)" "0 < h"
  shows "nm_list_type (on_mdr on) = ospf6_mdr_hello_list_type on"
proof (rule ccontr)
  assume "\<not> ?thesis"
  moreover have "0 < uint h" using assms(2) by (simp add: word_less_def)
  ultimately show False using assms(1) by (simp add: hello_list_nbr_def Let_def)
qed

lemma hello_list_nbr_full [simp]: "fst (hello_list_nbr hsn h False on)"
  by (simp add: hello_list_nbr_def Let_def)

section \<open>Sender and receiver\<close>

text \<open>What the receiver has learned from the last Hello: the lists agree with the list types that the sender has stored, and of the other
  routers only those are listed that the sender still reports as lost. A neighbor in Down has not been in a list.\<close>
definition hello_synced :: "ospf6_interface \<Rightarrow> ospf6_mdr_neighbor \<Rightarrow> bool" where
  "hello_synced oi m \<longleftrightarrow>
     (\<forall>on \<in> set (oi_neighbor_list oi). rid_class m (on_router_id on) = list_class (nm_list_type (on_mdr on)) \<and>
        (on_state on = OSPF6_NEIGHBOR_DOWN \<longrightarrow> list_class (nm_list_type (on_mdr on)) = (False, False, False))) \<and>
     (\<forall>r. r \<notin> on_router_id ` set (oi_neighbor_list oi) \<longrightarrow> rid_class m r = (False, False, False) \<or>
        (\<exists>e \<in> set (im_lnl (oi_mdr oi)). lnl_id e = r \<and>
           \<not> uint (lnl_hsn e) + uint (im_HelloRepeatCount (oi_mdr oi)) \<le> uint (im_hsn (oi_mdr oi)))) \<and>
     (\<forall>e \<in> set (im_lnl (oi_mdr oi)). lnl_id e \<notin> on_router_id ` set (oi_neighbor_list oi))"

lemma full_hello_class:
  assumes "distinct (map on_router_id (oi_neighbor_list oi))"
  shows "on \<in> set (oi_neighbor_list oi) \<Longrightarrow>
      rid_class (snd (process_full_lists me (fst (ospf6_mdr_create_neighbor_lists False oi)) m)) (on_router_id on) =
      list_class (ospf6_mdr_hello_list_type on)"
    and "r \<notin> on_router_id ` set (oi_neighbor_list oi) \<Longrightarrow>
      rid_class (snd (process_full_lists me (fst (ospf6_mdr_create_neighbor_lists False oi)) m)) r = (False, False, False)"
  by (simp_all add: create_neighbor_lists_eq process_full_lists_class set_of_type [OF assms] set_of_type_other list_class_def Let_def)

lemma diff_hello_class:
  assumes "distinct (map on_router_id (oi_neighbor_list oi))" "hello_synced oi m" "0 < im_HelloRepeatCount (oi_mdr oi)"
  shows "on \<in> set (oi_neighbor_list oi) \<Longrightarrow>
      rid_class (snd (process_diff_lists me state ins (fst (ospf6_mdr_create_neighbor_lists True oi)) m)) (on_router_id on) =
      list_class (ospf6_mdr_hello_list_type on)"
    and "r \<notin> on_router_id ` set (oi_neighbor_list oi) \<Longrightarrow>
      rid_class (snd (process_diff_lists me state ins (fst (ospf6_mdr_create_neighbor_lists True oi)) m)) r = (False, False, False)"
proof -
  define ls where "ls = fst (ospf6_mdr_create_neighbor_lists True oi)"
  let ?hsn = "im_hsn (oi_mdr oi)" and ?h = "im_HelloRepeatCount (oi_mdr oi)"
  obtain lnl where ls: "ls = (lnl, of_type ?hsn ?h True 2 (oi_neighbor_list oi), of_type ?hsn ?h True 3 (oi_neighbor_list oi),
      of_type ?hsn ?h True 4 (oi_neighbor_list oi), of_type ?hsn ?h True 5 (oi_neighbor_list oi))"
    and lnl: "set lnl = lnl_id ` {e \<in> set (im_lnl (oi_mdr oi)). \<not> uint (lnl_hsn e) + uint ?h \<le> uint ?hsn}"
    by (simp add: ls_def create_neighbor_lists_eq Let_def)
  {
    assume on: "on \<in> set (oi_neighbor_list oi)"
    have "\<forall>e \<in> set (im_lnl (oi_mdr oi)). lnl_id e \<notin> on_router_id ` set (oi_neighbor_list oi)"
      using assms(2) by (simp add: hello_synced_def)
    then have notlost: "on_router_id on \<notin> set lnl" using imageI [OF on, of on_router_id] by (auto simp: lnl)
    have old: "rid_class m (on_router_id on) = list_class (nm_list_type (on_mdr on))"
      "on_state on = OSPF6_NEIGHBOR_DOWN \<Longrightarrow> list_class (nm_list_type (on_mdr on)) = (False, False, False)"
      using assms(2) on by (auto simp: hello_synced_def)
    have "(case lists_class ls (on_router_id on) of Some c \<Rightarrow> c | None \<Rightarrow> rid_class m (on_router_id on)) =
        list_class (ospf6_mdr_hello_list_type on)"
    proof (cases "fst (hello_list_nbr ?hsn ?h True on)")
      case True
      have "ospf6_mdr_hello_list_type on = 1 \<Longrightarrow> on_state on = OSPF6_NEIGHBOR_DOWN"
        by (simp add: ospf6_mdr_hello_list_type_def split: if_splits)
      then show ?thesis using True list_type_range [of on] notlost old
        by (auto simp: ls lists_class_def set_of_type [OF assms(1) on] list_class_def)
    next
      case False
      then show ?thesis using hello_list_nbr_skip [OF False assms(3)] notlost old(1)
        by (simp add: ls lists_class_def set_of_type [OF assms(1) on])
    qed
    then show "rid_class (snd (process_diff_lists me state ins (fst (ospf6_mdr_create_neighbor_lists True oi)) m)) (on_router_id on) =
        list_class (ospf6_mdr_hello_list_type on)"
      by (simp add: process_diff_lists_class ls_def)
  next
    assume r: "r \<notin> on_router_id ` set (oi_neighbor_list oi)"
    then have "rid_class m r = (False, False, False) \<or> r \<in> set lnl" using assms(2) by (auto simp: hello_synced_def lnl)
    then show "rid_class (snd (process_diff_lists me state ins (fst (ospf6_mdr_create_neighbor_lists True oi)) m)) r = (False, False, False)"
      by (auto simp: process_diff_lists_class ls_def [symmetric] ls lists_class_def set_of_type_other [OF r])
  }
qed

end
