(* ===== verification/Mdr_Hello_Props.thy ===== *)
theory Mdr_Hello_Props
  imports Mdr_Hello_Lists Neighbor_Props
begin

text \<open>
  The properties of the MDR Hello messages: the Hello TLV that is sent is the one that is received, a differential Hello has the effect of
  a full one, a Hello keeps the invariant of the neighbor state machine, and two cases in which valid input is not handled.
\<close>

section \<open>The TLVs of a block\<close>

lemma get16_at: "length pre = i \<Longrightarrow> get16 (pre @ be16 w @ bs) i = Some (unat w)"
  using get16_be16 [of w bs] get16_append(1) [of pre i "be16 w @ bs"] by simp

text \<open>One TLV after the header.\<close>

lemma mdr_find_tlv_single:
  assumes "length hdr = 2" "length val = n" "n mod 4 = 0" "0 < n" "n < 65536"
  shows "mdr_find_tlv ty n (hdr @ be16 (of_nat (2 + n div 4)) @ be16 ty @ be16 (of_nat n) @ val) = Some (Some 8)"
proof -
  let ?lls = "hdr @ be16 (of_nat (2 + n div 4)) @ be16 ty @ be16 (of_nat n) @ val"
  have n: "unat (of_nat n :: u16) = n" "unat (of_nat (2 + n div 4) :: u16) = 2 + n div 4"
    using assms(5) by (simp_all only: unat_of_nat) simp_all
  have g2: "get16 ?lls 2 = Some (2 + n div 4)" using get16_at [OF assms(1)] n(2) by simp
  have "get16 ((hdr @ be16 (of_nat (2 + n div 4))) @ be16 ty @ be16 (of_nat n) @ val) 4 = Some (unat ty)"
    by (rule get16_at) (simp add: assms(1))
  then have g4: "get16 ?lls 4 = Some (unat ty)" by (simp only: append_assoc)
  have "get16 ((hdr @ be16 (of_nat (2 + n div 4)) @ be16 ty) @ be16 (of_nat n) @ val) 6 = Some (unat (of_nat n :: u16))"
    by (rule get16_at) (simp add: assms(1))
  then have g6: "get16 ?lls 6 = Some n" using n(1) by (simp only: append_assoc)
  have len: "int (2 + n div 4) * 4 - 4 = 4 + int n" using assms(3) by presburger
  have "mdr_tlv_loop ty n ?lls 4 (4 + int n) None = mdr_tlv_loop ty n ?lls (8 + n) 0 (Some 8)"
    using assms(4) g4 g6 by (subst mdr_tlv_loop.simps) (simp add: Let_def)
  also have "\<dots> = Some (Some 8)" by (simp add: mdr_tlv_loop.simps)
  finally show ?thesis unfolding mdr_find_tlv_def g2 using len by simp
qed

lemma hello_tlv_bytes_length: "length (ht_bits t) = 2 \<Longrightarrow> length (hello_tlv_bytes t) = 8"
  by (simp add: hello_tlv_bytes_def)

text \<open>The bits of the TLV.\<close>

lemma hello_bits:
  fixes a d :: bool
  defines "bits \<equiv> (if d then (if a then 2 else 0) OR 1 else (if a then 2 else 0) :: u8)"
  shows "bits AND 1 \<noteq> 0 \<longleftrightarrow> d" "bits AND 2 \<noteq> 0 \<longleftrightarrow> a"
  by (cases a; cases d; simp add: bits_def)+

text \<open>C26: The Hello TLV survives the way over the link: an LLS data block with the TLV that \<open>ospf6_mdr_append_hello_tlv\<close> writes is valid
  for the receiver, on hosts of either byte order, and \<open>ospf6_mdr_process_hello_tlv\<close> returns the sequence number, the kind of the
  Hello and the four counts, and sets the A-bit as the sender is configured, provided that no list has more than 255 entries.\<close>
theorem hello_tlv_roundtrip:
  assumes "n1 \<le> 255" "n2 \<le> 255" "n3 \<le> 255" "n4 \<le> 255"
    and "ospf6_mdr_append_hello_tlv types n1 n2 n3 n4 diff im = (tlv, im')"
  shows "\<exists>lls. ospf6_set_lls_header be ([0, 0, 0, 0] @ tlv) 16 = Some lls \<and>
    ospf6_lls_validate_datablock be lls 16 = Some True \<and> length lls = 16 \<and>
    ospf6_mdr_process_hello_tlv types lls m =
      Some (Some (im_hsn im, diff, n1, n2, n3, n4), m\<lparr>nm_Abit := (im_AdjConnectivity im = OSPF6_ADJ_FULLYCONNECTED)\<rparr>) \<and>
    im_hsn im' = im_hsn im + 1"
proof -
  define t where "t = \<lparr>ht_hsn = im_hsn im,
     ht_bits = [if diff then (if im_AdjConnectivity im = OSPF6_ADJ_FULLYCONNECTED then 2 else 0) OR 1
                else (if im_AdjConnectivity im = OSPF6_ADJ_FULLYCONNECTED then 2 else 0), 0],
     ht_n1 = of_nat n1, ht_n2 = of_nat n2, ht_n3 = of_nat n3, ht_n4 = of_nat n4\<rparr>"
  have tlv: "tlv = be16 (tlv_type_hello types) @ be16 8 @ hello_tlv_bytes t" and im': "im' = im\<lparr>im_hsn := im_hsn im + 1\<rparr>"
    using assms(5) by (auto simp: ospf6_mdr_append_hello_tlv_def t_def Let_def split: if_splits)
  have t8: "length (hello_tlv_bytes t) = 8" by (rule hello_tlv_bytes_length) (simp add: t_def)
  let ?blk = "[0, 0, 0, 0] @ tlv"
  have len: "length ?blk = 16" by (simp add: tlv t8)
  have g6: "get16 ?blk 6 = Some 8"
    using get16_at [of "[0, 0, 0, 0] @ be16 (tlv_type_hello types)" 6 8 "hello_tlv_bytes t"] by (simp add: tlv)
  have walk: "lls_walk ?blk 4 16 = Some 16" using g6 by (simp add: lls_walk.simps Let_def)
  obtain lls where lls: "ospf6_set_lls_header be ?blk 16 = Some lls" "length lls = 16" "drop 4 lls = drop 4 ?blk"
    "ospf6_lls_validate_datablock be lls 16 = Some True"
    using set_lls_header_valid [OF len _ _ _ walk, of be] by auto
  obtain a b where "host_bytes be (in_cksum be (0 # 0 # be16 4 @ tlv) mod 65536) = [a, b]" using host_bytes_two by blast
  then have ab: "lls = [a, b] @ be16 4 @ tlv"
    using lls(1) len unfolding ospf6_set_lls_header_def by (simp add: Let_def)
  have find: "mdr_find_tlv (tlv_type_hello types) 8 lls = Some (Some 8)"
    using mdr_find_tlv_single [of "[a, b]" "hello_tlv_bytes t" 8 "tlv_type_hello types"] t8 by (simp add: ab tlv)
  have g8: "get16 lls 8 = Some (unat (im_hsn im))"
    using get16_at [of "[a, b] @ be16 4 @ be16 (tlv_type_hello types) @ be16 8" 8 "im_hsn im" "ht_bits t @ [ht_n1 t, ht_n2 t, ht_n3 t, ht_n4 t]"]
    by (simp add: ab tlv hello_tlv_bytes_def t_def)
  have bytes: "lls ! (8 + k) = hello_tlv_bytes t ! k" if "k < 8" for k
    using that by (simp add: ab tlv nth_append)
  have "ospf6_mdr_process_hello_tlv types lls m =
      Some (Some (im_hsn im, diff, n1, n2, n3, n4), m\<lparr>nm_Abit := (im_AdjConnectivity im = OSPF6_ADJ_FULLYCONNECTED)\<rparr>)"
    using bytes [of 2] bytes [of 4] bytes [of 5] bytes [of 6] bytes [of 7] hello_bits assms(1-4) lls(2)
    by (simp add: ospf6_mdr_process_hello_tlv_def find g8 hello_tlv_bytes_def t_def be16_def unat_of_nat)
  then show ?thesis using lls(1,2,4) im' by auto
qed


theorem hello_tlv_roundtrip_witness:
  "\<exists>lls. ospf6_mdr_process_hello_tlv \<lparr>tlv_type_hello = 14, tlv_type_dd = 15\<rparr> lls mdr_neighbor_zero =
    Some (Some (0, True, 1, 2, 3, 4), mdr_neighbor_zero\<lparr>nm_Abit := (im_AdjConnectivity mdr_interface_zero = OSPF6_ADJ_FULLYCONNECTED)\<rparr>)"
proof -
  let ?types = "\<lparr>tlv_type_hello = 14, tlv_type_dd = 15\<rparr>"
  obtain tlv im' where e: "ospf6_mdr_append_hello_tlv ?types 1 2 3 4 True mdr_interface_zero = (tlv, im')" by fastforce
  have "im_hsn mdr_interface_zero = 0" by (simp add: mdr_interface_zero_def)
  then show ?thesis using hello_tlv_roundtrip [OF _ _ _ _ e, of False mdr_neighbor_zero] by auto
qed

section \<open>Two blocks\<close>

definition hello_block :: "u8 list \<Rightarrow> u8 list" where
  "hello_block tlvs = the (ospf6_set_lls_header False ([0, 0, 0, 0] @ tlvs) (4 + length tlvs))"

lemma hello_block:
  assumes "length tlvs mod 4 = 0" "length tlvs < 65000" "lls_walk ([0, 0, 0, 0] @ tlvs) 4 (4 + length tlvs) = Some (4 + length tlvs)"
  shows "\<exists>a b. hello_block tlvs = [a, b] @ be16 (of_nat ((4 + length tlvs) div 4)) @ tlvs \<and>
    ospf6_lls_validate_datablock False (hello_block tlvs) (4 + length tlvs) = Some True"
proof -
  let ?len = "4 + length tlvs"
  let ?c = "in_cksum False (take ?len ([0, 0] @ be16 (of_nat (?len div 4)) @ tlvs))"
  obtain lls where lls: "ospf6_set_lls_header False ([0, 0, 0, 0] @ tlvs) ?len = Some lls"
    "ospf6_lls_validate_datablock False lls ?len = Some True"
    using set_lls_header_valid [of "[0, 0, 0, 0] @ tlvs" ?len False] assms by auto
  obtain a b where "host_bytes False (?c mod 65536) = [a, b]" using host_bytes_two by blast
  then have "lls = [a, b] @ be16 (of_nat (?len div 4)) @ tlvs"
    using lls(1) by (simp add: ospf6_set_lls_header_def Let_def split: if_splits)
  then show ?thesis using lls by (simp add: hello_block_def)
qed


text \<open>TLVs are padded to multiples of four bytes, and the validation of a data block counts the padding; the loop of the Hello does not. So a
  Hello TLV behind a TLV with a value of one byte is valid, but is not found, and the Hello is ignored.\<close>
theorem padded_tlv_hides_hello:
  "let lls = hello_block ([0, 1, 0, 1, 0, 0, 0, 0] @ [0, 14, 0, 8, 0, 0, 0, 0, 0, 0, 0, 0]) in
     ospf6_lls_validate_datablock False lls 24 = Some True \<and>
     ospf6_mdr_process_hello_tlv \<lparr>tlv_type_hello = 14, tlv_type_dd = 15\<rparr> lls m = Some (None, m)"
proof -
  let ?tlvs = "[0, 1, 0, 1, 0, 0, 0, 0, 0, 14, 0, 8, 0, 0, 0, 0, 0, 0, 0, 0] :: u8 list"
  have "lls_walk ([0, 0, 0, 0] @ ?tlvs) 4 24 = Some 24" by (simp add: lls_walk.simps get16_def)
  then obtain a b where b: "hello_block ?tlvs = [a, b] @ be16 6 @ ?tlvs" "ospf6_lls_validate_datablock False (hello_block ?tlvs) 24 = Some True"
    using hello_block [of ?tlvs] by auto
  have "mdr_find_tlv 14 8 ([a, b] @ [0, 6] @ ?tlvs) = Some None"
    by (simp add: mdr_find_tlv_def mdr_tlv_loop.simps get16_def)
  moreover have "be16 6 = [0, 6]" by (simp add: be16_def drop_bit_eq_div)
  ultimately show ?thesis using b by (simp add: ospf6_mdr_process_hello_tlv_def Let_def)
qed

section \<open>Differential Hellos\<close>

text \<open>The lists of a Hello at the receiver.\<close>
definition hello_lists_recv ::
    "rid \<Rightarrow> u16 \<Rightarrow> nbr_state \<Rightarrow> bool \<Rightarrow> u16 \<Rightarrow> rid list \<times> rid list \<times> rid list \<times> rid list \<times> rid list \<Rightarrow>
     ospf6_mdr_neighbor \<Rightarrow> ospf6_mdr_neighbor" where
  "hello_lists_recv me h state diff hsn = (\<lambda>(lnl, hnl, dnl, sanl, rnl) m.
     snd (ospf6_mdr_process_neighbor_lists me h state (lnl @ hnl @ dnl @ sanl @ rnl) (length lnl) (length hnl) (length dnl)
       (length sanl) (length rnl) diff hsn m))"

lemma split_lists_append:
  "split_lists (lnl @ hnl @ dnl @ sanl @ rnl) (length lnl) (length hnl) (length dnl) (length sanl) (length rnl) =
     (lnl, hnl, dnl, sanl, rnl)"
  by (simp add: split_lists_def Let_def)

lemma hello_lists_recv_class:
  "rid_class (hello_lists_recv me h state True hsn ls m) r = rid_class (snd (process_diff_lists me state ins ls m)) r"
  "rid_class (hello_lists_recv me h state False hsn ls m) r = rid_class (snd (process_full_lists me ls m)) r"
proof -
  obtain lnl hnl dnl sanl rnl where ls: "ls = (lnl, hnl, dnl, sanl, rnl)" by (cases ls)
  have c: "rid_class (nm_consec_hellos_update f (nm_hsn_update g m)) = rid_class m" for f g by (simp add: rid_class_def fun_eq_iff)
  note d = hello_lists_recv_def ospf6_mdr_process_neighbor_lists_def split_lists_append
  show "rid_class (hello_lists_recv me h state True hsn ls m) r = rid_class (snd (process_diff_lists me state ins ls m)) r"
    by (simp add: ls d process_diff_lists_class c Let_def split: option.split)
  show "rid_class (hello_lists_recv me h state False hsn ls m) r = rid_class (snd (process_full_lists me ls m)) r"
    by (simp add: ls d process_full_lists_class Let_def)
qed

lemma create_neighbor_lists_oi:
  "oi_neighbor_list (snd (ospf6_mdr_create_neighbor_lists diff oi)) =
     map (\<lambda>on. snd (hello_list_nbr (im_hsn (oi_mdr oi)) (im_HelloRepeatCount (oi_mdr oi)) diff on)) (oi_neighbor_list oi)"
  "set (im_lnl (oi_mdr (snd (ospf6_mdr_create_neighbor_lists diff oi)))) \<subseteq> set (im_lnl (oi_mdr oi))"
  by (auto simp: ospf6_mdr_create_neighbor_lists_def hello_lists_loop_eq hello_lnl_loop_eq Let_def)

text \<open>C4: A differential Hello tells as much as a full one: if the lists that a receiver keeps for a sender agree with what the sender last
  reported, then after a differential Hello every router ID is in the same of the three lists as after a full Hello that
  the sender would send in its place, and the lists agree with what the sender has now reported, so that the same holds for the next Hello.\<close>
theorem diff_hello_equals_full:
  assumes "distinct (map on_router_id (oi_neighbor_list oi))" "hello_synced oi m" "0 < im_HelloRepeatCount (oi_mdr oi)"
    and "m' = hello_lists_recv me h state True hsn (fst (ospf6_mdr_create_neighbor_lists True oi)) m"
  shows "rid_class m' = rid_class (hello_lists_recv me h state False hsn (fst (ospf6_mdr_create_neighbor_lists False oi)) m) \<and>
    hello_synced (snd (ospf6_mdr_create_neighbor_lists True oi)) m'"
proof -
  note f = full_hello_class [OF assms(1)] and d = diff_hello_class [OF assms(1-3)]
  have c: "rid_class m' r = rid_class (snd (process_diff_lists me state False (fst (ospf6_mdr_create_neighbor_lists True oi)) m)) r" for r
    unfolding assms(4) by (rule hello_lists_recv_class(1))
  have "rid_class m' r = rid_class (hello_lists_recv me h state False hsn (fst (ospf6_mdr_create_neighbor_lists False oi)) m) r" for r
  proof (cases "r \<in> on_router_id ` set (oi_neighbor_list oi)")
    case True
    then show ?thesis using f(1) d(1) unfolding c hello_lists_recv_class(2) by auto
  next
    case False
    then show ?thesis using f(2) d(2) unfolding c hello_lists_recv_class(2) by auto
  qed
  moreover have "hello_synced (snd (ospf6_mdr_create_neighbor_lists True oi)) m'"
  proof -
    have down: "list_class (ospf6_mdr_hello_list_type on) = (False, False, False)" if "on_state on = OSPF6_NEIGHBOR_DOWN" for on
      using that by (simp add: ospf6_mdr_hello_list_type_def list_class_def)
    have state: "on_state (snd (hello_list_nbr hsn' h' True on)) = on_state on" for hsn' h' on
      by (simp add: hello_list_nbr_def Let_def)
    have lost: "lnl_id e \<notin> on_router_id ` set (oi_neighbor_list oi)" if "e \<in> set (im_lnl (oi_mdr oi))" for e
      using assms(2) that by (simp add: hello_synced_def)
    show ?thesis unfolding hello_synced_def create_neighbor_lists_oi(1)
      using create_neighbor_lists_oi(2) [of True oi] lost d(1) d(2)
      by (auto simp: hello_list_nbr_fields c state down image_image)
  qed
  ultimately show ?thesis by blast
qed

text \<open>A sender with two neighbors in 2-Way that has not sent a Hello yet.\<close>
definition example_sender :: ospf6_interface where
  "example_sender = example_interface\<lparr>oi_mdr := (oi_mdr example_interface)\<lparr>im_HelloRepeatCount := 3\<rparr>\<rparr>"

theorem diff_hello_equals_full_witness:
  "rid_class (hello_lists_recv 5 3 OSPF6_NEIGHBOR_INIT True 0 (fst (ospf6_mdr_create_neighbor_lists True example_sender)) mdr_neighbor_zero) =
   rid_class (hello_lists_recv 5 3 OSPF6_NEIGHBOR_INIT False 0 (fst (ospf6_mdr_create_neighbor_lists False example_sender)) mdr_neighbor_zero)"
proof -
  have "distinct (map on_router_id (oi_neighbor_list example_sender))" "hello_synced example_sender mdr_neighbor_zero"
    "0 < im_HelloRepeatCount (oi_mdr example_sender)"
    by (auto simp: example_sender_def example_defs hello_synced_def rid_class_def list_class_def Let_def)
  from diff_hello_equals_full [OF this refl] show ?thesis by blast
qed

section \<open>Hellos and the state machine\<close>

lemma mdr_hello_events_ok:
  assumes inv: "nbr_inv w" and j: "j < w_num w" and mdr: "oi_type (w_oi w) = OSPF6_IFTYPE_MDR"
  shows "\<exists>w'. mdr_hello_events env is_2way j w = Some w' \<and> nbr_inv w' \<and>
    (on_state (w_nbr w' j) \<ge> OSPF6_NEIGHBOR_TWOWAY \<longleftrightarrow> is_2way \<and>
       (on_state (w_nbr w j) \<ge> OSPF6_NEIGHBOR_INIT \<or> on_state (w_nbr w j) = OSPF6_NEIGHBOR_DOWN \<and>
          nm_consec_hellos (on_mdr (w_nbr w j)) \<ge> im_consec_hello_threshold (oi_mdr (w_oi w))))"
proof -
  let ?s = "on_state (w_nbr w j)"
  have inv0: "fsm_inv w" using inv by (simp add: nbr_inv_def)
  let ?s1 = "nbr_fsm_next HelloReceived (fsm_cond_of w j) ?s"
  obtain w1 where w1: "hello_received env j w = Some w1" "event_done ?s1 j w w1"
    using hello_received_event [OF inv0 j] by blast
  have i1: "fsm_inv w1" "j < w_num w1" "on_state (w_nbr w1 j) = ?s1" "oi_type (w_oi w1) = OSPF6_IFTYPE_MDR" "w_rids w1 = w_rids w"
    using w1(2) j mdr by (simp_all add: event_done_def)
  let ?ev = "if is_2way then TwowayReceived else OnewayReceived"
  let ?s2 = "nbr_fsm_next ?ev (fsm_cond_of w1 j) ?s1"
  obtain w2 where w2: "(if is_2way then twoway_received env j w1 else oneway_received env j w1) = Some w2" "event_done ?s2 j w1 w2"
    using twoway_received_event [OF i1(1,2), of env] oneway_received_event [OF i1(1,2), of env] i1(3) by (cases is_2way) auto
  have i2: "fsm_inv w2" "j < w_num w2" "on_state (w_nbr w2 j) = ?s2" "w_rids w2 = w_rids w1"
    using w2(2) i1(2) by (simp_all add: event_done_def)
  have s2: "?s2 \<ge> OSPF6_NEIGHBOR_TWOWAY \<longleftrightarrow> is_2way \<and> ?s1 \<ge> OSPF6_NEIGHBOR_INIT"
    using i1(4) by (cases ?s1; cases is_2way) (simp_all add: fsm_cond_of_def less_nbr_state_def less_eq_nbr_state_def)
  have s1: "?s1 \<ge> OSPF6_NEIGHBOR_INIT \<longleftrightarrow> (?s \<ge> OSPF6_NEIGHBOR_INIT \<or> ?s = OSPF6_NEIGHBOR_DOWN \<and>
      nm_consec_hellos (on_mdr (w_nbr w j)) \<ge> im_consec_hello_threshold (oi_mdr (w_oi w)))"
    using mdr by (auto simp: fsm_cond_of_def less_eq_nbr_state_def)
  obtain w' where w': "mdr_hello_events env is_2way j w = Some w'" "event_done (on_state (w_nbr w' j)) j w2 w'"
    "on_state (w_nbr w' j) = ?s2 \<or> ?s2 = OSPF6_NEIGHBOR_TWOWAY \<and> on_state (w_nbr w' j) = OSPF6_NEIGHBOR_EXSTART"
  proof (cases "?s2 = OSPF6_NEIGHBOR_TWOWAY \<and> need_adjacency (w_oi w2) (w_nbr w2 j)")
    case True
    have "on_state (w_nbr w2 j) \<le> OSPF6_NEIGHBOR_EXSTART" using True i2(3) by (simp add: less_eq_nbr_state_def)
    then obtain w3 where w3: "ospf6_neighbor_exstart env j w2 = Some w3"
      "event_done (if fsm_deferred (w_oi w2) then on_state (w_nbr w2 j) else OSPF6_NEIGHBOR_EXSTART) j w2 w3"
      using exstart_event [OF i2(1,2) quiet_lists [OF i2(1,2)], of env] by auto
    then show ?thesis using that [of w3] True i2(3) w1(1) w2(1) by (auto simp: mdr_hello_events_def event_done_def split: if_splits)
  next
    case False
    then show ?thesis using that [of w2] event_done_refl [OF i2(1), of j] i2(3) w1(1) w2(1) by (auto simp: mdr_hello_events_def)
  qed
  have "nbr_inv w'" using w'(2) i1(5) i2(4) inv by (simp add: nbr_inv_def event_done_def nbrs_sorted_def)
  moreover have "x \<ge> OSPF6_NEIGHBOR_TWOWAY \<longleftrightarrow> y \<ge> OSPF6_NEIGHBOR_TWOWAY"
    if "x = y \<or> y = OSPF6_NEIGHBOR_TWOWAY \<and> x = OSPF6_NEIGHBOR_EXSTART" for x y
    using that by (auto simp: less_eq_nbr_state_def)
  note this [OF w'(3), unfolded s2 s1]
  ultimately show ?thesis using w'(1) by blast
qed

lemma fold_same: "(\<And>x s. c (f x s) = c s) \<Longrightarrow> c (fold f xs s) = c s"
  by (induction xs arbitrary: s) simp_all

lemma process_neighbor_lists_treenode:
  "nm_treenode (snd (ospf6_mdr_process_neighbor_lists me h state rid n1 n2 n3 n4 n5 diff hsn m)) = nm_treenode m"
proof -
  let ?c = "\<lambda>s :: diff_state. nm_treenode (snd (snd s))"
  have f: "?c (diff_found me r t b s) = ?c s" for r t b s by (simp add: diff_found_def split: prod.split)
  have d: "?c (fold (diff_lnl me) xs s) = ?c s" "?c (fold (diff_hnl me) xs s) = ?c s" "?c (fold (diff_dnl me) xs s) = ?c s"
    "?c (fold (diff_sanl me) xs s) = ?c s" "?c (fold (diff_rnl me) xs s) = ?c s" for xs s
    by (rule fold_same; simp add: diff_lnl_def diff_hnl_def diff_dnl_def diff_sanl_def diff_rnl_def case_prod_beta f Let_def)+
  have g: "nm_treenode (fold full_dnl xs m) = nm_treenode m" "nm_treenode (fold full_sanl xs m) = nm_treenode m"
    "nm_treenode (fold full_rnl xs m) = nm_treenode m" for xs m
    by (rule fold_same; simp add: full_dnl_def full_sanl_def full_rnl_def)+
  have "nm_treenode (snd (process_diff_lists me state ins ls m)) = nm_treenode m" for ins ls m
    by (cases ls) (simp add: process_diff_lists_def case_prod_beta d Let_def)
  moreover have "nm_treenode (snd (process_full_lists me ls m)) = nm_treenode m" for ls m
    by (cases ls) (simp add: process_full_lists_def case_prod_beta g Let_def)
  ultimately show ?thesis by (simp add: ospf6_mdr_process_neighbor_lists_def Let_def)
qed

lemma mdr_hello_update_input: "nbr_input on (snd (mdr_hello_update env pkt numbers n5 h on))"
  by (cases numbers)
    (simp add: mdr_hello_update_def nbr_input_def ospf6_mdr_set_mdr_level_def process_neighbor_lists_treenode ls_lists_def
      case_prod_beta Let_def)

lemma nbr_inv_input_update:
  assumes "nbr_inv w" "j < w_num w" "nbr_input (w_nbr w j) on"
  shows "nbr_inv (w_nbr_update j (\<lambda>_. on) w)"
proof (rule nbr_input_inv [OF assms(1)])
  have "nbr_input x x" for x by (simp add: nbr_input_def)
  then have "list_all2 nbr_input (oi_neighbor_list (w_oi w)) ((oi_neighbor_list (w_oi w))[j := on])"
    using assms(2,3) by (auto simp: list_all2_conv_all_nth nth_list_update)
  then show "world_input w (w_nbr_update j (\<lambda>_. on) w)" by (simp add: world_input_def w_nbr_update_def nbr_update_def)
qed

text \<open>C10: A Hello on an MDR interface with a Hello TLV and consistent counts: no assertion fails, the invariant of the neighbors
  holds again, and afterwards the neighbor is in 2-Way or a higher state exactly if the lists of the Hello say that the link is bidirectional
  and the neighbor was accepted before or has sent enough consecutive Hellos.\<close>
theorem ospf6_mdr_hello_recv_state:
  assumes "nbr_inv w" "j < w_num w" "oi_type (w_oi w) = OSPF6_IFTYPE_MDR"
    and "hl_options (hp_hello pkt) ! 1 AND OSPF6_OPT_L \<noteq> 0" "hp_lls pkt = Some lls"
    and "ospf6_mdr_process_hello_tlv (he_tlv_types env) lls (on_mdr (w_nbr w j)) = Some (Some (hsn, diff, n1, n2, n3, n4), m)"
    and "0 \<le> hello_num_rnl (hp_length pkt) n1 n2 n3 n4"
    and "mdr_hello_update env pkt (hsn, diff, n1, n2, n3, n4) (nat (hello_num_rnl (hp_length pkt) n1 n2 n3 n4))
      (im_HelloRepeatCount (oi_mdr (w_oi w))) ((w_nbr w j)\<lparr>on_mdr := m\<rparr>) = (is_2way, on)"
  shows "\<exists>w'. ospf6_mdr_hello_recv env j pkt w = Some w' \<and> nbr_inv w' \<and>
    (on_state (w_nbr w' j) \<ge> OSPF6_NEIGHBOR_TWOWAY \<longleftrightarrow> is_2way \<and>
       (on_state (w_nbr w j) \<ge> OSPF6_NEIGHBOR_INIT \<or> on_state (w_nbr w j) = OSPF6_NEIGHBOR_DOWN \<and>
          nm_consec_hellos (on_mdr on) \<ge> im_consec_hello_threshold (oi_mdr (w_oi w))))"
proof -
  let ?on1 = "(w_nbr w j)\<lparr>on_mdr := m\<rparr>"
  let ?w2 = "w_nbr_update j (\<lambda>_. on) w"
  have on: "on = snd (mdr_hello_update env pkt (hsn, diff, n1, n2, n3, n4) (nat (hello_num_rnl (hp_length pkt) n1 n2 n3 n4))
      (im_HelloRepeatCount (oi_mdr (w_oi w))) ?on1)" using assms(8) by simp
  have "nm_treenode m = nm_treenode (on_mdr (w_nbr w j))"
    using assms(6) by (auto simp: ospf6_mdr_process_hello_tlv_def bind_eq_Some_conv split: option.splits if_splits)
  then have "nbr_input (w_nbr w j) ?on1" by (simp add: nbr_input_def ls_lists_def)
  moreover have "nbr_input ?on1 on" unfolding on by (rule mdr_hello_update_input)
  ultimately have inp: "nbr_input (w_nbr w j) on" by (auto simp: nbr_input_def)
  have inv2: "nbr_inv ?w2" by (rule nbr_inv_input_update [OF assms(1,2) inp])
  have upd: "w_nbr_update j (\<lambda>_. on) (w_nbr_update j (on_mdr_update (\<lambda>_. m)) w) = ?w2"
    using assms(2) by (simp add: w_nbr_update_def nbr_update_def)
  have "ospf6_mdr_hello_recv env j pkt w = mdr_hello_events (he_nbr env) is_2way j ?w2"
    using assms(2,4-8) upd by (simp add: ospf6_mdr_hello_recv_def Let_def)
  moreover have "on_state on = on_state (w_nbr w j)" using inp by (simp add: nbr_input_def)
  ultimately show ?thesis
    using mdr_hello_events_ok [OF inv2, of j "he_nbr env" is_2way] assms(2,3) by simp
qed

text \<open>A neighbor in Init on an MDR interface, and a full Hello that lists this router in its last list.\<close>
definition example_mdr_world :: world where
  "example_mdr_world = w_oi_update (oi_type_update (\<lambda>_. OSPF6_IFTYPE_MDR)) (example_world 0 [(5, OSPF6_NEIGHBOR_INIT)])"

definition example_hello_env :: hello_env where
  "example_hello_env = \<lparr>he_nbr = example_env, he_big_endian = False, he_tlv_types = \<lparr>tlv_type_hello = 14, tlv_type_dd = 15\<rparr>,
     he_area_options = [0, 0, 0], he_random = 0, he_hook_err = \<lambda>_. False\<rparr>"

definition example_hello :: hello_packet where
  "example_hello = \<lparr>hp_router_id = 5, hp_length = 40,
     hp_hello = \<lparr>hl_interface_id = 1, hl_priority = 1, hl_options = [0, OSPF6_OPT_L, 0], hl_hello_interval = 2, hl_dead_interval = 6,
       hl_drouter = 0, hl_bdrouter = 0\<rparr>,
     hp_rids = [he_router_id example_hello_env],
     hp_lls = Some [0, 0, 0, 4, 0, 14, 0, 8, 0, 1, 0, 0, 0, 0, 0, 0]\<rparr>"

lemma example_mdr_world_inv: "nbr_inv example_mdr_world"
proof (rule nbr_input_inv)
  show "nbr_inv (example_world 0 [(5, OSPF6_NEIGHBOR_INIT)])" by (simp add: nbr_inv_def nbrs_sorted_def)
  show "world_input (example_world 0 [(5, OSPF6_NEIGHBOR_INIT)]) example_mdr_world"
    by (auto simp: world_input_def example_mdr_world_def nbr_input_def list_all2_conv_all_nth)
qed

theorem ospf6_mdr_hello_recv_state_witness:
  "\<exists>w'. ospf6_mdr_hello_recv example_hello_env 0 example_hello example_mdr_world = Some w' \<and>
     on_state (w_nbr w' 0) \<ge> OSPF6_NEIGHBOR_TWOWAY"
proof -
  let ?m = "(on_mdr (w_nbr example_mdr_world 0))\<lparr>nm_Abit := False\<rparr>"
  have w: "0 < w_num example_mdr_world" "oi_type (w_oi example_mdr_world) = OSPF6_IFTYPE_MDR"
    "on_state (w_nbr example_mdr_world 0) = OSPF6_NEIGHBOR_INIT"
    using example_world_simps(5) [of 0 "[(5, OSPF6_NEIGHBOR_INIT)]" 0] by (simp_all add: example_mdr_world_def)
  have n5: "hello_num_rnl (hp_length example_hello) 0 0 0 0 = 1" by (simp add: hello_num_rnl_def example_hello_def)
  obtain is_2way on where u: "mdr_hello_update example_hello_env example_hello (1, False, 0, 0, 0, 0)
      (nat (hello_num_rnl (hp_length example_hello) 0 0 0 0)) (im_HelloRepeatCount (oi_mdr (w_oi example_mdr_world)))
      ((w_nbr example_mdr_world 0)\<lparr>on_mdr := ?m\<rparr>) = (is_2way, on)" by fastforce
  then have t: is_2way unfolding n5
    by (auto simp: mdr_hello_update_def ospf6_mdr_process_neighbor_lists_def process_full_lists_def split_lists_def
        example_hello_def case_prod_beta Let_def)
  have tlv: "ospf6_mdr_process_hello_tlv (he_tlv_types example_hello_env) [0, 0, 0, 4, 0, 14, 0, 8, 0, 1, 0, 0, 0, 0, 0, 0]
      (on_mdr (w_nbr example_mdr_world 0)) = Some (Some (1, False, 0, 0, 0, 0), ?m)"
    by (simp add: ospf6_mdr_process_hello_tlv_def mdr_find_tlv_def mdr_tlv_loop.simps get16_def example_hello_env_def)
  have "hl_options (hp_hello example_hello) ! 1 AND OSPF6_OPT_L \<noteq> 0"
    "hp_lls example_hello = Some [0, 0, 0, 4, 0, 14, 0, 8, 0, 1, 0, 0, 0, 0, 0, 0]" by (simp_all add: example_hello_def)
  from ospf6_mdr_hello_recv_state [OF example_mdr_world_inv w(1,2) this tlv _ u] show ?thesis
    using t w(3) n5 by auto
qed

end
