(* ===== verification/Interface.thy ===== *)
theory Interface
  imports Neighbor
begin

unbundle bit_operations_syntax

text \<open>
  The interface state machine and the election of the designated router, from \<^verbatim>\<open>src/ospf6d/ospf6_interface.c\<close>:
  \<open>better_bdrouter\<close>, \<open>better_drouter\<close>, \<open>dr_election\<close>, \<open>ospf6_interface_state_change\<close> and the handlers of the interface
  events. The election is compared with the rules of RFC 2328, section 9.4.
\<close>

section \<open>The election\<close>

definition IS_ELIGIBLE :: "ospf6_neighbor \<Rightarrow> bool" where
  "IS_ELIGIBLE n \<longleftrightarrow> on_state n \<ge> OSPF6_NEIGHBOR_TWOWAY \<and> on_priority n \<noteq> 0"

text \<open>A pointer to a router: the pseudo neighbor on the stack, or a neighbor by its position.\<close>
datatype elect = Myself | Nbr nat

text \<open>The comparison of two candidates by declaration, priority and router ID: whether the first one is returned.\<close>
definition first_better :: "bool \<Rightarrow> bool \<Rightarrow> ospf6_neighbor \<Rightarrow> ospf6_neighbor \<Rightarrow> bool" where
  "first_better da db a b =
     (if da \<and> \<not> db then True
      else if \<not> da \<and> db then False
      else if on_priority a > on_priority b then True
      else if on_priority a < on_priority b then False
      else if on_router_id a > on_router_id b then True
      else if on_router_id a < on_router_id b then False
      else True)"

definition better_bdrouter :: "('p \<Rightarrow> ospf6_neighbor) \<Rightarrow> 'p option \<Rightarrow> 'p option \<Rightarrow> 'p option" where
  "better_bdrouter r a b =
     (let out = (\<lambda>x. case x of None \<Rightarrow> True | Some p \<Rightarrow> \<not> IS_ELIGIBLE (r p) \<or> on_drouter (r p) = on_router_id (r p)) in
      if out a \<and> out b then None
      else if out a then b
      else if out b then a
      else if first_better (on_bdrouter (r (the a)) = on_router_id (r (the a))) (on_bdrouter (r (the b)) = on_router_id (r (the b)))
             (r (the a)) (r (the b)) then a
      else b)"

definition better_drouter :: "('p \<Rightarrow> ospf6_neighbor) \<Rightarrow> 'p option \<Rightarrow> 'p option \<Rightarrow> 'p option" where
  "better_drouter r a b =
     (let out = (\<lambda>x. case x of None \<Rightarrow> True | Some p \<Rightarrow> \<not> IS_ELIGIBLE (r p) \<or> on_drouter (r p) \<noteq> on_router_id (r p)) in
      if out a \<and> out b then None
      else if out a then b
      else if out b then a
      else if first_better (on_drouter (r (the a)) = on_router_id (r (the a))) (on_drouter (r (the b)) = on_router_id (r (the b)))
             (r (the a)) (r (the b)) then a
      else b)"

text \<open>The pseudo neighbor: zero but for the fields that are set.\<close>
definition dr_myself :: "rid \<Rightarrow> ospf6_interface \<Rightarrow> ospf6_neighbor" where
  "dr_myself router_id oi =
     (neighbor_alloc \<lparr>tv_sec = 0, tv_usec = 0\<rparr> router_id oi)\<lparr>on_cost := 0, on_state := OSPF6_NEIGHBOR_TWOWAY,
        on_drouter := oi_drouter oi, on_bdrouter := oi_bdrouter oi, on_priority := oi_priority oi\<rparr>"

definition elect_router :: "world \<Rightarrow> ospf6_neighbor \<Rightarrow> elect \<Rightarrow> ospf6_neighbor" where
  "elect_router w myself p = (case p of Myself \<Rightarrow> myself | Nbr j \<Rightarrow> w_nbr w j)"

definition elected_id :: "('p \<Rightarrow> ospf6_neighbor) \<Rightarrow> 'p option \<Rightarrow> rid" where
  "elected_id r p = (case p of None \<Rightarrow> 0 | Some p \<Rightarrow> on_router_id (r p))"

text \<open>Steps 2 and 3 after the loops over the neighbors: the designated router and its backup.\<close>
definition elect_pass :: "(elect \<Rightarrow> ospf6_neighbor) \<Rightarrow> elect option \<Rightarrow> elect option \<Rightarrow> elect option \<times> elect option" where
  "elect_pass r best_bdrouter best_drouter =
     (let bdrouter = better_bdrouter r best_bdrouter (Some Myself);
          drouter = better_drouter r best_drouter (Some Myself);
          drouter = (if drouter = None then bdrouter else drouter)
      in (drouter, bdrouter))"

text \<open>The two routers and the next state.\<close>
definition dr_elect :: "rid \<Rightarrow> world \<Rightarrow> rid \<times> rid \<times> if_state" where
  "dr_elect router_id w =
     (let myself = dr_myself router_id (w_oi w);
          r = elect_router w myself;
          nbrs = map Nbr [0 ..< w_num w];
          best_bdrouter = fold (\<lambda>on bdrouter. better_bdrouter r bdrouter (Some on)) nbrs None;
          best_drouter = fold (\<lambda>on drouter. better_drouter r drouter (Some on)) nbrs None;
          (drouter, bdrouter) = elect_pass r best_bdrouter best_drouter;
          (drouter, bdrouter) =
            (if (drouter = Some Myself) \<noteq> (on_drouter myself = on_router_id myself) \<or>
                (bdrouter = Some Myself) \<noteq> (on_bdrouter myself = on_router_id myself)
             then elect_pass (elect_router w (myself\<lparr>on_drouter := elected_id r drouter, on_bdrouter := elected_id r bdrouter\<rparr>))
                    best_bdrouter best_drouter
             else (drouter, bdrouter));
          next_state = (if drouter = Some Myself then OSPF6_INTERFACE_DR
                        else if bdrouter = Some Myself then OSPF6_INTERFACE_BDR
                        else OSPF6_INTERFACE_DROTHER)
      in (elected_id r drouter, elected_id r bdrouter, next_state))"

text \<open>Step 7: \<^verbatim>\<open>AdjOK?\<close> for all neighbors that are at least 2-Way.\<close>
definition schedule_adjok_all :: "world \<Rightarrow> world" where
  "schedule_adjok_all w =
     fold (\<lambda>j w. if on_state (w_nbr w j) < OSPF6_NEIGHBOR_TWOWAY then w else ospf6_neighbor_schedule_adjok j w) [0 ..< w_num w] w"

definition dr_election :: "rid \<Rightarrow> world \<Rightarrow> if_state \<times> world" where
  "dr_election router_id w =
     (let (drouter, bdrouter, next_state) = dr_elect router_id w;
          w = (if oi_drouter (w_oi w) \<noteq> drouter \<or> oi_bdrouter (w_oi w) \<noteq> bdrouter then schedule_adjok_all w else w)
      in (next_state, w\<lparr>w_oi := (w_oi w)\<lparr>oi_drouter := drouter, oi_bdrouter := bdrouter\<rparr>\<rparr>))"

section \<open>The interface state machine\<close>

primrec if_state_num :: "if_state \<Rightarrow> nat" where
  "if_state_num OSPF6_INTERFACE_NONE = 0"
| "if_state_num OSPF6_INTERFACE_DOWN = 1"
| "if_state_num OSPF6_INTERFACE_LOOPBACK = 2"
| "if_state_num OSPF6_INTERFACE_WAITING = 3"
| "if_state_num OSPF6_INTERFACE_POINTTOPOINT = 4"
| "if_state_num OSPF6_INTERFACE_DROTHER = 5"
| "if_state_num OSPF6_INTERFACE_BDR = 6"
| "if_state_num OSPF6_INTERFACE_DR = 7"

abbreviation dr_or_bdr :: "if_state \<Rightarrow> bool" where
  "dr_or_bdr s \<equiv> s = OSPF6_INTERFACE_DR \<or> s = OSPF6_INTERFACE_BDR"

definition ospf6_interface_state_change :: "if_state \<Rightarrow> ospf6_interface \<Rightarrow> ospf6_interface" where
  "ospf6_interface_state_change next_state oi =
     (let prev_state = oi_state oi;
          oi = oi\<lparr>oi_state := next_state\<rparr> in
      if prev_state = next_state then oi
      else
        let oi = (if dr_or_bdr prev_state \<and> \<not> dr_or_bdr next_state then emit (AllDRouters False) oi else oi);
            oi = (if \<not> dr_or_bdr prev_state \<and> dr_or_bdr next_state then emit (AllDRouters True) oi else oi);
            oi = emit RouterLsaSchedule oi in
        if next_state = OSPF6_INTERFACE_DOWN
        then emit IntraPrefixStubSchedule (emit IntraPrefixTransitExecute (emit NetworkLsaExecute oi))
        else if prev_state = OSPF6_INTERFACE_DR \<or> next_state = OSPF6_INTERFACE_DR
        then emit IntraPrefixStubSchedule (emit IntraPrefixTransitSchedule (emit NetworkLsaSchedule oi))
        else oi)"

text \<open>The properties of the network device, the configured cost, and whether there is a link-local address after the update of the
  connected routes.\<close>
record if_env =
  ie_operative :: bool
  ie_broadcast :: bool
  ie_pointopoint :: bool
  ie_loopback :: bool
  ie_has_linklocal :: bool
  ie_cost_configured :: bool
  ie_bandwidth :: u32
  ie_reference_bandwidth :: u32
  ie_mtu6 :: u32

definition ospf6_interface_cost_change :: "ospf6_interface \<Rightarrow> ospf6_interface" where
  "ospf6_interface_cost_change oi =
     fold emit [ConnectedRouteUpdate, LinkLsaSchedule, RouterLsaSchedule, NetworkLsaSchedule, IntraPrefixTransitSchedule,
       IntraPrefixStubSchedule, CostUpdateHooks] oi"

text \<open>The product is an \<^verbatim>\<open>unsigned int\<close>.\<close>
definition ospf6_interface_update_bandwidth :: "if_env \<Rightarrow> ospf6_interface \<Rightarrow> ospf6_interface" where
  "ospf6_interface_update_bandwidth env oi =
     (if ie_cost_configured env then oi
      else
        let oldcost = oi_cost oi;
            cost = (if ie_bandwidth env > 0
                    then let cost = 1000 * ie_reference_bandwidth env div ie_bandwidth env
                         in if cost < 1 then 1 else if cost > 65535 then 65535 else cost
                    else 1);
            oi = oi\<lparr>oi_cost := cost\<rparr>
        in if oi_cost oi \<noteq> oldcost then ospf6_interface_cost_change oi else oi)"

text \<open>The size of the buffers for packets, which is returned.\<close>
definition ospf6_iobuf_size :: "nat \<Rightarrow> nat \<Rightarrow> nat" where
  "ospf6_iobuf_size iobuflen bytes = (if bytes \<le> iobuflen then iobuflen else bytes)"

text \<open>The timers of all neighbors expire at once.\<close>
definition ospf6_interface_mtu_change :: "nat \<Rightarrow> ospf6_interface \<Rightarrow> nat \<times> ospf6_interface" where
  "ospf6_interface_mtu_change iobuflen oi =
     (let (iobuflen, oi) =
            (if oi_ifmtu oi > 0
             then let iobuflen = ospf6_iobuf_size iobuflen (unat (2 * oi_ifmtu oi))
                  in (iobuflen, if unat (oi_ifmtu oi) > iobuflen then oi\<lparr>oi_ifmtu := of_nat iobuflen\<rparr> else oi)
             else (iobuflen, oi));
          oi = fold (\<lambda>on. emit (InactivityEvent (on_router_id on))) (oi_neighbor_list oi) oi
      in (iobuflen, oi\<lparr>oi_neighbor_list := map (\<lambda>on. on\<lparr>on_inactivity_timer := None\<rparr>) (oi_neighbor_list oi)\<rparr>))"

definition ospf6_interface_update_mtu :: "if_env \<Rightarrow> nat \<Rightarrow> ospf6_interface \<Rightarrow> nat \<times> ospf6_interface" where
  "ospf6_interface_update_mtu env iobuflen oi =
     (let ifmtu = oi_ifmtu oi;
          oi = (if oi_ifmtu oi = 0 then oi\<lparr>oi_ifmtu := ie_mtu6 env\<rparr>
                else if ie_mtu6 env \<noteq> 0 \<and> oi_ifmtu oi > ie_mtu6 env then oi\<lparr>oi_ifmtu := ie_mtu6 env\<rparr>
                else oi)
      in if oi_ifmtu oi \<noteq> ifmtu then ospf6_interface_mtu_change iobuflen oi else (iobuflen, oi))"

definition if_passive :: "ospf6_interface \<Rightarrow> bool" where
  "if_passive oi \<longleftrightarrow> oi_flag oi AND 2 \<noteq> 0"

text \<open>The type of the interface, and its first state.\<close>
definition if_up_type :: "if_env \<Rightarrow> ospf6_interface \<Rightarrow> if_type" where
  "if_up_type env oi =
     (if oi_type oi = OSPF6_IFTYPE_NONE then
        if ie_broadcast env then OSPF6_IFTYPE_BROADCAST
        else if ie_pointopoint env then OSPF6_IFTYPE_POINTOPOINT
        else if ie_loopback env then OSPF6_IFTYPE_LOOPBACK
        else OSPF6_IFTYPE_BROADCAST
      else oi_type oi)"

definition if_up_state :: "ospf6_interface \<Rightarrow> if_state" where
  "if_up_state oi =
     (if if_passive oi then OSPF6_INTERFACE_LOOPBACK
      else case oi_type oi of
        OSPF6_IFTYPE_LOOPBACK \<Rightarrow> OSPF6_INTERFACE_LOOPBACK
      | OSPF6_IFTYPE_POINTOPOINT \<Rightarrow> OSPF6_INTERFACE_POINTTOPOINT
      | OSPF6_IFTYPE_POINTOMULTIPOINT \<Rightarrow> OSPF6_INTERFACE_POINTTOPOINT
      | OSPF6_IFTYPE_MDR \<Rightarrow> OSPF6_INTERFACE_POINTTOPOINT
      | OSPF6_IFTYPE_BROADCAST \<Rightarrow> (if oi_priority oi = 0 then OSPF6_INTERFACE_DROTHER else OSPF6_INTERFACE_WAITING)
      | OSPF6_IFTYPE_NBMA \<Rightarrow> (if oi_priority oi = 0 then OSPF6_INTERFACE_DROTHER else OSPF6_INTERFACE_WAITING)
      | _ \<Rightarrow> OSPF6_INTERFACE_NONE)"

definition interface_up :: "if_env \<Rightarrow> nat \<Rightarrow> ospf6_interface \<Rightarrow> nat \<times> ospf6_interface" where
  "interface_up env iobuflen oi =
     (if \<not> ie_operative env then (iobuflen, oi)
      else
        let oi = oi\<lparr>oi_type := if_up_type env oi\<rparr>;
            oi = ospf6_interface_update_bandwidth env oi;
            (iobuflen, oi) = ospf6_interface_update_mtu env iobuflen oi in
        if if_state_num (oi_state oi) > if_state_num OSPF6_INTERFACE_DOWN then (iobuflen, oi)
        else
          let oi = emit ConnectedRouteUpdate oi in
          if oi_type oi \<noteq> OSPF6_IFTYPE_LOOPBACK \<and> \<not> if_passive oi \<and> \<not> ie_has_linklocal env then (iobuflen, oi)
          else
            let state = if_up_state oi;
                oi = ospf6_interface_state_change state oi;
                oi = (if state = OSPF6_INTERFACE_WAITING then emit (WaitTimer (oi_dead_interval oi)) oi else oi);
                oi = (if if_state_num state > if_state_num OSPF6_INTERFACE_LOOPBACK
                      then (emit (AllSpfRouters True) oi)\<lparr>oi_thread_send_hello := Some 0\<rparr> else oi)
            in (iobuflen, oi))"

definition if_elect :: "rid \<Rightarrow> world \<Rightarrow> world" where
  "if_elect router_id w =
     (let (next_state, w) = dr_election router_id w
      in w\<lparr>w_oi := ospf6_interface_state_change next_state (w_oi w)\<rparr>)"

definition wait_timer :: "rid \<Rightarrow> world \<Rightarrow> world" where
  "wait_timer router_id w = (if oi_state (w_oi w) = OSPF6_INTERFACE_WAITING then if_elect router_id w else w)"

definition backup_seen :: "rid \<Rightarrow> world \<Rightarrow> world" where
  "backup_seen router_id w = (if oi_state (w_oi w) = OSPF6_INTERFACE_WAITING then if_elect router_id w else w)"

definition neighbor_change :: "rid \<Rightarrow> world \<Rightarrow> world" where
  "neighbor_change router_id w =
     (if oi_state (w_oi w) = OSPF6_INTERFACE_DROTHER \<or> oi_state (w_oi w) = OSPF6_INTERFACE_BDR \<or>
         oi_state (w_oi w) = OSPF6_INTERFACE_DR
      then if_elect router_id w else w)"

section \<open>The rules of the election\<close>

text \<open>The router ID of the best candidate, zero if there is none.\<close>
definition elected :: "ospf6_neighbor set \<Rightarrow> (ospf6_neighbor \<Rightarrow> 'k::linorder) \<Rightarrow> rid \<Rightarrow> bool" where
  "elected C key r \<longleftrightarrow> (if C = {} then r = 0 else \<exists>x \<in> C. on_router_id x = r \<and> (\<forall>y \<in> C. key y \<le> key x))"

definition bdr_key :: "ospf6_neighbor \<Rightarrow> bool \<times> u8 \<times> u32" where
  "bdr_key on = (on_bdrouter on = on_router_id on, on_priority on, on_router_id on)"

definition dr_key :: "ospf6_neighbor \<Rightarrow> u8 \<times> u32" where
  "dr_key on = (on_priority on, on_router_id on)"

text \<open>Steps 2 and 3 of RFC 2328, 9.4, over the routers of a link with what each of them declares: the backup designated router is
  chosen among the eligible routers that do not declare themselves designated router, where those come first
  that declare themselves backup; the designated router among those that declare themselves so, and is the backup if there are none.\<close>
definition rfc_elected :: "ospf6_neighbor set \<Rightarrow> rid \<Rightarrow> rid \<Rightarrow> bool" where
  "rfc_elected R dr bdr \<longleftrightarrow>
     elected {on \<in> R. IS_ELIGIBLE on \<and> on_drouter on \<noteq> on_router_id on} bdr_key bdr \<and>
     (if \<exists>on \<in> R. IS_ELIGIBLE on \<and> on_drouter on = on_router_id on
      then elected {on \<in> R. IS_ELIGIBLE on \<and> on_drouter on = on_router_id on} dr_key dr
      else dr = bdr)"

text \<open>The best of some routers by a criterion and an order.\<close>
definition is_best :: "('p \<Rightarrow> bool) \<Rightarrow> ('p \<Rightarrow> 'k::linorder) \<Rightarrow> 'p set \<Rightarrow> 'p option \<Rightarrow> bool" where
  "is_best C key S res \<longleftrightarrow>
     (case res of None \<Rightarrow> \<forall>y \<in> S. \<not> C y | Some x \<Rightarrow> x \<in> S \<and> C x \<and> (\<forall>y \<in> S. C y \<longrightarrow> key y \<le> key x))"

abbreviation (input) bdr_cand :: "ospf6_neighbor \<Rightarrow> bool" where
  "bdr_cand on \<equiv> IS_ELIGIBLE on \<and> on_drouter on \<noteq> on_router_id on"

abbreviation (input) dr_cand :: "ospf6_neighbor \<Rightarrow> bool" where
  "dr_cand on \<equiv> IS_ELIGIBLE on \<and> on_drouter on = on_router_id on"

lemma first_better_bdr:
  "first_better (on_bdrouter a = on_router_id a) (on_bdrouter b = on_router_id b) a b \<longleftrightarrow> bdr_key b \<le> bdr_key a"
  by (auto simp: first_better_def bdr_key_def less_eq_prod_def)

lemma first_better_dr: "first_better d d a b \<longleftrightarrow> dr_key b \<le> dr_key a"
  by (auto simp: first_better_def dr_key_def less_eq_prod_def)

lemma better_bdrouter_eq:
  assumes "case a of None \<Rightarrow> True | Some x \<Rightarrow> bdr_cand (r x)"
  shows "better_bdrouter r a (Some y) =
    (if bdr_cand (r y) \<and> (case a of None \<Rightarrow> True | Some x \<Rightarrow> \<not> bdr_key (r y) \<le> bdr_key (r x)) then Some y else a)"
  using assms by (cases a) (auto simp: better_bdrouter_def first_better_bdr Let_def)

lemma better_drouter_eq:
  assumes "case a of None \<Rightarrow> True | Some x \<Rightarrow> dr_cand (r x)"
  shows "better_drouter r a (Some y) =
    (if dr_cand (r y) \<and> (case a of None \<Rightarrow> True | Some x \<Rightarrow> \<not> dr_key (r y) \<le> dr_key (r x)) then Some y else a)"
  using assms by (cases a) (auto simp: better_drouter_def first_better_dr Let_def)

text \<open>What both comparisons promise: the better of a candidate and another router is the larger one, or the candidate if the other is none.\<close>
locale election =
  fixes cand :: "'p \<Rightarrow> bool" and key :: "'p \<Rightarrow> 'k::linorder" and better :: "'p option \<Rightarrow> 'p option \<Rightarrow> 'p option"
  assumes better: "(case a of None \<Rightarrow> True | Some x \<Rightarrow> cand x) \<Longrightarrow>
    better a (Some y) = (if cand y \<and> (case a of None \<Rightarrow> True | Some x \<Rightarrow> \<not> key y \<le> key x) then Some y else a)"
begin

lemma best_cand: "is_best cand key S a \<Longrightarrow> case a of None \<Rightarrow> True | Some x \<Rightarrow> cand x"
  by (auto simp: is_best_def split: option.splits)

lemma best_better:
  assumes "is_best cand key S a"
  shows "is_best cand key (insert y S) (better a (Some y))"
  unfolding better [OF best_cand [OF assms]]
  using assms by (cases a) (auto simp: is_best_def intro: order.trans)

lemma fold_best: "is_best cand key (set ys) (fold (\<lambda>y a. better a (Some y)) ys None)"
proof -
  have "is_best cand key (S \<union> set ys) (fold (\<lambda>y a. better a (Some y)) ys a)" if "is_best cand key S a" for S a
    using that
  proof (induction ys arbitrary: S a)
    case (Cons y ys)
    from Cons.IH [OF best_better [OF Cons.prems]] show ?case by simp
  qed simp
  from this [of "{}" None] show ?thesis by (simp add: is_best_def)
qed

end

interpretation bdr_role: election "\<lambda>p. bdr_cand (r p)" "\<lambda>p. bdr_key (r p)" "better_bdrouter r" for r
  by unfold_locales (rule better_bdrouter_eq)

interpretation dr_role: election "\<lambda>p. dr_cand (r p)" "\<lambda>p. dr_key (r p)" "better_drouter r" for r
  by unfold_locales (rule better_drouter_eq)

section \<open>The election follows the rules\<close>

text \<open>A pass, given the best neighbors and what this router declares.\<close>
definition pass :: "bool \<Rightarrow> bool \<Rightarrow> (bool \<Rightarrow> bool) \<Rightarrow> elect option \<Rightarrow> elect option \<Rightarrow> bool \<Rightarrow> bool \<Rightarrow> elect option \<times> elect option" where
  "pass e wd wb bN dN cd cb =
     (let b = (if e \<and> \<not> cd \<and> wb cb then Some Myself else bN);
          d = (if e \<and> cd \<and> wd then Some Myself else dN)
      in (if d = None then b else d, b))"

text \<open>The second pass, with what the first one decided, decides the same again, and never on this router for both.\<close>
lemma pass_fix:
  assumes "bN \<noteq> Some Myself" "dN \<noteq> Some Myself" "wb False \<Longrightarrow> wb True" "bN = None \<Longrightarrow> wb False" "dN = None \<Longrightarrow> wd"
    and "pass e wd wb bN dN cd cb = (d0, b0)"
    and "(if (d0 = Some Myself) \<noteq> cd \<or> (b0 = Some Myself) \<noteq> cb
          then pass e wd wb bN dN (d0 = Some Myself) (b0 = Some Myself) else (d0, b0)) = (d, b)"
  shows "pass e wd wb bN dN (d = Some Myself) (b = Some Myself) = (d, b) \<and> \<not> (d = Some Myself \<and> b = Some Myself)"
  using assms unfolding pass_def Let_def
  by (cases e; cases cd; cases dN; cases bN; auto split: if_splits)

lemma IS_ELIGIBLE_claims [simp]: "IS_ELIGIBLE (on\<lparr>on_drouter := x, on_bdrouter := y\<rparr>) = IS_ELIGIBLE on"
  by (simp add: IS_ELIGIBLE_def)

text \<open>Whether this router is better than the best neighbor.\<close>
definition wins_d :: "world \<Rightarrow> ospf6_neighbor \<Rightarrow> elect option \<Rightarrow> bool" where
  "wins_d w self dN = (case dN of None \<Rightarrow> True | Some p \<Rightarrow> \<not> dr_key self \<le> dr_key (elect_router w self p))"

definition wins_b :: "world \<Rightarrow> ospf6_neighbor \<Rightarrow> elect option \<Rightarrow> bool \<Rightarrow> bool" where
  "wins_b w self bN c =
     (case bN of None \<Rightarrow> True | Some p \<Rightarrow> \<not> (c, on_priority self, on_router_id self) \<le> bdr_key (elect_router w self p))"

abbreviation (input) best_bdr :: "(elect \<Rightarrow> ospf6_neighbor) \<Rightarrow> elect set \<Rightarrow> elect option \<Rightarrow> bool" where
  "best_bdr r \<equiv> is_best (\<lambda>p. bdr_cand (r p)) (\<lambda>p. bdr_key (r p))"

abbreviation (input) best_dr :: "(elect \<Rightarrow> ospf6_neighbor) \<Rightarrow> elect set \<Rightarrow> elect option \<Rightarrow> bool" where
  "best_dr r \<equiv> is_best (\<lambda>p. dr_cand (r p)) (\<lambda>p. dr_key (r p))"

abbreviation claim :: "ospf6_neighbor \<Rightarrow> rid \<Rightarrow> rid \<Rightarrow> ospf6_neighbor" where
  "claim self x y \<equiv> self\<lparr>on_drouter := x, on_bdrouter := y\<rparr>"

lemma claim_self: "on_drouter self = x \<Longrightarrow> on_bdrouter self = y \<Longrightarrow> claim self x y = self"
  by auto

text \<open>The best neighbors do not depend on what this router declares.\<close>

lemma best_claim:
  assumes "best_bdr (elect_router w self) (Nbr ` A) bN" "best_dr (elect_router w self) (Nbr ` A) dN"
  shows "best_bdr (elect_router w self') (Nbr ` A) bN" "best_dr (elect_router w self') (Nbr ` A) dN"
    "bN \<noteq> Some Myself" "dN \<noteq> Some Myself"
  using assms by (auto simp: is_best_def elect_router_def split: option.splits)

lemma elect_pass_claim:
  assumes "best_bdr (elect_router w self) (Nbr ` A) bN" "best_dr (elect_router w self) (Nbr ` A) dN" "on_router_id self = me"
  shows "elect_pass (elect_router w (claim self x y)) bN dN =
    pass (IS_ELIGIBLE self) (wins_d w self dN) (wins_b w self bN) bN dN (x = me) (y = me)"
proof -
  let ?r = "elect_router w (claim self x y)"
  note b = best_claim(1,2) [OF assms(1,2), of "claim self x y"] best_claim(3,4) [OF assms(1,2)]
  have k: "bdr_key (claim self x y) = (y = me, on_priority self, me)" "dr_key (claim self x y) = dr_key self"
    and m: "?r Myself = claim self x y"
    using assms(3) by (simp_all add: bdr_key_def dr_key_def elect_router_def)
  have n: "?r p = elect_router w self p" if "p \<noteq> Myself" for p using that by (cases p) (simp_all add: elect_router_def)
  have w: "(case bN of None \<Rightarrow> True | Some p \<Rightarrow> \<not> (y = me, on_priority self, me) \<le> bdr_key (?r p)) = wins_b w self bN (y = me)"
    "(case dN of None \<Rightarrow> True | Some p \<Rightarrow> \<not> dr_key self \<le> dr_key (?r p)) = wins_d w self dN"
    using b(3,4) assms(3) n by (auto simp: wins_b_def wins_d_def split: option.split)
  have c: "IS_ELIGIBLE (claim self x y) = IS_ELIGIBLE self" "on_drouter (claim self x y) = x" "on_router_id (claim self x y) = me"
    using assms(3) by simp_all
  show ?thesis
    unfolding elect_pass_def bdr_role.better [OF bdr_role.best_cand [OF b(1)]] dr_role.better [OF dr_role.best_cand [OF b(2)]] m k w c pass_def Let_def
    by (intro arg_cong2 [where f = Pair] if_cong) auto
qed

lemma wins_mono: "wins_b w self bN False \<Longrightarrow> wins_b w self bN True"
  by (auto simp: wins_b_def less_eq_prod_def split: option.splits)

lemma is_best_elected:
  assumes "is_best (\<lambda>p. C (r p)) (\<lambda>p. key (r p)) S p"
  shows "elected {on \<in> r ` S. C on} key (elected_id r p)" "p = None \<longleftrightarrow> {on \<in> r ` S. C on} = {}"
  using assms by (auto simp: is_best_def elected_def elected_id_def split: option.splits)

lemma elect_pass_rfc:
  assumes "is_best (\<lambda>p. bdr_cand (r p)) (\<lambda>p. bdr_key (r p)) S bN" "is_best (\<lambda>p. dr_cand (r p)) (\<lambda>p. dr_key (r p)) S dN"
    and "elect_pass r bN dN = (d, b)"
  shows "rfc_elected (r ` insert Myself S) (elected_id r d) (elected_id r b)"
proof -
  define d0 where "d0 = better_drouter r dN (Some Myself)"
  have b: "b = better_bdrouter r bN (Some Myself)" and d: "d = (if d0 = None then b else d0)"
    using assms(3) by (auto simp: elect_pass_def d0_def Let_def)
  have "is_best (\<lambda>p. bdr_cand (r p)) (\<lambda>p. bdr_key (r p)) (insert Myself S) b"
    unfolding b by (rule bdr_role.best_better [OF assms(1)])
  note B = is_best_elected [where C = bdr_cand and key = bdr_key, OF this]
  have "is_best (\<lambda>p. dr_cand (r p)) (\<lambda>p. dr_key (r p)) (insert Myself S) d0"
    unfolding d0_def by (rule dr_role.best_better [OF assms(2)])
  note D = is_best_elected [where C = dr_cand and key = dr_key, OF this]
  have "d0 = None \<longleftrightarrow> \<not> (\<exists>on \<in> r ` insert Myself S. IS_ELIGIBLE on \<and> on_drouter on = on_router_id on)"
    unfolding D(2) by blast
  then show ?thesis unfolding rfc_elected_def d using B(1) D(1) by (cases "d0 = None") auto
qed

lemma dr_elect_rfc:
  assumes "me \<noteq> 0" "\<forall>j < w_num w. on_router_id (w_nbr w j) \<noteq> me" "dr_elect me w = (dr, bdr, st)"
  shows "rfc_elected (insert (claim (dr_myself me (w_oi w)) dr bdr) (set (oi_neighbor_list (w_oi w)))) dr bdr \<and>
    st = (if dr = me then OSPF6_INTERFACE_DR else if bdr = me then OSPF6_INTERFACE_BDR else OSPF6_INTERFACE_DROTHER) \<and>
    \<not> (dr = me \<and> bdr = me)"
proof -
  define self r where "self = dr_myself me (w_oi w)" and "r = elect_router w self"
  define bN where "bN = fold (\<lambda>on bdrouter. better_bdrouter r bdrouter (Some on)) (map Nbr [0 ..< w_num w]) None"
  define dN where "dN = fold (\<lambda>on drouter. better_drouter r drouter (Some on)) (map Nbr [0 ..< w_num w]) None"
  have me: "on_router_id self = me" "on_drouter self = oi_drouter (w_oi w)" "on_bdrouter self = oi_bdrouter (w_oi w)"
    by (simp_all add: self_def dr_myself_def neighbor_alloc_def)
  have "best_bdr r (set (map Nbr [0 ..< w_num w])) bN" "best_dr r (set (map Nbr [0 ..< w_num w])) dN"
    unfolding bN_def dN_def by (rule bdr_role.fold_best, rule dr_role.fold_best)
  then have best: "best_bdr (elect_router w self) (Nbr ` {0 ..< w_num w}) bN" "best_dr (elect_router w self) (Nbr ` {0 ..< w_num w}) dN"
    by (simp_all add: r_def)
  define P where "P = pass (IS_ELIGIBLE self) (wins_d w self dN) (wins_b w self bN) bN dN"
  note passc = elect_pass_claim [OF best me(1), folded P_def] and bestc = best_claim [OF best]
  have id: "elected_id (elect_router w self') p = elected_id r p" "elected_id r p = me \<longleftrightarrow> p = Some Myself"
    if "p \<in> {Some Myself, bN, dN}" "on_router_id self' = me" for self' p
    using that assms(1,2) me(1) best by (auto simp: elected_id_def r_def elect_router_def is_best_def split: option.splits)
  obtain d0 b0 where p0: "P (oi_drouter (w_oi w) = me) (oi_bdrouter (w_oi w) = me) = (d0, b0)" by fastforce
  obtain d b where p1: "(if (d0 = Some Myself) \<noteq> (oi_drouter (w_oi w) = me) \<or> (b0 = Some Myself) \<noteq> (oi_bdrouter (w_oi w) = me)
          then P (d0 = Some Myself) (b0 = Some Myself) else (d0, b0)) = (d, b)" by fastforce
  have range: "d' \<in> {Some Myself, bN, dN} \<and> b' \<in> {Some Myself, bN, dN}" if "P cd cb = (d', b')" for cd cb d' b'
    using that by (auto simp: P_def pass_def Let_def split: if_splits)
  have in1: "d \<in> {Some Myself, bN, dN}" "b \<in> {Some Myself, bN, dN}"
    using p1 range [OF p0] range [of "d0 = Some Myself" "b0 = Some Myself" d b] by (auto split: if_splits)
  have w: "bN = None \<Longrightarrow> wins_b w self bN False" "dN = None \<Longrightarrow> wins_d w self dN" by (simp_all add: wins_b_def wins_d_def)
  have stable: "P (d = Some Myself) (b = Some Myself) = (d, b) \<and> \<not> (d = Some Myself \<and> b = Some Myself)"
    unfolding P_def by (rule pass_fix [OF bestc(3,4) wins_mono w p0 [unfolded P_def] p1 [unfolded P_def]])
  have e0: "elect_pass r bN dN = (d0, b0)"
    using passc [where x = "on_drouter self" and y = "on_bdrouter self"] p0 me(2,3) by (simp add: r_def claim_self)
  have e1: "elect_pass (elect_router w (claim self (elected_id r d0) (elected_id r b0))) bN dN = P (d0 = Some Myself) (b0 = Some Myself)"
    using range [OF p0] id(2) me(1) unfolding passc by simp
  have "dr_elect me w = (elected_id r d, elected_id r b, if d = Some Myself then OSPF6_INTERFACE_DR
      else if b = Some Myself then OSPF6_INTERFACE_BDR else OSPF6_INTERFACE_DROTHER)"
    unfolding dr_elect_def Let_def self_def [symmetric] r_def [symmetric] bN_def [symmetric] dN_def [symmetric] e0 prod.case me e1 p1
    by (rule refl)
  then have res: "dr = elected_id r d" "bdr = elected_id r b" "st = (if d = Some Myself then OSPF6_INTERFACE_DR
      else if b = Some Myself then OSPF6_INTERFACE_BDR else OSPF6_INTERFACE_DROTHER)" using assms(3) by simp_all
  have mine: "dr = me \<longleftrightarrow> d = Some Myself" "bdr = me \<longleftrightarrow> b = Some Myself" using id(2) in1 me(1) res(1,2) by blast+
  let ?r = "elect_router w (claim self dr bdr)"
  have "elect_pass ?r bN dN = (d, b)" unfolding passc mine using stable by blast
  from elect_pass_rfc [OF bestc(1,2) this]
  have "rfc_elected (?r ` insert Myself (Nbr ` {0 ..< w_num w})) dr bdr" using id(1) in1 me(1) res(1,2) by simp
  moreover have "?r ` insert Myself (Nbr ` {0 ..< w_num w}) = insert (claim self dr bdr) (set (oi_neighbor_list (w_oi w)))"
    by (auto simp: elect_router_def image_image set_conv_nth)
  ultimately show ?thesis using res(3) stable mine by (simp add: self_def)
qed

text \<open>The scheduling of \<^verbatim>\<open>AdjOK?\<close> sets timers of the neighbors only.\<close>
definition adjok_nbr :: "ospf6_neighbor \<Rightarrow> ospf6_neighbor" where
  "adjok_nbr on = (if on_state on \<ge> OSPF6_NEIGHBOR_TWOWAY \<and> on_thread_adjok on = None then on\<lparr>on_thread_adjok := Some 0\<rparr> else on)"

lemma schedule_adjok_all_eq:
  "schedule_adjok_all w = w\<lparr>w_oi := (w_oi w)\<lparr>oi_neighbor_list := map adjok_nbr (oi_neighbor_list (w_oi w))\<rparr>\<rparr>"
proof -
  let ?f = "\<lambda>j w. if on_state (w_nbr w j) < OSPF6_NEIGHBOR_TWOWAY then w else ospf6_neighbor_schedule_adjok j w"
  have step: "?f j w = w_nbr_update j adjok_nbr w" for j w
    by (auto simp: ospf6_neighbor_schedule_adjok_def adjok_nbr_def w_nbr_update_def nbr_update_def not_less)
  have "fold ?f [0 ..< k] w = w\<lparr>w_oi := (w_oi w)\<lparr>oi_neighbor_list :=
      map adjok_nbr (take k (oi_neighbor_list (w_oi w))) @ drop k (oi_neighbor_list (w_oi w))\<rparr>\<rparr>" if "k \<le> w_num w" for k
    using that
  proof (induction k)
    case (Suc k)
    let ?ns = "oi_neighbor_list (w_oi w)"
    have "fold ?f [0 ..< Suc k] w = ?f k (fold ?f [0 ..< k] w)" by simp
    also have "\<dots> = w_nbr_update k adjok_nbr (w\<lparr>w_oi := (w_oi w)\<lparr>oi_neighbor_list := map adjok_nbr (take k ?ns) @ drop k ?ns\<rparr>\<rparr>)"
      using Suc.IH Suc.prems by (simp only: step Suc_leD)
    also have "\<dots> = w\<lparr>w_oi := (w_oi w)\<lparr>oi_neighbor_list := map adjok_nbr (take (Suc k) ?ns) @ drop (Suc k) ?ns\<rparr>\<rparr>"
      using Suc.prems
      by (simp add: w_nbr_update_def nbr_update_def nth_append list_update_append take_Suc_conv_app_nth flip: Cons_nth_drop_Suc)
    finally show ?case .
  qed simp
  from this [OF order.refl] show ?thesis by (simp add: schedule_adjok_all_def)
qed

text \<open>C15: The election of the designated router follows RFC 2328: its result satisfies the rules of section 9.4 over the neighbors and this
  router, with what the router declares from now on, so that a further election would change nothing. The router never
  elects itself for both roles, its state is its role, and the neighbors that are at least 2-Way reconsider their adjacency exactly if
  one of the two routers has changed.\<close>
theorem dr_election_follows_rfc:
  assumes "me \<noteq> 0" "\<forall>j < w_num w. on_router_id (w_nbr w j) \<noteq> me" "dr_election me w = (st, w')"
  shows "rfc_elected (insert (dr_myself me (w_oi w')) (set (oi_neighbor_list (w_oi w)))) (oi_drouter (w_oi w')) (oi_bdrouter (w_oi w')) \<and>
    \<not> (oi_drouter (w_oi w') = me \<and> oi_bdrouter (w_oi w') = me) \<and>
    st = (if oi_drouter (w_oi w') = me then OSPF6_INTERFACE_DR
          else if oi_bdrouter (w_oi w') = me then OSPF6_INTERFACE_BDR else OSPF6_INTERFACE_DROTHER) \<and>
    oi_neighbor_list (w_oi w') =
      (if oi_drouter (w_oi w') \<noteq> oi_drouter (w_oi w) \<or> oi_bdrouter (w_oi w') \<noteq> oi_bdrouter (w_oi w)
       then map adjok_nbr (oi_neighbor_list (w_oi w)) else oi_neighbor_list (w_oi w))"
proof -
  obtain dr bdr st' where e: "dr_elect me w = (dr, bdr, st')" by (cases "dr_elect me w")
  let ?c = "oi_drouter (w_oi w) \<noteq> dr \<or> oi_bdrouter (w_oi w) \<noteq> bdr"
  have w': "w' = w\<lparr>w_oi := (w_oi w)\<lparr>oi_neighbor_list :=
        (if ?c then map adjok_nbr (oi_neighbor_list (w_oi w)) else oi_neighbor_list (w_oi w)), oi_drouter := dr, oi_bdrouter := bdr\<rparr>\<rparr>" "st = st'"
    using assms(3) e by (auto simp: dr_election_def schedule_adjok_all_eq Let_def)
  have "dr_myself me (w_oi w') = claim (dr_myself me (w_oi w)) dr bdr" by (simp add: w' dr_myself_def neighbor_alloc_def)
  then show ?thesis using dr_elect_rfc [OF assms(1,2) e] w' by auto
qed

text \<open>The interface with the neighbors 5 and 7, of which none declares anything.\<close>
definition example_link :: world where
  "example_link = \<lparr>w_oi = example_interface, w_area_lsdb = [], w_as_lsdb = []\<rparr>"

theorem dr_election_follows_rfc_witness:
  "case dr_election 3 example_link of (st, w') \<Rightarrow>
     rfc_elected (insert (dr_myself 3 (w_oi w')) (set (oi_neighbor_list example_interface))) (oi_drouter (w_oi w')) (oi_bdrouter (w_oi w')) \<and>
     st \<noteq> OSPF6_INTERFACE_WAITING"
proof -
  obtain st w' where e: "dr_election 3 example_link = (st, w')" by fastforce
  have "\<forall>j < w_num example_link. on_router_id (w_nbr example_link j) \<noteq> 3"
    by (auto simp: example_link_def example_defs Let_def less_Suc_eq nth_Cons')
  from dr_election_follows_rfc [OF _ this e] show ?thesis unfolding e by (auto simp: example_link_def)
qed

section \<open>Roles\<close>

text \<open>Whether the router listens to the packets for designated routers, after a sequence of effects.\<close>
primrec joined_from :: "bool \<Rightarrow> effect list \<Rightarrow> bool" where
  "joined_from j [] = j"
| "joined_from j (e # es) = joined_from (case e of AllDRouters b \<Rightarrow> b | _ \<Rightarrow> j) es"

abbreviation joined :: "effect list \<Rightarrow> bool" where
  "joined \<equiv> joined_from False"

definition role_ok :: "rid \<Rightarrow> ospf6_interface \<Rightarrow> bool" where
  "role_ok me oi \<longleftrightarrow>
     (oi_state oi = OSPF6_INTERFACE_DR \<longrightarrow> oi_drouter oi = me) \<and>
     (oi_state oi = OSPF6_INTERFACE_BDR \<longrightarrow> oi_bdrouter oi = me \<and> oi_drouter oi \<noteq> me) \<and>
     (joined (oi_effects oi) \<longleftrightarrow> dr_or_bdr (oi_state oi))"

text \<open>The life of an interface: the events of its state machine, with any changes by other components in between that leave the
  state, the elected routers and the group alone.\<close>
inductive if_step :: "rid \<Rightarrow> world \<Rightarrow> world \<Rightarrow> bool" for me where
  up: "interface_up env n (w_oi w) = (n', oi) \<Longrightarrow> if_step me w (w\<lparr>w_oi := oi\<rparr>)"
| wait: "\<forall>j < w_num w. on_router_id (w_nbr w j) \<noteq> me \<Longrightarrow> if_step me w (wait_timer me w)"
| backup: "\<forall>j < w_num w. on_router_id (w_nbr w j) \<noteq> me \<Longrightarrow> if_step me w (backup_seen me w)"
| change: "\<forall>j < w_num w. on_router_id (w_nbr w j) \<noteq> me \<Longrightarrow> if_step me w (neighbor_change me w)"
| down: "if_step me w (w\<lparr>w_oi := ospf6_interface_state_change OSPF6_INTERFACE_DOWN (w_oi w)\<rparr>)"
| other: "oi_state (w_oi w') = oi_state (w_oi w) \<Longrightarrow> oi_drouter (w_oi w') = oi_drouter (w_oi w) \<Longrightarrow>
    oi_bdrouter (w_oi w') = oi_bdrouter (w_oi w) \<Longrightarrow> joined (oi_effects (w_oi w')) = joined (oi_effects (w_oi w)) \<Longrightarrow> if_step me w w'"

lemma joined_append [simp]: "joined_from j (es @ es') = joined_from (joined_from j es) es'"
  by (induction es arbitrary: j) simp_all

lemma emit_role [simp]:
  "oi_state (emit e oi) = oi_state oi" "oi_drouter (emit e oi) = oi_drouter oi" "oi_bdrouter (emit e oi) = oi_bdrouter oi"
  "oi_effects (emit e oi) = oi_effects oi @ [e]"
  by (simp_all add: emit_def)

lemma state_change_role:
  assumes "joined (oi_effects oi) \<longleftrightarrow> dr_or_bdr (oi_state oi)"
  shows "oi_state (ospf6_interface_state_change s oi) = s" "oi_drouter (ospf6_interface_state_change s oi) = oi_drouter oi"
    "oi_bdrouter (ospf6_interface_state_change s oi) = oi_bdrouter oi"
    "joined (oi_effects (ospf6_interface_state_change s oi)) \<longleftrightarrow> dr_or_bdr s"
  using assms by (auto simp: ospf6_interface_state_change_def Let_def)

lemma if_elect_role:
  assumes "me \<noteq> 0" "\<forall>j < w_num w. on_router_id (w_nbr w j) \<noteq> me" "role_ok me (w_oi w)"
  shows "role_ok me (w_oi (if_elect me w))"
proof -
  obtain dr bdr st where e: "dr_elect me w = (dr, bdr, st)" by (cases "dr_elect me w")
  obtain w' where w': "dr_election me w = (st, w')" "oi_drouter (w_oi w') = dr" "oi_bdrouter (w_oi w') = bdr"
    "oi_state (w_oi w') = oi_state (w_oi w)" "oi_effects (w_oi w') = oi_effects (w_oi w)"
    using e by (auto simp: dr_election_def schedule_adjok_all_eq Let_def)
  have "joined (oi_effects (w_oi w')) \<longleftrightarrow> dr_or_bdr (oi_state (w_oi w'))" using assms(3) w'(4,5) by (simp add: role_ok_def)
  note s = state_change_role [OF this, where s = st]
  show ?thesis using dr_elect_rfc [OF assms(1,2) e] w' s by (auto simp: if_elect_def role_ok_def split: if_splits)
qed

lemma interface_up_role:
  assumes "role_ok me oi" "interface_up env n oi = (n', oi')"
  shows "role_ok me oi'"
proof -
  have f: "role_ok me (fold (\<lambda>on. emit (InactivityEvent (on_router_id on))) ns x) = role_ok me x" for ns x
    by (induction ns arbitrary: x) (simp_all add: role_ok_def)
  have n: "role_ok me (x\<lparr>oi_neighbor_list := ns\<rparr>) = role_ok me x" "role_ok me (x\<lparr>oi_ifmtu := m\<rparr>) = role_ok me x"
    "role_ok me (x\<lparr>oi_type := ty\<rparr>) = role_ok me x" "role_ok me (x\<lparr>oi_cost := c\<rparr>) = role_ok me x"
    "role_ok me (x\<lparr>oi_thread_send_hello := t\<rparr>) = role_ok me x" for x ns m ty c t
    by (simp_all add: role_ok_def)
  have e: "role_ok me (emit e x) = role_ok me x" if "case e of AllDRouters g \<Rightarrow> False | _ \<Rightarrow> True" for e x
    using that by (cases e) (simp_all add: role_ok_def)
  have b: "role_ok me (ospf6_interface_update_bandwidth env x) = role_ok me x" for x
    by (simp add: ospf6_interface_update_bandwidth_def ospf6_interface_cost_change_def Let_def n e)
  have m: "role_ok me (snd (ospf6_interface_update_mtu env k x)) = role_ok me x" for k x
    by (auto simp: ospf6_interface_update_mtu_def ospf6_interface_mtu_change_def Let_def n f split: if_splits)
  let ?oi = "ospf6_interface_update_bandwidth env (oi\<lparr>oi_type := if_up_type env oi\<rparr>)"
  obtain k x where x: "ospf6_interface_update_mtu env n ?oi = (k, x)" by fastforce
  have rx: "role_ok me x" using m [of n ?oi] x b n(3) assms(1) by simp
  have up: "\<not> dr_or_bdr (if_up_state y)" for y by (simp add: if_up_state_def split: if_type.split)
  have c: "role_ok me (ospf6_interface_state_change (if_up_state y) y)" if "role_ok me y" for y
    using state_change_role [where oi = y and s = "if_up_state y"] that up [of y] by (simp add: role_ok_def)
  define y where "y = emit ConnectedRouteUpdate x"
  have ry: "role_ok me y" using rx by (simp add: y_def e)
  have oi': "oi' = snd (interface_up env n oi)" using assms(2) by simp
  have "oi' \<in> {oi, x, y} \<or> role_ok me oi'"
  proof (cases "ie_operative env \<and> \<not> if_state_num (oi_state x) > if_state_num OSPF6_INTERFACE_DOWN \<and>
      \<not> (oi_type y \<noteq> OSPF6_IFTYPE_LOOPBACK \<and> \<not> if_passive y \<and> \<not> ie_has_linklocal env)")
    case True
    then show ?thesis unfolding oi' using x c [OF ry]
      by (cases "if_up_state y = OSPF6_INTERFACE_WAITING") (simp_all add: interface_up_def y_def [symmetric] Let_def e n)
  next
    case False
    then show ?thesis unfolding oi' using x
      by (cases "ie_operative env"; cases "if_state_num (oi_state x) > if_state_num OSPF6_INTERFACE_DOWN")
        (simp_all add: interface_up_def y_def [symmetric] Let_def)
  qed
  then show ?thesis using assms(1) rx ry by blast
qed

text \<open>C21: The role of the router on a link is consistent over all events: an interface in state DR has elected this router as designated
  router, one in state Backup has elected it as the backup and another one as designated router, and the router is in the multicast group of designated
  routers exactly in these two states.\<close>
theorem interface_roles:
  assumes "(if_step me)\<^sup>*\<^sup>* w0 w" "me \<noteq> 0" "oi_state (w_oi w0) = OSPF6_INTERFACE_DOWN" "oi_effects (w_oi w0) = []"
  shows "role_ok me (w_oi w)"
  using assms(1)
proof (induction rule: rtranclp_induct)
  case base
  show ?case using assms(3,4) by (simp add: role_ok_def)
next
  case (step w w')
  from step.hyps(2) show ?case
  proof cases
    case up
    then show ?thesis using interface_up_role [OF step.IH] by simp
  next
    case down
    then show ?thesis using state_change_role [of "w_oi w" OSPF6_INTERFACE_DOWN] step.IH by (simp add: role_ok_def)
  next
    case other
    then show ?thesis using step.IH by (simp add: role_ok_def)
  qed (use if_elect_role [OF assms(2)] step.IH in \<open>auto simp: wait_timer_def backup_seen_def neighbor_change_def\<close>)
qed

text \<open>A broadcast network device, and the interface after its start.\<close>
definition example_device :: if_env where
  "example_device = \<lparr>ie_operative = True, ie_broadcast = True, ie_pointopoint = False, ie_loopback = False, ie_has_linklocal = True,
     ie_cost_configured = False, ie_bandwidth = 10000, ie_reference_bandwidth = 100, ie_mtu6 = 1500\<rparr>"

definition example_down :: world where
  "example_down = \<lparr>w_oi = the (ospf6_interface_create 1), w_area_lsdb = [], w_as_lsdb = []\<rparr>"

definition example_up :: world where
  "example_up = example_down\<lparr>w_oi := snd (interface_up example_device 4096 (w_oi example_down))\<rparr>"

lemma example_up_facts: "w_num example_up = 0" "oi_state (w_oi example_down) = OSPF6_INTERFACE_DOWN" "oi_effects (w_oi example_down) = []"
  by code_simp+

theorem interface_roles_witness: "role_ok 3 (w_oi (wait_timer 3 example_up))"
proof -
  have 1: "if_step 3 example_down example_up"
    unfolding example_up_def by (rule if_step.up) (rule prod.collapse [symmetric])
  have 2: "if_step 3 example_up (wait_timer 3 example_up)" by (rule if_step.wait) (simp add: example_up_facts)
  show ?thesis
    by (rule interface_roles [OF rtranclp.rtrancl_into_rtrancl [OF r_into_rtranclp [where r = "if_step 3", OF 1] 2]])
      (simp_all add: example_up_facts)
qed

end
