(* ===== verification/Hello.thy ===== *)
theory Hello
  imports Interface Mdr_Hello_Props
begin

text \<open>
  The Hello messages of all interfaces: \<open>ospf6_hello_recv\<close> and \<open>ospf6_hello_send\<close> of \<^verbatim>\<open>src/ospf6d/ospf6_message.c\<close>. A
  received Hello finds or creates its neighbor, and goes to the code for MDR interfaces or to the events of the neighbor and of the
  interface. What two routers learn of each other by a Hello is the property at the end.
\<close>

unbundle bit_operations_syntax

section \<open>Receiving\<close>

abbreviation (input) OSPF6_OPT_AF :: u8 where "OSPF6_OPT_AF \<equiv> 1"
abbreviation (input) OSPF6_OPT_E :: u8 where "OSPF6_OPT_E \<equiv> 2"

definition ospf6_af_is_ipv6_unicast :: "ospf6 \<Rightarrow> bool" where
  "ospf6_af_is_ipv6_unicast o6 \<longleftrightarrow> o_instance_id o6 AND 0xe0 = 0"

text \<open>The checks of a Hello against the configuration.\<close>
definition hello_accepts :: "hello_env \<Rightarrow> ospf6_hello \<Rightarrow> ospf6_interface \<Rightarrow> bool" where
  "hello_accepts env hello oi =
     (if he_area_options env ! 1 AND OSPF6_OPT_AF \<noteq> 0 \<and> \<not> ospf6_af_is_ipv6_unicast (ne_ospf6 (he_nbr env)) \<and>
         hl_options hello ! 1 AND OSPF6_OPT_AF = 0 then False
      else if hl_hello_interval hello \<noteq> oi_hello_interval oi then False
      else if hl_dead_interval hello \<noteq> oi_dead_interval oi then False
      else if hl_options hello ! 2 AND OSPF6_OPT_E \<noteq> he_area_options env ! 2 AND OSPF6_OPT_E then False
      else True)"

text \<open>The position of the neighbor with a router ID.\<close>
definition nbr_index :: "rid \<Rightarrow> world \<Rightarrow> nat option" where
  "nbr_index router_id w = List.find (\<lambda>j. on_router_id (w_nbr w j) = router_id) [0 ..< w_num w]"

text \<open>The neighbor is found or created. The result of a failed creation is dereferenced.\<close>
definition hello_neighbor :: "hello_env \<Rightarrow> rid \<Rightarrow> ospf6_hello \<Rightarrow> world \<Rightarrow> (nat \<times> world) option" where
  "hello_neighbor env router_id hello w =
     (case nbr_index router_id w of
        Some j \<Rightarrow> Some (j, w)
      | None \<Rightarrow>
          Option.bind (ospf6_neighbor_create (he_nbr env) router_id w) (\<lambda>(created, w).
          if \<not> created then None
          else Option.bind (nbr_index router_id w) (\<lambda>j.
            Some (j, w_nbr_update j (\<lambda>on. on\<lparr>on_prev_drouter := hl_drouter hello, on_drouter := hl_drouter hello,
                       on_prev_bdrouter := hl_bdrouter hello, on_bdrouter := hl_bdrouter hello,
                       on_priority := hl_priority hello\<rparr>) w))))"

text \<open>The interface ID and the address of the sender.\<close>
definition hello_address :: "u8 list \<Rightarrow> ospf6_hello \<Rightarrow> nat \<Rightarrow> world \<Rightarrow> world" where
  "hello_address src hello j w =
     (let w = (if on_ifindex (w_nbr w j) \<noteq> hl_interface_id hello then
                 let w = w_nbr_update j (on_ifindex_update (\<lambda>_. hl_interface_id hello)) w;
                     oi = w_oi w; on = w_nbr w j
                 in if on_state on = OSPF6_NEIGHBOR_FULL \<and>
                       (\<not> (oi_type oi = OSPF6_IFTYPE_BROADCAST \<or> oi_type oi = OSPF6_IFTYPE_NBMA) \<or>
                        on_router_id on = oi_drouter oi) \<or>
                       oi_type oi = OSPF6_IFTYPE_MDR \<and> nm_adv (on_mdr on)
                    then w_emit RouterLsaSchedule w else w
               else w)
      in w_nbr_update j (on_linklocal_addr_update (\<lambda>_. src)) w)"

text \<open>Priority, designated router and backup of the neighbor, and whether the interface must reconsider its own.\<close>
definition hello_fields :: "ospf6_hello \<Rightarrow> ospf6_neighbor \<Rightarrow> bool \<times> ospf6_neighbor" where
  "hello_fields hello on =
     (let (c1, on) = (if on_priority on \<noteq> hl_priority hello
                      then (True, on\<lparr>on_priority := hl_priority hello\<rparr>) else (False, on));
          (c2, on) = (if on_drouter on \<noteq> hl_drouter hello
                      then let on = on\<lparr>on_prev_drouter := on_drouter on, on_drouter := hl_drouter hello\<rparr>
                           in (on_prev_drouter on = on_router_id on \<or> on_drouter on = on_router_id on, on)
                      else (False, on));
          (c3, on) = (if on_bdrouter on \<noteq> hl_bdrouter hello
                      then let on = on\<lparr>on_prev_bdrouter := on_bdrouter on, on_bdrouter := hl_bdrouter hello\<rparr>
                           in (on_prev_bdrouter on = on_router_id on \<or> on_bdrouter on = on_router_id on, on)
                      else (False, on))
      in (c1 \<or> c2 \<or> c3, on))"

text \<open>The router IDs are read up to the end of the packet, which the code asserts to be where the last one ends.\<close>
definition hello_recv_events :: "hello_env \<Rightarrow> nat \<Rightarrow> hello_packet \<Rightarrow> world \<Rightarrow> world option" where
  "hello_recv_events env j pkt w =
     (let hello = hp_hello pkt; len = unat (hp_length pkt) in
      if len < 36 \<or> (len - 36) mod 4 \<noteq> 0 then None
      else
        let is_2way = (he_router_id env \<in> set (take ((len - 36) div 4) (hp_rids pkt)));
            (neighborchange, on) = hello_fields hello (w_nbr w j);
            w = w_nbr_update j (\<lambda>_. on) w;
            backupseen = (oi_state (w_oi w) = OSPF6_INTERFACE_WAITING \<and>
              (hl_bdrouter hello = on_router_id on \<or> hl_drouter hello = on_router_id on \<and> hl_bdrouter hello = 0)) in
        Option.bind (hello_received (he_nbr env) j w) (\<lambda>w.
        Option.bind (if is_2way then twoway_received (he_nbr env) j w else oneway_received (he_nbr env) j w) (\<lambda>w.
        let w = (if backupseen then w_emit BackupSeen w else w)
        in Some (if neighborchange then w_emit NeighborChange w else w))))"

definition ospf6_hello_recv :: "hello_env \<Rightarrow> u8 list \<Rightarrow> hello_packet \<Rightarrow> world \<Rightarrow> world option" where
  "ospf6_hello_recv env src pkt w =
     (if \<not> hello_accepts env (hp_hello pkt) (w_oi w) then Some w
      else
        Option.bind (hello_neighbor env (hp_router_id pkt) (hp_hello pkt) w) (\<lambda>(j, w).
        let w = hello_address src (hp_hello pkt) j w in
        if he_hook_err env (hp_router_id pkt) then
          Some (if on_inactivity_timer (w_nbr w j) = None then ospf6_neighbor_schedule_inactivity j w else w)
        else if oi_type (w_oi w) = OSPF6_IFTYPE_MDR then ospf6_mdr_hello_recv env j pkt w
        else hello_recv_events env j pkt w))"

section \<open>Sending\<close>

definition ospf6_packet_max :: "ospf6_interface \<Rightarrow> nat option" where
  "ospf6_packet_max oi = (if unat (oi_ifmtu oi) > 40 then Some (unat (oi_ifmtu oi) - 40) else None)"

text \<open>The loop over the neighbors, from a position in the packet.\<close>
fun hello_send_rids :: "ospf6_interface \<Rightarrow> nat \<Rightarrow> ospf6_neighbor list \<Rightarrow> rid list option" where
  "hello_send_rids oi pos [] = Some []"
| "hello_send_rids oi pos (on # ons) =
     (if on_state on < OSPF6_NEIGHBOR_INIT then hello_send_rids oi pos ons
      else Option.bind (ospf6_packet_max oi) (\<lambda>packet_max.
        if pos + 4 > packet_max then Some []
        else map_option (Cons (on_router_id on)) (hello_send_rids oi (pos + 4) ons)))"

text \<open>The packet, if one is sent, and the state.\<close>
definition ospf6_hello_send :: "hello_env \<Rightarrow> world \<Rightarrow> (hello_packet option \<times> world) option" where
  "ospf6_hello_send env w =
     (let oi = (w_oi w)\<lparr>oi_thread_send_hello := None\<rparr> in
      if if_state_num (oi_state oi) \<le> if_state_num OSPF6_INTERFACE_LOOPBACK then Some (None, w\<lparr>w_oi := oi\<rparr>)
      else if oi_type oi = OSPF6_IFTYPE_LOOPBACK then Some (None, w\<lparr>w_oi := oi\<rparr>)
      else if if_passive oi then Some (None, w\<lparr>w_oi := oi\<rparr>)
      else
        let now = ne_now (he_nbr env);
            oi = (if oi_allow_immediate_hello oi then
                    let oi = (if oi_immediate_hello_delay oi > 0 \<and>
                                 timersub_msec now (oi_last_hello_time oi) \<ge> 1000 * uint (oi_hello_interval oi)
                              then oi\<lparr>oi_immediate_hello_delay := 0\<rparr> else oi)
                    in oi\<lparr>oi_last_hello_time := now\<rparr>
                  else oi) in
        if oi_type oi = OSPF6_IFTYPE_MDR
        then map_option (\<lambda>(pkt, w). (Some pkt, w)) (ospf6_mdr_hello_send env (w\<lparr>w_oi := oi\<rparr>))
        else
          let oi = ospf6_schedule_hello (he_random env) oi;
              hello = \<lparr>hl_interface_id = oi_ifindex oi, hl_priority = oi_priority oi, hl_options = take 3 (he_area_options env),
                       hl_hello_interval = oi_hello_interval oi, hl_dead_interval = oi_dead_interval oi,
                       hl_drouter = oi_drouter oi, hl_bdrouter = oi_bdrouter oi\<rparr>
          in Option.bind (hello_send_rids oi 36 (oi_neighbor_list oi)) (\<lambda>rids.
             Some (Some \<lparr>hp_router_id = he_router_id env, hp_length = of_nat (36 + 4 * length rids), hp_hello = hello,
                         hp_rids = rids, hp_lls = None\<rparr>, w\<lparr>w_oi := oi\<rparr>)))"

section \<open>The neighbor of a Hello\<close>

text \<open>What a Hello leaves alone of the interface.\<close>
definition link_frame :: "world \<Rightarrow> world \<Rightarrow> bool" where
  "link_frame w w' \<longleftrightarrow> oi_type (w_oi w') = oi_type (w_oi w) \<and>
     oi_adjacency_formation_limit (w_oi w') = oi_adjacency_formation_limit (w_oi w)"

lemma nbr_index_Some:
  assumes "nbr_index r w = Some j"
  shows "j < w_num w" "on_router_id (w_nbr w j) = r"
  using assms by (auto simp: nbr_index_def find_Some_iff)

lemma nbr_index_None: "nbr_index r w = None \<longleftrightarrow> ospf6_neighbor_lookup r (w_oi w) = None"
  by (auto simp: nbr_index_def find_None_iff lookup_None_iff set_conv_nth)

lemma nbr_update_inv:
  assumes "nbr_inv w" "j < w_num w" "nbr_input (w_nbr w j) (f (w_nbr w j))"
  shows "nbr_inv (w_nbr_update j f w)"
proof -
  have "w_nbr_update j f w = w_nbr_update j (\<lambda>_. f (w_nbr w j)) w" by (simp add: w_nbr_update_def nbr_update_def)
  then show ?thesis using nbr_inv_input_update [OF assms] by simp
qed

lemma limit_fields [simp]:
  "oi_adjacency_formation_limit (w_oi (w_nbr_update j f w)) = oi_adjacency_formation_limit (w_oi w)"
  "oi_adjacency_formation_limit (w_oi (w_emit e w)) = oi_adjacency_formation_limit (w_oi w)"
  by (simp_all add: w_nbr_update_def nbr_update_def w_emit_def emit_def)

lemma mdr_neighbor_create_frame:
  fixes on :: ospf6_neighbor and oi :: ospf6_interface
  defines "oi' \<equiv> snd (ospf6_mdr_neighbor_create on oi)"
  shows "oi_type oi' = oi_type oi" "oi_adjacency_formation_limit oi' = oi_adjacency_formation_limit oi"
    "oi_neighbor_list oi' = oi_neighbor_list oi"
  by (simp_all add: oi'_def ospf6_mdr_neighbor_create_def ospf6_mdr_delete_lnl_element_def Let_def split: option.split)

lemma hello_neighbor_ok:
  assumes inv: "nbr_inv w" and r: "r \<noteq> 0" and n: "w_num w < INFTY" and ok: "\<not> ne_create_fails (he_nbr env) r"
  shows "\<exists>j w'. hello_neighbor env r hello w = Some (j, w') \<and> nbr_inv w' \<and> j < w_num w' \<and>
    on_router_id (w_nbr w' j) = r \<and> link_frame w w'"
proof (cases "nbr_index r w")
  case (Some j)
  then show ?thesis using nbr_index_Some [OF Some] inv by (simp add: hello_neighbor_def link_frame_def)
next
  case None
  have l: "ospf6_neighbor_lookup r (w_oi w) = None" using None by (simp add: nbr_index_None)
  obtain w1 where w1: "ospf6_neighbor_create (he_nbr env) r w = Some (True, w1)" "link_frame w w1"
    "oi_neighbor_list (w_oi w1) = listnode_add_sort ospf6_neighbor_cmp (oi_neighbor_list (w_oi w))
        (fst (ospf6_mdr_neighbor_create (neighbor_alloc (ne_now (he_nbr env)) r (w_oi w)) (w_oi w)))"
    using ok by (simp add: ospf6_neighbor_create_def mdr_neighbor_create_frame link_frame_def case_prod_beta Let_def)
  have inv1: "nbr_inv w1" by (rule nbr_create_inv [OF inv r l n w1(1)])
  have "ospf6_neighbor_lookup r (w_oi w1) \<noteq> None"
    by (simp add: lookup_None_iff w1(3) ospf6_mdr_neighbor_create_def neighbor_alloc_def Let_def)
  then obtain j where j: "nbr_index r w1 = Some j" using nbr_index_None [of r w1] by auto
  note j' = nbr_index_Some [OF j]
  show ?thesis
    using None w1(1,2) j j' nbr_update_inv [OF inv1 j'(1)]
    by (simp add: hello_neighbor_def nbr_input_def ls_lists_def link_frame_def)
qed

lemma hello_address_ok:
  assumes inv: "nbr_inv w" and j: "j < w_num w"
  shows "\<exists>w'. hello_address src hello j w = w' \<and> nbr_inv w' \<and> link_frame w w' \<and> w_num w' = w_num w \<and>
    on_router_id (w_nbr w' j) = on_router_id (w_nbr w j) \<and> on_state (w_nbr w' j) = on_state (w_nbr w j)"
proof -
  let ?w1 = "w_nbr_update j (on_ifindex_update (\<lambda>_. hl_interface_id hello)) w"
  have i1: "nbr_inv ?w1" by (rule nbr_update_inv [OF inv j]) (simp add: nbr_input_def ls_lists_def)
  have i2: "nbr_inv (w_nbr_update j (on_linklocal_addr_update (\<lambda>_. src)) w1)" if "nbr_inv w1" "w_num w1 = w_num w" for w1
    by (rule nbr_update_inv [OF that(1)]) (simp_all add: that j nbr_input_def ls_lists_def)
  have i3: "nbr_inv (w_emit RouterLsaSchedule ?w1)" using i1 by (simp add: nbr_inv_def)
  show ?thesis
    using i2 [OF inv] i2 [OF i1] i2 [OF i3] j by (simp add: hello_address_def link_frame_def Let_def)
qed

lemma hello_fields_input: "nbr_input on (snd (hello_fields hello on))"
proof -
  have "\<exists>p d d' b b'. snd (hello_fields hello on) =
      on\<lparr>on_priority := p, on_prev_drouter := d, on_drouter := d', on_prev_bdrouter := b, on_bdrouter := b'\<rparr>"
    by (cases on) (simp add: hello_fields_def Let_def case_prod_beta)
  then show ?thesis by (auto simp: nbr_input_def ls_lists_def)
qed

section \<open>The events of a Hello\<close>

lemma state_change_init_limit:
  assumes "oi_type (w_oi w) \<noteq> OSPF6_IFTYPE_MDR" "state_change_body sc env OSPF6_NEIGHBOR_INIT j w = Some w'"
  shows "oi_adjacency_formation_limit (w_oi w') = oi_adjacency_formation_limit (w_oi w)"
  using assms by (auto simp: state_change_body_def state_set_def full_schedule_def formation_next_def Let_def split: if_splits)

lemma hello_received_limit:
  assumes "oi_type (w_oi w) \<noteq> OSPF6_IFTYPE_MDR" "hello_received env j w = Some w'"
  shows "oi_adjacency_formation_limit (w_oi w') = oi_adjacency_formation_limit (w_oi w)"
proof -
  define w1 where "w1 = ospf6_neighbor_schedule_inactivity j w"
  let ?send = "if oi_allow_immediate_hello (w_oi w1) \<and> on_state (w_nbr w1 j) < OSPF6_NEIGHBOR_TWOWAY
    then map_option (\<lambda>oi. w1\<lparr>w_oi := oi\<rparr>) (ospf6_schedule_immediate_hello (ne_now env) (w_oi w1)) else Some w1"
  obtain w2 where w2: "?send = Some w2"
    "w' = w2 \<or> ospf6_neighbor_state_change env OSPF6_NEIGHBOR_INIT j w2 = Some w'"
    using assms(2) unfolding hello_received_def Let_def w1_def [symmetric] by (cases ?send) (auto split: if_splits)
  have "link_frame w1 w2"
    using w2(1) by (auto simp: ospf6_schedule_immediate_hello_def link_frame_def Let_def split: if_splits)
  moreover have "link_frame w w1" by (simp add: w1_def ospf6_neighbor_schedule_inactivity_def link_frame_def Let_def)
  ultimately have f: "link_frame w w2" by (simp add: link_frame_def)
  show ?thesis
    using w2(2) state_change_init_limit [of w2 "state_change 1 env" env j w'] f assms(1)
    by (auto simp: link_frame_def ospf6_neighbor_state_change_def numeral_2_eq_2)
qed

text \<open>The two events that follow a Hello on an interface that is not MDR and has no limit of forming adjacencies.\<close>
lemma hello_events_ok:
  assumes inv: "nbr_inv w" and j: "j < w_num w" and p: "oi_type (w_oi w) \<noteq> OSPF6_IFTYPE_MDR"
    and l: "oi_adjacency_formation_limit (w_oi w) = 0"
  shows "\<exists>w1 w2. hello_received env j w = Some w1 \<and>
    (if is_2way then twoway_received env j w1 else oneway_received env j w1) = Some w2 \<and> nbr_inv w2 \<and> w_rids w2 = w_rids w \<and>
    w_num w2 = w_num w \<and> (on_state (w_nbr w2 j) \<ge> OSPF6_NEIGHBOR_TWOWAY \<longleftrightarrow> is_2way)"
proof -
  have inv0: "fsm_inv w" using inv by (simp add: nbr_inv_def)
  obtain w1 s1 where w1: "hello_received env j w = Some w1" "event_done s1 j w w1"
    using hello_received_event [OF inv0 j] by blast
  have i1: "fsm_inv w1" "j < w_num w1" "oi_type (w_oi w1) \<noteq> OSPF6_IFTYPE_MDR" "w_rids w1 = w_rids w" "w_num w1 = w_num w"
    using w1(2) j p by (simp_all add: event_done_def)
  have l1: "\<not> fsm_deferred (w_oi w1)" using hello_received_limit [OF p w1(1)] l by (simp add: fsm_deferred_def)
  let ?ev = "if is_2way then TwowayReceived else OnewayReceived"
  let ?s2 = "nbr_fsm_next ?ev (fsm_cond_of w1 j) (on_state (w_nbr w1 j))"
  obtain w2 where w2: "(if is_2way then twoway_received env j w1 else oneway_received env j w1) = Some w2" "event_done ?s2 j w1 w2"
    using twoway_received_event [OF i1(1,2), of env] oneway_received_event [OF i1(1,2), of env] by (cases is_2way) auto
  have "?s2 \<ge> OSPF6_NEIGHBOR_TWOWAY \<longleftrightarrow> is_2way"
    using i1(3) l1 by (cases "on_state (w_nbr w1 j)"; cases is_2way)
      (simp_all add: fsm_cond_of_def less_nbr_state_def less_eq_nbr_state_def)
  then show ?thesis using w1(1) w2 i1 inv by (auto simp: nbr_inv_def event_done_def nbrs_sorted_def)
qed

lemma hello_recv_events_ok:
  assumes inv: "nbr_inv w" and j: "j < w_num w" and p: "oi_type (w_oi w) \<noteq> OSPF6_IFTYPE_MDR"
    and l: "oi_adjacency_formation_limit (w_oi w) = 0" and len: "unat (hp_length pkt) = 36 + 4 * length (hp_rids pkt)"
  shows "\<exists>w'. hello_recv_events env j pkt w = Some w' \<and> nbr_inv w' \<and> w_num w' = w_num w \<and>
    on_router_id (w_nbr w' j) = on_router_id (w_nbr w j) \<and>
    (on_state (w_nbr w' j) \<ge> OSPF6_NEIGHBOR_TWOWAY \<longleftrightarrow> he_router_id env \<in> set (hp_rids pkt))"
proof -
  obtain c on where h: "hello_fields (hp_hello pkt) (w_nbr w j) = (c, on)" by fastforce
  have on: "nbr_input (w_nbr w j) on" using hello_fields_input [of "w_nbr w j" "hp_hello pkt"] h by simp
  let ?w = "w_nbr_update j (\<lambda>_. on) w" and ?two = "he_router_id env \<in> set (hp_rids pkt)"
  have i: "nbr_inv ?w" by (rule nbr_update_inv [OF inv j]) (rule on)
  obtain w1 w2 where w: "hello_received (he_nbr env) j ?w = Some w1"
    "(if ?two then twoway_received (he_nbr env) j w1 else oneway_received (he_nbr env) j w1) = Some w2" "nbr_inv w2"
    "w_rids w2 = w_rids ?w" "w_num w2 = w_num w" "on_state (w_nbr w2 j) \<ge> OSPF6_NEIGHBOR_TWOWAY \<longleftrightarrow> ?two"
    using hello_events_ok [OF i, of j "he_nbr env" ?two] j p l by auto
  have "w_rids w2 ! j = w_rids ?w ! j" using w(4) by simp
  then have "on_router_id (w_nbr w2 j) = on_router_id (w_nbr w j)" using j w(5) on by (simp add: nbr_input_def)
  then show ?thesis
    using w h len unfolding hello_recv_events_def Let_def by (simp add: nbr_inv_def)
qed

lemma hello_recv_ok:
  assumes inv: "nbr_inv w" and n: "w_num w < INFTY" and r: "hp_router_id pkt \<noteq> 0" and acc: "hello_accepts env (hp_hello pkt) (w_oi w)"
    and ok: "\<not> ne_create_fails (he_nbr env) (hp_router_id pkt)" "\<not> he_hook_err env (hp_router_id pkt)"
    and type: "oi_type (w_oi w) \<noteq> OSPF6_IFTYPE_MDR" and lim: "oi_adjacency_formation_limit (w_oi w) = 0"
    and len: "unat (hp_length pkt) = 36 + 4 * length (hp_rids pkt)"
  shows "\<exists>w' j. ospf6_hello_recv env src pkt w = Some w' \<and> nbr_inv w' \<and> j < w_num w' \<and> on_router_id (w_nbr w' j) = hp_router_id pkt \<and>
    (on_state (w_nbr w' j) \<ge> OSPF6_NEIGHBOR_TWOWAY \<longleftrightarrow> he_router_id env \<in> set (hp_rids pkt))"
proof -
  obtain j w1 where w1: "hello_neighbor env (hp_router_id pkt) (hp_hello pkt) w = Some (j, w1)" "nbr_inv w1" "j < w_num w1"
    "on_router_id (w_nbr w1 j) = hp_router_id pkt" "link_frame w w1"
    using hello_neighbor_ok [OF inv r n ok(1), of "hp_hello pkt"] by blast
  obtain w2 where w2: "hello_address src (hp_hello pkt) j w1 = w2" "nbr_inv w2" "link_frame w1 w2" "w_num w2 = w_num w1"
    "on_router_id (w_nbr w2 j) = hp_router_id pkt"
    using hello_address_ok [OF w1(2,3), of src "hp_hello pkt"] w1(4) by auto
  have f: "oi_type (w_oi w2) \<noteq> OSPF6_IFTYPE_MDR" "oi_adjacency_formation_limit (w_oi w2) = 0" "j < w_num w2"
    using w1(3,5) w2(3,4) type lim by (simp_all add: link_frame_def)
  obtain w' where w': "hello_recv_events env j pkt w2 = Some w'" "nbr_inv w'" "w_num w' = w_num w2"
    "on_router_id (w_nbr w' j) = hp_router_id pkt"
    "on_state (w_nbr w' j) \<ge> OSPF6_NEIGHBOR_TWOWAY \<longleftrightarrow> he_router_id env \<in> set (hp_rids pkt)"
    using hello_recv_events_ok [OF w2(2) f(3,1,2) len, of env] w2(5) by auto
  have "ospf6_hello_recv env src pkt w = Some w'"
    using acc w1(1) w2(1) f(1) ok(2) w'(1) by (simp add: ospf6_hello_recv_def Let_def)
  then show ?thesis using w' f(3) by auto
qed

text \<open>A Hello that matches the configuration, on an interface that is not MDR and without a limit of forming adjacencies: no
  assertion fails and no null pointer is followed, the invariant of the neighbors holds again, the sender is a neighbor afterwards, and
  it is in 2-Way or a higher state exactly if the Hello lists this router.\<close>
theorem ospf6_hello_recv_twoway:
  assumes "nbr_inv w" "w_num w < INFTY" "hp_router_id pkt \<noteq> 0" "hello_accepts env (hp_hello pkt) (w_oi w)"
    and "\<not> ne_create_fails (he_nbr env) (hp_router_id pkt)" "\<not> he_hook_err env (hp_router_id pkt)"
    and "oi_type (w_oi w) \<noteq> OSPF6_IFTYPE_MDR" "oi_adjacency_formation_limit (w_oi w) = 0"
    and "unat (hp_length pkt) = 36 + 4 * length (hp_rids pkt)"
  shows "\<exists>w' j. ospf6_hello_recv env src pkt w = Some w' \<and> nbr_inv w' \<and> j < w_num w' \<and> on_router_id (w_nbr w' j) = hp_router_id pkt \<and>
    (on_state (w_nbr w' j) \<ge> OSPF6_NEIGHBOR_TWOWAY \<longleftrightarrow> he_router_id env \<in> set (hp_rids pkt))"
  by (rule hello_recv_ok [OF assms])

section \<open>The Hello that is sent\<close>

text \<open>The router IDs of the neighbors that were heard, as many as the MTU allows.\<close>
lemma hello_send_rids_take:
  assumes "unat (oi_ifmtu oi) > 40" "pos \<le> unat (oi_ifmtu oi) - 40"
  shows "hello_send_rids oi pos ons = Some (take ((unat (oi_ifmtu oi) - 40 - pos) div 4)
    (map on_router_id (filter (\<lambda>on. on_state on \<ge> OSPF6_NEIGHBOR_INIT) ons)))"
  using assms(2)
proof (induction ons arbitrary: pos)
  case (Cons on ons)
  let ?max = "unat (oi_ifmtu oi) - 40"
  have max: "ospf6_packet_max oi = Some ?max" using assms(1) by (simp add: ospf6_packet_max_def)
  consider "on_state on < OSPF6_NEIGHBOR_INIT" | "on_state on \<ge> OSPF6_NEIGHBOR_INIT" "pos + 4 > ?max"
    | "on_state on \<ge> OSPF6_NEIGHBOR_INIT" "pos + 4 \<le> ?max"
    by (cases "on_state on < OSPF6_NEIGHBOR_INIT"; cases "pos + 4 > ?max") (simp_all add: not_less)
  then show ?case
  proof cases
    case 3
    then have "(?max - pos) div 4 = Suc ((?max - (pos + 4)) div 4)" by (simp add: le_div_geq)
    moreover have "\<not> on_state on < OSPF6_NEIGHBOR_INIT" using 3(1) by simp
    ultimately show ?thesis using 3 max Cons.IH [of "pos + 4"] by simp
  qed (use max Cons in \<open>simp_all add: not_less\<close>)
qed simp

definition hello_active :: "ospf6_interface \<Rightarrow> bool" where
  "hello_active oi \<longleftrightarrow> if_state_num (oi_state oi) > if_state_num OSPF6_INTERFACE_LOOPBACK \<and>
     oi_type oi \<noteq> OSPF6_IFTYPE_LOOPBACK \<and> \<not> if_passive oi"

lemma hello_send_packet:
  assumes "hello_active (w_oi w)" "oi_type (w_oi w) \<noteq> OSPF6_IFTYPE_MDR" "unat (oi_ifmtu (w_oi w)) \<ge> 76"
  shows "\<exists>pkt w'. ospf6_hello_send env w = Some (Some pkt, w') \<and> hp_router_id pkt = he_router_id env \<and>
    hp_length pkt = of_nat (36 + 4 * length (hp_rids pkt)) \<and> hl_options (hp_hello pkt) = take 3 (he_area_options env) \<and>
    hl_hello_interval (hp_hello pkt) = oi_hello_interval (w_oi w) \<and> hl_dead_interval (hp_hello pkt) = oi_dead_interval (w_oi w) \<and>
    hp_rids pkt = take ((unat (oi_ifmtu (w_oi w)) - 76) div 4)
      (map on_router_id (filter (\<lambda>on. on_state on \<ge> OSPF6_NEIGHBOR_INIT) (oi_neighbor_list (w_oi w)))) \<and>
    oi_neighbor_list (w_oi w') = oi_neighbor_list (w_oi w)"
proof -
  have r: "hello_send_rids oi 36 ons = Some (take ((unat (oi_ifmtu (w_oi w)) - 76) div 4)
      (map on_router_id (filter (\<lambda>on. on_state on \<ge> OSPF6_NEIGHBOR_INIT) ons)))"
    if "oi_ifmtu oi = oi_ifmtu (w_oi w)" for oi ons
    using hello_send_rids_take [of oi 36 ons] assms(3) that by simp
  show ?thesis
    using assms(1,2) by (simp add: ospf6_hello_send_def hello_active_def if_passive_def ospf6_schedule_hello_def r Let_def not_le)
qed

text \<open>Two interfaces with the same parameters on one link: the Hello of one is accepted by the other.\<close>
definition same_link :: "hello_env \<Rightarrow> world \<Rightarrow> hello_env \<Rightarrow> world \<Rightarrow> bool" where
  "same_link envA a envB b \<longleftrightarrow> he_area_options envA = he_area_options envB \<and> length (he_area_options envB) = 3 \<and>
     oi_hello_interval (w_oi a) = oi_hello_interval (w_oi b) \<and> oi_dead_interval (w_oi a) = oi_dead_interval (w_oi b)"

text \<open>C5: A Hello from one router to another on a link that is not MDR, with room for all neighbors in the packet. Router A sends it
  and router B accepts it; B then has A as a neighbor, in 2-Way or a higher state exactly if A has heard B before.\<close>
theorem hello_handshake:
  assumes a: "hello_active (w_oi a)" "oi_type (w_oi a) \<noteq> OSPF6_IFTYPE_MDR" "36 + 4 * w_num a < 2 ^ 16"
      "76 + 4 * w_num a \<le> unat (oi_ifmtu (w_oi a))"
    and b: "nbr_inv b" "w_num b < INFTY" "oi_type (w_oi b) \<noteq> OSPF6_IFTYPE_MDR" "oi_adjacency_formation_limit (w_oi b) = 0"
    and link: "same_link envA a envB b" "he_router_id envA \<noteq> 0"
    and ok: "\<not> ne_create_fails (he_nbr envB) (he_router_id envA)" "\<not> he_hook_err envB (he_router_id envA)"
  shows "\<exists>pkt a' b' j. ospf6_hello_send envA a = Some (Some pkt, a') \<and> ospf6_hello_recv envB src pkt b = Some b' \<and>
    nbr_inv b' \<and> j < w_num b' \<and> on_router_id (w_nbr b' j) = he_router_id envA \<and>
    (on_state (w_nbr b' j) \<ge> OSPF6_NEIGHBOR_TWOWAY \<longleftrightarrow>
       he_router_id envB \<in> on_router_id ` {on \<in> set (oi_neighbor_list (w_oi a)). on_state on \<ge> OSPF6_NEIGHBOR_INIT})"
proof -
  let ?rids = "map on_router_id (filter (\<lambda>on. on_state on \<ge> OSPF6_NEIGHBOR_INIT) (oi_neighbor_list (w_oi a)))"
  have len: "length ?rids \<le> w_num a" by (simp add: length_filter_le)
  have m: "w_num a \<le> (unat (oi_ifmtu (w_oi a)) - 76) div 4" "unat (oi_ifmtu (w_oi a)) \<ge> 76" using a(4) by simp_all
  obtain pkt a' where p: "ospf6_hello_send envA a = Some (Some pkt, a')" "hp_router_id pkt = he_router_id envA"
    "hp_length pkt = of_nat (36 + 4 * length (hp_rids pkt))" "hl_options (hp_hello pkt) = take 3 (he_area_options envA)"
    "hl_hello_interval (hp_hello pkt) = oi_hello_interval (w_oi a)" "hl_dead_interval (hp_hello pkt) = oi_dead_interval (w_oi a)"
    "hp_rids pkt = take ((unat (oi_ifmtu (w_oi a)) - 76) div 4) ?rids"
    using hello_send_packet [OF a(1,2) m(2), of envA] by blast
  have rids: "hp_rids pkt = ?rids" unfolding p(7) by (rule take_all) (rule le_trans [OF len m(1)])
  have "length (hp_rids pkt) \<le> w_num a" unfolding rids by (rule len)
  then have "36 + 4 * length (hp_rids pkt) < 2 ^ LENGTH(16)" using a(3) by simp
  then have l: "unat (hp_length pkt) = 36 + 4 * length (hp_rids pkt)"
    unfolding p(3) by (simp only: unsigned_of_nat take_bit_nat_eq_self of_nat_id)
  have acc: "hello_accepts envB (hp_hello pkt) (w_oi b)"
    using link(1) p(4-6) by (auto simp: hello_accepts_def same_link_def)
  obtain b' j where "ospf6_hello_recv envB src pkt b = Some b'" "nbr_inv b'" "j < w_num b'"
    "on_router_id (w_nbr b' j) = he_router_id envA"
    "on_state (w_nbr b' j) \<ge> OSPF6_NEIGHBOR_TWOWAY \<longleftrightarrow> he_router_id envB \<in> set (hp_rids pkt)"
    using hello_recv_ok [OF b(1,2) _ acc _ _ b(3,4) l, of src, unfolded p(2), OF link(2) ok] by blast
  moreover have "set (hp_rids pkt) = on_router_id ` {on \<in> set (oi_neighbor_list (w_oi a)). on_state on \<ge> OSPF6_NEIGHBOR_INIT}"
    by (simp add: rids)
  ultimately show ?thesis using p(1) by (intro exI [of _ pkt] exI [of _ a'] exI [of _ b'] exI [of _ j]) simp
qed

text \<open>The router 3, which has heard the router 9, and the router 9, which has no neighbor.\<close>
definition example_heard :: world where
  "example_heard = w_oi_update (oi_ifmtu_update (\<lambda>_. 1500)) (example_world 0 [(9, OSPF6_NEIGHBOR_INIT)])"

definition example_hello_env9 :: hello_env where
  "example_hello_env9 = he_nbr_update (ne_ospf6_update (o_router_id_update (\<lambda>_. 9))) example_hello_env"

definition example_hello9 :: hello_packet where
  "example_hello9 = \<lparr>hp_router_id = 3, hp_length = 40,
     hp_hello = \<lparr>hl_interface_id = 1, hl_priority = 1, hl_options = [0, 0, 0], hl_hello_interval = 10, hl_dead_interval = 40,
       hl_drouter = 0, hl_bdrouter = 0\<rparr>, hp_rids = [9], hp_lls = None\<rparr>"

lemma example_heard_facts:
  "hello_active (w_oi example_heard)" "oi_type (w_oi example_heard) \<noteq> OSPF6_IFTYPE_MDR" "w_num example_heard = 1"
  "oi_ifmtu (w_oi example_heard) = 1500" "same_link example_hello_env example_heard example_hello_env9 (example_world 0 [])"
  by (simp_all add: example_heard_def hello_active_def example_world_def example_defs if_passive_def same_link_def
      example_hello_env_def example_hello_env9_def Let_def)

lemma example_heard_nbr: "9 \<in> on_router_id ` {on \<in> set (oi_neighbor_list (w_oi example_heard)). on_state on \<ge> OSPF6_NEIGHBOR_INIT}"
proof (rule image_eqI)
  show "9 = on_router_id (w_nbr example_heard 0)" by (simp add: example_heard_def example_world_def example_defs Let_def)
  show "w_nbr example_heard 0 \<in> {on \<in> set (oi_neighbor_list (w_oi example_heard)). on_state on \<ge> OSPF6_NEIGHBOR_INIT}"
    by (simp add: example_heard_def example_world_def Let_def)
qed

lemma example_env9_facts:
  "he_router_id example_hello_env = 3" "he_router_id example_hello_env9 = 9" "\<not> ne_create_fails (he_nbr example_hello_env9) 3"
  "\<not> he_hook_err example_hello_env9 3" "nbr_inv (example_world 0 [])" "w_num (example_world 0 []) < INFTY"
  by (simp_all add: example_hello_env_def example_hello_env9_def example_env_def example_defs nbr_inv_def nbrs_sorted_def)

theorem ospf6_hello_recv_twoway_witness:
  "\<exists>w' j. ospf6_hello_recv example_hello_env9 (replicate 16 0) example_hello9 (example_world 0 []) = Some w' \<and> j < w_num w' \<and>
     on_router_id (w_nbr w' j) = 3 \<and> on_state (w_nbr w' j) \<ge> OSPF6_NEIGHBOR_TWOWAY"
proof -
  have p: "hp_router_id example_hello9 = 3" "hp_rids example_hello9 = [9]" "hp_length example_hello9 = 40"
    by (simp_all add: example_hello9_def)
  have "hello_accepts example_hello_env9 (hp_hello example_hello9) (w_oi (example_world 0 []))"
    by (simp add: hello_accepts_def example_hello9_def example_world_def example_defs example_hello_env_def example_hello_env9_def Let_def)
  from ospf6_hello_recv_twoway [OF example_env9_facts(5,6) _ this, where src = "replicate 16 0"] show ?thesis
    using p example_env9_facts by auto
qed

theorem hello_handshake_witness:
  "\<exists>pkt a' b' j. ospf6_hello_send example_hello_env example_heard = Some (Some pkt, a') \<and>
     ospf6_hello_recv example_hello_env9 (replicate 16 0) pkt (example_world 0 []) = Some b' \<and> on_router_id (w_nbr b' j) = 3 \<and>
     on_state (w_nbr b' j) \<ge> OSPF6_NEIGHBOR_TWOWAY"
proof -
  note a = example_heard_facts and b = example_env9_facts
  from hello_handshake [OF a(1,2) _ _ b(5,6) _ _ a(5), where src = "replicate 16 0"] show ?thesis
    using a(3,4) b example_heard_nbr by auto
qed

end
