(* ===== verification/Packet.thy ===== *)
theory Packet
  imports Hello
begin

text \<open>
  The examination of a received packet, \<open>ospf6_packet_examin\<close> and the functions it calls, of \<^verbatim>\<open>src/ospf6d/ospf6_message.c\<close>. It
  works on the bytes of the receive buffer; a read outside of the buffer is \<^term>\<open>None\<close>, and \<^term>\<open>Some True\<close> is \<^verbatim>\<open>MSG_OK\<close>. The code
  behind it relies on the examination: each handler of a message walks over the parts of its packet and asserts that the walk ends with the
  packet. The properties are that the examination reads nothing outside of the packet and that these assertions hold, which is false for two
  types of messages with a declared length below that of the header.
\<close>

unbundle bit_operations_syntax

section \<open>Sizes\<close>

definition get8 :: "u8 list \<Rightarrow> nat \<Rightarrow> nat option" where
  "get8 bs i = (if i < length bs then Some (unat (bs ! i)) else None)"

text \<open>Subtraction of the type \<^verbatim>\<open>unsigned\<close>.\<close>
definition usub :: "nat \<Rightarrow> nat \<Rightarrow> nat" where
  "usub a b = unat (of_nat a - of_nat b :: u32)"

abbreviation (input) OSPF6_HEADER_SIZE :: nat where "OSPF6_HEADER_SIZE \<equiv> 16"
abbreviation (input) OSPF6_HELLO_MIN_SIZE :: nat where "OSPF6_HELLO_MIN_SIZE \<equiv> 20"
abbreviation (input) OSPF6_DB_DESC_MIN_SIZE :: nat where "OSPF6_DB_DESC_MIN_SIZE \<equiv> 12"
abbreviation (input) OSPF6_LS_REQ_MIN_SIZE :: nat where "OSPF6_LS_REQ_MIN_SIZE \<equiv> 0"
abbreviation (input) OSPF6_LS_UPD_MIN_SIZE :: nat where "OSPF6_LS_UPD_MIN_SIZE \<equiv> 4"
abbreviation (input) OSPF6_LS_ACK_MIN_SIZE :: nat where "OSPF6_LS_ACK_MIN_SIZE \<equiv> 0"
abbreviation (input) OSPF6_LSREQ_LSDESC_FIX_SIZE :: nat where "OSPF6_LSREQ_LSDESC_FIX_SIZE \<equiv> 12"
abbreviation (input) OSPF6_LSA_HEADER_SIZE :: nat where "OSPF6_LSA_HEADER_SIZE \<equiv> 20"
abbreviation (input) OSPF6_ROUTER_LSA_MIN_SIZE :: nat where "OSPF6_ROUTER_LSA_MIN_SIZE \<equiv> 4"
abbreviation (input) OSPF6_ROUTER_LSDESC_FIX_SIZE :: nat where "OSPF6_ROUTER_LSDESC_FIX_SIZE \<equiv> 16"
abbreviation (input) OSPF6_NETWORK_LSA_MIN_SIZE :: nat where "OSPF6_NETWORK_LSA_MIN_SIZE \<equiv> 4"
abbreviation (input) OSPF6_NETWORK_LSDESC_FIX_SIZE :: nat where "OSPF6_NETWORK_LSDESC_FIX_SIZE \<equiv> 4"
abbreviation (input) OSPF6_INTER_PREFIX_LSA_MIN_SIZE :: nat where "OSPF6_INTER_PREFIX_LSA_MIN_SIZE \<equiv> 4"
abbreviation (input) OSPF6_INTER_ROUTER_LSA_FIX_SIZE :: nat where "OSPF6_INTER_ROUTER_LSA_FIX_SIZE \<equiv> 12"
abbreviation (input) OSPF6_AS_EXTERNAL_LSA_MIN_SIZE :: nat where "OSPF6_AS_EXTERNAL_LSA_MIN_SIZE \<equiv> 4"
abbreviation (input) OSPF6_LINK_LSA_MIN_SIZE :: nat where "OSPF6_LINK_LSA_MIN_SIZE \<equiv> 24"
abbreviation (input) OSPF6_INTRA_PREFIX_LSA_MIN_SIZE :: nat where "OSPF6_INTRA_PREFIX_LSA_MIN_SIZE \<equiv> 12"
abbreviation (input) OSPF6_PREFIX_MIN_SIZE :: nat where "OSPF6_PREFIX_MIN_SIZE \<equiv> 4"

definition ospf6_packet_minlen :: "nat list" where
  "ospf6_packet_minlen = [0, OSPF6_HELLO_MIN_SIZE, OSPF6_DB_DESC_MIN_SIZE, OSPF6_LS_REQ_MIN_SIZE, OSPF6_LS_UPD_MIN_SIZE,
     OSPF6_LS_ACK_MIN_SIZE]"

definition ospf6_lsa_minlen :: "nat list" where
  "ospf6_lsa_minlen = [0, OSPF6_ROUTER_LSA_MIN_SIZE, OSPF6_NETWORK_LSA_MIN_SIZE, OSPF6_INTER_PREFIX_LSA_MIN_SIZE,
     OSPF6_INTER_ROUTER_LSA_FIX_SIZE, OSPF6_AS_EXTERNAL_LSA_MIN_SIZE, 0, OSPF6_AS_EXTERNAL_LSA_MIN_SIZE,
     OSPF6_LINK_LSA_MIN_SIZE, OSPF6_INTRA_PREFIX_LSA_MIN_SIZE]"

section \<open>The examination\<close>

definition OSPF6_PREFIX_SPACE :: "nat \<Rightarrow> nat" where
  "OSPF6_PREFIX_SPACE x = (x + 31) div 32 * 4"

text \<open>The loop from the position \<^verbatim>\<open>current\<close> of the buffer, with the number of prefixes that are counted so far.\<close>
function ospf6_prefixes_examin :: "u8 list \<Rightarrow> nat \<Rightarrow> nat \<Rightarrow> u32 \<Rightarrow> u32 \<Rightarrow> bool option" where
  "ospf6_prefixes_examin bs current len real_num_pfxs req_num_pfxs =
     (if len = 0 then Some (real_num_pfxs = req_num_pfxs)
      else if len < OSPF6_PREFIX_MIN_SIZE then Some False
      else
        case get8 bs current of
          None \<Rightarrow> None
        | Some prefix_length \<Rightarrow>
            if prefix_length > 128 then Some False
            else
              let requested_pfx_bytes = OSPF6_PREFIX_MIN_SIZE + OSPF6_PREFIX_SPACE prefix_length in
              if requested_pfx_bytes > len then Some False
              else ospf6_prefixes_examin bs (current + requested_pfx_bytes) (len - requested_pfx_bytes) (real_num_pfxs + 1)
                     req_num_pfxs)"
  by pat_completeness auto
termination
  by (relation "measure (\<lambda>(bs, current, len, real_num, req_num). len)") auto

declare ospf6_prefixes_examin.simps [simp del]

text \<open>The index of the table is an eight-bit variable.\<close>
definition lsa_ltindex :: "nat \<Rightarrow> nat" where
  "lsa_ltindex lsatype = unat (ucast (of_nat lsatype AND 0x1fff :: u16) :: u8)"

definition ospf6_lsa_examin :: "u8 list \<Rightarrow> nat \<Rightarrow> nat \<Rightarrow> bool \<Rightarrow> bool option" where
  "ospf6_lsa_examin bs lsah lsalen headeronly =
     Option.bind (get16 bs (lsah + 2)) (\<lambda>lsatype.
     let ltindex = lsa_ltindex lsatype;
         body = lsah + OSPF6_LSA_HEADER_SIZE in
     if ltindex < 10 \<and> ospf6_lsa_minlen ! ltindex \<noteq> 0 \<and> lsalen < ospf6_lsa_minlen ! ltindex + OSPF6_LSA_HEADER_SIZE then Some False
     else if lsatype = 0x2001 then
       Some (usub (usub lsalen OSPF6_LSA_HEADER_SIZE) OSPF6_ROUTER_LSA_MIN_SIZE mod OSPF6_ROUTER_LSDESC_FIX_SIZE = 0)
     else if lsatype = 0x2002 then
       Some (usub (usub lsalen OSPF6_LSA_HEADER_SIZE) OSPF6_NETWORK_LSA_MIN_SIZE mod OSPF6_NETWORK_LSDESC_FIX_SIZE = 0)
     else if lsatype = 0x2003 then
       if headeronly then Some True
       else ospf6_prefixes_examin bs (body + OSPF6_INTER_PREFIX_LSA_MIN_SIZE)
              (usub (usub lsalen OSPF6_LSA_HEADER_SIZE) OSPF6_INTER_PREFIX_LSA_MIN_SIZE) 0 1
     else if lsatype = 0x2004 then Some (\<not> lsalen > OSPF6_LSA_HEADER_SIZE + OSPF6_INTER_ROUTER_LSA_FIX_SIZE)
     else if lsatype = 0x4005 \<or> lsatype = 0x2007 then
       if headeronly then Some True
       else
         let exp_length = OSPF6_LSA_HEADER_SIZE + OSPF6_AS_EXTERNAL_LSA_MIN_SIZE in
         if exp_length + OSPF6_PREFIX_MIN_SIZE > lsalen then Some False
         else
           Option.bind (get8 bs body) (\<lambda>bits.
           Option.bind (get16 bs (body + OSPF6_AS_EXTERNAL_LSA_MIN_SIZE + 2)) (\<lambda>refer_lstype.
           let exp_length = exp_length + (if of_nat bits AND (2 :: u8) \<noteq> 0 then 16 else 0);
               exp_length = exp_length + (if of_nat bits AND (1 :: u8) \<noteq> 0 then 4 else 0);
               exp_length = exp_length + (if refer_lstype \<noteq> 0 then 4 else 0) in
           if exp_length > lsalen then Some False
           else ospf6_prefixes_examin bs (body + OSPF6_AS_EXTERNAL_LSA_MIN_SIZE) (usub lsalen exp_length) 0 1))
     else if lsatype = 0x0008 then
       if headeronly then Some True
       else
         Option.bind (get32 bs (body + 20)) (\<lambda>prefix_num.
         ospf6_prefixes_examin bs (body + OSPF6_LINK_LSA_MIN_SIZE)
           (usub (usub lsalen OSPF6_LSA_HEADER_SIZE) OSPF6_LINK_LSA_MIN_SIZE) 0 prefix_num)
     else if lsatype = 0x2009 then
       if headeronly then Some True
       else
         Option.bind (get16 bs body) (\<lambda>prefix_num.
         ospf6_prefixes_examin bs (body + OSPF6_INTRA_PREFIX_LSA_MIN_SIZE)
           (usub (usub lsalen OSPF6_LSA_HEADER_SIZE) OSPF6_INTRA_PREFIX_LSA_MIN_SIZE) 0 (of_nat prefix_num))
     else Some True)"

text \<open>The loop over the LSAs, with the number of LSAs that are counted so far.\<close>
function ospf6_lsaseq_examin :: "u8 list \<Rightarrow> nat \<Rightarrow> nat \<Rightarrow> bool \<Rightarrow> u32 \<Rightarrow> u32 \<Rightarrow> bool option" where
  "ospf6_lsaseq_examin bs lsah len headeronly declared_num_lsas counted_lsas =
     (if len = 0 then Some (\<not> (declared_num_lsas \<noteq> 0 \<and> counted_lsas \<noteq> declared_num_lsas))
      else if len < OSPF6_LSA_HEADER_SIZE then Some False
      else
        case get16 bs (lsah + 18) of
          None \<Rightarrow> None
        | Some lsalen \<Rightarrow>
            if lsalen < OSPF6_LSA_HEADER_SIZE then Some False
            else if \<not> headeronly \<and> lsalen > len then Some False
            else
              let step = (if headeronly then OSPF6_LSA_HEADER_SIZE else lsalen) in
              case ospf6_lsa_examin bs lsah lsalen headeronly of
                None \<Rightarrow> None
              | Some ok \<Rightarrow>
                  if \<not> ok then Some False
                  else ospf6_lsaseq_examin bs (lsah + step) (len - step) headeronly declared_num_lsas (counted_lsas + 1))"
  by pat_completeness auto
termination
  by (relation "measure (\<lambda>(bs, lsah, len, headeronly, declared_num, counted). len)") (auto split: if_splits)

declare ospf6_lsaseq_examin.simps [simp del]

abbreviation (input) OSPF6_MESSAGE_TYPE_HELLO :: nat where "OSPF6_MESSAGE_TYPE_HELLO \<equiv> 1"
abbreviation (input) OSPF6_MESSAGE_TYPE_DBDESC :: nat where "OSPF6_MESSAGE_TYPE_DBDESC \<equiv> 2"
abbreviation (input) OSPF6_MESSAGE_TYPE_LSREQ :: nat where "OSPF6_MESSAGE_TYPE_LSREQ \<equiv> 3"
abbreviation (input) OSPF6_MESSAGE_TYPE_LSUPDATE :: nat where "OSPF6_MESSAGE_TYPE_LSUPDATE \<equiv> 4"
abbreviation (input) OSPF6_MESSAGE_TYPE_LSACK :: nat where "OSPF6_MESSAGE_TYPE_LSACK \<equiv> 5"

definition ospf6_packet_examin :: "u8 list \<Rightarrow> nat \<Rightarrow> bool option" where
  "ospf6_packet_examin bs bytesonwire =
     (if bytesonwire < OSPF6_HEADER_SIZE then Some False
      else
        Option.bind (get16 bs 2) (\<lambda>oh_length.
        if bytesonwire < oh_length then Some False
        else
          Option.bind (get8 bs 0) (\<lambda>version.
          if version \<noteq> 3 then Some False
          else
            Option.bind (get8 bs 1) (\<lambda>oh_type.
            let rest = usub oh_length OSPF6_HEADER_SIZE in
            if oh_type < 6 \<and> ospf6_packet_minlen ! oh_type \<noteq> 0 \<and> oh_length < OSPF6_HEADER_SIZE + ospf6_packet_minlen ! oh_type
            then Some False
            else if oh_type = OSPF6_MESSAGE_TYPE_HELLO then Some (usub rest OSPF6_HELLO_MIN_SIZE mod 4 = 0)
            else if oh_type = OSPF6_MESSAGE_TYPE_DBDESC then
              ospf6_lsaseq_examin bs (OSPF6_HEADER_SIZE + OSPF6_DB_DESC_MIN_SIZE) (usub rest OSPF6_DB_DESC_MIN_SIZE) True 0 0
            else if oh_type = OSPF6_MESSAGE_TYPE_LSREQ then
              Some (usub rest OSPF6_LS_REQ_MIN_SIZE mod OSPF6_LSREQ_LSDESC_FIX_SIZE = 0)
            else if oh_type = OSPF6_MESSAGE_TYPE_LSUPDATE then
              Option.bind (get32 bs OSPF6_HEADER_SIZE) (\<lambda>lsa_number.
              ospf6_lsaseq_examin bs (OSPF6_HEADER_SIZE + OSPF6_LS_UPD_MIN_SIZE) (usub rest OSPF6_LS_UPD_MIN_SIZE) False lsa_number 0)
            else if oh_type = OSPF6_MESSAGE_TYPE_LSACK then
              ospf6_lsaseq_examin bs (OSPF6_HEADER_SIZE + OSPF6_LS_ACK_MIN_SIZE) (usub rest OSPF6_LS_ACK_MIN_SIZE) True 0 0
            else Some False))))"

text \<open>The fields of the header against those of the interface.\<close>
definition ospf6_rxpacket_examin :: "u32 \<Rightarrow> ospf6 \<Rightarrow> u8 list \<Rightarrow> nat \<Rightarrow> bool option" where
  "ospf6_rxpacket_examin area_id o6 bs bytesonwire =
     Option.bind (ospf6_packet_examin bs bytesonwire) (\<lambda>ok.
     if \<not> ok then Some False
     else
       Option.bind (get32 bs 8) (\<lambda>oh_area_id.
       if oh_area_id \<noteq> area_id then Some False
       else
         Option.bind (get8 bs 14) (\<lambda>oh_instance_id.
         if oh_instance_id \<noteq> unat (o_instance_id o6) then Some False
         else
           Option.bind (get32 bs 4) (\<lambda>oh_router_id.
           Some (oh_router_id \<noteq> o_router_id o6)))))"

section \<open>The walks over an accepted packet\<close>

text \<open>The loop of a handler over parts of a fixed size, from the position \<^verbatim>\<open>p\<close> to the end of the message: its last position.\<close>
function message_walk :: "nat \<Rightarrow> nat \<Rightarrow> nat \<Rightarrow> nat" where
  "message_walk part p message_end = (if 0 < part \<and> p + part \<le> message_end then message_walk part (p + part) message_end else p)"
  by pat_completeness auto
termination
  by (relation "measure (\<lambda>(part, p, message_end). message_end - p)") auto

declare message_walk.simps [simp del]

text \<open>The loop over LSAs of different sizes. An LSA of size zero would make it run forever.\<close>
partial_function (option) lsupdate_walk :: "u8 list \<Rightarrow> nat \<Rightarrow> nat \<Rightarrow> nat option" where
  "lsupdate_walk bs p message_end =
     (if p < message_end then
        Option.bind (get16 bs (p + 18)) (\<lambda>lsa_size.
        if p + lsa_size \<le> message_end then lsupdate_walk bs (p + lsa_size) message_end else Some p)
      else Some p)"

text \<open>The position at which the handler of a message asserts that it has reached the end.\<close>
definition handler_end :: "u8 list \<Rightarrow> nat \<Rightarrow> nat \<Rightarrow> nat option" where
  "handler_end bs oh_type oh_length =
     (if oh_type = OSPF6_MESSAGE_TYPE_HELLO then Some (message_walk 4 36 oh_length)
      else if oh_type = OSPF6_MESSAGE_TYPE_DBDESC then Some (message_walk OSPF6_LSA_HEADER_SIZE 28 oh_length)
      else if oh_type = OSPF6_MESSAGE_TYPE_LSREQ then Some (message_walk OSPF6_LSREQ_LSDESC_FIX_SIZE 16 oh_length)
      else if oh_type = OSPF6_MESSAGE_TYPE_LSUPDATE then lsupdate_walk bs 20 oh_length
      else if oh_type = OSPF6_MESSAGE_TYPE_LSACK then Some (message_walk OSPF6_LSA_HEADER_SIZE 16 oh_length)
      else None)"

text \<open>The Hello that the handler finds in the buffer.\<close>
definition hello_read :: "u8 list \<Rightarrow> hello_packet option" where
  "hello_read bs =
     Option.bind (get16 bs 2) (\<lambda>oh_length. Option.bind (get32 bs 4) (\<lambda>router_id.
     Option.bind (get32 bs 16) (\<lambda>interface_id. Option.bind (get8 bs 20) (\<lambda>priority.
     Option.bind (those (map (get8 bs) [21, 22, 23])) (\<lambda>options.
     Option.bind (get16 bs 24) (\<lambda>hello_interval. Option.bind (get16 bs 26) (\<lambda>dead_interval.
     Option.bind (get32 bs 28) (\<lambda>drouter. Option.bind (get32 bs 32) (\<lambda>bdrouter.
     Option.bind (those (map (\<lambda>i. get32 bs (36 + 4 * i)) [0 ..< (oh_length - 36) div 4])) (\<lambda>rids.
     Some \<lparr>hp_router_id = router_id, hp_length = of_nat oh_length,
       hp_hello = \<lparr>hl_interface_id = interface_id, hl_priority = of_nat priority, hl_options = map of_nat options,
         hl_hello_interval = of_nat hello_interval, hl_dead_interval = of_nat dead_interval, hl_drouter = drouter, hl_bdrouter = bdrouter\<rparr>,
       hp_rids = rids, hp_lls = None\<rparr>))))))))))"

section \<open>Reads stay in the packet\<close>

lemma usub_le: "b \<le> a \<Longrightarrow> a < 2 ^ 32 \<Longrightarrow> usub a b = a - b"
  unfolding usub_def by (simp only: of_nat_diff [symmetric] unsigned_of_nat) (simp add: take_bit_nat_eq_self)

lemma get8_Some: "i < length bs \<Longrightarrow> \<exists>x. get8 bs i = Some x"
  by (simp add: get8_def)

lemma get16_Some: "i + 1 < length bs \<Longrightarrow> \<exists>x. get16 bs i = Some x"
  by (simp add: get16_def)

lemma get32_Some: "i + 3 < length bs \<Longrightarrow> \<exists>x. get32 bs i = Some x"
  by (simp add: get32_def get16_def)

lemma get16_less: "get16 bs i = Some x \<Longrightarrow> x < 65536"
  using unat_u8_less [of "bs ! i"] unat_u8_less [of "bs ! Suc i"] by (auto simp: get16_def split: if_splits)

lemma prefixes_examin_safe:
  "current + len \<le> length bs \<Longrightarrow> \<exists>ok. ospf6_prefixes_examin bs current len n m = Some ok"
proof (induction bs current len n m rule: ospf6_prefixes_examin.induct)
  case (1 bs current len n m)
  show ?case
  proof (cases "len < 4")
    case True
    then show ?thesis by (subst ospf6_prefixes_examin.simps) auto
  next
    case False
    then obtain x where x: "get8 bs current = Some x" using get8_Some [of current bs] "1.prems" by auto
    show ?thesis
      using False x "1.prems" "1.IH" [OF _ _ x _ refl] by (subst ospf6_prefixes_examin.simps) (auto simp: Let_def)
  qed
qed

lemma lsa_ltindex_simps [simp]:
  "lsa_ltindex 0x2001 = 1" "lsa_ltindex 0x2002 = 2" "lsa_ltindex 0x2003 = 3" "lsa_ltindex 0x2004 = 4" "lsa_ltindex 0x4005 = 5"
  "lsa_ltindex 0x2007 = 7" "lsa_ltindex 0x0008 = 8" "lsa_ltindex 0x2009 = 9"
  by (simp_all add: lsa_ltindex_def)

lemma lsa_examin_safe:
  assumes n: "20 \<le> lsalen" "lsalen < 65536" and h: "lsah + 20 \<le> length bs"
    and l: "\<not> headeronly \<Longrightarrow> lsah + lsalen \<le> length bs"
  shows "\<exists>ok. ospf6_lsa_examin bs lsah lsalen headeronly = Some ok"
proof -
  obtain t where t: "get16 bs (lsah + 2) = Some t" using get16_Some [of "lsah + 2" bs] h by auto
  have u: "usub (usub lsalen 20) k = lsalen - 20 - k" if "20 + k \<le> lsalen" for k
    using that n by (simp add: usub_le)
  consider "headeronly" | "\<not> headeronly" "t \<notin> {0x2003, 0x4005, 0x2007, 0x0008, 0x2009}" | "\<not> headeronly" "t = 0x2003"
    | "\<not> headeronly" "t = 0x4005 \<or> t = 0x2007" | "\<not> headeronly" "t = 0x0008" | "\<not> headeronly" "t = 0x2009" by blast
  then show ?thesis
  proof cases
    case 3
    then show ?thesis
      using t l [OF 3(1)] u [of 4] prefixes_examin_safe [of "lsah + 20 + 4" "lsalen - 24" bs 0 1]
      by (auto simp: ospf6_lsa_examin_def ospf6_lsa_minlen_def Let_def)
  next
    case 4
    show ?thesis
    proof (cases "28 \<le> lsalen")
      case True
      obtain b r where b: "get8 bs (lsah + 20) = Some b" "get16 bs (lsah + 20 + 4 + 2) = Some r"
        using get8_Some [of "lsah + 20" bs] get16_Some [of "lsah + 20 + 4 + 2" bs] l [OF 4(1)] True by auto
      have "\<exists>ok. (if e > lsalen then Some False else ospf6_prefixes_examin bs (lsah + 20 + 4) (usub lsalen e) 0 1) = Some ok"
        if "24 \<le> e" for e
        using that l [OF 4(1)] n prefixes_examin_safe [of "lsah + 20 + 4" "lsalen - e" bs 0 1] by (auto simp: usub_le)
      then show ?thesis using 4 t b True by (auto simp: ospf6_lsa_examin_def ospf6_lsa_minlen_def Let_def)
    qed (use 4 t in \<open>auto simp: ospf6_lsa_examin_def Let_def\<close>)
  next
    case 5
    show ?thesis
    proof (cases "44 \<le> lsalen")
      case True
      obtain num where "get32 bs (lsah + 20 + 20) = Some num" using get32_Some [of "lsah + 20 + 20" bs] l [OF 5(1)] True by auto
      then show ?thesis
        using t 5 l [OF 5(1)] u [of 24] True prefixes_examin_safe [of "lsah + 20 + 24" "lsalen - 44" bs 0 num]
        by (auto simp: ospf6_lsa_examin_def ospf6_lsa_minlen_def Let_def)
    qed (use 5 t in \<open>auto simp: ospf6_lsa_examin_def ospf6_lsa_minlen_def Let_def\<close>)
  next
    case 6
    show ?thesis
    proof (cases "32 \<le> lsalen")
      case True
      obtain num where "get16 bs (lsah + 20) = Some num" using get16_Some [of "lsah + 20" bs] l [OF 6(1)] True by auto
      then show ?thesis
        using t 6 l [OF 6(1)] u [of 12] True prefixes_examin_safe [of "lsah + 20 + 12" "lsalen - 32" bs 0 "of_nat num"]
        by (auto simp: ospf6_lsa_examin_def ospf6_lsa_minlen_def Let_def)
    qed (use 6 t in \<open>auto simp: ospf6_lsa_examin_def ospf6_lsa_minlen_def Let_def\<close>)
  qed (use t in \<open>auto simp: ospf6_lsa_examin_def Let_def\<close>)
qed

lemma lsaseq_examin_safe:
  "lsah + len \<le> length bs \<Longrightarrow> \<exists>ok. ospf6_lsaseq_examin bs lsah len headeronly n c = Some ok"
proof (induction bs lsah len headeronly n c rule: ospf6_lsaseq_examin.induct)
  case (1 bs lsah len headeronly n c)
  show ?case
  proof (cases "len < 20")
    case True
    then show ?thesis by (subst ospf6_lsaseq_examin.simps) auto
  next
    case False
    then obtain x where x: "get16 bs (lsah + 18) = Some x" using get16_Some [of "lsah + 18" bs] "1.prems" by auto
    show ?thesis
    proof (cases "x < 20 \<or> \<not> headeronly \<and> x > len")
      case True
      then show ?thesis using False x by (subst ospf6_lsaseq_examin.simps) auto
    next
      case ok: False
      then obtain r where r: "ospf6_lsa_examin bs lsah x headeronly = Some r"
        using lsa_examin_safe [of x lsah bs headeronly] get16_less [OF x] "1.prems" False by fastforce
      show ?thesis
        using False ok x r "1.prems" "1.IH" [OF _ _ x _ _ refl r] by (subst ospf6_lsaseq_examin.simps) (auto simp: Let_def)
    qed
  qed
qed

text \<open>C17: The examination of a packet whose declared length covers the header reads nothing outside of the bytes that were received.\<close>
theorem ospf6_packet_examin_safe:
  assumes "bytesonwire \<le> length bs" "get16 bs 2 = Some len" "16 \<le> len"
  shows "\<exists>ok. ospf6_packet_examin bs bytesonwire = Some ok"
proof (cases "bytesonwire < 16 \<or> bytesonwire < len")
  case True
  then show ?thesis using assms(2) by (auto simp: ospf6_packet_examin_def)
next
  case False
  then have "0 < length bs" "1 < length bs" using assms(1) by linarith+
  then obtain v t where vt: "get8 bs 0 = Some v" "get8 bs 1 = Some t" using get8_Some by blast
  have r: "usub len 16 = len - 16" using assms(3) get16_less [OF assms(2)] by (simp add: usub_le)
  have seq: "\<exists>ok. ospf6_lsaseq_examin bs (16 + k) (usub (usub len 16) k) h n 0 = Some ok" if "16 + k \<le> len" for k h n
    using lsaseq_examin_safe [of "16 + k" "len - 16 - k" bs h n 0] that False assms(1) get16_less [OF assms(2)]
    by (simp add: r usub_le)
  have num: "\<exists>n. get32 bs 16 = Some n" if "20 \<le> len" using get32_Some [of 16 bs] that False assms(1) by auto
  consider "t = 1 \<or> t = 3 \<or> t \<notin> {1, 2, 3, 4, 5}" | "t = 2" | "t = 4" | "t = 5" by blast
  then show ?thesis
  proof cases
    case 1
    then show ?thesis using False vt assms(2) by (auto simp: ospf6_packet_examin_def Let_def)
  next
    case 2
    then show ?thesis
      using False vt assms(2) seq [of 12 True 0] by (auto simp: ospf6_packet_examin_def ospf6_packet_minlen_def Let_def)
  next
    case 3
    then show ?thesis
      using False vt assms(2) num seq [of 4 False] by (auto simp: ospf6_packet_examin_def ospf6_packet_minlen_def Let_def)
  next
    case 4
    then show ?thesis
      using False vt assms(2,3) seq [of 0 True 0] by (auto simp: ospf6_packet_examin_def ospf6_packet_minlen_def Let_def)
  qed
qed

section \<open>Walks end with the packet\<close>

lemma message_walk_end: "0 < part \<Longrightarrow> p \<le> e \<Longrightarrow> (e - p) mod part = 0 \<Longrightarrow> message_walk part p e = e"
proof (induction part p e rule: message_walk.induct)
  case (1 part p e)
  show ?case
  proof (cases "p + part \<le> e")
    case True
    then have "(e - (p + part)) mod part = 0" using "1.prems"(3) le_mod_geq [of part "e - p"] by (simp add: diff_diff_add)
    then show ?thesis using "1.IH" "1.prems"(1) True by (subst message_walk.simps) simp
  next
    case False
    then have "e - p < part" using "1.prems"(2) by linarith
    then have "e - p = 0" using "1.prems"(3) by simp
    then show ?thesis using False "1.prems"(2) by (subst message_walk.simps) simp
  qed
qed

text \<open>A sequence of headers is accepted only if headers fill it.\<close>
lemma lsaseq_header_mod: "ospf6_lsaseq_examin bs lsah len True n c = Some True \<Longrightarrow> len mod 20 = 0"
proof (induction len arbitrary: lsah c rule: less_induct)
  case (less len)
  show ?case
  proof (cases "len < 20")
    case True
    then show ?thesis using less.prems by (subst (asm) ospf6_lsaseq_examin.simps) (auto split: if_splits)
  next
    case False
    then have "ospf6_lsaseq_examin bs (lsah + 20) (len - 20) True n (c + 1) = Some True"
      using less.prems by (subst (asm) ospf6_lsaseq_examin.simps) (auto simp: Let_def split: if_splits option.splits)
    then have "(len - 20) mod 20 = 0" using less.IH [of "len - 20"] False by simp
    then show ?thesis using False le_mod_geq [of 20 len] by simp
  qed
qed

text \<open>A sequence of LSAs is accepted only if the walk over it ends where it ends.\<close>
lemma lsaseq_walk_end: "ospf6_lsaseq_examin bs lsah len False n c = Some True \<Longrightarrow> lsupdate_walk bs lsah (lsah + len) = Some (lsah + len)"
proof (induction len arbitrary: lsah c rule: less_induct)
  case (less len)
  show ?case
  proof (cases "len = 0")
    case True
    then show ?thesis by (simp add: lsupdate_walk.simps)
  next
    case False
    then obtain x where x: "get16 bs (lsah + 18) = Some x" "20 \<le> x" "x \<le> len"
      and r: "ospf6_lsaseq_examin bs (lsah + x) (len - x) False n (c + 1) = Some True"
      using less.prems by (subst (asm) ospf6_lsaseq_examin.simps) (auto simp: Let_def split: if_splits option.splits)
    have "lsupdate_walk bs (lsah + x) (lsah + len) = Some (lsah + len)"
      using less.IH [OF _ r] x False by simp
    then show ?thesis using x False by (subst lsupdate_walk.simps) simp
  qed
qed

text \<open>C12: In a packet that the examination accepts and whose declared length covers the header, the walk of the handler over its parts
  ends exactly at the end of the packet, so that the assertion behind the walk holds in all five handlers.\<close>
theorem examined_packet_ends:
  assumes "ospf6_packet_examin bs bytesonwire = Some True" "get16 bs 2 = Some len" "16 \<le> len" "get8 bs 1 = Some t"
  shows "handler_end bs t len = Some len"
proof -
  have r: "usub (usub len 16) k = len - 16 - k" if "16 + k \<le> len" for k
    using that get16_less [OF assms(2)] by (simp add: usub_le)
  note d = ospf6_packet_examin_def ospf6_packet_minlen_def Let_def bind_eq_Some_conv
  consider "t = 1" | "t = 2" | "t = 3" | "t = 4" | "t = 5" using assms by (auto simp: d split: if_splits)
  then show ?thesis
  proof cases
    case 1
    then have l: "36 \<le> len" "usub (usub len 16) 20 mod 4 = 0" using assms by (auto simp: d split: if_splits)
    then show ?thesis using 1 r [of 20] message_walk_end [of 4 36 len] by (simp add: handler_end_def)
  next
    case 2
    then have l: "28 \<le> len" "ospf6_lsaseq_examin bs 28 (usub (usub len 16) 12) True 0 0 = Some True"
      using assms by (auto simp: d split: if_splits)
    then show ?thesis using 2 r [of 12] lsaseq_header_mod [OF l(2)] message_walk_end [of 20 28 len] by (simp add: handler_end_def)
  next
    case 3
    then have "usub (usub len 16) 0 mod 12 = 0" using assms by (auto simp: d split: if_splits)
    then show ?thesis using 3 r [of 0] assms(3) message_walk_end [of 12 16 len] by (simp add: handler_end_def)
  next
    case 4
    then obtain n where l: "20 \<le> len" "ospf6_lsaseq_examin bs 20 (usub (usub len 16) 4) False n 0 = Some True"
      using assms by (auto simp: d split: if_splits)
    then show ?thesis using 4 r [of 4] lsaseq_walk_end [OF l(2)] by (simp add: handler_end_def)
  next
    case 5
    then have l: "ospf6_lsaseq_examin bs 16 (usub (usub len 16) 0) True 0 0 = Some True"
      using assms by (auto simp: d split: if_splits)
    then show ?thesis using 5 r [of 0] assms(3) lsaseq_header_mod [OF l] message_walk_end [of 20 16 len] by (simp add: handler_end_def)
  qed
qed

definition example_ack :: "u8 list" where
  "example_ack = [3, 5, 0, 36] @ replicate 12 0 @ [0, 1, 0x20, 1] @ replicate 14 0 @ [0, 24]"

theorem ospf6_packet_examin_safe_witness: "\<exists>ok. ospf6_packet_examin example_ack 36 = Some ok"
proof -
  have "36 \<le> length example_ack" "get16 example_ack 2 = Some 36" by (simp_all add: example_ack_def get16_def)
  from ospf6_packet_examin_safe [OF this] show ?thesis by simp
qed

theorem examined_packet_ends_witness: "handler_end example_ack 5 36 = Some 36"
proof (rule examined_packet_ends)
  show "ospf6_packet_examin example_ack 36 = Some True" by code_simp
  show "get16 example_ack 2 = Some 36" "get8 example_ack 1 = Some 5" by (simp_all add: example_ack_def get16_def get8_def)
qed simp

text \<open>C38: A Link State Request with a declared length of 0 or 12, below the 16 bytes of the header, is accepted, because the
  subtraction of the header wraps to a multiple of the size of an entry; the walk of its handler then ends behind the packet and the assertion fails.\<close>
theorem short_lsreq_accepted:
  assumes "16 \<le> bytesonwire" "get8 bs 0 = Some 3" "get8 bs 1 = Some 3" "get16 bs 2 = Some len" "len = 0 \<or> len = 12"
  shows "ospf6_packet_examin bs bytesonwire = Some True \<and> handler_end bs 3 len = Some 16 \<and> len \<noteq> 16"
proof -
  have "usub (usub 0 16) 0 mod 12 = 0" "usub (usub 12 16) 0 mod 12 = 0" by (simp_all add: usub_def)
  moreover have "message_walk 12 16 len = 16" using assms(5) by (subst message_walk.simps) auto
  ultimately show ?thesis
    using assms by (auto simp: ospf6_packet_examin_def ospf6_packet_minlen_def handler_end_def Let_def)
qed

definition example_short_lsreq :: "u8 list" where
  "example_short_lsreq = [3, 3, 0, 12] @ replicate 12 0"

theorem short_lsreq_accepted_witness:
  "ospf6_packet_examin example_short_lsreq 16 = Some True \<and> handler_end example_short_lsreq 3 12 \<noteq> Some 12"
proof -
  have "get8 example_short_lsreq 0 = Some 3" "get8 example_short_lsreq 1 = Some 3" "get16 example_short_lsreq 2 = Some 12"
    by (simp_all add: example_short_lsreq_def get8_def get16_def)
  from short_lsreq_accepted [OF _ this, of 16] show ?thesis by simp
qed

text \<open>A Link State Acknowledgment with such a length makes the examination read behind the buffer.\<close>
definition example_short_lsack :: "u8 list" where
  "example_short_lsack = [3, 5, 0, 0] @ replicate 12 0 @ replicate 18 0 @ [0, 20]"

lemma short_lsack_reads_outside: "ospf6_packet_examin example_short_lsack 36 = None"
proof -
  let ?bs = example_short_lsack
  have g: "get8 ?bs 0 = Some 3" "get8 ?bs 1 = Some 5" "get16 ?bs 2 = Some 0" "get16 ?bs (16 + 18) = Some 20"
    "get16 ?bs (16 + 20 + 18) = None" "ospf6_lsa_examin ?bs 16 20 True = Some True"
    by code_simp+
  have u: "usub (usub 0 16) 0 = 4294967280" by (simp add: usub_def)
  have "ospf6_lsaseq_examin ?bs (16 + 20) (4294967280 - 20) True 0 (0 + 1) = None"
    unfolding ospf6_lsaseq_examin.simps [of _ "16 + 20"] using g(5) by simp
  then have "ospf6_lsaseq_examin ?bs 16 4294967280 True 0 0 = None"
    unfolding ospf6_lsaseq_examin.simps [of _ 16] using g(4,6) by simp
  then show ?thesis using g(1-3) u by (simp add: ospf6_packet_examin_def ospf6_packet_minlen_def Let_def)
qed

section \<open>A received Hello\<close>

lemma those_Some: "(\<And>x. x \<in> set xs \<Longrightarrow> \<exists>y. f x = Some y) \<Longrightarrow> \<exists>ys. those (map f xs) = Some ys \<and> length ys = length xs"
proof (induction xs)
  case (Cons x xs)
  then obtain y ys where "f x = Some y" "those (map f xs) = Some ys" "length ys = length xs" by (metis list.set_intros)
  then show ?case by simp
qed simp

lemma hello_read_ok:
  assumes len: "get16 bs 2 = Some len" "36 \<le> len" "(len - 36) mod 4 = 0" "len \<le> length bs" and r: "get32 bs 4 = Some r"
  shows "\<exists>pkt. hello_read bs = Some pkt \<and> hp_router_id pkt = r \<and> unat (hp_length pkt) = 36 + 4 * length (hp_rids pkt)"
proof -
  have g: "\<exists>x. get8 bs i = Some x" if "i < 36" for i using get8_Some [of i bs] len(2,4) that by simp
  have g16: "\<exists>x. get16 bs i = Some x" if "i < 35" for i using get16_Some [of i bs] len(2,4) that by simp
  have g32: "\<exists>x. get32 bs i = Some x" if "i + 4 \<le> len" for i using get32_Some [of i bs] len(4) that by simp
  obtain os where os: "those (map (get8 bs) [21, 22, 23]) = Some os" using g [of 21] g [of 22] g [of 23] by auto
  have "\<exists>x. get32 bs (36 + 4 * i) = Some x" if "i \<in> set [0 ..< (len - 36) div 4]" for i
    by (rule g32) (use that len(2,3) in auto)
  then obtain rids where rids: "those (map (\<lambda>i. get32 bs (36 + 4 * i)) [0 ..< (len - 36) div 4]) = Some rids"
    "length rids = (len - 36) div 4"
    using those_Some [of "[0 ..< (len - 36) div 4]" "\<lambda>i. get32 bs (36 + 4 * i)"] by auto
  obtain i p h d dr bdr where x: "get32 bs 16 = Some i" "get8 bs 20 = Some p" "get16 bs 24 = Some h" "get16 bs 26 = Some d"
    "get32 bs 28 = Some dr" "get32 bs 32 = Some bdr"
    using g32 [of 16] g [of 20] g16 [of 24] g16 [of 26] g32 [of 28] g32 [of 32] len(2) by auto
  have "\<exists>pkt. hello_read bs = Some pkt \<and> hp_router_id pkt = r \<and> hp_length pkt = of_nat len \<and> hp_rids pkt = rids"
    unfolding hello_read_def len(1) r x os by (simp add: rids(1))
  then obtain pkt where pkt: "hello_read bs = Some pkt" "hp_router_id pkt = r" "hp_length pkt = of_nat len" "hp_rids pkt = rids"
    by blast
  have "unat (hp_length pkt) = len" using get16_less [OF len(1)] by (simp add: pkt(3) unsigned_of_nat take_bit_nat_eq_self)
  moreover have "len = 36 + 4 * length rids" using rids(2) len(2,3) by auto
  ultimately show ?thesis using pkt by simp
qed


text \<open>The bytes of the example Hello of the router 3.\<close>
definition example_hello_bytes :: "u8 list" where
  "example_hello_bytes = [3, 1, 0, 40, 0, 0, 0, 3, 0, 0, 0, 0, 0, 0, 0, 0] @ [0, 0, 0, 1, 1, 0, 0, 0, 0, 10, 0, 40] @ replicate 8 0 @ [0, 0, 0, 9]"


end
