(* ===== verification/Dbdesc.thy ===== *)
theory Dbdesc
  imports Packet
begin

text \<open>
  The Database Description messages: \<open>ospf6_dbdesc_recv\<close>, \<open>ospf6_dbdesc_recv_master\<close>, \<open>ospf6_dbdesc_recv_slave\<close>, \<open>ospf6_dbdesc_send\<close>
  and \<open>ospf6_dbdesc_send_newone\<close> of \<^verbatim>\<open>src/ospf6d/ospf6_message.c\<close>. Two routers negotiate which of them is the master, and then describe
  their databases to each other by the headers of the LSAs. The properties are what the headers do to the request list and the summary
  list of the neighbor, and that no packet makes the handler abort.
\<close>

unbundle bit_operations_syntax

section \<open>The packet\<close>

text \<open>The router ID and the length of the header, the description, the LSA headers behind it, and the LLS data block.\<close>
record dbdesc_packet =
  dp_router_id :: rid
  dp_length :: u16
  dp_dbdesc :: ospf6_dbdesc
  dp_headers :: "ospf6_lsa_header list"
  dp_lls :: "u8 list option"

definition OPT_CLEAR_L :: "u8 list \<Rightarrow> u8 list" where
  "OPT_CLEAR_L options = options[1 := options ! 1 AND NOT OSPF6_OPT_L]"

section \<open>LSA headers\<close>

definition w_scope_lsdb :: "lsa_scope \<Rightarrow> world \<Rightarrow> lsdb" where
  "w_scope_lsdb scope w =
     (if scope = OSPF6_SCOPE_LINKLOCAL then oi_lsdb (w_oi w)
      else if scope = OSPF6_SCOPE_AREA then w_area_lsdb w
      else w_as_lsdb w)"

definition request_add :: "timeval \<Rightarrow> ospf6_lsa \<Rightarrow> nat \<Rightarrow> world \<Rightarrow> world option" where
  "request_add now his j w =
     Option.bind (nbr_list_add now his (on_request_list (w_nbr w j))) (\<lambda>request_list.
     Some (w_nbr_update j (on_request_list_update (\<lambda>_. request_list)) w))"

definition summary_remove :: "ospf6_lsa_header \<Rightarrow> nat \<Rightarrow> world \<Rightarrow> world option" where
  "summary_remove h j w =
     (case ospf6_lsdb_lookup (h_type h) (h_id h) (h_adv_router h) (on_summary_list (w_nbr w j)) of
        None \<Rightarrow> Some w
      | Some mine_summary \<Rightarrow>
          Option.bind (nbr_list_remove mine_summary (on_summary_list (w_nbr w j))) (\<lambda>summary_list.
          Some (w_nbr_update j (on_summary_list_update (\<lambda>_. summary_list)) w)))"

text \<open>One header. The code compares the two LSAs up to three times; the first comparison brings their ages up to date, and the others have
  the same result (lemma \<open>compare_again\<close>).\<close>
definition dbdesc_header :: "timeval \<Rightarrow> nat \<Rightarrow> ospf6_lsa_header \<Rightarrow> world \<Rightarrow> world option" where
  "dbdesc_header now j h w =
     (let his = ospf6_lsa_create_headeronly now h;
          scope = OSPF6_LSA_SCOPE (h_type h) in
      case ospf6_lsdb_lookup (h_type h) (h_id h) (h_adv_router h) (w_scope_lsdb scope w) of
        None \<Rightarrow> request_add now his j w
      | Some mine \<Rightarrow>
          Option.bind (ospf6_lsa_compare now his mine) (\<lambda>(c, his, aged).
          let w = w_scoped_lsdb_update scope (lsdb_modify (lsa_key mine) (\<lambda>_. aged)) w in
          Option.bind (if c < 0 then request_add now his j w else Some w) (\<lambda>w.
          if c \<le> 0 then summary_remove h j w else Some w)))"

abbreviation w_event :: "(rid \<Rightarrow> effect) \<Rightarrow> nat \<Rightarrow> world \<Rightarrow> world" where
  "w_event e j w \<equiv> w_emit (e (on_router_id (w_nbr w j))) w"

text \<open>The loop over the headers: whether it returns early, because an LSA must not occur in a stub area.\<close>
fun dbdesc_headers :: "timeval \<Rightarrow> (ospf6_lsa_header \<Rightarrow> bool) \<Rightarrow> nat \<Rightarrow> ospf6_lsa_header list \<Rightarrow> world \<Rightarrow> (bool \<times> world) option" where
  "dbdesc_headers now excluded j [] w = Some (False, w)"
| "dbdesc_headers now excluded j (h # hs) w =
     (if OSPF6_LSA_SCOPE (h_type h) = OSPF6_SCOPE_RESERVED then dbdesc_headers now excluded j hs w
      else if excluded h then Some (True, w_event SeqnumberMismatchEvent j w)
      else Option.bind (dbdesc_header now j h w) (dbdesc_headers now excluded j hs))"

section \<open>Receiving\<close>

text \<open>The checks in the state Exchange, which differ for master and slave in the master bit and in the expected sequence number.\<close>
datatype dbdesc_check = Duplicate | Mismatch | Accepted

definition dbdesc_exchange_check :: "bool \<Rightarrow> ospf6_dbdesc \<Rightarrow> ospf6_neighbor \<Rightarrow> dbdesc_check \<times> ospf6_dbdesc \<times> ospf6_neighbor" where
  "dbdesc_exchange_check i_am_master dbdesc on =
     (if dbdesc = on_dbdesc_last on then (Duplicate, dbdesc, on)
      else if (dd_bits dbdesc AND OSPF6_DBDESC_MSBIT \<noteq> 0) = i_am_master then (Mismatch, dbdesc, on)
      else if dd_bits dbdesc AND OSPF6_DBDESC_IBIT \<noteq> 0 then (Mismatch, dbdesc, on)
      else
        let on = on\<lparr>on_options := OPT_CLEAR_L (on_options on)\<rparr>;
            dbdesc = dbdesc\<lparr>dd_options := OPT_CLEAR_L (dd_options dbdesc)\<rparr> in
        if on_options on \<noteq> dd_options dbdesc then (Mismatch, dbdesc, on)
        else if dd_seqnum dbdesc \<noteq> (if i_am_master then on_dbdesc_seqnum on else on_dbdesc_seqnum on + 1) then (Mismatch, dbdesc, on)
        else (Accepted, dbdesc, on))"

text \<open>The LSA headers and the assertion behind them.\<close>
definition dbdesc_process ::
    "timeval \<Rightarrow> (ospf6_lsa_header \<Rightarrow> bool) \<Rightarrow> nat \<Rightarrow> dbdesc_packet \<Rightarrow> (world \<Rightarrow> world) \<Rightarrow> world \<Rightarrow> world option" where
  "dbdesc_process now excluded j pkt finish w =
     (let len = unat (dp_length pkt) in
      Option.bind (dbdesc_headers now excluded j (take ((len - 28) div 20) (dp_headers pkt)) w) (\<lambda>(returned, w).
      if returned then Some w
      else if len < 28 \<or> (len - 28) mod 20 \<noteq> 0 then None
      else Some (finish w)))"

definition lsreq_schedule :: "ospf6_neighbor \<Rightarrow> ospf6_neighbor" where
  "lsreq_schedule on =
     (let on = (if on_request_retrans_wait on then on\<lparr>on_thread_send_lsreq := None\<rparr> else on)
      in if on_thread_send_lsreq on = None then on\<lparr>on_thread_send_lsreq := Some 0\<rparr> else on)"

definition master_finish :: "nat \<Rightarrow> ospf6_dbdesc \<Rightarrow> world \<Rightarrow> world" where
  "master_finish j dbdesc w =
     (let w = w_nbr_update j (\<lambda>on. on\<lparr>on_dbdesc_seqnum := on_dbdesc_seqnum on + 1\<rparr>) w;
          w = w_nbr_update j lsreq_schedule w;
          w = w_nbr_update j (\<lambda>on. on\<lparr>on_thread_send_dbdesc := None\<rparr>) w;
          w = (if dd_bits dbdesc AND OSPF6_DBDESC_MBIT = 0 \<and> on_dbdesc_bits (w_nbr w j) AND OSPF6_DBDESC_MBIT = 0
               then w_event ExchangeDoneEvent j w
               else w_event SendDbdescNewone j (w_nbr_update j (\<lambda>on. on\<lparr>on_thread_send_dbdesc := Some 0\<rparr>) w))
      in w_nbr_update j (\<lambda>on. on\<lparr>on_dbdesc_last := dbdesc\<rparr>) w)"

definition master_exchange :: "nbr_env \<Rightarrow> bool \<Rightarrow> nat \<Rightarrow> dbdesc_packet \<Rightarrow> world \<Rightarrow> world option" where
  "master_exchange env stub j pkt w =
     (let (check, dbdesc, on) = dbdesc_exchange_check True (dp_dbdesc pkt) (w_nbr w j);
          w = w_nbr_update j (\<lambda>_. on) w in
      case check of
        Duplicate \<Rightarrow> Some w
      | Mismatch \<Rightarrow> Some (w_event SeqnumberMismatchEvent j w)
      | Accepted \<Rightarrow> dbdesc_process (ne_now env) (\<lambda>h. h_type h = 0x4005 \<and> stub) j pkt (master_finish j dbdesc) w)"

definition ospf6_dbdesc_recv_master :: "nbr_env \<Rightarrow> bool \<Rightarrow> nat \<Rightarrow> dbdesc_packet \<Rightarrow> world \<Rightarrow> world option" where
  "ospf6_dbdesc_recv_master env stub j pkt w =
     (let dbdesc = dp_dbdesc pkt;
          exstart = (\<lambda>w.
            if dd_bits dbdesc AND OSPF6_DBDESC_MSBIT = 0 \<and> dd_bits dbdesc AND OSPF6_DBDESC_IBIT = 0 \<and>
               dd_seqnum dbdesc = on_dbdesc_seqnum (w_nbr w j)
            then Option.bind (negotiation_done env j w) (\<lambda>w.
                 master_exchange env stub j pkt (w_nbr_update j (\<lambda>on. on\<lparr>on_options := dd_options dbdesc\<rparr>) w))
            else Some w) in
      case on_state (w_nbr w j) of
        OSPF6_NEIGHBOR_TWOWAY \<Rightarrow> Some w
      | OSPF6_NEIGHBOR_INIT \<Rightarrow>
          Option.bind (twoway_received env j w) (\<lambda>w.
          if on_state (w_nbr w j) \<noteq> OSPF6_NEIGHBOR_EXSTART then Some w else exstart w)
      | OSPF6_NEIGHBOR_EXSTART \<Rightarrow> exstart w
      | OSPF6_NEIGHBOR_EXCHANGE \<Rightarrow> master_exchange env stub j pkt w
      | OSPF6_NEIGHBOR_LOADING \<Rightarrow>
          Some (if dbdesc = on_dbdesc_last (w_nbr w j) then w else w_event SeqnumberMismatchEvent j w)
      | OSPF6_NEIGHBOR_FULL \<Rightarrow>
          Some (if dbdesc = on_dbdesc_last (w_nbr w j) then w else w_event SeqnumberMismatchEvent j w)
      | _ \<Rightarrow> Some w)"

definition slave_finish :: "nat \<Rightarrow> ospf6_dbdesc \<Rightarrow> world \<Rightarrow> world" where
  "slave_finish j dbdesc w =
     (let w = w_nbr_update j (\<lambda>on. on\<lparr>on_dbdesc_seqnum := dd_seqnum dbdesc\<rparr>) w;
          w = w_nbr_update j lsreq_schedule w;
          w = w_event SendDbdescNewone j (w_nbr_update j (\<lambda>on. on\<lparr>on_thread_send_dbdesc := Some 0\<rparr>) w)
      in w_nbr_update j (\<lambda>on. on\<lparr>on_dbdesc_last := dbdesc\<rparr>) w)"

definition slave_process :: "nbr_env \<Rightarrow> bool \<Rightarrow> nat \<Rightarrow> ospf6_dbdesc \<Rightarrow> dbdesc_packet \<Rightarrow> world \<Rightarrow> world option" where
  "slave_process env stub j dbdesc pkt w =
     dbdesc_process (ne_now env) (\<lambda>h. OSPF6_LSA_SCOPE (h_type h) = OSPF6_SCOPE_AS \<and> stub) j pkt (slave_finish j dbdesc) w"

definition slave_retransmit :: "nat \<Rightarrow> world \<Rightarrow> world" where
  "slave_retransmit j w = w_nbr_update j (\<lambda>on. on\<lparr>on_thread_send_dbdesc := Some 0\<rparr>) w"

definition slave_exchange :: "nbr_env \<Rightarrow> bool \<Rightarrow> nat \<Rightarrow> dbdesc_packet \<Rightarrow> world \<Rightarrow> world option" where
  "slave_exchange env stub j pkt w =
     (let (check, dbdesc, on) = dbdesc_exchange_check False (dp_dbdesc pkt) (w_nbr w j);
          w = w_nbr_update j (\<lambda>_. on) w in
      case check of
        Duplicate \<Rightarrow> Some (slave_retransmit j w)
      | Mismatch \<Rightarrow> Some (w_event SeqnumberMismatchEvent j w)
      | Accepted \<Rightarrow> slave_process env stub j dbdesc pkt w)"

definition ospf6_dbdesc_recv_slave :: "nbr_env \<Rightarrow> bool \<Rightarrow> nat \<Rightarrow> dbdesc_packet \<Rightarrow> world \<Rightarrow> world option" where
  "ospf6_dbdesc_recv_slave env stub j pkt w =
     (let dbdesc = dp_dbdesc pkt;
          exstart = (\<lambda>w.
            if dd_bits dbdesc AND OSPF6_DBDESC_IBIT \<noteq> 0 \<and> dd_bits dbdesc AND OSPF6_DBDESC_MBIT \<noteq> 0 \<and>
               dd_bits dbdesc AND OSPF6_DBDESC_MSBIT \<noteq> 0 \<and> dp_length pkt = 28
            then
              let w = w_nbr_update j (\<lambda>on. on\<lparr>on_dbdesc_bits := on_dbdesc_bits on AND NOT OSPF6_DBDESC_MSBIT,
                        on_dbdesc_seqnum := dd_seqnum dbdesc\<rparr>) w in
              Option.bind (negotiation_done env j w) (\<lambda>w.
              slave_process env stub j dbdesc pkt (w_nbr_update j (\<lambda>on. on\<lparr>on_options := dd_options dbdesc\<rparr>) w))
            else Some w) in
      case on_state (w_nbr w j) of
        OSPF6_NEIGHBOR_TWOWAY \<Rightarrow> Some w
      | OSPF6_NEIGHBOR_INIT \<Rightarrow>
          Option.bind (twoway_received env j w) (\<lambda>w.
          if on_state (w_nbr w j) \<noteq> OSPF6_NEIGHBOR_EXSTART then Some w else exstart w)
      | OSPF6_NEIGHBOR_EXSTART \<Rightarrow> exstart w
      | OSPF6_NEIGHBOR_EXCHANGE \<Rightarrow> slave_exchange env stub j pkt w
      | OSPF6_NEIGHBOR_LOADING \<Rightarrow>
          Some (if dbdesc = on_dbdesc_last (w_nbr w j) then slave_retransmit j w else w_event SeqnumberMismatchEvent j w)
      | OSPF6_NEIGHBOR_FULL \<Rightarrow>
          Some (if dbdesc = on_dbdesc_last (w_nbr w j) then slave_retransmit j w else w_event SeqnumberMismatchEvent j w)
      | _ \<Rightarrow> Some w)"

text \<open>On MDR interfaces: the DD TLV, and an adjacency that is begun by the packet.\<close>
definition dbdesc_recv_mdr :: "hello_env \<Rightarrow> nat \<Rightarrow> dbdesc_packet \<Rightarrow> world \<Rightarrow> world option" where
  "dbdesc_recv_mdr env j pkt w =
     Option.bind
       (if dd_options (dp_dbdesc pkt) ! 1 AND OSPF6_OPT_L \<noteq> 0 then
          Option.bind (dp_lls pkt) (\<lambda>lls.
          Option.bind (ospf6_mdr_process_dd_tlv (ne_ospf6 (he_nbr env)) (he_tlv_types env) lls (w_nbr w j)) (\<lambda>(changed, on).
          Some (w_nbr_update j (\<lambda>_. on) w)))
        else Some w) (\<lambda>w.
     Option.bind
       (if on_state (w_nbr w j) = OSPF6_NEIGHBOR_INIT
        then ospf6_neighbor_state_change (he_nbr env) OSPF6_NEIGHBOR_TWOWAY j w else Some w) (\<lambda>w.
     if on_state (w_nbr w j) = OSPF6_NEIGHBOR_TWOWAY \<and> need_adjacency (w_oi w) (w_nbr w j) then
       Option.bind (ospf6_neighbor_exstart (he_nbr env) j w) (\<lambda>w.
       Some (if dp_router_id pkt > he_router_id env
             then w_nbr_update j (\<lambda>on. on\<lparr>on_thread_send_dbdesc := None\<rparr>) w else w))
     else Some w))"

definition ospf6_dbdesc_recv :: "hello_env \<Rightarrow> bool \<Rightarrow> dbdesc_packet \<Rightarrow> world \<Rightarrow> world option" where
  "ospf6_dbdesc_recv env stub pkt w =
     (case nbr_index (dp_router_id pkt) w of
        None \<Rightarrow> Some w
      | Some j \<Rightarrow>
          let w = (if on_state (w_nbr w j) \<ge> OSPF6_NEIGHBOR_TWOWAY \<and> oi_relax_neighbor_inactivity (w_oi w)
                   then ospf6_neighbor_schedule_inactivity j w else w) in
          if \<not> oi_mtu_ignore (w_oi w) \<and> ucast (dd_ifmtu (dp_dbdesc pkt)) \<noteq> oi_ifmtu (w_oi w) then Some w
          else
            let pkt = pkt\<lparr>dp_dbdesc := (dp_dbdesc pkt)\<lparr>dd_reserved1 := 0, dd_reserved2 := 0\<rparr>\<rparr> in
            Option.bind (if oi_type (w_oi w) = OSPF6_IFTYPE_MDR then dbdesc_recv_mdr env j pkt w else Some w) (\<lambda>w.
            if dp_router_id pkt < he_router_id env then ospf6_dbdesc_recv_master (he_nbr env) stub j pkt w
            else if he_router_id env < dp_router_id pkt then ospf6_dbdesc_recv_slave (he_nbr env) stub j pkt w
            else Some w))"

section \<open>Sending\<close>

text \<open>The headers of the list from a position in the packet, and the list with the ages that are sent. The age of the first LSA that does not fit
  is updated too.\<close>
fun dbdesc_send_headers :: "timeval \<Rightarrow> ospf6_interface \<Rightarrow> nat \<Rightarrow> lsdb \<Rightarrow> (ospf6_lsa_header list \<times> lsdb) option" where
  "dbdesc_send_headers now oi pos [] = Some ([], [])"
| "dbdesc_send_headers now oi pos (lsa # lsas) =
     (let lsa = ospf6_lsa_age_update_to_send now (oi_transdelay oi) lsa in
      Option.bind (ospf6_packet_max oi) (\<lambda>packet_max.
      if pos + 20 > packet_max then Some ([], lsa # lsas)
      else map_option (\<lambda>(hs, db). (lsa_header lsa # hs, lsa # db)) (dbdesc_send_headers now oi (pos + 20) lsas)))"

text \<open>\<^verbatim>\<open>iobuflen\<close> is the size of the send buffer.\<close>
definition ospf6_dbdesc_send :: "hello_env \<Rightarrow> nat \<Rightarrow> nat \<Rightarrow> world \<Rightarrow> (dbdesc_packet option \<times> world) option" where
  "ospf6_dbdesc_send env iobuflen j w =
     (let w = w_nbr_update j (\<lambda>on. on\<lparr>on_thread_send_dbdesc := None\<rparr>) w;
          oi = w_oi w in
      if on_state (w_nbr w j) < OSPF6_NEIGHBOR_EXSTART then Some (None, w)
      else
        let w = (if on_dbdesc_bits (w_nbr w j) AND OSPF6_DBDESC_MSBIT \<noteq> 0
                 then w_nbr_update j (\<lambda>on. on\<lparr>on_thread_send_dbdesc := Some (1000 * uint (oi_rxmt_interval oi))\<rparr>) w else w);
            on = w_nbr w j;
            dbdesc = \<lparr>dd_reserved1 = 0, dd_options = take 3 (he_area_options env), dd_ifmtu = ucast (oi_ifmtu oi), dd_reserved2 = 0,
                      dd_bits = on_dbdesc_bits on, dd_seqnum = on_dbdesc_seqnum on\<rparr>;
            pkt = \<lparr>dp_router_id = he_router_id env, dp_length = 28, dp_dbdesc = dbdesc, dp_headers = [], dp_lls = None\<rparr> in
        if on_dbdesc_bits on AND OSPF6_DBDESC_IBIT = 0 then
          Option.bind (dbdesc_send_headers (ne_now (he_nbr env)) oi 28 (on_dbdesc_list on)) (\<lambda>(hs, dbdesc_list).
          Some (Some (pkt\<lparr>dp_length := of_nat (28 + 20 * length hs), dp_headers := hs\<rparr>),
                w_nbr_update j (\<lambda>on. on\<lparr>on_dbdesc_list := dbdesc_list\<rparr>) w))
        else if oi_type oi = OSPF6_IFTYPE_MDR \<and> im_AdjConnectivity (oi_mdr oi) \<noteq> OSPF6_ADJ_FULLYCONNECTED then
          if 28 + 16 \<ge> iobuflen then Some (Some pkt, w)
          else
            Option.bind (ospf6_set_lls_header (he_big_endian env)
              ([0, 0, 0, 0] @ ospf6_mdr_append_dd_tlv (he_tlv_types env) (he_router_id env) (oi_mdr oi)) 16) (\<lambda>lls.
            Some (Some (pkt\<lparr>dp_dbdesc := dbdesc\<lparr>dd_options := (dd_options dbdesc)[1 := dd_options dbdesc ! 1 OR OSPF6_OPT_L]\<rparr>,
                            dp_lls := Some lls\<rparr>), w))
        else Some (Some pkt, w))"

text \<open>The LSAs that fit are moved from the summary list to the list of the packet. The iteration visits what was in the summary list at its start.\<close>
fun dbdesc_move :: "timeval \<Rightarrow> ospf6_interface \<Rightarrow> nat \<Rightarrow> lsdb \<Rightarrow> lsdb \<times> lsdb \<Rightarrow> (lsdb \<times> lsdb) option" where
  "dbdesc_move now oi pos [] acc = Some acc"
| "dbdesc_move now oi pos (lsa # lsas) acc =
     Option.bind (ospf6_packet_max oi) (\<lambda>packet_max.
     if pos + 20 > packet_max then Some acc
     else
       Option.bind (ospf6_lsa_copy now lsa) (\<lambda>(copy, aged).
       Option.bind (nbr_list_add now copy (snd acc)) (\<lambda>dbdesc_list.
       Option.bind (nbr_list_remove lsa (fst acc)) (\<lambda>summary_list.
       dbdesc_move now oi (pos + 20) lsas (summary_list, dbdesc_list)))))"

definition ospf6_dbdesc_send_newone :: "hello_env \<Rightarrow> nat \<Rightarrow> nat \<Rightarrow> world \<Rightarrow> (dbdesc_packet option \<times> world) option" where
  "ospf6_dbdesc_send_newone env iobuflen j w =
     Option.bind (dbdesc_move (ne_now (he_nbr env)) (w_oi w) 32 (on_summary_list (w_nbr w j))
       (on_summary_list (w_nbr w j), snd (ospf6_lsdb_remove_all no_hooks (on_dbdesc_list (w_nbr w j)))))
       (\<lambda>(summary_list, dbdesc_list).
     let w = w_nbr_update j (\<lambda>on. on\<lparr>on_summary_list := summary_list, on_dbdesc_list := dbdesc_list,
               on_dbdesc_bits := (if length summary_list = 0 then on_dbdesc_bits on AND NOT OSPF6_DBDESC_MBIT else on_dbdesc_bits on)\<rparr>) w;
         on = w_nbr w j;
         w = (if on_dbdesc_bits on AND OSPF6_DBDESC_MSBIT = 0 \<and> dd_bits (on_dbdesc_last on) AND OSPF6_DBDESC_MBIT = 0 \<and>
                 on_dbdesc_bits on AND OSPF6_DBDESC_MBIT = 0
              then w_event ExchangeDoneEvent j w else w)
     in ospf6_dbdesc_send env iobuflen j w)"

section \<open>Ages\<close>

text \<open>An LSA, possibly with its age brought up to date at the given time.\<close>
definition aged :: "timeval \<Rightarrow> ospf6_lsa \<Rightarrow> ospf6_lsa \<Rightarrow> bool" where
  "aged now l l' \<longleftrightarrow> l' = l \<or> l' = snd (ospf6_lsa_age_current now l)"

lemma age_current_shape: "\<exists>x. ospf6_lsa_age_current now l = (x, l\<lparr>lsa_header := (lsa_header l)\<lparr>h_age := x\<rparr>\<rparr>)"
  by (simp add: ospf6_lsa_age_current_def Let_def)

lemma age_current_again:
  "ospf6_lsa_age_current now (snd (ospf6_lsa_age_current now l)) = ospf6_lsa_age_current now l"
proof -
  have "(ucast x :: u16) = 3600" if "\<not> 3600 < unat x" "3600 \<le> unat (ucast x :: u16)" for x :: u32
  proof -
    have "unat (ucast x :: u16) = unat x" using that(1) by (simp add: unat_ucast_mod)
    then have "unat (ucast x :: u16) = unat (3600 :: u16)" using that by simp
    then show ?thesis by (rule unsigned_word_eqI)
  qed
  then show ?thesis by (simp add: ospf6_lsa_age_current_def Let_def)
qed

lemma aged_age_current: "aged now l l' \<Longrightarrow> ospf6_lsa_age_current now l' = ospf6_lsa_age_current now l"
  by (auto simp: aged_def age_current_again)

lemma aged_trans: "aged now a b \<Longrightarrow> aged now b c \<Longrightarrow> aged now a c"
  by (auto simp: aged_def age_current_again)

lemma aged_fields:
  assumes "aged now l l'"
  shows "lsa_key l' = lsa_key l" "h_seqnum (lsa_header l') = h_seqnum (lsa_header l)" "h_checksum (lsa_header l') = h_checksum (lsa_header l)"
    "h_type (lsa_header l') = h_type (lsa_header l)" "lsa_lsdb l' = lsa_lsdb l" "lsa_wf l' = lsa_wf l" "lsa_lock l' = lsa_lock l"
    "lsa_retrans_count l' = lsa_retrans_count l" "h_id (lsa_header l') = h_id (lsa_header l)"
    "h_adv_router (lsa_header l') = h_adv_router (lsa_header l)"
proof -
  obtain x where x: "ospf6_lsa_age_current now l = (x, l\<lparr>lsa_header := (lsa_header l)\<lparr>h_age := x\<rparr>\<rparr>)" using age_current_shape by blast
  consider "l' = l" | "l' = l\<lparr>lsa_header := (lsa_header l)\<lparr>h_age := x\<rparr>\<rparr>" using assms by (auto simp: aged_def x)
  note c = this
  show "lsa_key l' = lsa_key l" "h_seqnum (lsa_header l') = h_seqnum (lsa_header l)" "h_checksum (lsa_header l') = h_checksum (lsa_header l)"
    "h_type (lsa_header l') = h_type (lsa_header l)" "lsa_lsdb l' = lsa_lsdb l" "lsa_wf l' = lsa_wf l" "lsa_lock l' = lsa_lock l"
    "lsa_retrans_count l' = lsa_retrans_count l" "h_id (lsa_header l') = h_id (lsa_header l)"
    "h_adv_router (lsa_header l') = h_adv_router (lsa_header l)"
    by (cases rule: c; simp add: lsa_key_def lsa_wf_def)+
qed

lemma compare_aged:
  assumes "ospf6_lsa_compare now a b = Some (c, a', b')"
  shows "aged now a a' \<and> aged now b b'"
  using assms by (auto simp: ospf6_lsa_compare_def aged_def Let_def case_prod_beta split: if_splits)

lemma compare_cong:
  assumes "aged now a a'" "aged now b b'"
  shows "map_option fst (ospf6_lsa_compare now a' b') = map_option fst (ospf6_lsa_compare now a b)"
  using aged_fields [OF assms(1)] aged_fields [OF assms(2)] aged_age_current [OF assms(1)] aged_age_current [OF assms(2)]
  by (simp add: ospf6_lsa_compare_def OSPF6_LSA_IS_SAME_def Let_def case_prod_beta)

lemma compare_again:
  assumes "ospf6_lsa_compare now a b = Some (c, a', b')"
  shows "\<exists>a'' b''. ospf6_lsa_compare now a' b' = Some (c, a'', b'')"
  using compare_cong [of now a a' b b'] compare_aged [OF assms] assms by (auto simp: map_option_case split: option.splits)

section \<open>What the headers do\<close>

definition dbs_aged :: "timeval \<Rightarrow> world \<Rightarrow> world \<Rightarrow> bool" where
  "dbs_aged now w w' \<longleftrightarrow> list_all2 (aged now) (oi_lsdb (w_oi w)) (oi_lsdb (w_oi w')) \<and>
     list_all2 (aged now) (w_area_lsdb w) (w_area_lsdb w') \<and> list_all2 (aged now) (w_as_lsdb w) (w_as_lsdb w')"

text \<open>All that a header changes: ages in the databases, and two lists of the neighbor.\<close>
definition dd_frame :: "timeval \<Rightarrow> nat \<Rightarrow> world \<Rightarrow> world \<Rightarrow> bool" where
  "dd_frame now j w w' \<longleftrightarrow> dbs_aged now w w' \<and>
     (\<exists>q s. oi_neighbor_list (w_oi w') =
        (oi_neighbor_list (w_oi w))[j := (w_nbr w j)\<lparr>on_request_list := q, on_summary_list := s\<rparr>]) \<and>
     (w_oi w')\<lparr>oi_lsdb := [], oi_neighbor_list := []\<rparr> = (w_oi w)\<lparr>oi_lsdb := [], oi_neighbor_list := []\<rparr>"

lemma list_all2_agedD:
  assumes "list_all2 (aged now) db db'"
  shows "map lsa_key db' = map lsa_key db" "l' \<in> set db' \<Longrightarrow> \<exists>l \<in> set db. aged now l l'"
proof -
  show "map lsa_key db' = map lsa_key db"
    using assms by (induction rule: list_all2_induct) (simp_all add: aged_fields(1))
  show "\<exists>l \<in> set db. aged now l l'" if "l' \<in> set db'"
    using assms that by (induction rule: list_all2_induct) auto
qed

lemma lookup_aged:
  assumes "list_all2 (aged now) db db'"
  shows "rel_option (aged now) (ospf6_lsdb_lookup t i a db) (ospf6_lsdb_lookup t i a db')"
  using assms by (induction rule: list_all2_induct) (auto simp: ospf6_lsdb_lookup_def aged_fields(1))

lemma aged_refl [simp]: "aged now l l"
  by (simp add: aged_def)

lemma list_all2_aged_refl [simp]: "list_all2 (aged now) db db"
  by (simp add: list.rel_refl)

lemma list_all2_aged_trans: "list_all2 (aged now) a b \<Longrightarrow> list_all2 (aged now) b c \<Longrightarrow> list_all2 (aged now) a c"
  by (rule list_all2_trans [of _ _ "aged now"]) (auto intro: aged_trans)

lemma db_ok_aged:
  assumes "list_all2 (aged now) db db'" "db_ok w scope db"
    and "oi_ifindex (w_oi w') = oi_ifindex (w_oi w)" "oi_area_id (w_oi w') = oi_area_id (w_oi w)"
  shows "db_ok w' scope db'"
proof -
  have "OSPF6_LSA_SCOPE (h_type (lsa_header l')) = scope \<and> lsa_home_ok w' l' \<and> lsa_wf l'" if l': "l' \<in> set db'" for l'
  proof -
    obtain l where l: "l \<in> set db" "aged now l l'" using list_all2_agedD(2) [OF assms(1) l'] by blast
    have "lsa_home_ok w' l' = lsa_home_ok w l" by (rule lsa_home_ok_cong) (simp_all add: assms aged_fields [OF l(2)])
    then show ?thesis using assms(2) l aged_fields [OF l(2)] by (simp add: db_ok_def)
  qed
  then show ?thesis using assms(2) list_all2_agedD(1) [OF assms(1)] by (simp add: db_ok_def lsdb_sorted_def)
qed

lemma w_ok_aged:
  assumes "dbs_aged now w w'" "w_ok w"
    and "(w_oi w')\<lparr>oi_lsdb := []\<rparr> = (w_oi w)\<lparr>oi_lsdb := []\<rparr>"
  shows "w_ok w'"
proof -
  have f: "oi_ifindex (w_oi w') = oi_ifindex (w_oi w)" "oi_area_id (w_oi w') = oi_area_id (w_oi w)"
    "oi_neighbor_list (w_oi w') = oi_neighbor_list (w_oi w)" "oi_mdr (w_oi w') = oi_mdr (w_oi w)"
    using arg_cong [OF assms(3), of oi_ifindex] arg_cong [OF assms(3), of oi_area_id] arg_cong [OF assms(3), of oi_neighbor_list]
      arg_cong [OF assms(3), of oi_mdr] by simp_all
  note a = assms(1) [unfolded dbs_aged_def]
  have home: "lsa_home_ok w' = lsa_home_ok w" by (rule ext, rule lsa_home_ok_cong) (simp_all add: f)
  have dbs: "dbs_ok w'"
    using assms(2) db_ok_aged [OF _ _ f(1,2)] a unfolding w_ok_def retrans_ok_def dbs_ok_def by blast
  have "\<exists>l \<in> w_lsas w. aged now l l'" if "l' \<in> w_lsas w'" for l'
    using that a list_all2_agedD(2) unfolding w_lsas_def by blast
  then have "counts_ok C w'" if "counts_ok C w" for C
    using that aged_fields(1,8) unfolding counts_ok_def by metis
  then show ?thesis using assms(2) dbs f home by (simp add: w_ok_def retrans_ok_def mdr_valid_def)
qed

lemma dd_frame_fields:
  assumes "dd_frame now j w w'" "j < w_num w"
  shows "w_num w' = w_num w" "oi_type (w_oi w') = oi_type (w_oi w)" "oi_ifmtu (w_oi w') = oi_ifmtu (w_oi w)"
    "\<exists>q s. w_nbr w' j = (w_nbr w j)\<lparr>on_request_list := q, on_summary_list := s\<rparr>"
    "w_rids w' = w_rids w" "oi_adjacency_formation_limit (w_oi w') = oi_adjacency_formation_limit (w_oi w)"
proof -
  obtain q s where n: "oi_neighbor_list (w_oi w') = (oi_neighbor_list (w_oi w))[j := (w_nbr w j)\<lparr>on_request_list := q, on_summary_list := s\<rparr>]"
    using assms(1) by (auto simp: dd_frame_def)
  show "w_num w' = w_num w" by (simp add: n)
  show "\<exists>q s. w_nbr w' j = (w_nbr w j)\<lparr>on_request_list := q, on_summary_list := s\<rparr>" using assms(2) by (auto simp: n)
  show "w_rids w' = w_rids w" using assms(2) by (auto simp: n map_update intro!: list_update_same_conv [THEN iffD2])
  have e: "(w_oi w')\<lparr>oi_lsdb := [], oi_neighbor_list := []\<rparr> = (w_oi w)\<lparr>oi_lsdb := [], oi_neighbor_list := []\<rparr>"
    using assms(1) by (simp add: dd_frame_def)
  show "oi_type (w_oi w') = oi_type (w_oi w)" using arg_cong [OF e, of oi_type] by simp
  show "oi_ifmtu (w_oi w') = oi_ifmtu (w_oi w)" using arg_cong [OF e, of oi_ifmtu] by simp
  show "oi_adjacency_formation_limit (w_oi w') = oi_adjacency_formation_limit (w_oi w)"
    using arg_cong [OF e, of oi_adjacency_formation_limit] by simp
qed

lemma dd_frame_inv:
  assumes f: "dd_frame now j w w'" and j: "j < w_num w" and inv: "nbr_inv w" and st: "on_state (w_nbr w j) > OSPF6_NEIGHBOR_EXSTART"
  shows "nbr_inv w'"
proof -
  obtain q s where n: "oi_neighbor_list (w_oi w') = (oi_neighbor_list (w_oi w))[j := (w_nbr w j)\<lparr>on_request_list := q, on_summary_list := s\<rparr>]"
    using f by (auto simp: dd_frame_def)
  have e: "(w_oi w')\<lparr>oi_lsdb := [], oi_neighbor_list := []\<rparr> = (w_oi w)\<lparr>oi_lsdb := [], oi_neighbor_list := []\<rparr>"
    using f by (simp add: dd_frame_def)
  let ?w1 = "w\<lparr>w_oi := (w_oi w)\<lparr>oi_lsdb := oi_lsdb (w_oi w')\<rparr>, w_area_lsdb := w_area_lsdb w', w_as_lsdb := w_as_lsdb w'\<rparr>"
  have "w_ok ?w1"
    by (rule w_ok_aged [of now w]) (use f inv in \<open>simp_all add: dd_frame_def dbs_aged_def nbr_inv_def fsm_inv_def\<close>)
  then have i1: "nbr_inv ?w1" using inv by (simp add: nbr_inv_def fsm_inv_def)
  show ?thesis
  proof (rule nbr_input_inv [OF i1])
    have "list_all2 nbr_input (oi_neighbor_list (w_oi w)) (oi_neighbor_list (w_oi w'))"
      using j st by (auto simp: n list_all2_conv_all_nth nth_list_update nbr_input_def)
    moreover have "oi_mdr (w_oi w') = oi_mdr (w_oi w)" "oi_ifindex (w_oi w') = oi_ifindex (w_oi w)"
      "oi_area_id (w_oi w') = oi_area_id (w_oi w)"
      "oi_initial_immediate_hello_delay (w_oi w') = oi_initial_immediate_hello_delay (w_oi w)"
      using arg_cong [OF e, of oi_mdr] arg_cong [OF e, of oi_ifindex] arg_cong [OF e, of oi_area_id]
        arg_cong [OF e, of oi_initial_immediate_hello_delay] by simp_all
    ultimately show "world_input ?w1 w'" by (simp add: world_input_def)
  qed
qed

lemma dd_frame_refl: "dd_frame now j w w"
proof -
  have "oi_neighbor_list (w_oi w) = (oi_neighbor_list (w_oi w))
      [j := (w_nbr w j)\<lparr>on_request_list := on_request_list (w_nbr w j), on_summary_list := on_summary_list (w_nbr w j)\<rparr>]" by simp
  then show ?thesis unfolding dd_frame_def dbs_aged_def by (metis list_all2_aged_refl)
qed

lemma dd_frame_trans:
  assumes "dd_frame now j w w1" "dd_frame now j w1 w2" "j < w_num w"
  shows "dd_frame now j w w2"
proof -
  obtain q s where n: "oi_neighbor_list (w_oi w1) = (oi_neighbor_list (w_oi w))[j := (w_nbr w j)\<lparr>on_request_list := q, on_summary_list := s\<rparr>]"
    using assms(1) by (auto simp: dd_frame_def)
  obtain q' s' where n': "oi_neighbor_list (w_oi w2) = (oi_neighbor_list (w_oi w1))[j := (w_nbr w1 j)\<lparr>on_request_list := q', on_summary_list := s'\<rparr>]"
    using assms(2) by (auto simp: dd_frame_def)
  have "oi_neighbor_list (w_oi w2) = (oi_neighbor_list (w_oi w))[j := (w_nbr w j)\<lparr>on_request_list := q', on_summary_list := s'\<rparr>]"
    unfolding n' using assms(3) by (simp add: n)
  then show ?thesis using assms(1,2) list_all2_aged_trans unfolding dd_frame_def dbs_aged_def by metis
qed

lemma dd_frameI:
  assumes "dbs_aged now w w'" "oi_neighbor_list (w_oi w') = (oi_neighbor_list (w_oi w))[j := (w_nbr w j)\<lparr>on_request_list := q, on_summary_list := s\<rparr>]"
    and "(w_oi w')\<lparr>oi_lsdb := [], oi_neighbor_list := []\<rparr> = (w_oi w)\<lparr>oi_lsdb := [], oi_neighbor_list := []\<rparr>"
  shows "dd_frame now j w w'"
  using assms unfolding dd_frame_def by blast

lemma dd_frame_lists:
  "dd_frame now j w (w_nbr_update j (on_request_list_update (\<lambda>_. q)) w)"
  "dd_frame now j w (w_nbr_update j (on_summary_list_update (\<lambda>_. s)) w)"
  by (rule dd_frameI [where q = q and s = "on_summary_list (w_nbr w j)"]; simp add: dbs_aged_def w_nbr_update_def nbr_update_def)
    (rule dd_frameI [where q = "on_request_list (w_nbr w j)" and s = s]; simp add: dbs_aged_def w_nbr_update_def nbr_update_def)

lemma sorted_key_unique:
  assumes "lsdb_sorted db" "l \<in> set db" "m \<in> set db" "lsa_key l = lsa_key m"
  shows "l = m"
proof -
  have "distinct (map lsa_key db)" using assms(1) by (simp add: lsdb_sorted_def strict_sorted_iff)
  then show ?thesis using assms(2-4) by (auto simp: distinct_map inj_on_def)
qed

lemma modify_aged:
  assumes "lsdb_sorted db" "mine \<in> set db" "aged now mine mine'"
  shows "list_all2 (aged now) db (lsdb_modify (lsa_key mine) (\<lambda>_. mine') db)"
  unfolding lsdb_modify_def list_all2_map2
proof (rule list.rel_refl_strong)
  fix l assume "l \<in> set db"
  then show "aged now l (if lsa_key l = lsa_key mine then mine' else l)"
    using sorted_key_unique [OF assms(1) _ assms(2)] assms(3) by auto
qed

lemma dd_frame_modify:
  assumes "dbs_ok w" "mine \<in> set (w_scope_lsdb scope w)" "aged now mine mine'"
  shows "dd_frame now j w (w_scoped_lsdb_update scope (lsdb_modify (lsa_key mine) (\<lambda>_. mine')) w)"
proof -
  have "lsdb_sorted (w_scope_lsdb scope w)" using assms(1) by (simp add: w_scope_lsdb_def dbs_ok_def db_ok_def)
  note a = modify_aged [OF this assms(2,3)]
  have "(oi_neighbor_list (w_oi w)) = (oi_neighbor_list (w_oi w))
      [j := (w_nbr w j)\<lparr>on_request_list := on_request_list (w_nbr w j), on_summary_list := on_summary_list (w_nbr w j)\<rparr>]" by simp
  then have "\<exists>q s. oi_neighbor_list (w_oi w) = (oi_neighbor_list (w_oi w))[j := (w_nbr w j)\<lparr>on_request_list := q, on_summary_list := s\<rparr>]"
    by blast
  then show ?thesis using a by (simp add: dd_frame_def dbs_aged_def w_scoped_lsdb_update_def w_scope_lsdb_def split: if_splits)
qed

text \<open>The keys of a list.\<close>
lemma keys_lookup: "k \<in> lsdb_keys db \<longleftrightarrow> nbr_list_lookup k db \<noteq> None"
  unfolding nbr_list_lookup_find find_None_iff by blast

lemma request_add_ok:
  assumes "nbr_list_ok (on_request_list (w_nbr w j))" "lsa_wf his" "lsa_lock his = 0"
  shows "\<exists>q. request_add now his j w = Some (w_nbr_update j (on_request_list_update (\<lambda>_. q)) w) \<and> nbr_list_ok q \<and>
    lsdb_keys q = insert (lsa_key his) (lsdb_keys (on_request_list (w_nbr w j)))"
proof -
  obtain q where q: "nbr_list_add now his (on_request_list (w_nbr w j)) = Some q" "nbr_list_ok q"
    using nbr_list.add_ok [OF assms] by blast
  have "k \<in> lsdb_keys q \<longleftrightarrow> k = lsa_key his \<or> k \<in> lsdb_keys (on_request_list (w_nbr w j))" for k
    using nbr_list.lookup_add [OF assms(1,2) q(1), of k] unfolding keys_lookup by simp
  then have "lsdb_keys q = insert (lsa_key his) (lsdb_keys (on_request_list (w_nbr w j)))" by blast
  then show ?thesis using q by (auto simp: request_add_def)
qed

lemma lsdb_sorted_remove1: "lsdb_sorted db \<Longrightarrow> lsdb_sorted (remove1 l db)"
  by (induction db) (auto dest!: set_remove1_subset [THEN subsetD])

lemma summary_remove_ok:
  assumes ok: "nbr_list_ok (on_summary_list (w_nbr w j))"
  shows "\<exists>w' s. summary_remove h j w = Some w' \<and> (w' = w \<and> s = on_summary_list (w_nbr w j) \<or>
      w' = w_nbr_update j (on_summary_list_update (\<lambda>_. s)) w) \<and> nbr_list_ok s \<and>
    lsdb_keys s = lsdb_keys (on_summary_list (w_nbr w j)) - {(h_type h, h_adv_router h, h_id h)}"
proof -
  let ?k = "(h_type h, h_adv_router h, h_id h)" and ?s = "on_summary_list (w_nbr w j)"
  have look: "ospf6_lsdb_lookup (h_type h) (h_id h) (h_adv_router h) ?s = nbr_list_lookup ?k ?s" by (simp add: nbr_list_lookup_def)
  show ?thesis
  proof (cases "nbr_list_lookup ?k ?s")
    case None
    then have "?k \<notin> lsdb_keys ?s" using keys_lookup by blast
    then show ?thesis using None look ok by (auto simp: summary_remove_def)
  next
    case (Some l)
    then have l: "l \<in> set ?s" "lsa_key l = ?k" using nbr_list_lookup_some by blast+
    have sorted: "lsdb_sorted ?s" and lock: "lsa_lock l = 1" using ok l(1) by (auto simp: nbr_list_ok_def)
    have d: "distinct ?s" "inj_on lsa_key (set ?s)" using sorted by (simp_all add: lsdb_sorted_def strict_sorted_iff distinct_map)
    have r: "nbr_list_remove l ?s = Some (remove1 l ?s)"
      using Some l(2) lsa_unlock_one [OF lock] by (simp add: nbr_list_remove_def ospf6_lsdb_remove_def nbr_list_lookup_key no_hooks_def Let_def)
    moreover have "nbr_list_ok (remove1 l ?s)"
      using ok lsdb_sorted_remove1 [of ?s l] set_remove1_subset [of l ?s] by (auto simp: nbr_list_ok_def)
    moreover have "lsdb_keys (remove1 l ?s) = lsdb_keys ?s - {?k}"
      using inj_on_image_set_diff [OF d(2), of "set ?s" "{l}"] l by (simp add: d(1) set_remove1_eq)
    moreover have "summary_remove h j w = Some (w_nbr_update j (on_summary_list_update (\<lambda>_. remove1 l ?s)) w)"
      unfolding summary_remove_def look Some using r by simp
    ultimately show ?thesis by blast
  qed
qed

text \<open>How a header compares with the LSA of the database, if there is one.\<close>
definition header_key :: "ospf6_lsa_header \<Rightarrow> lsa_key" where
  "header_key h = (h_type h, h_adv_router h, h_id h)"

definition dd_compare :: "timeval \<Rightarrow> world \<Rightarrow> ospf6_lsa_header \<Rightarrow> int option" where
  "dd_compare now w h =
     Option.bind (ospf6_lsdb_lookup (h_type h) (h_id h) (h_adv_router h) (w_scope_lsdb (OSPF6_LSA_SCOPE (h_type h)) w)) (\<lambda>mine.
     map_option fst (ospf6_lsa_compare now (ospf6_lsa_create_headeronly now h) mine))"

text \<open>The neighbor has an LSA that the router lacks or that is more recent; the neighbor has an LSA that is as recent as that of the router.\<close>
definition dd_wanted :: "timeval \<Rightarrow> world \<Rightarrow> ospf6_lsa_header \<Rightarrow> bool" where
  "dd_wanted now w h = (case dd_compare now w h of None \<Rightarrow> True | Some c \<Rightarrow> c < 0)"

definition dd_known :: "timeval \<Rightarrow> world \<Rightarrow> ospf6_lsa_header \<Rightarrow> bool" where
  "dd_known now w h = (case dd_compare now w h of None \<Rightarrow> False | Some c \<Rightarrow> c \<le> 0)"

definition dd_lists_ok :: "ospf6_neighbor \<Rightarrow> bool" where
  "dd_lists_ok on \<longleftrightarrow> nbr_list_ok (on_request_list on) \<and> nbr_list_ok (on_summary_list on)"

lemma dd_compare_aged:
  assumes "dbs_aged now w w'"
  shows "dd_compare now w' h = dd_compare now w h"
proof -
  let ?l = "ospf6_lsdb_lookup (h_type h) (h_id h) (h_adv_router h)" and ?s = "OSPF6_LSA_SCOPE (h_type h)"
  have "list_all2 (aged now) (w_scope_lsdb ?s w) (w_scope_lsdb ?s w')" using assms by (simp add: w_scope_lsdb_def dbs_aged_def)
  from lookup_aged [OF this] have "rel_option (aged now) (?l (w_scope_lsdb ?s w)) (?l (w_scope_lsdb ?s w'))" .
  then show ?thesis
    by (cases rule: option.rel_cases) (simp_all add: dd_compare_def compare_cong [OF aged_refl])
qed

lemma dd_frame_compare:
  assumes "dd_frame now j w w'"
  shows "dd_wanted now w' = dd_wanted now w" "dd_known now w' = dd_known now w"
  using assms dd_compare_aged [of now w w'] by (auto simp: dd_frame_def dd_wanted_def dd_known_def)

lemma headeronly_fields [simp]:
  "lsa_header (ospf6_lsa_create_headeronly now h) = h" "lsa_wf (ospf6_lsa_create_headeronly now h)"
  "lsa_lock (ospf6_lsa_create_headeronly now h) = 0" "lsa_key (ospf6_lsa_create_headeronly now h) = header_key h"
  by (simp_all add: ospf6_lsa_create_headeronly_def ospf6_lsa_age_set_def lsa_blank_def lsa_wf_def lsa_key_def header_key_def
      CHECK_FLAG_def SET_FLAG_def Let_def)

lemma compare_headeronly:
  assumes "lsa_key mine = header_key h"
  shows "\<exists>c his' mine'. ospf6_lsa_compare now (ospf6_lsa_create_headeronly now h) mine = Some (c, his', mine')"
  using assms by (simp add: ospf6_lsa_compare_def OSPF6_LSA_IS_SAME_def lsa_key_def header_key_def case_prod_beta Let_def)

lemma request_step:
  assumes "j < w_num w" "dd_lists_ok (w_nbr w j)" "lsa_wf his" "lsa_lock his = 0"
  shows "\<exists>w'. request_add now his j w = Some w' \<and> dd_frame now j w w' \<and> dd_lists_ok (w_nbr w' j) \<and>
    lsdb_keys (on_request_list (w_nbr w' j)) = insert (lsa_key his) (lsdb_keys (on_request_list (w_nbr w j))) \<and>
    on_summary_list (w_nbr w' j) = on_summary_list (w_nbr w j)"
proof -
  obtain q where q: "request_add now his j w = Some (w_nbr_update j (on_request_list_update (\<lambda>_. q)) w)" "nbr_list_ok q"
    "lsdb_keys q = insert (lsa_key his) (lsdb_keys (on_request_list (w_nbr w j)))"
    using request_add_ok [of w j his now] assms(2-4) by (auto simp: dd_lists_ok_def)
  then show ?thesis using dd_frame_lists(1) [of now j w q] assms(1,2) by (simp add: dd_lists_ok_def)
qed

lemma summary_step:
  assumes "j < w_num w" "dd_lists_ok (w_nbr w j)"
  shows "\<exists>w'. summary_remove h j w = Some w' \<and> dd_frame now j w w' \<and> dd_lists_ok (w_nbr w' j) \<and>
    on_request_list (w_nbr w' j) = on_request_list (w_nbr w j) \<and>
    lsdb_keys (on_summary_list (w_nbr w' j)) = lsdb_keys (on_summary_list (w_nbr w j)) - {header_key h}"
proof -
  obtain w' s where w': "summary_remove h j w = Some w'" "nbr_list_ok s"
    "w' = w \<and> s = on_summary_list (w_nbr w j) \<or> w' = w_nbr_update j (on_summary_list_update (\<lambda>_. s)) w"
    "lsdb_keys s = lsdb_keys (on_summary_list (w_nbr w j)) - {header_key h}"
    using summary_remove_ok [of w j h] assms(2) unfolding dd_lists_ok_def header_key_def by blast
  from w'(3) show ?thesis
  proof
    assume "w' = w \<and> s = on_summary_list (w_nbr w j)"
    then show ?thesis using w' assms(2) dd_frame_refl [of now j w] by (intro exI [of _ w]) simp
  next
    assume "w' = w_nbr_update j (on_summary_list_update (\<lambda>_. s)) w"
    then show ?thesis using w' assms dd_frame_lists(2) [of now j w s] by (intro exI [of _ w']) (simp add: dd_lists_ok_def)
  qed
qed

lemma dbdesc_header_ok:
  assumes ok: "dbs_ok w" and j: "j < w_num w" and l: "dd_lists_ok (w_nbr w j)"
  shows "\<exists>w'. dbdesc_header now j h w = Some w' \<and> dd_frame now j w w' \<and> dd_lists_ok (w_nbr w' j) \<and>
    lsdb_keys (on_request_list (w_nbr w' j)) = lsdb_keys (on_request_list (w_nbr w j)) \<union> (if dd_wanted now w h then {header_key h} else {}) \<and>
    lsdb_keys (on_summary_list (w_nbr w' j)) = lsdb_keys (on_summary_list (w_nbr w j)) - (if dd_known now w h then {header_key h} else {})"
proof (cases "ospf6_lsdb_lookup (h_type h) (h_id h) (h_adv_router h) (w_scope_lsdb (OSPF6_LSA_SCOPE (h_type h)) w)")
  case None
  then show ?thesis
    using request_step [OF j l, of "ospf6_lsa_create_headeronly now h" now]
    by (auto simp: dbdesc_header_def dd_wanted_def dd_known_def dd_compare_def Let_def)
next
  case (Some mine)
  let ?s = "OSPF6_LSA_SCOPE (h_type h)"
  have m: "mine \<in> set (w_scope_lsdb ?s w)" "lsa_key mine = header_key h"
    using Some by (auto simp: ospf6_lsdb_lookup_def find_Some_iff in_set_conv_nth header_key_def)
  obtain c his' mine' where c: "ospf6_lsa_compare now (ospf6_lsa_create_headeronly now h) mine = Some (c, his', mine')"
    using compare_headeronly [OF m(2)] by blast
  have a: "aged now (ospf6_lsa_create_headeronly now h) his'" "aged now mine mine'" using compare_aged [OF c] by simp_all
  have his: "lsa_wf his'" "lsa_lock his' = 0" "lsa_key his' = header_key h" using aged_fields [OF a(1)] by simp_all
  have cmp: "dd_wanted now w h \<longleftrightarrow> c < 0" "dd_known now w h \<longleftrightarrow> c \<le> 0"
    using Some c by (simp_all add: dd_wanted_def dd_known_def dd_compare_def)
  define w1 where "w1 = w_scoped_lsdb_update ?s (lsdb_modify (lsa_key mine) (\<lambda>_. mine')) w"
  have w1: "dd_frame now j w w1" "w_nbr w1 j = w_nbr w j" "j < w_num w1"
    using dd_frame_modify [OF ok m(1) a(2)] j by (simp_all add: w1_def w_scoped_lsdb_update_def)
  obtain w2 where w2: "(if c < 0 then request_add now his' j w1 else Some w1) = Some w2" "dd_frame now j w w2" "dd_lists_ok (w_nbr w2 j)"
    "lsdb_keys (on_request_list (w_nbr w2 j)) = lsdb_keys (on_request_list (w_nbr w j)) \<union> (if c < 0 then {header_key h} else {})"
    "on_summary_list (w_nbr w2 j) = on_summary_list (w_nbr w j)"
    using request_step [OF w1(3), of his' now] his l w1(1,2) dd_frame_trans [OF w1(1) _ j] by (cases "c < 0") auto
  have j2: "j < w_num w2" using dd_frame_fields(1) [OF w2(2) j] j by simp
  obtain w3 where w3: "(if c \<le> 0 then summary_remove h j w2 else Some w2) = Some w3" "dd_frame now j w w3" "dd_lists_ok (w_nbr w3 j)"
    "on_request_list (w_nbr w3 j) = on_request_list (w_nbr w2 j)"
    "lsdb_keys (on_summary_list (w_nbr w3 j)) = lsdb_keys (on_summary_list (w_nbr w j)) - (if c \<le> 0 then {header_key h} else {})"
    using summary_step [OF j2 w2(3), of h now] w2 dd_frame_trans [OF w2(2) _ j] by (cases "c \<le> 0") auto
  have "dbdesc_header now j h w = Some w3"
    unfolding dbdesc_header_def Let_def Some using c w2(1) w3(1) by (auto simp: w1_def [symmetric] split: if_splits)
  then show ?thesis using w3 w2(4) cmp by simp
qed

lemma dd_frame_dbs_ok:
  assumes "dd_frame now j w w'" "dbs_ok w"
  shows "dbs_ok w'"
proof -
  have e: "(w_oi w')\<lparr>oi_lsdb := [], oi_neighbor_list := []\<rparr> = (w_oi w)\<lparr>oi_lsdb := [], oi_neighbor_list := []\<rparr>"
    using assms(1) by (simp add: dd_frame_def)
  have f: "oi_ifindex (w_oi w') = oi_ifindex (w_oi w)" "oi_area_id (w_oi w') = oi_area_id (w_oi w)"
    using arg_cong [OF e, of oi_ifindex] arg_cong [OF e, of oi_area_id] by simp_all
  show ?thesis
    using assms db_ok_aged [OF _ _ f] unfolding dbs_ok_def dd_frame_def dbs_aged_def by blast
qed

text \<open>The headers of a packet that are looked at.\<close>
definition dd_seen :: "(ospf6_lsa_header \<Rightarrow> bool) \<Rightarrow> ospf6_lsa_header list \<Rightarrow> ospf6_lsa_header set" where
  "dd_seen excluded hs = {h \<in> set (takeWhile (\<lambda>h. \<not> (excluded h \<and> OSPF6_LSA_SCOPE (h_type h) \<noteq> OSPF6_SCOPE_RESERVED)) hs).
     OSPF6_LSA_SCOPE (h_type h) \<noteq> OSPF6_SCOPE_RESERVED}"

lemma dbdesc_headers_ok:
  assumes "dbs_ok w" "j < w_num w" "dd_lists_ok (w_nbr w j)"
  shows "\<exists>w'. dbdesc_headers now excluded j hs w =
      Some (if \<exists>h \<in> set hs. excluded h \<and> OSPF6_LSA_SCOPE (h_type h) \<noteq> OSPF6_SCOPE_RESERVED
            then (True, w_event SeqnumberMismatchEvent j w') else (False, w')) \<and>
    dd_frame now j w w' \<and> dd_lists_ok (w_nbr w' j) \<and>
    lsdb_keys (on_request_list (w_nbr w' j)) =
      lsdb_keys (on_request_list (w_nbr w j)) \<union> header_key ` {h \<in> dd_seen excluded hs. dd_wanted now w h} \<and>
    lsdb_keys (on_summary_list (w_nbr w' j)) =
      lsdb_keys (on_summary_list (w_nbr w j)) - header_key ` {h \<in> dd_seen excluded hs. dd_known now w h}"
  using assms
proof (induction hs arbitrary: w)
  case Nil
  then show ?case using dd_frame_refl [of now j w] by (simp add: dd_seen_def)
next
  case (Cons h hs)
  consider "OSPF6_LSA_SCOPE (h_type h) = OSPF6_SCOPE_RESERVED"
    | "OSPF6_LSA_SCOPE (h_type h) \<noteq> OSPF6_SCOPE_RESERVED" "excluded h"
    | "OSPF6_LSA_SCOPE (h_type h) \<noteq> OSPF6_SCOPE_RESERVED" "\<not> excluded h" by blast
  then show ?case
  proof cases
    case 1
    then have s: "dd_seen excluded (h # hs) = dd_seen excluded hs" by (auto simp: dd_seen_def)
    show ?thesis using Cons.IH [OF Cons.prems] 1 by (simp add: s)
  next
    case 2
    then have s: "dd_seen excluded (h # hs) = {}" by (simp add: dd_seen_def)
    show ?thesis using 2 dd_frame_refl [of now j w] Cons.prems(3) by (intro exI [of _ w]) (simp add: s)
  next
    case 3
    then have s: "dd_seen excluded (h # hs) = insert h (dd_seen excluded hs)" by (auto simp: dd_seen_def)
    obtain w1 where w1: "dbdesc_header now j h w = Some w1" "dd_frame now j w w1" "dd_lists_ok (w_nbr w1 j)"
      "lsdb_keys (on_request_list (w_nbr w1 j)) = lsdb_keys (on_request_list (w_nbr w j)) \<union> (if dd_wanted now w h then {header_key h} else {})"
      "lsdb_keys (on_summary_list (w_nbr w1 j)) = lsdb_keys (on_summary_list (w_nbr w j)) - (if dd_known now w h then {header_key h} else {})"
      using dbdesc_header_ok [OF Cons.prems, of now h] by blast
    have j1: "j < w_num w1" using dd_frame_fields(1) [OF w1(2)] Cons.prems(2) by simp
    let ?ex = "\<lambda>hs. \<exists>h \<in> set hs. excluded h \<and> OSPF6_LSA_SCOPE (h_type h) \<noteq> OSPF6_SCOPE_RESERVED"
    obtain w2 where w2: "dbdesc_headers now excluded j hs w1 =
        Some (if ?ex hs then (True, w_event SeqnumberMismatchEvent j w2) else (False, w2))"
      "dd_frame now j w1 w2" "dd_lists_ok (w_nbr w2 j)"
      "lsdb_keys (on_request_list (w_nbr w2 j)) =
        lsdb_keys (on_request_list (w_nbr w1 j)) \<union> header_key ` {h \<in> dd_seen excluded hs. dd_wanted now w h}"
      "lsdb_keys (on_summary_list (w_nbr w2 j)) =
        lsdb_keys (on_summary_list (w_nbr w1 j)) - header_key ` {h \<in> dd_seen excluded hs. dd_known now w h}"
      using Cons.IH [OF dd_frame_dbs_ok [OF w1(2) Cons.prems(1)] j1 w1(3)] unfolding dd_frame_compare [OF w1(2)] by blast
    have "?ex (h # hs) = ?ex hs" using 3 by simp
    then have "dbdesc_headers now excluded j (h # hs) w =
        Some (if ?ex (h # hs) then (True, w_event SeqnumberMismatchEvent j w2) else (False, w2))"
      using 3 w1(1) w2(1) by simp
    moreover have "header_key ` {x \<in> insert h A. P x} = (if P h then {header_key h} else {}) \<union> header_key ` {x \<in> A. P x}" for A P
      by auto
    ultimately show ?thesis
      using w2 w1(4,5) dd_frame_trans [OF w1(2) w2(2) Cons.prems(2)] by (intro exI [of _ w2]) (simp add: s Un_assoc Diff_eq Int_assoc Compl_Un)
  qed
qed

text \<open>C8: The headers of a Database Description decide what is exchanged. No assertion fails; afterwards the request list has, besides what it had,
  exactly the LSAs of the headers that the router lacks or has an older instance of, and the summary list has lost exactly the LSAs of which the
  neighbor has shown an instance that is at least as recent. In the databases only ages change.\<close>
theorem dbdesc_headers_synchronise:
  assumes "nbr_inv w" "j < w_num w" "dd_lists_ok (w_nbr w j)" "on_state (w_nbr w j) > OSPF6_NEIGHBOR_EXSTART"
  shows "\<exists>w'. dbdesc_headers now (\<lambda>h. False) j hs w = Some (False, w') \<and> nbr_inv w' \<and> dd_frame now j w w' \<and> dd_lists_ok (w_nbr w' j) \<and>
    lsdb_keys (on_request_list (w_nbr w' j)) = lsdb_keys (on_request_list (w_nbr w j)) \<union>
      header_key ` {h \<in> set hs. OSPF6_LSA_SCOPE (h_type h) \<noteq> OSPF6_SCOPE_RESERVED \<and> dd_wanted now w h} \<and>
    lsdb_keys (on_summary_list (w_nbr w' j)) = lsdb_keys (on_summary_list (w_nbr w j)) -
      header_key ` {h \<in> set hs. OSPF6_LSA_SCOPE (h_type h) \<noteq> OSPF6_SCOPE_RESERVED \<and> dd_known now w h}"
proof -
  have ok: "dbs_ok w" using assms(1) by (simp add: nbr_inv_def fsm_inv_def w_ok_def retrans_ok_def)
  have s: "{h \<in> dd_seen (\<lambda>h. False) hs. P h} = {h \<in> set hs. OSPF6_LSA_SCOPE (h_type h) \<noteq> OSPF6_SCOPE_RESERVED \<and> P h}" for P
    by (auto simp: dd_seen_def takeWhile_eq_all_conv [THEN iffD2])
  show ?thesis
    using dbdesc_headers_ok [OF ok assms(2,3), of now "\<lambda>h. False" hs] dd_frame_inv [OF _ assms(2,1,4)] unfolding s by auto
qed

section \<open>No packet makes the handler abort\<close>

text \<open>The invariant of the neighbors with that of the lists of the exchange.\<close>
definition dd_inv :: "world \<Rightarrow> bool" where
  "dd_inv w \<longleftrightarrow> nbr_inv w \<and> (\<forall>i < w_num w. dd_lists_ok (w_nbr w i))"

lemma dd_inv_emit [simp]: "dd_inv (w_emit e w) = dd_inv w"
  by (simp add: dd_inv_def nbr_inv_def)

lemma dd_lists_ok_nil: "ls_lists on = ([], [], []) \<Longrightarrow> dd_lists_ok on"
  by (simp add: ls_lists_def dd_lists_ok_def nbr_list_ok_def)

lemma dd_lists_ok_tr: "nbr_tr on on' \<Longrightarrow> dd_lists_ok on \<Longrightarrow> dd_lists_ok on'"
  using dd_lists_ok_nil [of on'] by (auto simp: nbr_tr_def ls_lists_def dd_lists_ok_def)

lemma event_done_dd:
  assumes "event_done s j w w'" "dd_inv w" "dd_lists_ok (w_nbr w' j)"
  shows "dd_inv w'"
proof -
  have "dd_lists_ok (w_nbr w' i)" if "i < w_num w" for i
    using assms that dd_lists_ok_tr [of "w_nbr w i" "w_nbr w' i"] by (cases "i = j") (auto simp: event_done_def dd_inv_def)
  then show ?thesis using assms(1,2) by (simp add: dd_inv_def event_done_def nbr_inv_def nbrs_sorted_def)
qed

lemma twoway_received_dd:
  assumes "dd_inv w" "j < w_num w" "on_state (w_nbr w j) = OSPF6_NEIGHBOR_INIT"
  shows "\<exists>w'. twoway_received env j w = Some w' \<and> dd_inv w' \<and> w_num w' = w_num w \<and> w_rids w' = w_rids w \<and>
    oi_type (w_oi w') = oi_type (w_oi w)"
proof -
  have inv: "fsm_inv w" using assms(1) by (simp add: dd_inv_def nbr_inv_def)
  let ?s = "nbr_fsm_next TwowayReceived (fsm_cond_of w j) (on_state (w_nbr w j))"
  obtain w' where w': "twoway_received env j w = Some w'" "event_done ?s j w w'"
    using twoway_received_event [OF inv assms(2)] by blast
  have "?s \<le> OSPF6_NEIGHBOR_EXSTART" using assms(3) by (simp add: less_nbr_state_def less_eq_nbr_state_def)
  then have "nbr_quiet (w_nbr w' j) \<and> on_state (w_nbr w' j) \<le> OSPF6_NEIGHBOR_EXSTART"
    using w'(2) assms(2) by (auto simp: event_done_def fsm_inv_def)
  then have "dd_lists_ok (w_nbr w' j)" using dd_lists_ok_nil by (simp add: nbr_quiet_def)
  from event_done_dd [OF w'(2) assms(1) this] show ?thesis using w' by (auto simp: event_done_def)
qed

lemma negotiation_done_dd:
  assumes "dd_inv w" "j < w_num w" "on_state (w_nbr w j) = OSPF6_NEIGHBOR_EXSTART"
  shows "\<exists>w'. negotiation_done env j w = Some w' \<and> dd_inv w' \<and> w_num w' = w_num w \<and> w_rids w' = w_rids w \<and>
    oi_type (w_oi w') = oi_type (w_oi w) \<and> on_state (w_nbr w' j) = OSPF6_NEIGHBOR_EXCHANGE"
proof -
  have inv: "fsm_inv w" using assms(1) by (simp add: dd_inv_def nbr_inv_def)
  obtain w' where w': "negotiation_done env j w = Some w'" "event_done OSPF6_NEIGHBOR_EXCHANGE j w w'"
    using negotiation_done_event [OF inv assms(2), of env] assms(3) by auto
  have "nbr_list_ok (on_summary_list (w_nbr w' j))" "on_request_list (w_nbr w' j) = []"
    using negotiation_done_ok [OF _ assms(2,3), of env] inv w'(1) by (auto simp: fsm_inv_def)
  then have "dd_lists_ok (w_nbr w' j)" by (simp add: dd_lists_ok_def nbr_list_ok_def)
  from event_done_dd [OF w'(2) assms(1) this] show ?thesis using w' by (auto simp: event_done_def)
qed

text \<open>A world after a step of the exchange with a neighbor.\<close>
definition dd_step :: "nat \<Rightarrow> world \<Rightarrow> world \<Rightarrow> bool" where
  "dd_step j w w' \<longleftrightarrow> dd_inv w' \<and> w_num w' = w_num w \<and> w_rids w' = w_rids w \<and> oi_type (w_oi w') = oi_type (w_oi w) \<and>
     on_state (w_nbr w' j) = on_state (w_nbr w j)"

lemma dd_step_light:
  assumes f: "light_update f" and inv: "dd_inv w" and j: "j < w_num w"
  shows "dd_step j w (w_nbr_update j f w)"
proof -
  note d = light_updateD [OF f]
  have "nbr_input (w_nbr w j) (f (w_nbr w j))" using d [of "w_nbr w j"] by (simp add: nbr_input_def ls_lists_def)
  then have "nbr_inv (w_nbr_update j f w)" using nbr_update_inv [of w j f] inv j by (simp add: dd_inv_def)
  moreover have "dd_lists_ok (f on) = dd_lists_ok on" for on using d(2) [of on] by (simp add: dd_lists_ok_def ls_lists_def)
  ultimately show ?thesis using inv j d(1,3) by (auto simp: dd_step_def dd_inv_def)
qed

lemma dd_step_trans: "dd_step j w w1 \<Longrightarrow> dd_step j w1 w2 \<Longrightarrow> dd_step j w w2"
  by (simp add: dd_step_def)

lemma dd_step_emit: "dd_step j w w1 \<Longrightarrow> dd_step j w (w_emit e w1)"
  by (simp add: dd_step_def)

lemma dd_step_refl: "dd_inv w \<Longrightarrow> dd_step j w w"
  by (simp add: dd_step_def)

lemma dd_step_num: "dd_step j w w' \<Longrightarrow> j < w_num w \<Longrightarrow> j < w_num w'"
  by (simp add: dd_step_def)

text \<open>A further light update, and a further event.\<close>
lemma dd_step_then:
  assumes "dd_step j w w1" "j < w_num w" "light_update f"
  shows "dd_step j w (w_nbr_update j f w1)"
  using dd_step_trans [OF assms(1) dd_step_light [OF assms(3) _ dd_step_num [OF assms(1,2)]]] assms(1) by (simp add: dd_step_def)

lemma dd_step_headers:
  assumes "dd_inv w" "j < w_num w" "on_state (w_nbr w j) > OSPF6_NEIGHBOR_EXSTART" "dd_frame now j w w'" "dd_lists_ok (w_nbr w' j)"
  shows "dd_step j w w'"
proof -
  note f = dd_frame_fields [OF assms(4,2)]
  have "nbr_inv w'" using dd_frame_inv [OF assms(4,2) _ assms(3)] assms(1) by (simp add: dd_inv_def)
  moreover have "dd_lists_ok (w_nbr w' i)" if "i < w_num w" for i
    using that assms(1,2,4,5) by (cases "i = j") (auto simp: dd_frame_def dd_inv_def)
  moreover have "on_state (w_nbr w' j) = on_state (w_nbr w j)" using f(4) by auto
  ultimately show ?thesis using f by (simp add: dd_step_def dd_inv_def)
qed

text \<open>The length of the packet is that of its headers, as the examination of packets ensures.\<close>
definition dd_aligned :: "dbdesc_packet \<Rightarrow> bool" where
  "dd_aligned pkt \<longleftrightarrow> unat (dp_length pkt) = 28 + 20 * length (dp_headers pkt)"

lemma dbdesc_process_dd:
  assumes inv: "dd_inv w" and j: "j < w_num w" and st: "on_state (w_nbr w j) > OSPF6_NEIGHBOR_EXSTART" and pkt: "dd_aligned pkt"
    and finish: "\<And>w'. dd_step j w w' \<Longrightarrow> dd_step j w (finish w')"
  shows "\<exists>w'. dbdesc_process now excluded j pkt finish w = Some w' \<and> dd_step j w w'"
proof -
  have ok: "dbs_ok w" "dd_lists_ok (w_nbr w j)" using inv j by (auto simp: dd_inv_def nbr_inv_def fsm_inv_def w_ok_def retrans_ok_def)
  let ?ex = "\<exists>h \<in> set (dp_headers pkt). excluded h \<and> OSPF6_LSA_SCOPE (h_type h) \<noteq> OSPF6_SCOPE_RESERVED"
  obtain w' where w': "dbdesc_headers now excluded j (dp_headers pkt) w =
      Some (if ?ex then (True, w_event SeqnumberMismatchEvent j w') else (False, w'))" "dd_frame now j w w'" "dd_lists_ok (w_nbr w' j)"
    using dbdesc_headers_ok [OF ok(1) j ok(2), of now excluded "dp_headers pkt"] by blast
  have d: "dd_step j w w'" by (rule dd_step_headers [OF inv j st w'(2,3)])
  show ?thesis
    using w'(1) d dd_step_emit [OF d] finish [OF d] pkt by (auto simp: dbdesc_process_def dd_aligned_def Let_def)
qed

lemma dd_light:
  "light_update (\<lambda>on. on\<lparr>on_dbdesc_seqnum := x\<rparr>)" "light_update (\<lambda>on. on\<lparr>on_dbdesc_seqnum := on_dbdesc_seqnum on + 1\<rparr>)"
  "light_update lsreq_schedule" "light_update (\<lambda>on. on\<lparr>on_thread_send_dbdesc := t\<rparr>)" "light_update (\<lambda>on. on\<lparr>on_dbdesc_last := dd\<rparr>)"
  "light_update (\<lambda>on. on\<lparr>on_options := opt\<rparr>)" "light_update (\<lambda>on. on\<lparr>on_options := OPT_CLEAR_L (on_options on)\<rparr>)"
  "light_update (\<lambda>on. on\<lparr>on_dbdesc_bits := on_dbdesc_bits on AND NOT b, on_dbdesc_seqnum := x\<rparr>)"
  "light_update (on_inactivity_timer_update (\<lambda>_. it))"
  by (simp_all add: light_update_def ls_lists_def lsreq_schedule_def Let_def)

lemma master_finish_dd: "dd_step j w w' \<Longrightarrow> j < w_num w \<Longrightarrow> dd_step j w (master_finish j dd w')"
  unfolding master_finish_def Let_def by (auto intro!: dd_step_then dd_step_emit dd_light)

lemma slave_finish_dd: "dd_step j w w' \<Longrightarrow> j < w_num w \<Longrightarrow> dd_step j w (slave_finish j dd w')"
  unfolding slave_finish_def Let_def by (auto intro!: dd_step_then dd_step_emit dd_light)

text \<open>The checks change at most the recorded options of the neighbor.\<close>
lemma exchange_check_nbr:
  assumes "dbdesc_exchange_check m dd (w_nbr w j) = (check, dd', on)"
  shows "w_nbr_update j (\<lambda>_. on) w = w \<or> w_nbr_update j (\<lambda>_. on) w = w_nbr_update j (\<lambda>on. on\<lparr>on_options := OPT_CLEAR_L (on_options on)\<rparr>) w"
proof -
  have "on = w_nbr w j \<or> on = (w_nbr w j)\<lparr>on_options := OPT_CLEAR_L (on_options (w_nbr w j))\<rparr>"
    using assms by (auto simp: dbdesc_exchange_check_def Let_def split: if_splits)
  then show ?thesis by (auto simp: w_nbr_update_def nbr_update_def)
qed

lemma exchange_check_dd:
  assumes "dd_inv w" "j < w_num w" "dbdesc_exchange_check m dd (w_nbr w j) = (check, dd', on)"
  shows "dd_step j w (w_nbr_update j (\<lambda>_. on) w)"
  using exchange_check_nbr [OF assms(3)] dd_step_refl [OF assms(1)] dd_step_light [OF dd_light(7) assms(1,2)] by auto

lemma master_exchange_dd:
  assumes inv: "dd_inv w" and j: "j < w_num w" and st: "on_state (w_nbr w j) = OSPF6_NEIGHBOR_EXCHANGE" and pkt: "dd_aligned pkt"
  shows "\<exists>w'. master_exchange env stub j pkt w = Some w' \<and> dd_step j w w'"
proof -
  obtain check dd on where c: "dbdesc_exchange_check True (dp_dbdesc pkt) (w_nbr w j) = (check, dd, on)" by (metis prod_cases3)
  note d = exchange_check_dd [OF inv j c]
  let ?w = "w_nbr_update j (\<lambda>_. on) w"
  have i: "dd_inv ?w" "j < w_num ?w" "on_state (w_nbr ?w j) > OSPF6_NEIGHBOR_EXSTART"
    using d j st by (simp_all add: dd_step_def less_nbr_state_def)
  obtain w' where "dbdesc_process (ne_now env) (\<lambda>h. h_type h = 0x4005 \<and> stub) j pkt (master_finish j dd) ?w = Some w'" "dd_step j ?w w'"
    using dbdesc_process_dd [OF i pkt, where finish = "master_finish j dd"] master_finish_dd [OF _ i(2)] by blast
  then show ?thesis
    using d dd_step_trans [OF d] dd_step_emit [OF d] by (cases check) (auto simp: master_exchange_def c Let_def)
qed

lemma slave_process_dd:
  assumes "dd_inv w" "j < w_num w" "on_state (w_nbr w j) = OSPF6_NEIGHBOR_EXCHANGE" "dd_aligned pkt"
  shows "\<exists>w'. slave_process env stub j dd pkt w = Some w' \<and> dd_step j w w'"
proof -
  have st: "on_state (w_nbr w j) > OSPF6_NEIGHBOR_EXSTART" using assms(3) by (simp add: less_nbr_state_def)
  show ?thesis
    unfolding slave_process_def
    by (rule dbdesc_process_dd [OF assms(1,2) st assms(4)], rule slave_finish_dd [OF _ assms(2)])
qed

lemma slave_exchange_dd:
  assumes inv: "dd_inv w" and j: "j < w_num w" and st: "on_state (w_nbr w j) = OSPF6_NEIGHBOR_EXCHANGE" and pkt: "dd_aligned pkt"
  shows "\<exists>w'. slave_exchange env stub j pkt w = Some w' \<and> dd_step j w w'"
proof -
  obtain check dd on where c: "dbdesc_exchange_check False (dp_dbdesc pkt) (w_nbr w j) = (check, dd, on)" by (metis prod_cases3)
  note d = exchange_check_dd [OF inv j c]
  let ?w = "w_nbr_update j (\<lambda>_. on) w"
  have i: "dd_inv ?w" "j < w_num ?w" "on_state (w_nbr ?w j) = OSPF6_NEIGHBOR_EXCHANGE" using d j st by (simp_all add: dd_step_def)
  have r: "dd_step j w (slave_retransmit j ?w)" unfolding slave_retransmit_def by (rule dd_step_then [OF d j dd_light(4)])
  obtain w' where "slave_process env stub j dd pkt ?w = Some w'" "dd_step j ?w w'" using slave_process_dd [OF i pkt] by blast
  then show ?thesis
    using r dd_step_trans [OF d] dd_step_emit [OF d] by (cases check) (auto simp: slave_exchange_def c Let_def)
qed

text \<open>The two handlers. In the states below Exchange they first execute the events of the neighbor.\<close>
lemma exstart_master_dd:
  assumes inv: "dd_inv w" and j: "j < w_num w" and st: "on_state (w_nbr w j) = OSPF6_NEIGHBOR_EXSTART" and pkt: "dd_aligned pkt"
  shows "\<exists>w'. Option.bind (negotiation_done env j w)
      (\<lambda>w. master_exchange env stub j pkt (w_nbr_update j (\<lambda>on. on\<lparr>on_options := opt\<rparr>) w)) = Some w' \<and> dd_inv w'"
proof -
  obtain w1 where w1: "negotiation_done env j w = Some w1" "dd_inv w1" "w_num w1 = w_num w" "on_state (w_nbr w1 j) = OSPF6_NEIGHBOR_EXCHANGE"
    using negotiation_done_dd [OF inv j st] by blast
  have j1: "j < w_num w1" using w1(3) j by simp
  note d = dd_step_light [OF dd_light(6) w1(2) j1, of opt]
  then show ?thesis using master_exchange_dd [OF _ _ _ pkt, of "w_nbr_update j (\<lambda>on. on\<lparr>on_options := opt\<rparr>) w1" j env stub] w1(1,4) j1
    by (auto simp: dd_step_def)
qed

lemma exstart_slave_dd:
  assumes inv: "dd_inv w" and j: "j < w_num w" and st: "on_state (w_nbr w j) = OSPF6_NEIGHBOR_EXSTART" and pkt: "dd_aligned pkt"
  shows "\<exists>w'. Option.bind (negotiation_done env j w)
      (\<lambda>w. slave_process env stub j dd pkt (w_nbr_update j (\<lambda>on. on\<lparr>on_options := opt\<rparr>) w)) = Some w' \<and> dd_inv w'"
proof -
  obtain w1 where w1: "negotiation_done env j w = Some w1" "dd_inv w1" "w_num w1 = w_num w" "on_state (w_nbr w1 j) = OSPF6_NEIGHBOR_EXCHANGE"
    using negotiation_done_dd [OF inv j st] by blast
  have j1: "j < w_num w1" using w1(3) j by simp
  note d = dd_step_light [OF dd_light(6) w1(2) j1, of opt]
  then show ?thesis using slave_process_dd [OF _ _ _ pkt, of "w_nbr_update j (\<lambda>on. on\<lparr>on_options := opt\<rparr>) w1" j env stub dd] w1(1,4) j1
    by (auto simp: dd_step_def)
qed

lemma dbdesc_recv_master_dd:
  assumes inv: "dd_inv w" and j: "j < w_num w" and pkt: "dd_aligned pkt"
  shows "\<exists>w'. ospf6_dbdesc_recv_master env stub j pkt w = Some w' \<and> dd_inv w'"
proof (cases "on_state (w_nbr w j)")
  case OSPF6_NEIGHBOR_INIT
  obtain w1 where w1: "twoway_received env j w = Some w1" "dd_inv w1" "w_num w1 = w_num w"
    using twoway_received_dd [OF inv j OSPF6_NEIGHBOR_INIT] by blast
  then show ?thesis using OSPF6_NEIGHBOR_INIT j exstart_master_dd [OF w1(2) _ _ pkt, of j env stub "dd_options (dp_dbdesc pkt)"]
    by (auto simp: ospf6_dbdesc_recv_master_def Let_def)
next
  case OSPF6_NEIGHBOR_EXSTART
  then show ?thesis using inv exstart_master_dd [OF inv j _ pkt, of env stub "dd_options (dp_dbdesc pkt)"]
    by (auto simp: ospf6_dbdesc_recv_master_def Let_def)
next
  case OSPF6_NEIGHBOR_EXCHANGE
  then show ?thesis using master_exchange_dd [OF inv j _ pkt, of env stub] by (auto simp: ospf6_dbdesc_recv_master_def dd_step_def Let_def)
qed (use inv in \<open>simp_all add: ospf6_dbdesc_recv_master_def Let_def\<close>)

lemma dbdesc_recv_slave_dd:
  assumes inv: "dd_inv w" and j: "j < w_num w" and pkt: "dd_aligned pkt"
  shows "\<exists>w'. ospf6_dbdesc_recv_slave env stub j pkt w = Some w' \<and> dd_inv w'"
proof -
  let ?dd = "dp_dbdesc pkt"
  let ?f = "\<lambda>on. on\<lparr>on_dbdesc_bits := on_dbdesc_bits on AND NOT OSPF6_DBDESC_MSBIT, on_dbdesc_seqnum := dd_seqnum ?dd\<rparr>"
  have ex: "\<exists>w'. Option.bind (negotiation_done env j (w_nbr_update j ?f v))
      (\<lambda>w. slave_process env stub j ?dd pkt (w_nbr_update j (\<lambda>on. on\<lparr>on_options := dd_options ?dd\<rparr>) w)) = Some w' \<and> dd_inv w'"
    if v: "dd_inv v" "w_num v = w_num w" "on_state (w_nbr v j) = OSPF6_NEIGHBOR_EXSTART" for v
  proof -
    have "j < w_num v" using v(2) j by simp
    from dd_step_light [OF dd_light(8) v(1) this, of "dd_seqnum ?dd" OSPF6_DBDESC_MSBIT]
    show ?thesis by (intro exstart_slave_dd [OF _ _ _ pkt]) (use v j in \<open>simp_all add: dd_step_def\<close>)
  qed
  have rt: "dd_inv (slave_retransmit j w)"
    using dd_step_light [OF dd_light(4) inv j, of "Some 0"] by (simp add: slave_retransmit_def dd_step_def)
  show ?thesis
  proof (cases "on_state (w_nbr w j)")
    case OSPF6_NEIGHBOR_INIT
    obtain w1 where w1: "twoway_received env j w = Some w1" "dd_inv w1" "w_num w1 = w_num w"
      using twoway_received_dd [OF inv j OSPF6_NEIGHBOR_INIT] by blast
    then show ?thesis using OSPF6_NEIGHBOR_INIT ex [OF w1(2,3)] by (auto simp: ospf6_dbdesc_recv_slave_def Let_def)
  next
    case OSPF6_NEIGHBOR_EXSTART
    then show ?thesis using inv ex [OF inv refl] by (auto simp: ospf6_dbdesc_recv_slave_def Let_def)
  next
    case OSPF6_NEIGHBOR_EXCHANGE
    then show ?thesis using slave_exchange_dd [OF inv j _ pkt, of env stub] by (auto simp: ospf6_dbdesc_recv_slave_def dd_step_def Let_def)
  qed (use inv rt in \<open>simp_all add: ospf6_dbdesc_recv_slave_def Let_def\<close>)
qed

text \<open>On an MDR interface, a packet with the L bit has an LLS block with at most one DD TLV, which is of the right length and ends in the block.\<close>
definition dd_lls_ok :: "hello_env \<Rightarrow> dbdesc_packet \<Rightarrow> bool" where
  "dd_lls_ok env pkt \<longleftrightarrow> dd_options (dp_dbdesc pkt) ! 1 AND OSPF6_OPT_L = 0 \<or>
     (case dp_lls pkt of None \<Rightarrow> False | Some lls \<Rightarrow>
        (case mdr_find_tlv (tlv_type_dd (he_tlv_types env)) 8 lls of
           None \<Rightarrow> False | Some None \<Rightarrow> True | Some (Some p) \<Rightarrow> p + 8 \<le> length lls))"

lemma process_dd_tlv_ok:
  assumes "dp_lls pkt = Some lls" "dd_lls_ok env pkt" "dd_options (dp_dbdesc pkt) ! 1 AND OSPF6_OPT_L \<noteq> 0"
  shows "\<exists>changed on'. ospf6_mdr_process_dd_tlv o6 (he_tlv_types env) lls on = Some (changed, on') \<and> nbr_input on on' \<and> ls_lists on' = ls_lists on"
proof -
  obtain r where r: "mdr_find_tlv (tlv_type_dd (he_tlv_types env)) 8 lls = Some r" "\<And>p. r = Some p \<Longrightarrow> p + 8 \<le> length lls"
    using assms by (auto simp: dd_lls_ok_def split: option.splits)
  show ?thesis
  proof (cases r)
    case None
    then show ?thesis using r by (auto simp: ospf6_mdr_process_dd_tlv_def nbr_input_def)
  next
    case (Some p)
    obtain a b where "get32 lls p = Some a" "get32 lls (p + 4) = Some b"
      using get32_Some [of p lls] get32_Some [of "p + 4" lls] r(2) [OF Some] by auto
    then show ?thesis using r(1) Some
      by (auto simp: ospf6_mdr_process_dd_tlv_def nbr_input_def ospf6_mdr_set_mdr_level_def ls_lists_def Let_def)
  qed
qed

lemma low_event_dd:
  assumes "event_done s j w w'" "dd_inv w" "j < w_num w" "s \<le> OSPF6_NEIGHBOR_EXSTART"
  shows "dd_inv w' \<and> w_num w' = w_num w"
proof -
  have "nbr_quiet (w_nbr w' j) \<and> on_state (w_nbr w' j) \<le> OSPF6_NEIGHBOR_EXSTART"
    using assms(1,3,4) by (auto simp: event_done_def fsm_inv_def)
  then have "dd_lists_ok (w_nbr w' j)" using dd_lists_ok_nil by (simp add: nbr_quiet_def)
  from event_done_dd [OF assms(1,2) this] show ?thesis using assms(1) by (simp add: event_done_def)
qed

lemma nbr_input_dd:
  assumes "dd_inv w" "j < w_num w" "nbr_input (w_nbr w j) on" "ls_lists on = ls_lists (w_nbr w j)"
  shows "dd_step j w (w_nbr_update j (\<lambda>_. on) w)"
proof -
  have "nbr_inv (w_nbr_update j (\<lambda>_. on) w)" by (rule nbr_inv_input_update [OF _ assms(2,3)]) (use assms(1) in \<open>simp add: dd_inv_def\<close>)
  moreover have "dd_lists_ok on = dd_lists_ok (w_nbr w j)" using assms(4) by (simp add: dd_lists_ok_def ls_lists_def)
  moreover have "w_rids (w_nbr_update j (\<lambda>_. on) w) = w_rids w"
    using assms(2,3) by (simp add: w_nbr_update_def nbr_update_def nbr_input_def map_update list_update_same_conv)
  ultimately show ?thesis using assms by (auto simp: dd_step_def dd_inv_def nbr_input_def)
qed

lemma dbdesc_recv_mdr_dd:
  assumes inv: "dd_inv w" and j: "j < w_num w" and lls: "dd_lls_ok env pkt"
  shows "\<exists>w'. dbdesc_recv_mdr env j pkt w = Some w' \<and> dd_inv w' \<and> w_num w' = w_num w"
proof -
  let ?a = "if dd_options (dp_dbdesc pkt) ! 1 AND OSPF6_OPT_L \<noteq> 0 then
          Option.bind (dp_lls pkt) (\<lambda>lls.
          Option.bind (ospf6_mdr_process_dd_tlv (ne_ospf6 (he_nbr env)) (he_tlv_types env) lls (w_nbr w j)) (\<lambda>(changed, on).
          Some (w_nbr_update j (\<lambda>_. on) w)))
        else Some w"
  obtain w1 where w1: "?a = Some w1" "dd_inv w1" "w_num w1 = w_num w"
  proof (cases "dd_options (dp_dbdesc pkt) ! 1 AND OSPF6_OPT_L = 0")
    case False
    then obtain l where l: "dp_lls pkt = Some l" using lls by (auto simp: dd_lls_ok_def split: option.splits)
    obtain c on where on: "ospf6_mdr_process_dd_tlv (ne_ospf6 (he_nbr env)) (he_tlv_types env) l (w_nbr w j) = Some (c, on)"
      "nbr_input (w_nbr w j) on" "ls_lists on = ls_lists (w_nbr w j)"
      using process_dd_tlv_ok [OF l lls False] by blast
    show ?thesis by (rule that [of "w_nbr_update j (\<lambda>_. on) w"]) (use False l on(1) nbr_input_dd [OF inv j on(2,3)] in \<open>simp_all add: dd_step_def\<close>)
  qed (use inv that in simp)
  have j1: "j < w_num w1" using w1(3) j by simp
  have f1: "fsm_inv w1" using w1(2) by (simp add: dd_inv_def nbr_inv_def)
  let ?b = "if on_state (w_nbr w1 j) = OSPF6_NEIGHBOR_INIT then ospf6_neighbor_state_change (he_nbr env) OSPF6_NEIGHBOR_TWOWAY j w1 else Some w1"
  obtain w2 where w2: "?b = Some w2" "dd_inv w2" "w_num w2 = w_num w"
  proof (cases "on_state (w_nbr w1 j) = OSPF6_NEIGHBOR_INIT")
    case True
    have q: "ls_lists (w_nbr w1 j) = ([], [], [])" by (rule quiet_lists [OF f1 j1]) (simp add: True less_eq_nbr_state_def)
    obtain v where "ospf6_neighbor_state_change (he_nbr env) OSPF6_NEIGHBOR_TWOWAY j w1 = Some v" "event_done OSPF6_NEIGHBOR_TWOWAY j w1 v"
      using state_change_event [OF f1 j1 q] by blast
    then show ?thesis using that [of v] True low_event_dd [OF _ w1(2) j1] w1(3) by (simp add: less_eq_nbr_state_def)
  qed (use w1 that in simp)
  have j2: "j < w_num w2" using w2(3) j by simp
  have f2: "fsm_inv w2" using w2(2) by (simp add: dd_inv_def nbr_inv_def)
  have run: "dbdesc_recv_mdr env j pkt w =
      (if on_state (w_nbr w2 j) = OSPF6_NEIGHBOR_TWOWAY \<and> need_adjacency (w_oi w2) (w_nbr w2 j) then
         Option.bind (ospf6_neighbor_exstart (he_nbr env) j w2) (\<lambda>w.
         Some (if dp_router_id pkt > he_router_id env then w_nbr_update j (\<lambda>on. on\<lparr>on_thread_send_dbdesc := None\<rparr>) w else w))
       else Some w2)"
    unfolding dbdesc_recv_mdr_def w1(1) Option.bind.bind_lunit w2(1) ..
  show ?thesis
  proof (cases "on_state (w_nbr w2 j) = OSPF6_NEIGHBOR_TWOWAY \<and> need_adjacency (w_oi w2) (w_nbr w2 j)")
    case True
    have q: "ls_lists (w_nbr w2 j) = ([], [], [])" by (rule quiet_lists [OF f2 j2]) (simp add: True less_eq_nbr_state_def)
    obtain v where v: "ospf6_neighbor_exstart (he_nbr env) j w2 = Some v"
      "event_done (if fsm_deferred (w_oi w2) then on_state (w_nbr w2 j) else OSPF6_NEIGHBOR_EXSTART) j w2 v"
      using exstart_event [OF f2 j2 q] by blast
    have i: "dd_inv v" "w_num v = w_num w" using low_event_dd [OF v(2) w2(2) j2] True w2(3) by (auto simp: less_eq_nbr_state_def)
    then have "dd_step j v (w_nbr_update j (\<lambda>on. on\<lparr>on_thread_send_dbdesc := None\<rparr>) v)" using dd_step_light [OF dd_light(4)] j by simp
    then show ?thesis unfolding run using True v(1) i by (auto simp: dd_step_def)
  qed (use run w2 in auto)
qed


end
