(* ===== verification/Dbdesc_Props.thy ===== *)
theory Dbdesc_Props
  imports Dbdesc
begin

text \<open>
  The Database Description messages, continued: what \<open>ospf6_dbdesc_send\<close> and \<open>ospf6_dbdesc_send_newone\<close> put into a packet, the
  negotiation of master and slave as a run of both routers, and examples for the properties of the handlers.
\<close>

unbundle bit_operations_syntax

section \<open>What is sent\<close>

text \<open>The LSAs that fit into a packet.\<close>
definition dd_fits :: "ospf6_interface \<Rightarrow> lsdb \<Rightarrow> nat" where
  "dd_fits oi db = min (length db) ((unat (oi_ifmtu oi) - 72) div 20)"

lemma lsdb_keys_link: "lsdb_keys (lsdb_link lsa db) = insert (lsa_key lsa) (lsdb_keys db)"
  by (induction db) auto

lemma nbr_list_length: "nbr_list_ok db \<Longrightarrow> length db = card (lsdb_keys db)"
  using distinct_card [of "map lsa_key db"] by (simp add: nbr_list_ok_def lsdb_sorted_def strict_sorted_iff)

lemma dbdesc_move_ok:
  assumes "nbr_list_ok sl" "nbr_list_ok dl" "ospf6_packet_max oi = Some m"
  defines "k \<equiv> \<lambda>pos db. min (length db) ((m - pos) div 20)"
  shows "\<exists>dl'. dbdesc_move now oi pos sl (sl, dl) = Some (drop (k pos sl) sl, dl') \<and> nbr_list_ok dl' \<and>
    lsdb_keys dl' = lsdb_keys dl \<union> lsdb_keys (take (k pos sl) sl)"
  using assms(1,2)
proof (induction sl arbitrary: pos dl)
  case Nil
  then show ?case by simp
next
  case (Cons l sl)
  show ?case
  proof (cases "pos + 20 > m")
    case True
    then have "k pos (l # sl) = 0" by (simp add: k_def)
    then show ?thesis using True Cons.prems(2) assms(3) by simp
  next
    case False
    then have "(m - pos) div 20 = Suc ((m - (pos + 20)) div 20)" by (simp add: le_div_geq diff_diff_left)
    then have k: "k pos (l # sl) = Suc (k (pos + 20) sl)" by (simp add: k_def)
    note rm = nbr_list_remove_head [OF Cons.prems(1)]
    have "lsa_wf l" using Cons.prems(1) by (simp add: nbr_list_ok_def)
    then obtain c where c: "ospf6_lsa_copy now l = Some (c, snd (ospf6_lsa_age_current now l))" "lsa_ident c = lsa_ident l" "lsa_wf c" "lsa_lock c = 0"
      by (rule ospf6_lsa_copy_ok)
    let ?dl = "lsdb_link (lsa_stored now c) dl"
    have key: "lsa_key c = lsa_key l" using c(2) by (simp add: lsa_ident_def)
    obtain dl' where "dbdesc_move now oi (pos + 20) sl (sl, ?dl) = Some (drop (k (pos + 20) sl) sl, dl')" "nbr_list_ok dl'"
      "lsdb_keys dl' = lsdb_keys ?dl \<union> lsdb_keys (take (k (pos + 20) sl) sl)"
      using Cons.IH [OF rm(2) nbr_list_ok_link [OF Cons.prems(2) c(3,4)], of "pos + 20"] by blast
    then show ?thesis
      using False assms(3) c(1) nbr_list_add_eq [OF Cons.prems(2) c(3)] rm(1) key by (auto simp: k lsdb_keys_link)
  qed
qed

lemma age_to_send_key: "header_key (lsa_header (ospf6_lsa_age_update_to_send now d l)) = lsa_key l"
  by (simp add: ospf6_lsa_age_update_to_send_def ospf6_lsa_age_current_def header_key_def lsa_key_def Let_def)

lemma dbdesc_send_headers_all:
  assumes "ospf6_packet_max oi = Some m" "pos + 20 * length db \<le> m \<or> db = []"
  shows "dbdesc_send_headers now oi pos db = Some (map (lsa_header \<circ> ospf6_lsa_age_update_to_send now (oi_transdelay oi)) db,
    map (ospf6_lsa_age_update_to_send now (oi_transdelay oi)) db)"
  using assms(2)
proof (induction db arbitrary: pos)
  case (Cons l db)
  then have "dbdesc_send_headers now oi (pos + 20) db = Some (map (lsa_header \<circ> ospf6_lsa_age_update_to_send now (oi_transdelay oi)) db,
      map (ospf6_lsa_age_update_to_send now (oi_transdelay oi)) db)" by simp
  then show ?case using Cons.prems assms(1) by (simp add: Let_def)
qed simp

lemma nbr_change_dd:
  assumes "dd_inv w" "j < w_num w" "nbr_input (w_nbr w j) (f (w_nbr w j))" "dd_lists_ok (f (w_nbr w j))"
  shows "dd_step j w (w_nbr_update j f w)"
proof -
  have "nbr_inv (w_nbr_update j f w)" using nbr_update_inv [where f = f, OF _ assms(2,3)] assms(1) by (simp add: dd_inv_def)
  moreover have "w_rids (w_nbr_update j f w) = w_rids w"
    using assms(2,3) by (simp add: w_nbr_update_def nbr_update_def nbr_input_def map_update list_update_same_conv)
  ultimately show ?thesis using assms by (auto simp: dd_step_def dd_inv_def nbr_input_def)
qed

lemma nbr_list_ok_drop: "nbr_list_ok db \<Longrightarrow> nbr_list_ok (drop k db)"
  using sorted_wrt_drop [of "(<)" "map lsa_key db" k] by (auto simp: nbr_list_ok_def lsdb_sorted_def drop_map dest: in_set_dropD)

lemma w_nbr_update_twice: "w_nbr_update j g (w_nbr_update j f w) = w_nbr_update j (g \<circ> f) w"
  by (cases "j < w_num w") (simp_all add: w_nbr_update_def nbr_update_def list_update_beyond)

lemma w_nbr_update_oi [simp]:
  "oi_ifmtu (w_oi (w_nbr_update j f w)) = oi_ifmtu (w_oi w)" "oi_transdelay (w_oi (w_nbr_update j f w)) = oi_transdelay (w_oi w)"
  "oi_rxmt_interval (w_oi (w_nbr_update j f w)) = oi_rxmt_interval (w_oi w)" "oi_mtu_ignore (w_oi (w_nbr_update j f w)) = oi_mtu_ignore (w_oi w)"
  "ospf6_packet_max (w_oi (w_nbr_update j f w)) = ospf6_packet_max (w_oi w)"
  by (simp_all add: w_nbr_update_def nbr_update_def ospf6_packet_max_def)

lemma w_emit_oi [simp]:
  "oi_ifmtu (w_oi (w_emit e w)) = oi_ifmtu (w_oi w)" "oi_transdelay (w_oi (w_emit e w)) = oi_transdelay (w_oi w)"
  "oi_mtu_ignore (w_oi (w_emit e w)) = oi_mtu_ignore (w_oi w)" "ospf6_packet_max (w_oi (w_emit e w)) = ospf6_packet_max (w_oi w)"
  by (simp_all add: w_emit_def emit_def ospf6_packet_max_def)

lemma dbdesc_send_headers_oi [simp]:
  "dbdesc_send_headers now (w_oi (w_nbr_update j f w)) pos db = dbdesc_send_headers now (w_oi w) pos db"
  by (induction db arbitrary: pos) (simp_all add: Let_def cong: if_cong)

text \<open>The packet without LSAs of \<open>ospf6_dbdesc_send\<close>.\<close>
definition dd_packet :: "hello_env \<Rightarrow> ospf6_interface \<Rightarrow> ospf6_neighbor \<Rightarrow> dbdesc_packet" where
  "dd_packet env oi on = \<lparr>dp_router_id = he_router_id env, dp_length = 28,
     dp_dbdesc = \<lparr>dd_reserved1 = 0, dd_options = take 3 (he_area_options env), dd_ifmtu = ucast (oi_ifmtu oi), dd_reserved2 = 0,
       dd_bits = on_dbdesc_bits on, dd_seqnum = on_dbdesc_seqnum on\<rparr>, dp_headers = [], dp_lls = None\<rparr>"

lemma send_described:
  fixes env :: hello_env
  assumes inv: "dd_inv w" and j: "j < w_num w" and st: "on_state (w_nbr w j) > OSPF6_NEIGHBOR_EXSTART"
    and i: "on_dbdesc_bits (w_nbr w j) AND OSPF6_DBDESC_IBIT = 0" and max: "ospf6_packet_max (w_oi w) = Some m"
    and len: "28 + 20 * length (on_dbdesc_list (w_nbr w j)) \<le> m \<or> on_dbdesc_list (w_nbr w j) = []"
  defines "hs \<equiv> map (lsa_header \<circ> ospf6_lsa_age_update_to_send (ne_now (he_nbr env)) (oi_transdelay (w_oi w))) (on_dbdesc_list (w_nbr w j))"
  shows "\<exists>w'. ospf6_dbdesc_send env n j w = Some (Some ((dd_packet env (w_oi w) (w_nbr w j))
      \<lparr>dp_length := of_nat (28 + 20 * length hs), dp_headers := hs\<rparr>), w') \<and> dd_step j w w' \<and> on_summary_list (w_nbr w' j) = on_summary_list (w_nbr w j) \<and>
    on_dbdesc_bits (w_nbr w' j) = on_dbdesc_bits (w_nbr w j) \<and> on_dbdesc_seqnum (w_nbr w' j) = on_dbdesc_seqnum (w_nbr w j)"
proof -
  let ?t = "if on_dbdesc_bits (w_nbr w j) AND OSPF6_DBDESC_MSBIT \<noteq> 0 then Some (1000 * uint (oi_rxmt_interval (w_oi w))) else None"
  let ?db = "map (ospf6_lsa_age_update_to_send (ne_now (he_nbr env)) (oi_transdelay (w_oi w))) (on_dbdesc_list (w_nbr w j))"
  let ?f = "\<lambda>on. on\<lparr>on_thread_send_dbdesc := ?t, on_dbdesc_list := ?db\<rparr>"
  have st': "\<not> on_state (w_nbr w j) < OSPF6_NEIGHBOR_EXSTART" using st by simp
  have run: "ospf6_dbdesc_send env n j w =
      Some (Some ((dd_packet env (w_oi w) (w_nbr w j))\<lparr>dp_length := of_nat (28 + 20 * length hs), dp_headers := hs\<rparr>), w_nbr_update j ?f w)"
    using dbdesc_send_headers_all [OF max len, of "ne_now (he_nbr env)"] st' i j
    by (simp add: ospf6_dbdesc_send_def dd_packet_def hs_def w_nbr_update_twice o_def Let_def)
  have "dd_step j w (w_nbr_update j ?f w)" by (rule dd_step_light [OF _ inv j]) (simp add: light_update_def ls_lists_def)
  then show ?thesis using run j by simp
qed

lemma send_newone_ok:
  fixes env :: hello_env
  assumes inv: "dd_inv w" and j: "j < w_num w" and st: "on_state (w_nbr w j) > OSPF6_NEIGHBOR_EXSTART"
    and i: "on_dbdesc_bits (w_nbr w j) AND OSPF6_DBDESC_IBIT = 0" and mtu: "40 < unat (oi_ifmtu (w_oi w))" "unat (oi_ifmtu (w_oi w)) < 65536"
  defines "db \<equiv> on_summary_list (w_nbr w j)"
  shows "\<exists>pkt w'. ospf6_dbdesc_send_newone env n j w = Some (Some pkt, w') \<and> dd_step j w w' \<and> dd_aligned pkt \<and>
    header_key ` set (dp_headers pkt) = lsdb_keys (take (dd_fits (w_oi w) db) db) \<and>
    on_summary_list (w_nbr w' j) = drop (dd_fits (w_oi w) db) db \<and>
    dd_bits (dp_dbdesc pkt) = (if drop (dd_fits (w_oi w) db) db = [] then on_dbdesc_bits (w_nbr w j) AND NOT OSPF6_DBDESC_MBIT
      else on_dbdesc_bits (w_nbr w j)) \<and> dd_seqnum (dp_dbdesc pkt) = on_dbdesc_seqnum (w_nbr w j) \<and>
    dp_router_id pkt = he_router_id env \<and> dd_ifmtu (dp_dbdesc pkt) = ucast (oi_ifmtu (w_oi w)) \<and> dd_options (dp_dbdesc pkt) = take 3 (he_area_options env)"
proof -
  let ?m = "unat (oi_ifmtu (w_oi w)) - 40" and ?k = "dd_fits (w_oi w) db" and ?on = "w_nbr w j" and ?now = "ne_now (he_nbr env)"
  have max: "ospf6_packet_max (w_oi w) = Some ?m" using mtu(1) by (simp add: ospf6_packet_max_def)
  have ok: "nbr_list_ok db" using inv j by (simp add: dd_inv_def dd_lists_ok_def db_def)
  have k: "min (length db) ((?m - 32) div 20) = ?k" by (simp add: dd_fits_def)
  obtain dl where dl: "dbdesc_move ?now (w_oi w) 32 db (db, []) = Some (drop ?k db, dl)" "nbr_list_ok dl" "lsdb_keys dl = lsdb_keys (take ?k db)"
    using dbdesc_move_ok [OF ok _ max, of "[]" ?now 32] unfolding k by (auto simp: nbr_list_ok_def)
  have "length dl = card (lsdb_keys (take ?k db))" using nbr_list_length [OF dl(2)] dl(3) by simp
  then have len: "length dl \<le> (?m - 32) div 20" using card_image_le [of "set (take ?k db)" lsa_key] card_length [of "take ?k db"]
    by (simp add: dd_fits_def)
  then have "20 * length dl \<le> ?m - 32" by linarith
  then have fit: "28 + 20 * length dl \<le> ?m \<or> dl = []" "28 + 20 * length dl < 2 ^ LENGTH(16)"
    using mtu(2) by (cases dl, simp_all)
  let ?bits = "if drop ?k db = [] then on_dbdesc_bits ?on AND NOT OSPF6_DBDESC_MBIT else on_dbdesc_bits ?on"
  let ?f = "\<lambda>on. on\<lparr>on_summary_list := drop ?k db, on_dbdesc_list := dl,
      on_dbdesc_bits := (if length (drop ?k db) = 0 then on_dbdesc_bits on AND NOT OSPF6_DBDESC_MBIT else on_dbdesc_bits on)\<rparr>"
  define w1 where "w1 = w_nbr_update j ?f w"
  have d1: "dd_step j w w1" unfolding w1_def
    by (rule nbr_change_dd [OF inv j])
      (use st [folded not_le] inv j nbr_list_ok_drop [OF ok, of ?k] in \<open>simp_all add: nbr_input_def dd_lists_ok_def dd_inv_def\<close>)
  define w2 where "w2 = (if on_dbdesc_bits (w_nbr w1 j) AND OSPF6_DBDESC_MSBIT = 0 \<and> dd_bits (on_dbdesc_last (w_nbr w1 j)) AND OSPF6_DBDESC_MBIT = 0 \<and>
    on_dbdesc_bits (w_nbr w1 j) AND OSPF6_DBDESC_MBIT = 0 then w_event ExchangeDoneEvent j w1 else w1)"
  have d2: "dd_step j w w2" using d1 dd_step_emit [OF d1] by (simp add: w2_def)
  have n2: "w_nbr w2 j = ?f ?on" using j by (simp add: w2_def w1_def)
  have max2: "ospf6_packet_max (w_oi w2) = Some ?m" using max by (simp add: w2_def w1_def)
  have run: "ospf6_dbdesc_send_newone env n j w = ospf6_dbdesc_send env n j w2"
    using dl(1) by (simp add: ospf6_dbdesc_send_newone_def db_def [symmetric] ospf6_lsdb_remove_all_def w2_def w1_def Let_def)
  have bits: "on_dbdesc_bits (w_nbr w2 j) = ?bits" by (simp add: n2)
  have i2: "on_dbdesc_bits (w_nbr w2 j) AND OSPF6_DBDESC_IBIT = 0" unfolding bits using i by (simp add: and.assoc and.commute and.left_commute)
  let ?hs = "map (lsa_header \<circ> ospf6_lsa_age_update_to_send ?now (oi_transdelay (w_oi w2))) dl"
  have step: "dd_inv w2" "j < w_num w2" "on_state (w_nbr w2 j) > OSPF6_NEIGHBOR_EXSTART" using d2 j st by (simp_all add: dd_step_def)
  obtain w3 where w3: "ospf6_dbdesc_send env n j w2 = Some (Some ((dd_packet env (w_oi w2) (w_nbr w2 j))
      \<lparr>dp_length := of_nat (28 + 20 * length ?hs), dp_headers := ?hs\<rparr>), w3)" "dd_step j w2 w3" "on_summary_list (w_nbr w3 j) = drop ?k db"
    using send_described [OF step i2 max2, of env n] fit(1) by (auto simp: n2)
  have "header_key ` set ?hs = lsdb_keys dl" by (simp add: image_image age_to_send_key)
  moreover have "unat (of_nat (28 + 20 * length ?hs) :: u16) = 28 + 20 * length ?hs"
    using fit(2) by (simp only: length_map unsigned_of_nat take_bit_nat_eq_self of_nat_id)
  ultimately show ?thesis
    using run w3 dd_step_trans [OF d2 w3(2)] dl(3) bits n2 by (auto simp: dd_aligned_def dd_packet_def w2_def w1_def)
qed

text \<open>C13: A new Database Description of a router that knows its role. No assertion fails; the headers of the packet are those of the LSAs at the
  front of the summary list that fit into the MTU, exactly these leave the list, the length that is declared is that of the headers, and the
  bit for more descriptions is cleared exactly when the list is empty. So over a sequence of packets each LSA is described once.\<close>
theorem dbdesc_newone_describes:
  fixes env :: hello_env
  assumes inv: "dd_inv w" and j: "j < w_num w" and st: "on_state (w_nbr w j) > OSPF6_NEIGHBOR_EXSTART"
    and i: "on_dbdesc_bits (w_nbr w j) AND OSPF6_DBDESC_IBIT = 0" and mtu: "40 < unat (oi_ifmtu (w_oi w))" "unat (oi_ifmtu (w_oi w)) < 65536"
  defines "db \<equiv> on_summary_list (w_nbr w j)"
  shows "\<exists>pkt w'. ospf6_dbdesc_send_newone env n j w = Some (Some pkt, w') \<and> dd_inv w' \<and> dd_aligned pkt \<and>
    on_state (w_nbr w' j) = on_state (w_nbr w j) \<and>
    header_key ` set (dp_headers pkt) = lsdb_keys (take (dd_fits (w_oi w) db) db) \<and>
    on_summary_list (w_nbr w' j) = drop (dd_fits (w_oi w) db) db \<and>
    dd_bits (dp_dbdesc pkt) = (if drop (dd_fits (w_oi w) db) db = [] then on_dbdesc_bits (w_nbr w j) AND NOT OSPF6_DBDESC_MBIT
      else on_dbdesc_bits (w_nbr w j)) \<and> dd_seqnum (dp_dbdesc pkt) = on_dbdesc_seqnum (w_nbr w j)"
  using send_newone_ok [OF assms(1-6), of env n] unfolding db_def [symmetric] dd_step_def by blast

section \<open>The negotiation\<close>

text \<open>From ExStart to Exchange only the state of the neighbor changes, and the time of the change.\<close>
lemma state_change_exchange:
  assumes "on_state (w_nbr w j) = OSPF6_NEIGHBOR_EXSTART" "j < w_num w"
  shows "\<exists>e. ospf6_neighbor_state_change env OSPF6_NEIGHBOR_EXCHANGE j w =
    Some (w_emit e (w_nbr_update j (\<lambda>on. on\<lparr>on_state := OSPF6_NEIGHBOR_EXCHANGE, on_last_changed := ne_now env\<rparr>) w))"
proof -
  have "state_set env OSPF6_NEIGHBOR_EXCHANGE j w =
      w_nbr_update j (\<lambda>on. on\<lparr>on_state := OSPF6_NEIGHBOR_EXCHANGE, on_last_changed := ne_now env\<rparr>) w"
    using assms by (simp add: state_set_def less_nbr_state_def Let_def)
  then show ?thesis
    using assms by (auto simp: ospf6_neighbor_state_change_def numeral_2_eq_2 state_change_body_def mdr_neighbor_state_change_def
        full_schedule_def formation_next_def less_nbr_state_def less_eq_nbr_state_def Let_def)
qed

lemma negotiation_done_fields:
  assumes run: "negotiation_done env j w = Some w'" and inv: "dd_inv w" and j: "j < w_num w"
    and ex: "on_state (w_nbr w j) = OSPF6_NEIGHBOR_EXSTART"
  shows "on_dbdesc_bits (w_nbr w' j) = on_dbdesc_bits (w_nbr w j) AND NOT OSPF6_DBDESC_IBIT"
    "on_dbdesc_seqnum (w_nbr w' j) = on_dbdesc_seqnum (w_nbr w j)" "on_dbdesc_last (w_nbr w' j) = on_dbdesc_last (w_nbr w j)"
    "oi_ifmtu (w_oi w') = oi_ifmtu (w_oi w)"
proof -
  have ok: "w_ok w" using inv by (simp add: dd_inv_def nbr_inv_def fsm_inv_def)
  obtain w1 where w1: "clear_ls_lists j w = Some w1" "ls_frame w1 = ls_frame w"
    "oi_neighbor_list (w_oi w1) = (oi_neighbor_list (w_oi w))[j := set_ls_lists ([], [], []) (w_nbr w j)]"
    using clear_ls_lists_world [OF ok j] by blast
  have mtu: "oi_ifmtu (w_oi w1) = oi_ifmtu (w_oi w)"
    using arg_cong [OF w1(2), of "\<lambda>w. oi_ifmtu (w_oi w)"] by (simp add: ls_frame_def count_frame_def nbrs_frame_def)
  obtain d1 d2 d3 s r where w': "ospf6_neighbor_state_change env OSPF6_NEIGHBOR_EXCHANGE j
      (w_nbr_update j (\<lambda>on. on\<lparr>on_summary_list := s, on_retrans_list := r, on_dbdesc_bits := on_dbdesc_bits on AND NOT OSPF6_DBDESC_IBIT\<rparr>)
        (w1\<lparr>w_oi := (w_oi w1)\<lparr>oi_lsdb := d1\<rparr>, w_area_lsdb := d2, w_as_lsdb := d3\<rparr>)) = Some w'" (is "ospf6_neighbor_state_change _ _ _ ?w = _")
    using run ex w1(1) by (auto simp: negotiation_done_def Let_def bind_eq_Some_conv)
  have nj: "w_nbr w1 j = set_ls_lists ([], [], []) (w_nbr w j)" "j < w_num w1" using j by (simp_all add: w1(3))
  have "on_state (w_nbr ?w j) = OSPF6_NEIGHBOR_EXSTART" "j < w_num ?w" using nj ex by (simp_all add: set_ls_lists_def)
  from state_change_exchange [OF this, of env] obtain e
    where e: "w' = w_emit e (w_nbr_update j (\<lambda>on. on\<lparr>on_state := OSPF6_NEIGHBOR_EXCHANGE, on_last_changed := ne_now env\<rparr>) ?w)"
    using w' by auto
  show "on_dbdesc_bits (w_nbr w' j) = on_dbdesc_bits (w_nbr w j) AND NOT OSPF6_DBDESC_IBIT"
    "on_dbdesc_seqnum (w_nbr w' j) = on_dbdesc_seqnum (w_nbr w j)" "on_dbdesc_last (w_nbr w' j) = on_dbdesc_last (w_nbr w j)"
    "oi_ifmtu (w_oi w') = oi_ifmtu (w_oi w)"
    unfolding e using nj mtu by (simp_all add: set_ls_lists_def)
qed

lemma nbr_index_rids:
  assumes "w_rids w' = w_rids w"
  shows "nbr_index r w' = nbr_index r w"
proof -
  have n: "w_num w' = w_num w" using assms map_eq_imp_length_eq by blast
  have "on_router_id (w_nbr w' i) = on_router_id (w_nbr w i)" if "i < w_num w" for i
    using that n arg_cong [OF assms, of "\<lambda>xs. xs ! i"] by simp
  then show ?thesis unfolding nbr_index_def n by (intro find_cong) auto
qed

text \<open>A packet from which no LSA is excluded.\<close>
lemma dbdesc_process_run:
  assumes inv: "dd_inv w" and j: "j < w_num w" and pkt: "dd_aligned pkt" and ex: "\<And>h. h \<in> set (dp_headers pkt) \<Longrightarrow> \<not> excluded h"
  shows "\<exists>w'. dbdesc_process now excluded j pkt finish w = Some (finish w') \<and> dd_frame now j w w'"
proof -
  have ok: "dbs_ok w" "dd_lists_ok (w_nbr w j)" using inv j by (auto simp: dd_inv_def nbr_inv_def fsm_inv_def w_ok_def retrans_ok_def)
  have "\<not> (\<exists>h \<in> set (dp_headers pkt). excluded h \<and> OSPF6_LSA_SCOPE (h_type h) \<noteq> OSPF6_SCOPE_RESERVED)" using ex by blast
  then obtain w' where "dbdesc_headers now excluded j (dp_headers pkt) w = Some (False, w')" "dd_frame now j w w'"
    using dbdesc_headers_ok [OF ok(1) j ok(2), of now excluded "dp_headers pkt"] by auto
  then show ?thesis using pkt by (auto simp: dbdesc_process_def dd_aligned_def Let_def)
qed

text \<open>The negotiation, and the options that are recorded after it.\<close>
lemma negotiate:
  assumes inv: "dd_inv w" and j: "j < w_num w" and ex: "on_state (w_nbr w j) = OSPF6_NEIGHBOR_EXSTART"
  shows "\<exists>w1 w'. negotiation_done env j w = Some w1 \<and> w' = w_nbr_update j (\<lambda>on. on\<lparr>on_options := opt\<rparr>) w1 \<and> dd_inv w' \<and> w_num w' = w_num w \<and>
    on_state (w_nbr w' j) = OSPF6_NEIGHBOR_EXCHANGE \<and> on_options (w_nbr w' j) = opt \<and> on_dbdesc_bits (w_nbr w' j) = on_dbdesc_bits (w_nbr w j) AND NOT OSPF6_DBDESC_IBIT \<and>
    on_dbdesc_seqnum (w_nbr w' j) = on_dbdesc_seqnum (w_nbr w j) \<and> on_dbdesc_last (w_nbr w' j) = on_dbdesc_last (w_nbr w j) \<and>
    oi_ifmtu (w_oi w') = oi_ifmtu (w_oi w)"
proof -
  obtain w1 where w1: "negotiation_done env j w = Some w1" "dd_inv w1" "w_num w1 = w_num w" "on_state (w_nbr w1 j) = OSPF6_NEIGHBOR_EXCHANGE"
    using negotiation_done_dd [OF inv j ex] by blast
  have j1: "j < w_num w1" using w1(3) j by simp
  from dd_step_light [OF dd_light(6) w1(2) this, of opt] show ?thesis
    using w1 j1 negotiation_done_fields [OF w1(1) inv j ex] by (simp add: dd_step_def)
qed

text \<open>The part of the reception before the roles differ.\<close>
lemma dbdesc_recv_start:
  assumes inv: "dd_inv w" and idx: "nbr_index (dp_router_id pkt) w = Some j" and ty: "oi_type (w_oi w) \<noteq> OSPF6_IFTYPE_MDR"
    and mtu: "ucast (dd_ifmtu (dp_dbdesc pkt)) = oi_ifmtu (w_oi w)"
  defines "pkt' \<equiv> pkt\<lparr>dp_dbdesc := (dp_dbdesc pkt)\<lparr>dd_reserved1 := 0, dd_reserved2 := 0\<rparr>\<rparr>"
  shows "\<exists>w0 t. dd_step j w w0 \<and> w_nbr w0 j = (w_nbr w j)\<lparr>on_inactivity_timer := t\<rparr> \<and> oi_ifmtu (w_oi w0) = oi_ifmtu (w_oi w) \<and>
    (dp_router_id pkt < he_router_id env \<longrightarrow> ospf6_dbdesc_recv env stub pkt w = ospf6_dbdesc_recv_master (he_nbr env) stub j pkt' w0) \<and>
    (he_router_id env < dp_router_id pkt \<longrightarrow> ospf6_dbdesc_recv env stub pkt w = ospf6_dbdesc_recv_slave (he_nbr env) stub j pkt' w0)"
proof -
  note j = nbr_index_Some(1) [OF idx]
  let ?c = "on_state (w_nbr w j) \<ge> OSPF6_NEIGHBOR_TWOWAY \<and> oi_relax_neighbor_inactivity (w_oi w)"
  define w0 where "w0 = (if ?c then ospf6_neighbor_schedule_inactivity j w else w)"
  have d: "dd_step j w w0" using dd_step_light [OF dd_light(9) inv j] dd_step_refl [OF inv] by (simp add: w0_def ospf6_neighbor_schedule_inactivity_def)
  have n: "\<exists>t. w_nbr w0 j = (w_nbr w j)\<lparr>on_inactivity_timer := t\<rparr>"
  proof (cases ?c)
    case True
    then show ?thesis using j by (auto simp: w0_def ospf6_neighbor_schedule_inactivity_def)
  next
    case False
    then show ?thesis by (intro exI [of _ "on_inactivity_timer (w_nbr w j)"]) (auto simp: w0_def)
  qed
  have m: "oi_ifmtu (w_oi w0) = oi_ifmtu (w_oi w)" by (simp add: w0_def ospf6_neighbor_schedule_inactivity_def)
  have "oi_type (w_oi w0) \<noteq> OSPF6_IFTYPE_MDR" using d ty by (simp add: dd_step_def)
  then show ?thesis using d n m idx mtu by (auto simp: ospf6_dbdesc_recv_def w0_def [symmetric] pkt'_def Let_def)
qed

lemma finish_fields:
  assumes "j < w_num w"
  shows "on_dbdesc_bits (w_nbr (slave_finish j dd w) j) = on_dbdesc_bits (w_nbr w j)" "on_dbdesc_seqnum (w_nbr (slave_finish j dd w) j) = dd_seqnum dd"
    "oi_ifmtu (w_oi (slave_finish j dd w)) = oi_ifmtu (w_oi w)" "on_state (w_nbr (slave_finish j dd w) j) = on_state (w_nbr w j)"
    "on_dbdesc_bits (w_nbr (master_finish j dd w) j) = on_dbdesc_bits (w_nbr w j)"
    "on_dbdesc_seqnum (w_nbr (master_finish j dd w) j) = on_dbdesc_seqnum (w_nbr w j) + 1"
    "on_state (w_nbr (master_finish j dd w) j) = on_state (w_nbr w j)"
  using assms by (simp_all add: slave_finish_def master_finish_def lsreq_schedule_def Let_def)

text \<open>The slave accepts the first packet of the master.\<close>
lemma slave_negotiates:
  assumes inv: "dd_inv w" and idx: "nbr_index (dp_router_id pkt) w = Some j" and ex: "on_state (w_nbr w j) = OSPF6_NEIGHBOR_EXSTART"
    and ty: "oi_type (w_oi w) \<noteq> OSPF6_IFTYPE_MDR" and me: "he_router_id env < dp_router_id pkt"
    and mtu: "ucast (dd_ifmtu (dp_dbdesc pkt)) = oi_ifmtu (w_oi w)" and len: "dp_length pkt = 28" "dp_headers pkt = []"
    and bits: "dd_bits (dp_dbdesc pkt) AND OSPF6_DBDESC_IBIT \<noteq> 0" "dd_bits (dp_dbdesc pkt) AND OSPF6_DBDESC_MBIT \<noteq> 0"
      "dd_bits (dp_dbdesc pkt) AND OSPF6_DBDESC_MSBIT \<noteq> 0"
  shows "\<exists>w'. ospf6_dbdesc_recv env stub pkt w = Some w' \<and> dd_inv w' \<and> w_num w' = w_num w \<and> on_state (w_nbr w' j) = OSPF6_NEIGHBOR_EXCHANGE \<and>
    on_dbdesc_bits (w_nbr w' j) = (on_dbdesc_bits (w_nbr w j) AND NOT OSPF6_DBDESC_MSBIT) AND NOT OSPF6_DBDESC_IBIT \<and>
    on_dbdesc_seqnum (w_nbr w' j) = dd_seqnum (dp_dbdesc pkt) \<and> oi_ifmtu (w_oi w') = oi_ifmtu (w_oi w)"
proof -
  note j = nbr_index_Some(1) [OF idx]
  let ?dd = "(dp_dbdesc pkt)\<lparr>dd_reserved1 := 0, dd_reserved2 := 0\<rparr>"
  let ?pkt = "pkt\<lparr>dp_dbdesc := ?dd\<rparr>"
  obtain w0 t where w0: "dd_step j w w0" "w_nbr w0 j = (w_nbr w j)\<lparr>on_inactivity_timer := t\<rparr>" "oi_ifmtu (w_oi w0) = oi_ifmtu (w_oi w)"
    and run0: "ospf6_dbdesc_recv env stub pkt w = ospf6_dbdesc_recv_slave (he_nbr env) stub j ?pkt w0"
    using dbdesc_recv_start [OF inv idx ty mtu, of env stub] me by blast
  let ?f = "\<lambda>on. on\<lparr>on_dbdesc_bits := on_dbdesc_bits on AND NOT OSPF6_DBDESC_MSBIT, on_dbdesc_seqnum := dd_seqnum ?dd\<rparr>"
  let ?w1 = "w_nbr_update j ?f w0"
  have d1: "dd_step j w ?w1" by (rule dd_step_then [OF w0(1) j dd_light(8)])
  have i1: "dd_inv ?w1" "j < w_num ?w1" "on_state (w_nbr ?w1 j) = OSPF6_NEIGHBOR_EXSTART" "j < w_num w0" "w_num ?w1 = w_num w"
    using d1 w0(1) j ex by (simp_all add: dd_step_def)
  obtain w2 w3 where w3: "negotiation_done (he_nbr env) j ?w1 = Some w2" "w3 = w_nbr_update j (\<lambda>on. on\<lparr>on_options := dd_options ?dd\<rparr>) w2" "dd_inv w3"
    "w_num w3 = w_num ?w1" "on_state (w_nbr w3 j) = OSPF6_NEIGHBOR_EXCHANGE"
    "on_dbdesc_bits (w_nbr w3 j) = on_dbdesc_bits (w_nbr ?w1 j) AND NOT OSPF6_DBDESC_IBIT" "oi_ifmtu (w_oi w3) = oi_ifmtu (w_oi ?w1)"
    using negotiate [OF i1(1-3), of "he_nbr env" "dd_options ?dd"] by blast
  have j3: "j < w_num w3" using w3(4) i1(2) by simp
  have al: "dd_aligned ?pkt" using len by (simp add: dd_aligned_def)
  obtain w4 where w4: "slave_process (he_nbr env) stub j ?dd ?pkt w3 = Some (slave_finish j ?dd w4)" "dd_frame (ne_now (he_nbr env)) j w3 w4"
    using dbdesc_process_run [OF w3(3) j3 al, where finish = "slave_finish j ?dd"] len(2) by (force simp: slave_process_def)
  have d5: "dd_step j w3 (slave_finish j ?dd w4)"
    using slave_process_dd [OF w3(3) j3 w3(5) al, of "he_nbr env" stub ?dd] w4(1) by simp
  obtain q s where n4: "w_nbr w4 j = (w_nbr w3 j)\<lparr>on_request_list := q, on_summary_list := s\<rparr>" "w_num w4 = w_num w3" "oi_ifmtu (w_oi w4) = oi_ifmtu (w_oi w3)"
    using dd_frame_fields(1,3,4) [OF w4(2) j3] by blast
  have "ospf6_dbdesc_recv env stub pkt w = Some (slave_finish j ?dd w4)"
    using ex bits len(1) w3(1) w4(1) unfolding run0 w3(2) by (simp add: ospf6_dbdesc_recv_slave_def w0(2) Let_def)
  moreover have "on_dbdesc_bits (w_nbr w3 j) = (on_dbdesc_bits (w_nbr w j) AND NOT OSPF6_DBDESC_MSBIT) AND NOT OSPF6_DBDESC_IBIT"
    using w3(6) w0(2) i1(4) by simp
  ultimately show ?thesis
    using d5 w3(4,5,7) i1(5) w0(3) finish_fields(1-4) [of j w4 ?dd] n4 j3 by (intro exI [of _ "slave_finish j ?dd w4"]) (simp add: dd_step_def)
qed

text \<open>The master accepts the answer, unless it takes it for a repetition of the last packet.\<close>
lemma master_negotiates:
  assumes inv: "dd_inv w" and idx: "nbr_index (dp_router_id pkt) w = Some j" and ex: "on_state (w_nbr w j) = OSPF6_NEIGHBOR_EXSTART"
    and ty: "oi_type (w_oi w) \<noteq> OSPF6_IFTYPE_MDR" and me: "dp_router_id pkt < he_router_id env"
    and mtu: "ucast (dd_ifmtu (dp_dbdesc pkt)) = oi_ifmtu (w_oi w)" and al: "dd_aligned pkt"
    and bits: "dd_bits (dp_dbdesc pkt) AND OSPF6_DBDESC_MSBIT = 0" "dd_bits (dp_dbdesc pkt) AND OSPF6_DBDESC_IBIT = 0"
    and seqnum: "dd_seqnum (dp_dbdesc pkt) = on_dbdesc_seqnum (w_nbr w j)"
    and fresh: "dd_seqnum (on_dbdesc_last (w_nbr w j)) \<noteq> on_dbdesc_seqnum (w_nbr w j)"
  shows "\<exists>w'. ospf6_dbdesc_recv env False pkt w = Some w' \<and> dd_inv w' \<and> on_state (w_nbr w' j) = OSPF6_NEIGHBOR_EXCHANGE \<and>
    on_dbdesc_bits (w_nbr w' j) = on_dbdesc_bits (w_nbr w j) AND NOT OSPF6_DBDESC_IBIT \<and>
    on_dbdesc_seqnum (w_nbr w' j) = on_dbdesc_seqnum (w_nbr w j) + 1"
proof -
  note j = nbr_index_Some(1) [OF idx]
  let ?dd = "(dp_dbdesc pkt)\<lparr>dd_reserved1 := 0, dd_reserved2 := 0\<rparr>"
  let ?pkt = "pkt\<lparr>dp_dbdesc := ?dd\<rparr>"
  have al': "dd_aligned ?pkt" using al by (simp add: dd_aligned_def)
  obtain w0 t where w0: "dd_step j w w0" "w_nbr w0 j = (w_nbr w j)\<lparr>on_inactivity_timer := t\<rparr>"
    and run0: "ospf6_dbdesc_recv env False pkt w = ospf6_dbdesc_recv_master (he_nbr env) False j ?pkt w0"
    using dbdesc_recv_start [OF inv idx ty mtu, of env False] me by blast
  have i0: "dd_inv w0" "j < w_num w0" "on_state (w_nbr w0 j) = OSPF6_NEIGHBOR_EXSTART" using w0 j ex by (simp_all add: dd_step_def)
  obtain w1 w2 where w2: "negotiation_done (he_nbr env) j w0 = Some w1" "w2 = w_nbr_update j (\<lambda>on. on\<lparr>on_options := dd_options ?dd\<rparr>) w1" "dd_inv w2"
    "w_num w2 = w_num w0" "on_state (w_nbr w2 j) = OSPF6_NEIGHBOR_EXCHANGE" "on_options (w_nbr w2 j) = dd_options ?dd"
    "on_dbdesc_bits (w_nbr w2 j) = on_dbdesc_bits (w_nbr w0 j) AND NOT OSPF6_DBDESC_IBIT"
    "on_dbdesc_seqnum (w_nbr w2 j) = on_dbdesc_seqnum (w_nbr w0 j)" "on_dbdesc_last (w_nbr w2 j) = on_dbdesc_last (w_nbr w0 j)"
    using negotiate [OF i0, of "he_nbr env" "dd_options ?dd"] by blast
  have j2: "j < w_num w2" using w2(4) i0(2) by simp
  let ?on = "(w_nbr w2 j)\<lparr>on_options := OPT_CLEAR_L (on_options (w_nbr w2 j))\<rparr>"
  let ?dd' = "?dd\<lparr>dd_options := OPT_CLEAR_L (dd_options ?dd)\<rparr>"
  have "dd_seqnum ?dd \<noteq> dd_seqnum (on_dbdesc_last (w_nbr w2 j))" using seqnum fresh w2(9) w0(2) by simp
  then have new: "?dd \<noteq> on_dbdesc_last (w_nbr w2 j)" by metis
  have check: "dbdesc_exchange_check True ?dd (w_nbr w2 j) = (Accepted, ?dd', ?on)"
    using bits seqnum w2(6,8) w0(2) new by (simp add: dbdesc_exchange_check_def Let_def)
  let ?w3 = "w_nbr_update j (\<lambda>_. ?on) w2"
  have d3: "dd_step j w2 ?w3" by (rule exchange_check_dd [OF w2(3) j2 check])
  have i3: "dd_inv ?w3" "j < w_num ?w3" using d3 j2 by (simp_all add: dd_step_def)
  obtain w4 where w4: "dbdesc_process (ne_now (he_nbr env)) (\<lambda>h. h_type h = 0x4005 \<and> False) j ?pkt (master_finish j ?dd') ?w3 = Some (master_finish j ?dd' w4)"
    "dd_frame (ne_now (he_nbr env)) j ?w3 w4"
    using dbdesc_process_run [OF i3 al', where finish = "master_finish j ?dd'" and excluded = "\<lambda>h. h_type h = 0x4005 \<and> False"] by blast
  have ex4: "master_exchange (he_nbr env) False j ?pkt w2 = Some (master_finish j ?dd' w4)"
    using w4(1) check by (simp add: master_exchange_def)
  have d5: "dd_step j w2 (master_finish j ?dd' w4)" using master_exchange_dd [OF w2(3) j2 w2(5) al', of "he_nbr env" False] ex4 by simp
  have run: "ospf6_dbdesc_recv env False pkt w = Some (master_finish j ?dd' w4)"
    using ex bits seqnum w2(1) ex4 unfolding run0 w2(2) by (simp add: ospf6_dbdesc_recv_master_def w0(2) Let_def)
  obtain q s where n4: "w_nbr w4 j = (w_nbr ?w3 j)\<lparr>on_request_list := q, on_summary_list := s\<rparr>" "w_num w4 = w_num ?w3"
    using dd_frame_fields(1,4) [OF w4(2) i3(2)] by blast
  then show ?thesis
    using run d5 w2(5,7,8) w0(2) finish_fields(5-7) [of j w4 ?dd'] j2
    by (intro exI [of _ "master_finish j ?dd' w4"]) (simp add: dd_step_def)
qed

lemma ucast_fits:
  assumes "unat (x :: u32) < 65536"
  shows "ucast (ucast x :: u16) = x"
proof -
  have "unat (ucast (ucast x :: u16) :: u32) = unat x" using assms by (simp add: unat_ucast_mod)
  then show ?thesis by (rule unsigned_word_eqI)
qed

text \<open>The bits of a slave after the negotiation, with or without more to describe.\<close>
lemma slave_bits:
  fixes x :: u8
  defines "y \<equiv> (x AND NOT OSPF6_DBDESC_MSBIT) AND NOT OSPF6_DBDESC_IBIT"
  shows "y AND OSPF6_DBDESC_IBIT = 0" "y AND OSPF6_DBDESC_MSBIT = 0"
    "(y AND NOT OSPF6_DBDESC_MBIT) AND OSPF6_DBDESC_IBIT = 0" "(y AND NOT OSPF6_DBDESC_MBIT) AND OSPF6_DBDESC_MSBIT = 0"
  by (simp_all add: y_def and.assoc)

text \<open>The first packet of the master.\<close>
lemma first_send:
  assumes inv: "dd_inv w" and j: "j < w_num w" and ex: "on_state (w_nbr w j) = OSPF6_NEIGHBOR_EXSTART"
    and ty: "oi_type (w_oi w) \<noteq> OSPF6_IFTYPE_MDR" and i: "on_dbdesc_bits (w_nbr w j) AND OSPF6_DBDESC_IBIT \<noteq> 0"
  shows "\<exists>w' t. ospf6_dbdesc_send env n j w = Some (Some (dd_packet env (w_oi w) (w_nbr w j)), w') \<and> dd_step j w w' \<and>
    w_nbr w' j = (w_nbr w j)\<lparr>on_thread_send_dbdesc := t\<rparr> \<and> oi_ifmtu (w_oi w') = oi_ifmtu (w_oi w)"
proof -
  let ?t = "if on_dbdesc_bits (w_nbr w j) AND OSPF6_DBDESC_MSBIT \<noteq> 0 then Some (1000 * uint (oi_rxmt_interval (w_oi w))) else None"
  let ?w = "w_nbr_update j (\<lambda>on. on\<lparr>on_thread_send_dbdesc := ?t\<rparr>) w"
  have "ospf6_dbdesc_send env n j w = Some (Some (dd_packet env (w_oi w) (w_nbr w j)), ?w)"
    using ex ty i j by (simp add: ospf6_dbdesc_send_def dd_packet_def w_nbr_update_twice o_def Let_def)
  moreover have "dd_step j w ?w" by (rule dd_step_light [OF dd_light(4) inv j])
  ultimately show ?thesis using j by (intro exI [of _ ?w] exI [of _ ?t]) simp
qed

text \<open>C6: The negotiation of the database exchange. Two routers are in ExStart with each other, on a link that is not MDR and with the same MTU. The router
  with the larger ID sends its first packet, the other one answers it with a new description, and the first one receives the answer. Then no assertion
  has failed, both are in Exchange, they agree on the master and on the sequence number, and the master has taken the answer as the acknowledgment of its
  packet. The answer must not have the sequence number of the last packet the master has accepted before, since it would be dropped as a repetition.\<close>
theorem dbdesc_negotiation:
  assumes m: "dd_inv wm" "nbr_index (he_router_id slave) wm = Some i" "on_state (w_nbr wm i) = OSPF6_NEIGHBOR_EXSTART"
      "oi_type (w_oi wm) \<noteq> OSPF6_IFTYPE_MDR" "on_dbdesc_bits (w_nbr wm i) = OSPF6_DBDESC_MSBIT OR OSPF6_DBDESC_MBIT OR OSPF6_DBDESC_IBIT"
      "dd_seqnum (on_dbdesc_last (w_nbr wm i)) \<noteq> on_dbdesc_seqnum (w_nbr wm i)"
    and s: "dd_inv ws" "nbr_index (he_router_id main) ws = Some j" "on_state (w_nbr ws j) = OSPF6_NEIGHBOR_EXSTART" "oi_type (w_oi ws) \<noteq> OSPF6_IFTYPE_MDR"
    and less: "he_router_id slave < he_router_id main"
    and mtu: "oi_ifmtu (w_oi wm) = oi_ifmtu (w_oi ws)" "40 < unat (oi_ifmtu (w_oi ws))" "unat (oi_ifmtu (w_oi ws)) < 65536"
  shows "\<exists>pkt wm' ws' answer ws'' wm''.
    ospf6_dbdesc_send main n i wm = Some (Some pkt, wm') \<and> ospf6_dbdesc_recv slave stub pkt ws = Some ws' \<and>
    ospf6_dbdesc_send_newone slave n j ws' = Some (Some answer, ws'') \<and> ospf6_dbdesc_recv main False answer wm' = Some wm'' \<and>
    dd_inv wm'' \<and> on_state (w_nbr wm'' i) = OSPF6_NEIGHBOR_EXCHANGE \<and> dd_inv ws'' \<and> on_state (w_nbr ws'' j) = OSPF6_NEIGHBOR_EXCHANGE \<and>
    on_dbdesc_bits (w_nbr wm'' i) AND OSPF6_DBDESC_MSBIT \<noteq> 0 \<and> dd_bits (dp_dbdesc answer) AND OSPF6_DBDESC_MSBIT = 0 \<and>
    dd_seqnum (dp_dbdesc answer) = on_dbdesc_seqnum (w_nbr wm i) \<and> on_dbdesc_seqnum (w_nbr wm'' i) = on_dbdesc_seqnum (w_nbr wm i) + 1"
proof -
  let ?pkt = "dd_packet main (w_oi wm) (w_nbr wm i)"
  note i = nbr_index_Some(1) [OF m(2)] and j = nbr_index_Some(1) [OF s(2)]
  note uc = ucast_fits [OF mtu(3)]
  have b: "on_dbdesc_bits (w_nbr wm i) = 7" using m(5) by simp
  obtain wm' t where m1: "ospf6_dbdesc_send main n i wm = Some (Some ?pkt, wm')" "dd_step i wm wm'"
    "w_nbr wm' i = (w_nbr wm i)\<lparr>on_thread_send_dbdesc := t\<rparr>" "oi_ifmtu (w_oi wm') = oi_ifmtu (w_oi wm)"
    using first_send [OF m(1) i m(3,4), of main n] by (auto simp: b)
  have "dp_router_id ?pkt = he_router_id main" by (simp add: dd_packet_def)
  then obtain ws' where s1: "ospf6_dbdesc_recv slave stub ?pkt ws = Some ws'" "dd_inv ws'" "w_num ws' = w_num ws" "on_state (w_nbr ws' j) = OSPF6_NEIGHBOR_EXCHANGE"
    "on_dbdesc_bits (w_nbr ws' j) = (on_dbdesc_bits (w_nbr ws j) AND NOT OSPF6_DBDESC_MSBIT) AND NOT OSPF6_DBDESC_IBIT"
    "on_dbdesc_seqnum (w_nbr ws' j) = on_dbdesc_seqnum (w_nbr wm i)" "oi_ifmtu (w_oi ws') = oi_ifmtu (w_oi ws)"
    using slave_negotiates [OF s(1) _ s(3,4), of ?pkt slave stub] s(2) less mtu(1) uc b by (auto simp: dd_packet_def)
  have st: "on_state (w_nbr ws' j) > OSPF6_NEIGHBOR_EXSTART" using s1(4) by (simp add: less_nbr_state_def)
  have i0: "on_dbdesc_bits (w_nbr ws' j) AND OSPF6_DBDESC_IBIT = 0" unfolding s1(5) by (rule slave_bits(1))
  let ?c = "drop (dd_fits (w_oi ws') (on_summary_list (w_nbr ws' j))) (on_summary_list (w_nbr ws' j)) = []"
  obtain answer ws'' where s2: "ospf6_dbdesc_send_newone slave n j ws' = Some (Some answer, ws'')" "dd_step j ws' ws''" "dd_aligned answer"
    "dd_bits (dp_dbdesc answer) = (if ?c then on_dbdesc_bits (w_nbr ws' j) AND NOT OSPF6_DBDESC_MBIT else on_dbdesc_bits (w_nbr ws' j))"
    "dd_seqnum (dp_dbdesc answer) = on_dbdesc_seqnum (w_nbr ws' j)" "dp_router_id answer = he_router_id slave"
    "dd_ifmtu (dp_dbdesc answer) = ucast (oi_ifmtu (w_oi ws'))"
    using send_newone_ok [OF s1(2) _ st i0, of slave n] s1(3,7) j mtu(2,3) by auto
  have a: "dd_bits (dp_dbdesc answer) AND OSPF6_DBDESC_MSBIT = 0" "dd_bits (dp_dbdesc answer) AND OSPF6_DBDESC_IBIT = 0"
    using slave_bits [of "on_dbdesc_bits (w_nbr ws j)"] unfolding s2(4) s1(5) by (simp_all split: if_split)
  have "w_rids wm' = w_rids wm" using m1(2) by (simp add: dd_step_def)
  then have idx: "nbr_index (dp_router_id answer) wm' = Some i" unfolding s2(6) by (rule nbr_index_rids [THEN trans, OF _ m(2)])
  have i1: "dd_inv wm'" "on_state (w_nbr wm' i) = OSPF6_NEIGHBOR_EXSTART" "oi_type (w_oi wm') \<noteq> OSPF6_IFTYPE_MDR"
    "ucast (dd_ifmtu (dp_dbdesc answer)) = oi_ifmtu (w_oi wm')" "dd_seqnum (dp_dbdesc answer) = on_dbdesc_seqnum (w_nbr wm' i)"
    "dd_seqnum (on_dbdesc_last (w_nbr wm' i)) \<noteq> on_dbdesc_seqnum (w_nbr wm' i)"
    using m m1(2-4) s2(5,7) s1(6,7) mtu(1) uc by (simp_all add: dd_step_def)
  obtain wm'' where "ospf6_dbdesc_recv main False answer wm' = Some wm''" "dd_inv wm''" "on_state (w_nbr wm'' i) = OSPF6_NEIGHBOR_EXCHANGE"
    "on_dbdesc_bits (w_nbr wm'' i) = on_dbdesc_bits (w_nbr wm' i) AND NOT OSPF6_DBDESC_IBIT"
    "on_dbdesc_seqnum (w_nbr wm'' i) = on_dbdesc_seqnum (w_nbr wm' i) + 1"
    using master_negotiates [OF i1(1) idx i1(2,3) _ _ s2(3) a i1(5,6), of main] i1(4) less s2(6) by auto
  then show ?thesis
    using m1(1) s1(1) s2(1) s2(2) s1(4,6) s2(5) a(1) by (auto simp: m1(3) b dd_step_def)
qed

section \<open>Examples\<close>

text \<open>The router 3 in the exchange with the router 9, which describes a router-LSA and an LSA of reserved scope.\<close>
definition example_exchange :: world where
  "example_exchange = example_world 0 [(9, OSPF6_NEIGHBOR_EXCHANGE)]"

definition example_header :: "u16 \<Rightarrow> ospf6_lsa_header" where
  "example_header type = \<lparr>h_age = 1, h_type = type, h_id = 0, h_adv_router = 9, h_seqnum = 0x80000001, h_checksum = 0, h_length = 24\<rparr>"

definition example_dbdesc :: dbdesc_packet where
  "example_dbdesc = \<lparr>dp_router_id = 9, dp_length = 68,
     dp_dbdesc = \<lparr>dd_reserved1 = 0, dd_options = [0, 0, 0], dd_ifmtu = 0, dd_reserved2 = 0, dd_bits = OSPF6_DBDESC_MSBIT, dd_seqnum = 1\<rparr>,
     dp_headers = [example_header 0x2001, example_header 0x6001], dp_lls = None\<rparr>"

lemma example_exchange_facts:
  "dd_inv example_exchange" "w_num example_exchange = 1" "dd_lists_ok (w_nbr example_exchange 0)"
  "on_state (w_nbr example_exchange 0) > OSPF6_NEIGHBOR_EXSTART" "oi_type (w_oi example_exchange) \<noteq> OSPF6_IFTYPE_MDR"
  "on_request_list (w_nbr example_exchange 0) = []" "w_area_lsdb example_exchange = []"
proof -
  have "nbrs_sorted (oi_neighbor_list (w_oi example_exchange))" by (simp add: example_exchange_def nbrs_sorted_def)
  moreover have l: "dd_lists_ok (w_nbr example_exchange 0)"
    by (simp add: example_exchange_def example_world_def example_defs dd_lists_ok_def nbr_list_ok_def Let_def)
  ultimately show "dd_inv example_exchange" by (simp add: dd_inv_def nbr_inv_def example_exchange_def)
  show "dd_lists_ok (w_nbr example_exchange 0)" by (rule l)
  show "w_area_lsdb example_exchange = []" by (simp add: example_exchange_def example_world_def Let_def)
qed (simp_all add: example_exchange_def less_nbr_state_def)

theorem dbdesc_headers_synchronise_witness:
  "\<exists>w'. dbdesc_headers example_time (\<lambda>h. False) 0 [example_header 0x2001, example_header 0x6001] example_exchange = Some (False, w') \<and>
     lsdb_keys (on_request_list (w_nbr w' 0)) = {(0x2001, 9, 0)}"
proof -
  have s: "OSPF6_LSA_SCOPE 0x2001 = OSPF6_SCOPE_AREA" "OSPF6_LSA_SCOPE 0x6001 = OSPF6_SCOPE_RESERVED"
    by (simp_all add: OSPF6_LSA_SCOPE_def)
  then have "dd_wanted example_time example_exchange (example_header 0x2001)"
    by (simp add: dd_wanted_def dd_compare_def w_scope_lsdb_def example_header_def example_exchange_facts ospf6_lsdb_lookup_def)
  then have "{h \<in> set [example_header 0x2001, example_header 0x6001].
      OSPF6_LSA_SCOPE (h_type h) \<noteq> OSPF6_SCOPE_RESERVED \<and> dd_wanted example_time example_exchange h} = {example_header 0x2001}"
    using s by (auto simp: example_header_def)
  then have "header_key ` {h \<in> set [example_header 0x2001, example_header 0x6001].
      OSPF6_LSA_SCOPE (h_type h) \<noteq> OSPF6_SCOPE_RESERVED \<and> dd_wanted example_time example_exchange h} = {(0x2001, 9, 0)}"
    by (simp only: image_insert image_empty) (simp add: header_key_def example_header_def)
  then show ?thesis
    using dbdesc_headers_synchronise [of example_exchange 0 example_time "[example_header 0x2001, example_header 0x6001]"] example_exchange_facts
    by (auto simp: dd_inv_def)
qed


text \<open>Worlds with one neighbor and an MTU of 1500.\<close>
definition example_link :: "rid \<Rightarrow> nbr_state \<Rightarrow> world" where
  "example_link r st = w_oi_update (oi_ifmtu_update (\<lambda>_. 1500)) (example_world 0 [(r, st)])"

lemma example_link_facts [simp]:
  "oi_ifmtu (w_oi (example_link r st)) = 1500" "w_num (example_link r st) = 1" "on_router_id (w_nbr (example_link r st) 0) = r"
  "on_state (w_nbr (example_link r st) 0) = st" "oi_type (w_oi (example_link r st)) \<noteq> OSPF6_IFTYPE_MDR"
  "on_dbdesc_bits (w_nbr (example_link r st) 0) = 0" "dd_seqnum (on_dbdesc_last (w_nbr (example_link r st) 0)) = 0"
  "on_request_list (w_nbr (example_link r st) 0) = []" "on_summary_list (w_nbr (example_link r st) 0) = []"
  by (simp_all add: example_link_def example_world_def example_defs Let_def)

lemma example_link_inv:
  assumes "r \<noteq> 0"
  shows "dd_inv (example_link r st)"
proof -
  have "nbr_inv (example_world 0 [(r, st)])" using assms by (simp add: nbr_inv_def nbrs_sorted_def)
  then have "nbr_inv (example_link r st)"
    by (rule nbr_input_inv) (simp add: world_input_def example_link_def nbr_input_def list.rel_refl)
  then show ?thesis by (simp add: dd_inv_def dd_lists_ok_def nbr_list_ok_def)
qed

text \<open>The router 3 in the exchange with 9, with a router-LSA to describe.\<close>
definition example_summary :: world where
  "example_summary = w_nbr_update 0 (\<lambda>on. on\<lparr>on_summary_list := [ospf6_lsa_lock (ospf6_lsa_create_headeronly example_time (example_header 0x2001))]\<rparr>)
     (example_link 9 OSPF6_NEIGHBOR_EXCHANGE)"

lemma example_summary_facts:
  "dd_inv example_summary" "w_num example_summary = 1" "on_state (w_nbr example_summary 0) > OSPF6_NEIGHBOR_EXSTART"
  "on_dbdesc_bits (w_nbr example_summary 0) = 0" "oi_ifmtu (w_oi example_summary) = 1500"
  "map lsa_key (on_summary_list (w_nbr example_summary 0)) = [(0x2001, 9, 0)]"
proof -
  let ?l = "ospf6_lsa_lock (ospf6_lsa_create_headeronly example_time (example_header 0x2001))"
  let ?w = "example_link 9 OSPF6_NEIGHBOR_EXCHANGE"
  have "lsa_lock ?l = 1" by (simp add: ospf6_lsa_lock_def)
  then have "dd_lists_ok ((w_nbr ?w 0)\<lparr>on_summary_list := [?l]\<rparr>)" by (simp add: dd_lists_ok_def nbr_list_ok_def)
  then have "dd_step 0 ?w example_summary"
    unfolding example_summary_def by (intro nbr_change_dd example_link_inv) (simp_all add: nbr_input_def less_eq_nbr_state_def)
  then show "dd_inv example_summary" by (simp add: dd_step_def)
qed (simp_all add: example_summary_def less_nbr_state_def header_key_def example_header_def)

theorem dbdesc_newone_describes_witness:
  "\<exists>pkt w'. ospf6_dbdesc_send_newone example_hello_env 2000 0 example_summary = Some (Some pkt, w') \<and> dd_aligned pkt \<and>
     header_key ` set (dp_headers pkt) = {(0x2001, 9, 0)} \<and> on_summary_list (w_nbr w' 0) = []"
proof -
  let ?db = "on_summary_list (w_nbr example_summary 0)"
  have n: "length ?db = 1" using arg_cong [OF example_summary_facts(6), of length] by simp
  then have k: "dd_fits (w_oi example_summary) ?db = 1" by (simp add: dd_fits_def example_summary_facts)
  have "lsdb_keys ?db = {(0x2001, 9, 0)}" using arg_cong [OF example_summary_facts(6), of set] by simp
  then show ?thesis
    using dbdesc_newone_describes [OF example_summary_facts(1) _ example_summary_facts(3), of example_hello_env 2000] n
    unfolding k by (auto simp: example_summary_facts)
qed

text \<open>The router 9 is the master of the router 3.\<close>
definition example_master :: world where
  "example_master = w_nbr_update 0 (\<lambda>on. on\<lparr>on_dbdesc_bits := 7, on_dbdesc_seqnum := 5\<rparr>) (example_link 3 OSPF6_NEIGHBOR_EXSTART)"

theorem dbdesc_negotiation_witness:
  "\<exists>pkt wm' ws' answer ws'' wm''.
     ospf6_dbdesc_send example_hello_env9 2000 0 example_master = Some (Some pkt, wm') \<and>
     ospf6_dbdesc_recv example_hello_env False pkt (example_link 9 OSPF6_NEIGHBOR_EXSTART) = Some ws' \<and>
     ospf6_dbdesc_send_newone example_hello_env 2000 0 ws' = Some (Some answer, ws'') \<and>
     ospf6_dbdesc_recv example_hello_env9 False answer wm' = Some wm'' \<and>
     on_state (w_nbr wm'' 0) = OSPF6_NEIGHBOR_EXCHANGE \<and> on_state (w_nbr ws'' 0) = OSPF6_NEIGHBOR_EXCHANGE \<and> on_dbdesc_seqnum (w_nbr wm'' 0) = 6"
proof -
  let ?f = "\<lambda>on :: ospf6_neighbor. on\<lparr>on_dbdesc_bits := 7, on_dbdesc_seqnum := 5\<rparr>"
  have "dd_step 0 (example_link 3 OSPF6_NEIGHBOR_EXSTART) example_master" unfolding example_master_def
    by (rule dd_step_light [OF _ example_link_inv]) (simp_all add: light_update_def ls_lists_def)
  then have m: "dd_inv example_master" by (simp add: dd_step_def)
  have n: "w_nbr example_master 0 = ?f (w_nbr (example_link 3 OSPF6_NEIGHBOR_EXSTART) 0)" "w_num example_master = 1" "oi_ifmtu (w_oi example_master) = 1500"
    "oi_type (w_oi example_master) \<noteq> OSPF6_IFTYPE_MDR" by (simp_all add: example_master_def)
  have i: "nbr_index 3 example_master = Some 0" "nbr_index 9 (example_link 9 OSPF6_NEIGHBOR_EXSTART) = Some 0"
    by (simp_all add: nbr_index_def n)
  show ?thesis
    using dbdesc_negotiation [of example_master example_hello_env 0 "example_link 9 OSPF6_NEIGHBOR_EXSTART" example_hello_env9 0 2000 False]
      m n i example_link_inv [of 9 OSPF6_NEIGHBOR_EXSTART] by (auto simp: example_env9_facts)
qed

end
