(* ===== verification/Spec2Isabelle.thy ===== *)
theory Spec2Isabelle
  imports Lsa Mdr_Result Mdr_Lsa Mdr_Ack Neighbor_Props Mdr_Hello_Props Interface Dbdesc_Props
begin

text \<open>
  Verification of the OSPFv3 daemon \<^verbatim>\<open>src/ospf6d\<close> with its extension by MANET designated routers (OSPF-MDR,
  RFC 5614): the decision which routers form the flooding backbone of a wireless network, the Hello messages that
  carry the two-hop topology this decision needs, the neighbor state machine that brings adjacencies up and down, and
  the link state advertisements (LSAs) and databases below them.

  \<^bold>\<open>The program.\<close> A router on an MDR interface receives Hellos (\<^verbatim>\<open>ospf6_mdr_message.c\<close>). A Hello carries lists of the
  sender's neighbors and, in a block of link-local signaling (\<^verbatim>\<open>ospf6_lls.c\<close>), a sequence number and the lengths of the lists. The
  receiver updates what it knows of the sender (\<^verbatim>\<open>ospf6_mdr_neighbor.c\<close>) and executes events of the neighbor state machine
  (\<^verbatim>\<open>ospf6_neighbor.c\<close>). Before a Hello is sent, the router computes its level (MDR, backup MDR or other), its parents and its
  dependent neighbors from these lists (\<^verbatim>\<open>ospf6_mdr.c\<close>), brings its adjacencies in line with them, and decides which neighbors its
  router-LSA lists. A neighbor that becomes adjacent gets the LSAs of the databases (\<^verbatim>\<open>ospf6_lsdb.c\<close>, \<^verbatim>\<open>ospf6_lsa.c\<close>); those
  that it has not acknowledged are on its retransmission list, and each LSA counts the lists that it is on.

  \<^bold>\<open>Conventions.\<close> Structures are records with the names of the source, prefixed by the structure (\<open>oi_\<close> interface, \<open>im_\<close> its MDR part, \<open>on_\<close>
  neighbor, \<open>nm_\<close> its MDR part, \<open>lsa_\<close>, \<open>h_\<close>); machine integers are words of their width. Protocol fields are kept by the
  number they denote, so that the conversions of byte order vanish except where code reads raw bytes (checksums, LLS
  blocks). \<open>None\<close> is an abort: a failed assertion or a dereferenced null pointer. What the code reads from outside (time, random
  numbers, the SPF tree, the results of registered functions, the byte order of the host) is an argument. Threads are timers in the state, and calls into
  parts that are not modelled are recorded in order in \<open>oi_effects\<close>. A \<open>world\<close> is an interface with the databases its neighbors share.

  \<^bold>\<open>Theories.\<close>
  \<^item> \<open>Prelude\<close>: machine types, time values, lemma collections, folds over index lists.
  \<^item> \<open>Lsa\<close> (\<^verbatim>\<open>ospf6_lsa.c\<close>): ages, comparison, copies, reference counts, checksum. \<open>Checksum\<close> (\<^verbatim>\<open>lib/checksum.c\<close>): the
    Internet checksum and the library's Fletcher checksum.
  \<^item> \<open>Lsdb\<close> (\<^verbatim>\<open>ospf6_lsdb.c\<close>): keys, insertion, removal, lookup, iteration. The trie is the sorted list of its entries. The interface
    \<open>lsa_store\<close> states what clients of a database rely on and is interpreted by the lists of a neighbor.
  \<^item> \<open>Ospf6_Types\<close>, \<open>Ospf6_Create\<close>: interface and neighbor, and their creation.
  \<^item> \<open>Mdr_Cost\<close>, \<open>Mdr_Tree\<close>, \<open>Mdr_Calc\<close>: the functions of \<open>ospf6_calculate_mdr\<close>. \<open>Mdr_Bfs\<close> has the theory of its breadth-first searches as
    the interface \<open>hop_graph\<close>, which \<open>Mdr_Search\<close> interprets for both searches; \<open>Mdr_Backup\<close> shows that the backup calculation
    returns; \<open>Mdr_Correct\<close> follows the phases, \<open>Mdr_Result\<close> has the results, and \<open>Mdr_Frame\<close> what the calculation leaves unchanged.
  \<^item> \<open>Mdr_Lsa\<close>: the advertised neighbors. \<open>Adjacency\<close>: which adjacencies are needed. \<open>Mdr_Ack\<close>: the cache of acknowledgments.
  \<^item> \<open>Neighbor\<close> (\<^verbatim>\<open>ospf6_neighbor.c\<close>): the handlers of the events and the change of state. \<open>Neighbor_Retrans\<close>,
    \<open>Neighbor_State\<close>, \<open>Neighbor_Exchange\<close>, \<open>Neighbor_Fsm\<close> and \<open>Neighbor_Reach\<close> show what they keep: the counts of the
    retransmission lists, the effect of a change of state (interface \<open>leaf_change\<close>), the beginning of the database exchange, the
    table of the state machine, and all worlds that a sequence of events reaches. The properties are in \<open>Neighbor_Props\<close>.
  \<^item> \<open>Lls\<close> (\<^verbatim>\<open>ospf6_lls.c\<close>), \<open>Mdr_Hello\<close> (\<^verbatim>\<open>ospf6_mdr_message.c\<close>), \<open>Mdr_Hello_Lists\<close> and \<open>Mdr_Hello_Props\<close>: the Hello messages of MDR interfaces.
  \<^item> \<open>Interface\<close> (\<^verbatim>\<open>ospf6_interface.c\<close>): the election of the designated router, the interface events, cost and MTU. The interface \<open>election\<close> has
    what the choice of the better candidate gives over a list of neighbors, and is interpreted for both roles.
  \<^item> \<open>Hello\<close> (\<^verbatim>\<open>ospf6_message.c\<close>): \<open>ospf6_hello_recv\<close> and \<open>ospf6_hello_send\<close>, which serve all types of interfaces.
  \<^item> \<open>Packet\<close> (\<^verbatim>\<open>ospf6_message.c\<close>): the examination of the bytes of a received packet (\<open>ospf6_rxpacket_examin\<close> and the functions below
    it), the walks of the five handlers over their packets, and the reading of a Hello.
  \<^item> \<open>Dbdesc\<close> (\<^verbatim>\<open>ospf6_message.c\<close>): the Database Descriptions, \<open>ospf6_dbdesc_recv\<close> with its two roles and \<open>ospf6_dbdesc_send\<close>, what their
    headers do and that no packet makes the handler abort. \<open>Dbdesc_Props\<close>: what is sent, and the negotiation of master and slave.

  \<^bold>\<open>What is shown.\<close> The MDR calculation always returns and decides the level by the path conditions of RFC 5614, over the lists that the
  neighbors report; dependents, parents and non-flooding MDRs are characterised; the router-LSA lists the neighbors it must. Every event handler
  moves a neighbor as the table of the state machine says, keeps the data well-formed, and no assertion fails along any sequence of creations,
  events and timeouts; an adjacency that the limit of forming adjacencies delays is started when another one is full. A differential Hello has the effect
  of a full one; the Hello TLV and the LLS block that are sent are the ones that are read; a Hello moves the state machine as its lists say.
  On the other links, a Hello that one router sends makes the receiver regard the link as bidirectional exactly if the sender has heard the receiver, the election
  of the designated router satisfies the rules of RFC 2328, and the state of an interface agrees with the elected routers along all events.
  The examination of a packet reads only received bytes, and what it accepts satisfies the assertions of the handlers, so that no received bytes make
  the handler of Hellos abort on such a link; the exception, packets that declare a length below that of their header, is a theorem too.
  Two routers in ExStart reach Exchange by the first Database Descriptions and agree on the master and the sequence number; a description has exactly the headers of the
  LSAs that leave the summary list, and its receiver requests exactly the LSAs it lacks or has an older instance of.
  The checksum that is written is the one that verifies, comparison of LSAs is a strict order on instances, and a database returns what was added.
  Some theorems state what the code does where it departs from its documentation or from RFC 5614: the wrap of the reference count and
  of the sequence number, the choice of the parent, the limit of forming adjacencies, and Hellos with two or with padded TLVs.

  \<^bold>\<open>Bounds and fuel.\<close> The searches of the MDR calculation end because every node that enters the queue has reduced the sum of all hop counts.
  The walks along the search tree have the number of tree nodes as fuel, which is proved to be enough. The recursion of a change of state through the
  neighbors waiting for an adjacency has fuel two, and a theorem shows that more fuel changes nothing. The loops over TLVs, prefixes and LSAs end because each step consumes a header;
  the walk over the LSAs of an update, which an LSA of size zero would keep forever, is a partial function that is shown to return on accepted packets. Interfaces have at most
  \<open>INFTY\<close> neighbors, the value the code uses for an infinite hop count.

  \<^bold>\<open>Not modelled.\<close> Flooding (\<^verbatim>\<open>ospf6_flood.c\<close> except the retransmission counts, \<^verbatim>\<open>ospf6_mdr_flood.c\<close>), the handlers of Link State Requests, Updates and Acknowledgments
  behind the examination of their packets (\<^verbatim>\<open>ospf6_message.c\<close>), areas, routes, SPF and the origination of LSAs, the event InterfaceDown (which
  takes each neighbor out of the list before it changes the neighbor's state), the scheduler of the
  library, printing and configuration commands, and the other daemons of the repository (\<^verbatim>\<open>bgpd\<close>, \<^verbatim>\<open>ripd\<close>, \<^verbatim>\<open>ripngd\<close>,
  \<^verbatim>\<open>ospfd\<close>, \<^verbatim>\<open>isisd\<close>, \<^verbatim>\<open>babeld\<close>, \<^verbatim>\<open>xpimd\<close>, \<^verbatim>\<open>zebra\<close>), which share no state with this one.
\<close>

end
